(* ===== verification/Wolf_Prelude.thy ===== *)
theory Wolf_Prelude
  imports Main "HOL-Library.Word"
begin

text \<open>
  The vocabulary that the component theories share.

  A Rust function that returns \<^verbatim>\<open>Result<T, E>\<close> has three outcomes: it returns a value,
  it returns an error, or it panics (a failed \<^verbatim>\<open>expect\<close>, \<^verbatim>\<open>assert!\<close>, \<^verbatim>\<open>unreachable!\<close>,
  an index out of range, a division by zero, an overflow of a big integer).  The type
  \<open>outcome\<close> keeps the three apart, so that ``this \<^verbatim>\<open>expect\<close> never fires'' is a theorem and not
  an assumption of the model.  \<open>qbind\<close> is the question-mark operator.

  Machine integers are \<open>int\<close> or \<open>nat\<close> with the range of the width written out where the source
  checks it (\<^verbatim>\<open>checked_add\<close>, \<^verbatim>\<open>try_from\<close>), and words where the source works on bits or wraps
  around.  Byte strings are lists of 8-bit words; \<open>le_bytes\<close> and \<open>le_val\<close> are
  \<^verbatim>\<open>to_le_bytes\<close> and \<^verbatim>\<open>from_le_bytes\<close> at any width.
\<close>

section \<open>Outcomes\<close>

datatype ('e, 'a) outcome = Ok 'a | Err 'e | Panic

fun qbind :: "('e, 'a) outcome \<Rightarrow> ('a \<Rightarrow> ('e, 'b) outcome) \<Rightarrow> ('e, 'b) outcome" where
  "qbind (Ok x) f = f x"
| "qbind (Err e) f = Err e"
| "qbind Panic f = Panic"

fun map_err :: "('e \<Rightarrow> 'f) \<Rightarrow> ('e, 'a) outcome \<Rightarrow> ('f, 'a) outcome" where
  "map_err h (Ok x) = Ok x"
| "map_err h (Err e) = Err (h e)"
| "map_err h Panic = Panic"

fun map_ok :: "('a \<Rightarrow> 'b) \<Rightarrow> ('e, 'a) outcome \<Rightarrow> ('e, 'b) outcome" where
  "map_ok h (Ok x) = Ok (h x)"
| "map_ok h (Err e) = Err e"
| "map_ok h Panic = Panic"

fun ok_or :: "'a option \<Rightarrow> 'e \<Rightarrow> ('e, 'a) outcome" where
  "ok_or (Some x) e = Ok x"
| "ok_or None e = Err e"

fun expect :: "'a option \<Rightarrow> ('e, 'a) outcome" where
  "expect (Some x) = Ok x"
| "expect None = Panic"

fun expect_ok :: "('f, 'a) outcome \<Rightarrow> ('e, 'a) outcome" where
  "expect_ok (Ok x) = Ok x"
| "expect_ok (Err e) = Panic"
| "expect_ok Panic = Panic"

fun is_ok :: "('e, 'a) outcome \<Rightarrow> bool" where
  "is_ok (Ok x) = True"
| "is_ok _ = False"

definition assert_that :: "bool \<Rightarrow> ('e, unit) outcome" where
  "assert_that b = (if b then Ok () else Panic)"

definition fail_if :: "bool \<Rightarrow> 'e \<Rightarrow> ('e, unit) outcome" where
  "fail_if b e = (if b then Err e else Ok ())"

section \<open>Integer ranges\<close>

type_synonym byte = "8 word"
type_synonym bytes = "byte list"

definition i64_min :: int where "i64_min = - (2 ^ 63)"
definition i64_max :: int where "i64_max = 2 ^ 63 - 1"
definition u32_max :: nat where "u32_max = 2 ^ 32 - 1"
definition u64_max :: nat where "u64_max = 2 ^ 64 - 1"

definition in_i64 :: "int \<Rightarrow> bool" where
  "in_i64 x \<longleftrightarrow> i64_min \<le> x \<and> x \<le> i64_max"

definition in_i128 :: "int \<Rightarrow> bool" where
  "in_i128 x \<longleftrightarrow> - (2 ^ 127) \<le> x \<and> x < 2 ^ 127"

definition checked_i64 :: "int \<Rightarrow> int option" where
  "checked_i64 x = (if in_i64 x then Some x else None)"

definition checked_i128 :: "int \<Rightarrow> int option" where
  "checked_i128 x = (if in_i128 x then Some x else None)"

definition checked_u32 :: "nat \<Rightarrow> nat option" where
  "checked_u32 n = (if n \<le> u32_max then Some n else None)"

definition checked_u64 :: "nat \<Rightarrow> nat option" where
  "checked_u64 n = (if n \<le> u64_max then Some n else None)"

definition u32_try_from :: "int \<Rightarrow> nat option" where
  "u32_try_from x = (if 0 \<le> x \<and> x \<le> int u32_max then Some (nat x) else None)"

text \<open>Rust's \<^verbatim>\<open>/\<close> and \<^verbatim>\<open>%\<close> on signed integers truncate towards zero.\<close>

definition trunc_div :: "int \<Rightarrow> int \<Rightarrow> int" where
  "trunc_div a b = sgn a * sgn b * (\<bar>a\<bar> div \<bar>b\<bar>)"

definition trunc_mod :: "int \<Rightarrow> int \<Rightarrow> int" where
  "trunc_mod a b = a - b * trunc_div a b"

section \<open>Little-endian bytes\<close>

fun le_bytes :: "nat \<Rightarrow> nat \<Rightarrow> bytes" where
  "le_bytes 0 n = []"
| "le_bytes (Suc k) n = word_of_nat (n mod 256) # le_bytes k (n div 256)"

fun le_val :: "bytes \<Rightarrow> nat" where
  "le_val [] = 0"
| "le_val (b # bs) = unat b + 256 * le_val bs"

definition be_bytes :: "nat \<Rightarrow> nat \<Rightarrow> bytes" where
  "be_bytes k n = rev (le_bytes k n)"

definition be_val :: "bytes \<Rightarrow> nat" where
  "be_val bs = le_val (rev bs)"

text \<open>Two's complement reading and writing of an \<^verbatim>\<open>i64\<close>.\<close>

definition i64_to_le :: "int \<Rightarrow> bytes" where
  "i64_to_le x = le_bytes 8 (nat (x mod 2 ^ 64))"

definition i64_from_le :: "bytes \<Rightarrow> int" where
  "i64_from_le bs =
     (let u = int (le_val bs) in if u < 2 ^ 63 then u else u - 2 ^ 64)"

text \<open>The slice \<^verbatim>\<open>bs[i..j]\<close> panics out of range.\<close>

definition slice_range :: "nat \<Rightarrow> nat \<Rightarrow> 'a list \<Rightarrow> ('e, 'a list) outcome" where
  "slice_range i j xs = (if i \<le> j \<and> j \<le> length xs then Ok (take (j - i) (drop i xs)) else Panic)"

section \<open>Lemma collections\<close>

named_theorems range_defs \<open>definitions of the integer ranges and of the checked conversions\<close>

declare i64_min_def [range_defs] i64_max_def [range_defs] u32_max_def [range_defs]
  u64_max_def [range_defs] in_i64_def [range_defs] in_i128_def [range_defs]
  checked_i64_def [range_defs] checked_i128_def [range_defs] checked_u32_def [range_defs]
  checked_u64_def [range_defs] u32_try_from_def [range_defs]

section \<open>Outcomes: inversion rules\<close>

lemma qbind_eq_Ok [simp]: "qbind m f = Ok y \<longleftrightarrow> (\<exists>x. m = Ok x \<and> f x = Ok y)"
  by (cases m) auto

lemma qbind_eq_Panic: "qbind m f = Panic \<longleftrightarrow> m = Panic \<or> (\<exists>x. m = Ok x \<and> f x = Panic)"
  by (cases m) auto

lemma qbind_eq_Err:
  "qbind m f = Err e \<longleftrightarrow> m = Err e \<or> (\<exists>x. m = Ok x \<and> f x = Err e)"
  by (cases m) auto

lemma map_err_eq_Ok [simp]: "map_err h m = Ok x \<longleftrightarrow> m = Ok x"
  by (cases m) auto

lemma map_err_eq_Panic [simp]: "map_err h m = Panic \<longleftrightarrow> m = Panic"
  by (cases m) auto

lemma map_err_eq_Err: "map_err h m = Err e \<longleftrightarrow> (\<exists>e'. m = Err e' \<and> e = h e')"
  by (cases m) auto

lemma map_ok_eq_Ok [simp]: "map_ok h m = Ok y \<longleftrightarrow> (\<exists>x. m = Ok x \<and> y = h x)"
  by (cases m) auto

lemma map_ok_eq_Panic [simp]: "map_ok h m = Panic \<longleftrightarrow> m = Panic"
  by (cases m) auto

lemma ok_or_eq_Ok [simp]: "ok_or m e = Ok x \<longleftrightarrow> m = Some x"
  by (cases m) auto

lemma ok_or_eq_Err: "ok_or m e = Err e' \<longleftrightarrow> m = None \<and> e' = e"
  by (cases m) auto

lemma ok_or_not_Panic [simp]: "ok_or m e \<noteq> Panic"
  by (cases m) auto

lemma expect_eq_Ok [simp]: "expect m = Ok x \<longleftrightarrow> m = Some x"
  by (cases m) auto

lemma expect_eq_Panic [simp]: "expect m = Panic \<longleftrightarrow> m = None"
  by (cases m) auto

lemma expect_not_Err [simp]: "expect m \<noteq> Err e"
  by (cases m) auto

lemma expect_ok_eq_Ok [simp]: "expect_ok m = Ok x \<longleftrightarrow> m = Ok x"
  by (cases m) auto

lemma expect_ok_not_Err [simp]: "expect_ok m \<noteq> Err e"
  by (cases m) auto

lemma expect_ok_eq_Panic: "expect_ok m = Panic \<longleftrightarrow> (\<forall>x. m \<noteq> Ok x)"
  by (cases m) auto

lemma slice_range_Ok [simp]:
  "slice_range i j xs = Ok ys \<longleftrightarrow> i \<le> j \<and> j \<le> length xs \<and> ys = take (j - i) (drop i xs)"
  by (auto simp: slice_range_def)

lemma slice_range_not_Err [simp]: "slice_range i j xs \<noteq> Err e"
  by (simp add: slice_range_def)

lemma slice_range_Panic: "slice_range i j xs = Panic \<longleftrightarrow> \<not> (i \<le> j \<and> j \<le> length xs)"
  by (simp add: slice_range_def)

lemma find_SomeD: "find P xs = Some x \<Longrightarrow> x \<in> set xs \<and> P x"
  by (induction xs) (auto split: if_splits)

lemma length_filter_imp: "(\<And>x. P x \<Longrightarrow> Q x) \<Longrightarrow> length (filter P xs) \<le> length (filter Q xs)"
  by (induction xs) (auto simp: le_Suc_eq)

lemma is_ok_iff: "is_ok m \<longleftrightarrow> (\<exists>x. m = Ok x)"
  by (cases m) auto

lemma assert_that_eq_Ok [simp]: "assert_that b = Ok u \<longleftrightarrow> b"
  by (simp add: assert_that_def)

lemma assert_that_eq_Panic [simp]: "assert_that b = Panic \<longleftrightarrow> \<not> b"
  by (simp add: assert_that_def)

lemma assert_that_not_Err [simp]: "assert_that b \<noteq> Err e"
  by (simp add: assert_that_def)

lemma fail_if_eq_Ok [simp]: "fail_if b e = Ok u \<longleftrightarrow> \<not> b"
  by (simp add: fail_if_def)

lemma fail_if_eq_Err [simp]: "fail_if b e = Err e' \<longleftrightarrow> b \<and> e' = e"
  by (auto simp: fail_if_def)

lemma fail_if_not_Panic [simp]: "fail_if b e \<noteq> Panic"
  by (simp add: fail_if_def)

section \<open>Little-endian bytes: lengths and round trips\<close>

lemma length_le_bytes [simp]: "length (le_bytes k n) = k"
  by (induction k arbitrary: n) auto

lemma le_val_le_bytes: "le_val (le_bytes k n) = n mod 256 ^ k"
proof (induction k arbitrary: n)
  case (Suc k)
  have "unat (word_of_nat (n mod 256) :: byte) = n mod 256"
    by (simp add: unat_of_nat)
  with Suc show ?case
    by (simp add: mod_mult2_eq)
qed simp

lemma le_val_less: "le_val bs < 256 ^ length bs"
proof (induction bs)
  case (Cons b bs)
  have "unat b < 256"
    using unsigned_less [of b] by simp
  with Cons show ?case
    by simp
qed simp

lemma le_bytes_le_val [simp]: "le_bytes (length bs) (le_val bs) = bs"
proof (induction bs)
  case (Cons b bs)
  have b: "unat b < 256"
    using unsigned_less [of b] by simp
  then have "(unat b + 256 * le_val bs) div 256 = le_val bs"
    and "(unat b + 256 * le_val bs) mod 256 = unat b"
    by simp_all
  with Cons show ?case
    by simp
qed simp

lemma le_bytes_le_val': "length bs = k \<Longrightarrow> le_bytes k (le_val bs) = bs"
  by auto

lemma le_val_inj: "length xs = length ys \<Longrightarrow> le_val xs = le_val ys \<Longrightarrow> xs = ys"
  by (metis le_bytes_le_val)

lemma le_val_append: "le_val (xs @ ys) = le_val xs + 256 ^ length xs * le_val ys"
  by (induction xs) (auto simp: algebra_simps)

lemma le_val_replicate_0 [simp]: "le_val (replicate n 0) = 0"
  by (induction n) auto

lemma le_val_eq_0_iff: "le_val bs = 0 \<longleftrightarrow> bs = replicate (length bs) 0"
  by (induction bs) (auto simp: unat_eq_0)

lemma length_be_bytes [simp]: "length (be_bytes k n) = k"
  by (simp add: be_bytes_def)

lemma be_val_be_bytes: "be_val (be_bytes k n) = n mod 256 ^ k"
  by (simp add: be_val_def be_bytes_def le_val_le_bytes)

lemma be_bytes_be_val: "length bs = k \<Longrightarrow> be_bytes k (be_val bs) = bs"
  by (simp add: be_val_def be_bytes_def le_bytes_le_val')

lemma length_i64_to_le [simp]: "length (i64_to_le x) = 8"
  by (simp add: i64_to_le_def)

lemma i64_from_le_to_le: "in_i64 x \<Longrightarrow> i64_from_le (i64_to_le x) = x"
proof -
  assume x: "in_i64 x"
  have v: "int (le_val (i64_to_le x)) = x mod 2 ^ 64"
    by (simp add: i64_to_le_def le_val_le_bytes nat_mod_distrib zmod_int)
  show ?thesis
  proof (cases "0 \<le> x")
    case True
    with x have "x mod 2 ^ 64 = x"
      by (intro mod_pos_pos_trivial) (auto simp: range_defs)
    with True x v show ?thesis
      by (auto simp: i64_from_le_def range_defs)
  next
    case False
    have "x mod 2 ^ 64 = (x + 2 ^ 64) mod 2 ^ 64"
      by simp
    also have "\<dots> = x + 2 ^ 64"
      using x False by (intro mod_pos_pos_trivial) (auto simp: range_defs)
    finally show ?thesis
      using False x v by (auto simp: i64_from_le_def range_defs)
  qed
qed

lemma in_i64_from_le: "length bs = 8 \<Longrightarrow> in_i64 (i64_from_le bs)"
  using le_val_less [of bs] by (auto simp: i64_from_le_def range_defs Let_def)

lemma i64_to_le_from_le:
  assumes "length bs = 8"
  shows "i64_to_le (i64_from_le bs) = bs"
proof -
  have b: "le_val bs < 2 ^ 64"
    using le_val_less [of bs] assms by simp
  have "i64_from_le bs mod 2 ^ 64 = int (le_val bs)"
    using b by (auto simp: i64_from_le_def Let_def)
  then show ?thesis
    using assms by (simp add: i64_to_le_def le_bytes_le_val')
qed

section \<open>Truncated division\<close>

lemma trunc_div_nonneg: "0 \<le> a \<Longrightarrow> 0 < b \<Longrightarrow> trunc_div a b = a div b"
  by (cases "a = 0") (auto simp: trunc_div_def)

lemma trunc_div_neg: "a \<le> 0 \<Longrightarrow> 0 < b \<Longrightarrow> trunc_div a b = - ((- a) div b)"
  by (cases "a = 0") (auto simp: trunc_div_def)

lemma abs_trunc_div_le:
  assumes "0 < b"
  shows "\<bar>trunc_div a b\<bar> \<le> \<bar>a\<bar>"
proof -
  have "\<bar>a\<bar> div b \<le> \<bar>a\<bar>"
    using assms zdiv_mono2 [of "\<bar>a\<bar>" 1 b] by simp
  moreover have "0 \<le> \<bar>a\<bar> div b"
    using assms by (simp add: pos_imp_zdiv_nonneg_iff)
  ultimately show ?thesis
    using assms by (auto simp: trunc_div_def abs_mult sgn_if)
qed

end
