(* ===== verification/Checked_Sum.thy ===== *)
theory Checked_Sum
  imports Wolf_Prelude
begin

text \<open>
  The interface of checked addition.  Several types of the program (amounts, value balances,
  cumulative work) add values with a range check and are summed with \<^verbatim>\<open>Iterator::try_fold\<close>.
  The locale \<open>checked_sum\<close> states what such an addition promises to the code that folds it:
  it never panics on valid operands, a result it returns is valid and has the sum as its value,
  and it fails only when no valid result exists.  The facts about folds are proved once here.
\<close>

text \<open>\<^verbatim>\<open>Iterator::try_fold\<close>: stop at the first error or panic.\<close>

fun try_fold :: "('b \<Rightarrow> 'a \<Rightarrow> ('e, 'b) outcome) \<Rightarrow> 'b \<Rightarrow> 'a list \<Rightarrow> ('e, 'b) outcome" where
  "try_fold f acc [] = Ok acc"
| "try_fold f acc (x # xs) = qbind (f acc x) (\<lambda>acc'. try_fold f acc' xs)"

text \<open>
  \<open>try_fold_rest\<close> also returns the items that the iterator has not produced yet when the fold
  stops; \<^verbatim>\<open>Sum\<close> counts them in its error.
\<close>

fun try_fold_rest ::
  "('b \<Rightarrow> 'a \<Rightarrow> ('e, 'b) outcome) \<Rightarrow> 'b \<Rightarrow> 'a list \<Rightarrow> ('e, 'b) outcome \<times> 'a list" where
  "try_fold_rest f acc [] = (Ok acc, [])"
| "try_fold_rest f acc (x # xs) =
     (case f acc x of
        Ok acc' \<Rightarrow> try_fold_rest f acc' xs
      | Err e \<Rightarrow> (Err e, xs)
      | Panic \<Rightarrow> (Panic, xs))"

locale checked_sum = comm_monoid plus zero
  for plus :: "'v \<Rightarrow> 'v \<Rightarrow> 'v" and zero :: 'v +
  fixes valid :: "'a \<Rightarrow> bool"
    and val :: "'a \<Rightarrow> 'v"
    and add :: "'a \<Rightarrow> 'a \<Rightarrow> ('e, 'a) outcome"
  assumes add_no_panic: "valid a \<Longrightarrow> valid b \<Longrightarrow> add a b \<noteq> Panic"
    and add_sound: "valid a \<Longrightarrow> valid b \<Longrightarrow> add a b = Ok c \<Longrightarrow> valid c \<and> val c = plus (val a) (val b)"
    and add_complete:
      "valid a \<Longrightarrow> valid b \<Longrightarrow> valid c \<Longrightarrow> val c = plus (val a) (val b) \<Longrightarrow> add a b = Ok c"
begin

definition total :: "'a list \<Rightarrow> 'v" where
  "total xs = foldr (\<lambda>x. plus (val x)) xs zero"

lemma total_Nil [simp]: "total [] = zero"
  by (simp add: total_def)

lemma total_Cons [simp]: "total (x # xs) = plus (val x) (total xs)"
  by (simp add: total_def)

lemma total_append: "total (xs @ ys) = plus (total xs) (total ys)"
  by (induction xs) (simp_all add: assoc left_neutral)

lemma fold_no_panic: "valid a \<Longrightarrow> list_all valid xs \<Longrightarrow> try_fold add a xs \<noteq> Panic"
  by (induction xs arbitrary: a) (auto simp: qbind_eq_Panic dest: add_no_panic add_sound)

lemma fold_sound:
  "valid a \<Longrightarrow> list_all valid xs \<Longrightarrow> try_fold add a xs = Ok b \<Longrightarrow>
    valid b \<and> val b = plus (val a) (total xs)"
proof (induction xs arbitrary: a)
  case (Cons x xs)
  from Cons.prems obtain c where c: "add a x = Ok c" and r: "try_fold add c xs = Ok b"
    by auto
  from c Cons.prems have "valid c" "val c = plus (val a) (val x)"
    by (auto dest: add_sound)
  moreover from this r Cons have "valid b \<and> val b = plus (val c) (total xs)"
    by simp
  ultimately show ?case
    by (simp add: assoc)
qed simp

lemma fold_rest_fst: "fst (try_fold_rest add a xs) = try_fold add a xs"
  by (induction xs arbitrary: a) (auto split: outcome.splits)

lemma fold_rest_suffix: "\<exists>ys. xs = ys @ snd (try_fold_rest add a xs)"
proof (induction xs arbitrary: a)
  case (Cons x xs)
  show ?case
  proof (cases "add a x")
    case (Ok c)
    obtain ys where "xs = ys @ snd (try_fold_rest add c xs)"
      using Cons by blast
    with Ok have "x # xs = (x # ys) @ snd (try_fold_rest add a (x # xs))"
      by simp
    then show ?thesis by blast
  qed (auto intro: exI [of _ "[x]"])
qed simp

text \<open>A fold succeeds exactly when every prefix of it has a valid sum.\<close>

lemma fold_Ok_prefix:
  "valid a \<Longrightarrow> list_all valid (xs @ ys) \<Longrightarrow> try_fold add a (xs @ ys) = Ok b \<Longrightarrow>
    \<exists>c. valid c \<and> val c = plus (val a) (total xs)"
proof -
  assume a: "valid a" and v: "list_all valid (xs @ ys)" and f: "try_fold add a (xs @ ys) = Ok b"
  have "try_fold add a (xs @ ys) = qbind (try_fold add a xs) (\<lambda>c. try_fold add c ys)" for a
  proof (induction xs arbitrary: a)
    case (Cons x xs)
    then show ?case by (cases "add a x") simp_all
  qed simp
  with f obtain c where "try_fold add a xs = Ok c"
    by auto
  with a v show ?thesis
    using fold_sound [of a xs c] by auto
qed

lemma fold_complete:
  assumes ex: "\<And>ys zs. xs = ys @ zs \<Longrightarrow> \<exists>c. valid c \<and> val c = plus (val a) (total ys)"
    and a: "valid a" and v: "list_all valid xs"
  shows "\<exists>b. try_fold add a xs = Ok b"
  using assms
proof (induction xs arbitrary: a)
  case (Cons x xs)
  have "\<exists>c. valid c \<and> val c = plus (val a) (total [x])"
    by (rule Cons.prems(1) [of "[x]" xs]) simp
  then obtain c where c: "valid c" "val c = plus (val a) (val x)"
    by (auto simp: right_neutral)
  with Cons.prems have ax: "add a x = Ok c"
    by (simp add: add_complete)
  have "\<exists>b. try_fold add c xs = Ok b"
  proof (rule Cons.IH)
    fix ys zs
    assume "xs = ys @ zs"
    then have "\<exists>d. valid d \<and> val d = plus (val a) (total (x # ys))"
      using Cons.prems(1) [of "x # ys" zs] by simp
    then show "\<exists>d. valid d \<and> val d = plus (val c) (total ys)"
      using c by (simp add: assoc)
  qed (use c Cons.prems in auto)
  with ax show ?case by simp
qed simp

end

end
