(* ===== verification/Amounts.thy ===== *)
theory Amounts
  imports Checked_Sum
begin

text \<open>
  Amounts of atomic units, from \<^verbatim>\<open>zebra-chain/src/amount.rs\<close>.

  \<^verbatim>\<open>Amount<C>\<close> is an \<^verbatim>\<open>i64\<close> with a range given by the marker type \<open>C\<close>.  The marker is the
  argument \<open>constraint_kind\<close> of every operation that the source makes generic in \<open>C\<close>, and
  \<^verbatim>\<open>MAX_MONEY\<close> depends on the Cargo feature \<^verbatim>\<open>wcash-consensus\<close>, the argument \<open>profile\<close>.
  \<open>amount_ok\<close> is the type invariant; the interpretation of \<open>checked_sum\<close> states what addition
  promises to the folds over amounts.
\<close>

section \<open>Profiles, constraints, errors\<close>

datatype profile = Zcash_profile | Wcash_profile

definition COIN :: int where
  "COIN = 100000000"

definition MAX_MONEY :: "profile \<Rightarrow> int" where
  "MAX_MONEY p = (case p of Zcash_profile \<Rightarrow> 21000000 * COIN | Wcash_profile \<Rightarrow> i64_max div 2)"

definition MAX_SINGLE_TRANSACTION_VALUE :: int where
  "MAX_SINGLE_TRANSACTION_VALUE = 21000000 * COIN"

definition MAX_WCASH_COINBASE_VALUE :: int where
  "MAX_WCASH_COINBASE_VALUE = MAX_SINGLE_TRANSACTION_VALUE"

datatype constraint_kind = NegativeAllowed | NonNegative | NegativeOrZero

fun valid_range :: "profile \<Rightarrow> constraint_kind \<Rightarrow> int \<times> int" where
  "valid_range p NegativeAllowed = (- MAX_MONEY p, MAX_MONEY p)"
| "valid_range p NonNegative = (0, MAX_MONEY p)"
| "valid_range p NegativeOrZero = (- MAX_MONEY p, 0)"

datatype amount_error =
    Constraint int "int \<times> int"
  | Convert int
  | MultiplicationOverflow int nat int
  | DivideByZero int
  | SumOverflow int nat

fun invalid_value :: "amount_error \<Rightarrow> int" where
  "invalid_value (Constraint v r) = v"
| "invalid_value (Convert v) = v"
| "invalid_value (MultiplicationOverflow a m v) = v"
| "invalid_value (DivideByZero a) = a"
| "invalid_value (SumOverflow s n) = s"

definition validate :: "profile \<Rightarrow> constraint_kind \<Rightarrow> int \<Rightarrow> (amount_error, int) outcome" where
  "validate p C v =
     (let (lo, hi) = valid_range p C
      in if \<not> (lo \<le> v \<and> v \<le> hi) then Err (Constraint v (lo, hi)) else Ok v)"

section \<open>Amounts and their conversions\<close>

datatype amount = Amount (zatoshis: int)

text \<open>The type invariant of \<^verbatim>\<open>Amount<C>\<close>.\<close>

definition amount_ok :: "profile \<Rightarrow> constraint_kind \<Rightarrow> amount \<Rightarrow> bool" where
  "amount_ok p C a \<longleftrightarrow> fst (valid_range p C) \<le> zatoshis a \<and> zatoshis a \<le> snd (valid_range p C)"

definition amount_try_from_i64 ::
  "profile \<Rightarrow> constraint_kind \<Rightarrow> int \<Rightarrow> (amount_error, amount) outcome" where
  "amount_try_from_i64 p C v = map_ok Amount (validate p C v)"

definition amount_try_from_i32 ::
  "profile \<Rightarrow> constraint_kind \<Rightarrow> int \<Rightarrow> (amount_error, amount) outcome" where
  "amount_try_from_i32 p C v = map_ok Amount (validate p C v)"

definition amount_try_from_u64 ::
  "profile \<Rightarrow> constraint_kind \<Rightarrow> nat \<Rightarrow> (amount_error, amount) outcome" where
  "amount_try_from_u64 p C n =
     qbind (ok_or (checked_i64 (int n)) (Convert (int n)))
       (\<lambda>v. map_ok Amount (validate p C v))"

definition amount_try_from_i128 ::
  "profile \<Rightarrow> constraint_kind \<Rightarrow> int \<Rightarrow> (amount_error, amount) outcome" where
  "amount_try_from_i128 p C x =
     qbind (ok_or (checked_i64 x) (Convert x)) (\<lambda>v. map_ok Amount (validate p C v))"

definition u64_from_amount :: "amount \<Rightarrow> ('e, nat) outcome" where
  "u64_from_amount a = expect (if 0 \<le> zatoshis a then Some (nat (zatoshis a)) else None)"

definition constrain :: "profile \<Rightarrow> constraint_kind \<Rightarrow> amount \<Rightarrow> (amount_error, amount) outcome" where
  "constrain p C2 a = amount_try_from_i64 p C2 (zatoshis a)"

definition amount_zero :: "profile \<Rightarrow> constraint_kind \<Rightarrow> ('e, amount) outcome" where
  "amount_zero p C = expect_ok (amount_try_from_i32 p C 0)"

definition is_zero :: "amount \<Rightarrow> bool" where
  "is_zero a \<longleftrightarrow> zatoshis a = 0"

definition amount_new :: "profile \<Rightarrow> int \<Rightarrow> ('e, amount) outcome" where
  "amount_new p z =
     qbind (assert_that (z \<le> MAX_MONEY p \<and> 0 \<le> z)) (\<lambda>_. Ok (Amount z))"

definition new_from_zec :: "profile \<Rightarrow> int \<Rightarrow> ('e, amount) outcome" where
  "new_from_zec p v = qbind (expect (checked_i64 (v * COIN))) (amount_new p)"

definition div_exact :: "amount \<Rightarrow> int \<Rightarrow> ('e, amount) outcome" where
  "div_exact a r =
     qbind (expect (if r = 0 then None else checked_i64 (trunc_div (zatoshis a) r)))
       (\<lambda>q. if trunc_mod (zatoshis a) r \<noteq> 0 then Panic else Ok (Amount q))"

section \<open>Arithmetic\<close>

definition amount_add ::
  "profile \<Rightarrow> constraint_kind \<Rightarrow> amount \<Rightarrow> amount \<Rightarrow> (amount_error, amount) outcome" where
  "amount_add p C a b =
     qbind (expect (checked_i64 (zatoshis a + zatoshis b))) (amount_try_from_i64 p C)"

definition amount_sub ::
  "profile \<Rightarrow> constraint_kind \<Rightarrow> amount \<Rightarrow> amount \<Rightarrow> (amount_error, amount) outcome" where
  "amount_sub p C a b =
     qbind (expect (checked_i64 (zatoshis a - zatoshis b))) (amount_try_from_i64 p C)"

text \<open>The operator instances on \<^verbatim>\<open>Result<Amount<C>>\<close> propagate an earlier error.\<close>

definition amount_result_add ::
  "profile \<Rightarrow> constraint_kind \<Rightarrow> (amount_error, amount) outcome \<Rightarrow> amount
    \<Rightarrow> (amount_error, amount) outcome" where
  "amount_result_add p C r b = qbind r (\<lambda>a. amount_add p C a b)"

definition amount_add_result ::
  "profile \<Rightarrow> constraint_kind \<Rightarrow> amount \<Rightarrow> (amount_error, amount) outcome
    \<Rightarrow> (amount_error, amount) outcome" where
  "amount_add_result p C a r = qbind r (\<lambda>b. amount_add p C a b)"

definition amount_add_assign ::
  "profile \<Rightarrow> constraint_kind \<Rightarrow> (amount_error, amount) outcome \<Rightarrow> amount
    \<Rightarrow> (amount_error, amount) outcome" where
  "amount_add_assign p C self b = (case self of Ok a \<Rightarrow> amount_add p C a b | _ \<Rightarrow> self)"

definition amount_result_sub ::
  "profile \<Rightarrow> constraint_kind \<Rightarrow> (amount_error, amount) outcome \<Rightarrow> amount
    \<Rightarrow> (amount_error, amount) outcome" where
  "amount_result_sub p C r b = qbind r (\<lambda>a. amount_sub p C a b)"

definition amount_sub_result ::
  "profile \<Rightarrow> constraint_kind \<Rightarrow> amount \<Rightarrow> (amount_error, amount) outcome
    \<Rightarrow> (amount_error, amount) outcome" where
  "amount_sub_result p C a r = qbind r (\<lambda>b. amount_sub p C a b)"

definition amount_sub_assign ::
  "profile \<Rightarrow> constraint_kind \<Rightarrow> (amount_error, amount) outcome \<Rightarrow> amount
    \<Rightarrow> (amount_error, amount) outcome" where
  "amount_sub_assign p C self b = (case self of Ok a \<Rightarrow> amount_sub p C a b | _ \<Rightarrow> self)"

definition amount_checked_sub :: "profile \<Rightarrow> amount \<Rightarrow> amount \<Rightarrow> amount option" where
  "amount_checked_sub p a b =
     Option.bind (checked_i64 (zatoshis a - zatoshis b))
       (\<lambda>v. case amount_try_from_i64 p NegativeAllowed v of Ok c \<Rightarrow> Some c | _ \<Rightarrow> None)"

definition amount_neg :: "profile \<Rightarrow> amount \<Rightarrow> ('e, amount) outcome" where
  "amount_neg p a =
     qbind (expect (checked_i64 (- zatoshis a)))
       (\<lambda>v. expect_ok (amount_try_from_i64 p NegativeAllowed v))"

definition amount_mul ::
  "profile \<Rightarrow> constraint_kind \<Rightarrow> amount \<Rightarrow> nat \<Rightarrow> (amount_error, amount) outcome" where
  "amount_mul p C a n =
     qbind (expect (checked_i128 (zatoshis a * int n)))
       (\<lambda>v. map_err (\<lambda>_. MultiplicationOverflow (zatoshis a) n v) (amount_try_from_i128 p C v))"

definition amount_div ::
  "profile \<Rightarrow> constraint_kind \<Rightarrow> amount \<Rightarrow> nat \<Rightarrow> (amount_error, amount) outcome" where
  "amount_div p C a n =
     qbind (ok_or (if n = 0 then None else Some (trunc_div (zatoshis a) (int n)))
              (DivideByZero (zatoshis a)))
       (\<lambda>q. expect_ok (amount_try_from_i128 p C q))"

definition amount_sum ::
  "profile \<Rightarrow> constraint_kind \<Rightarrow> amount list \<Rightarrow> (amount_error, amount) outcome" where
  "amount_sum p C xs =
     qbind (amount_zero p C)
       (\<lambda>z. case try_fold_rest (amount_add p C) z xs of
              (Ok s, _) \<Rightarrow> Ok s
            | (Err (Constraint v _), rest) \<Rightarrow> Err (SumOverflow v (length rest))
            | _ \<Rightarrow> Panic)"

section \<open>Bytes\<close>

definition amount_to_bytes :: "amount \<Rightarrow> bytes" where
  "amount_to_bytes a = i64_to_le (zatoshis a)"

definition amount_from_bytes ::
  "profile \<Rightarrow> constraint_kind \<Rightarrow> bytes \<Rightarrow> (amount_error, amount) outcome" where
  "amount_from_bytes p C bs = amount_try_from_i64 p C (i64_from_le bs)"

text \<open>
  \<^verbatim>\<open>ZcashSerialize\<close> and \<^verbatim>\<open>ZcashDeserialize\<close>.  A reader is the list of the bytes left;
  \<open>None\<close> in the error stands for the reader's end-of-input error.
\<close>

definition amount_serialize :: "constraint_kind \<Rightarrow> amount \<Rightarrow> ('e, bytes) outcome" where
  "amount_serialize C a =
     (if C = NegativeAllowed then Ok (i64_to_le (zatoshis a))
      else map_ok (le_bytes 8) (u64_from_amount a))"

definition amount_deserialize ::
  "profile \<Rightarrow> constraint_kind \<Rightarrow> bytes \<Rightarrow> (amount_error option, amount \<times> bytes) outcome" where
  "amount_deserialize p C bs =
     (if length bs < 8 then Err None
      else map_ok (\<lambda>a. (a, drop 8 bs))
        (map_err Some
          (if C = NegativeAllowed then amount_try_from_i64 p C (i64_from_le (take 8 bs))
           else amount_try_from_u64 p C (le_val (take 8 bs)))))"

text \<open>\<^verbatim>\<open>DeferredPoolBalanceChange\<close>.\<close>

datatype deferred_change = DeferredPoolBalanceChange (deferred_value: amount)

definition deferred_zero :: "profile \<Rightarrow> ('e, deferred_change) outcome" where
  "deferred_zero p = map_ok DeferredPoolBalanceChange (amount_zero p NegativeAllowed)"

section \<open>Order\<close>

instantiation amount :: linorder
begin

definition less_eq_amount :: "amount \<Rightarrow> amount \<Rightarrow> bool" where
  "less_eq_amount a b \<longleftrightarrow> zatoshis a \<le> zatoshis b"

definition less_amount :: "amount \<Rightarrow> amount \<Rightarrow> bool" where
  "less_amount a b \<longleftrightarrow> zatoshis a < zatoshis b"

instance
  by standard (auto simp: less_eq_amount_def less_amount_def intro: amount.expand)

end

section \<open>The type invariant and the conversions\<close>

lemmas money_defs = MAX_MONEY_def COIN_def i64_max_def

lemma MAX_MONEY_pos: "0 < MAX_MONEY p"
  by (cases p) (simp_all add: money_defs)

lemma MAX_MONEY_double: "2 * MAX_MONEY p \<le> i64_max"
  by (cases p) (simp_all add: money_defs)

lemma valid_range_bounds:
  "- MAX_MONEY p \<le> fst (valid_range p C) \<and> snd (valid_range p C) \<le> MAX_MONEY p
    \<and> fst (valid_range p C) \<le> 0 \<and> 0 \<le> snd (valid_range p C)"
  using MAX_MONEY_pos [of p] by (cases C) auto

lemma amount_ok_simps [simp]:
  "amount_ok p NonNegative a \<longleftrightarrow> 0 \<le> zatoshis a \<and> zatoshis a \<le> MAX_MONEY p"
  "amount_ok p NegativeAllowed a \<longleftrightarrow> - MAX_MONEY p \<le> zatoshis a \<and> zatoshis a \<le> MAX_MONEY p"
  "amount_ok p NegativeOrZero a \<longleftrightarrow> - MAX_MONEY p \<le> zatoshis a \<and> zatoshis a \<le> 0"
  by (auto simp: amount_ok_def)

lemma amount_ok_abs: "amount_ok p C a \<Longrightarrow> \<bar>zatoshis a\<bar> \<le> MAX_MONEY p"
  using valid_range_bounds [of p C] by (auto simp: amount_ok_def)

lemma validate_eq: "validate p C v =
    (if amount_ok p C (Amount v) then Ok v else Err (Constraint v (valid_range p C)))"
  by (cases "valid_range p C") (simp add: validate_def amount_ok_def)

lemma try_from_i64_eq: "amount_try_from_i64 p C v =
    (if amount_ok p C (Amount v) then Ok (Amount v) else Err (Constraint v (valid_range p C)))"
  by (simp add: amount_try_from_i64_def validate_eq)

lemma try_from_i32_eq: "amount_try_from_i32 p C v = amount_try_from_i64 p C v"
  by (simp add: amount_try_from_i32_def amount_try_from_i64_def)

lemma in_i64_if_abs: "\<bar>v\<bar> \<le> 2 * MAX_MONEY p \<Longrightarrow> in_i64 v"
  using MAX_MONEY_double [of p] by (auto simp: in_i64_def i64_min_def i64_max_def)

lemma in_i64_if_ok: "amount_ok p C a \<Longrightarrow> in_i64 (zatoshis a)"
  using amount_ok_abs [of p C a] MAX_MONEY_pos [of p] by (intro in_i64_if_abs [of _ p]) auto

lemma try_from_i128_eq: "amount_try_from_i128 p C x =
    (if amount_ok p C (Amount x) then Ok (Amount x)
     else if in_i64 x then Err (Constraint x (valid_range p C)) else Err (Convert x))"
  using in_i64_if_ok [of p C "Amount x"]
  by (auto simp: amount_try_from_i128_def checked_i64_def validate_eq)

lemma try_from_u64_eq: "amount_try_from_u64 p C n = amount_try_from_i128 p C (int n)"
  by (simp add: amount_try_from_u64_def amount_try_from_i128_def)

lemma amount_zero_eq [simp]: "amount_zero p C = Ok (Amount 0)"
  using valid_range_bounds [of p C]
  by (simp add: amount_zero_def try_from_i32_eq try_from_i64_eq amount_ok_def)

lemma amount_ok_zero [simp]: "amount_ok p C (Amount 0)"
  using valid_range_bounds [of p C] by (simp add: amount_ok_def)

lemma constrain_eq: "constrain p C a =
    (if amount_ok p C a then Ok a else Err (Constraint (zatoshis a) (valid_range p C)))"
  by (simp add: constrain_def try_from_i64_eq)

lemma constrain_Ok [simp]: "constrain p C a = Ok b \<longleftrightarrow> amount_ok p C a \<and> b = a"
  by (auto simp: constrain_eq)

lemma constrain_not_Panic [simp]: "constrain p C a \<noteq> Panic"
  by (simp add: constrain_eq)

lemma deferred_zero_eq [simp]: "deferred_zero p = Ok (DeferredPoolBalanceChange (Amount 0))"
  by (simp add: deferred_zero_def)

section \<open>Addition, subtraction, negation\<close>

lemma amount_add_eq:
  assumes "amount_ok p C a" "amount_ok p C b"
  shows "amount_add p C a b = amount_try_from_i64 p C (zatoshis a + zatoshis b)"
proof -
  have "in_i64 (zatoshis a + zatoshis b)"
    using amount_ok_abs [OF assms(1)] amount_ok_abs [OF assms(2)] by (intro in_i64_if_abs [of _ p]) auto
  then show ?thesis
    by (simp add: amount_add_def checked_i64_def)
qed

lemma amount_sub_eq:
  assumes "amount_ok p C a" "amount_ok p C b"
  shows "amount_sub p C a b = amount_try_from_i64 p C (zatoshis a - zatoshis b)"
proof -
  have "in_i64 (zatoshis a - zatoshis b)"
    using amount_ok_abs [OF assms(1)] amount_ok_abs [OF assms(2)] by (intro in_i64_if_abs [of _ p]) auto
  then show ?thesis
    by (simp add: amount_sub_def checked_i64_def)
qed

lemma amount_neg_eq:
  assumes "amount_ok p C a"
  shows "amount_neg p a = Ok (Amount (- zatoshis a))"
proof -
  have "in_i64 (- zatoshis a)" "amount_ok p NegativeAllowed (Amount (- zatoshis a))"
    using amount_ok_abs [OF assms] MAX_MONEY_pos [of p] by (auto intro: in_i64_if_abs [of _ p])
  then show ?thesis
    by (simp add: amount_neg_def checked_i64_def try_from_i64_eq)
qed

text \<open>Addition keeps the contract of \<open>checked_sum\<close> under every constraint.\<close>

interpretation amounts: checked_sum "(+) :: int \<Rightarrow> int \<Rightarrow> int" 0 "amount_ok p C" zatoshis
    "amount_add p C" for p C
proof unfold_locales
  fix a b c
  assume ok: "amount_ok p C a" "amount_ok p C b"
  then show "amount_add p C a b \<noteq> Panic"
    by (simp add: amount_add_eq try_from_i64_eq)
  from ok show "amount_add p C a b = Ok c \<Longrightarrow>
      amount_ok p C c \<and> zatoshis c = zatoshis a + zatoshis b"
    by (auto simp: amount_add_eq try_from_i64_eq split: if_splits)
  assume c: "amount_ok p C c" and "zatoshis c = zatoshis a + zatoshis b"
  then have "Amount (zatoshis a + zatoshis b) = c"
    by (metis amount.collapse)
  with ok c show "amount_add p C a b = Ok c"
    by (simp add: amount_add_eq try_from_i64_eq)
qed

lemma total_amounts: "amounts.total xs = sum_list (map zatoshis xs)"
  by (induction xs) auto

section \<open>Sums\<close>

lemma amount_add_Err:
  "amount_ok p C a \<Longrightarrow> amount_ok p C b \<Longrightarrow> amount_add p C a b = Err e \<Longrightarrow>
    e = Constraint (zatoshis a + zatoshis b) (valid_range p C)
    \<and> \<not> amount_ok p C (Amount (zatoshis a + zatoshis b))"
  by (auto simp: amount_add_eq try_from_i64_eq split: if_splits)

lemma fold_rest_Err:
  "amount_ok p C a \<Longrightarrow> list_all (amount_ok p C) xs \<Longrightarrow>
    try_fold_rest (amount_add p C) a xs = (Err e, rest) \<Longrightarrow>
    \<exists>ys y. xs = ys @ y # rest
      \<and> e = Constraint (zatoshis a + sum_list (map zatoshis (ys @ [y]))) (valid_range p C)
      \<and> amount_ok p C (Amount (zatoshis a + sum_list (map zatoshis ys)))
      \<and> \<not> amount_ok p C (Amount (zatoshis a + sum_list (map zatoshis (ys @ [y]))))"
proof (induction xs arbitrary: a)
  case (Cons x xs)
  show ?case
  proof (cases "amount_add p C a x")
    case (Ok c)
    with Cons.prems have c: "amount_ok p C c" "zatoshis c = zatoshis a + zatoshis x"
      by (auto dest: amounts.add_sound)
    with Ok Cons.prems Cons.IH [of c] obtain ys y where "xs = ys @ y # rest"
      and "e = Constraint (zatoshis c + sum_list (map zatoshis (ys @ [y]))) (valid_range p C)"
      and "amount_ok p C (Amount (zatoshis c + sum_list (map zatoshis ys)))"
      and "\<not> amount_ok p C (Amount (zatoshis c + sum_list (map zatoshis (ys @ [y]))))"
      by auto
    with c show ?thesis
      by (intro exI [of _ "x # ys"] exI [of _ y]) (simp add: add.assoc)
  next
    case (Err e')
    with Cons.prems show ?thesis
      by (intro exI [of _ "[]"] exI [of _ x]) (auto dest: amount_add_Err)
  next
    case Panic
    with Cons.prems show ?thesis
      using amounts.add_no_panic [of p C a x] by simp
  qed
qed simp

lemma fold_rest_not_Panic:
  "amount_ok p C a \<Longrightarrow> list_all (amount_ok p C) xs \<Longrightarrow>
    fst (try_fold_rest (amount_add p C) a xs) \<noteq> Panic"
  by (simp add: amounts.fold_rest_fst amounts.fold_no_panic)

lemma amount_sum_cases:
  assumes "list_all (amount_ok p C) xs"
  shows "(\<exists>s. amount_sum p C xs = Ok s \<and> amount_ok p C s
            \<and> zatoshis s = sum_list (map zatoshis xs)) \<or>
         (\<exists>ys y rest. xs = ys @ y # rest
            \<and> amount_sum p C xs = Err (SumOverflow (sum_list (map zatoshis (ys @ [y]))) (length rest))
            \<and> amount_ok p C (Amount (sum_list (map zatoshis ys)))
            \<and> \<not> amount_ok p C (Amount (sum_list (map zatoshis (ys @ [y])))))"
proof -
  obtain r rest where fr: "try_fold_rest (amount_add p C) (Amount 0) xs = (r, rest)"
    by fastforce
  show ?thesis
  proof (cases r)
    case (Ok s)
    with fr amounts.fold_rest_fst [of p C "Amount 0" xs]
    have "try_fold (amount_add p C) (Amount 0) xs = Ok s"
      by simp
    with assms have "amount_ok p C s \<and> zatoshis s = 0 + amounts.total xs"
      using amounts.fold_sound [of p C "Amount 0" xs s] by simp
    with Ok fr show ?thesis
      by (simp add: amount_sum_def total_amounts)
  next
    case (Err e)
    with fr assms fold_rest_Err [of p C "Amount 0" xs e rest] obtain ys y
      where "xs = ys @ y # rest"
        and "e = Constraint (sum_list (map zatoshis (ys @ [y]))) (valid_range p C)"
        and "amount_ok p C (Amount (sum_list (map zatoshis ys)))"
        and "\<not> amount_ok p C (Amount (sum_list (map zatoshis (ys @ [y]))))"
      by auto
    with Err fr have "amount_sum p C xs =
        Err (SumOverflow (sum_list (map zatoshis (ys @ [y]))) (length rest))"
      by (simp add: amount_sum_def)
    with \<open>xs = _\<close> \<open>amount_ok p C _\<close> \<open>\<not> _\<close> show ?thesis by blast
  next
    case Panic
    with fr assms fold_rest_not_Panic [of p C "Amount 0" xs] show ?thesis
      by simp
  qed
qed

lemma nonneg_prefix_sum_le:
  "list_all (amount_ok p NonNegative) (ys @ zs) \<Longrightarrow>
    sum_list (map zatoshis ys) \<le> sum_list (map zatoshis (ys @ zs))"
proof -
  assume "list_all (amount_ok p NonNegative) (ys @ zs)"
  then have "\<forall>z\<in>set zs. 0 \<le> zatoshis z"
    by (auto simp: list_all_iff)
  then have "0 \<le> sum_list (map zatoshis zs)"
    by (induction zs) auto
  then show ?thesis by simp
qed

lemma nonneg_sum_nonneg:
  "list_all (amount_ok p NonNegative) xs \<Longrightarrow> 0 \<le> sum_list (map zatoshis xs)"
  using nonneg_prefix_sum_le [of p "[]" xs] by simp

section \<open>Multiplication and division\<close>

lemma in_i128_mul:
  assumes "amount_ok p C a" "n \<le> u64_max"
  shows "in_i128 (zatoshis a * int n)"
proof -
  have "\<bar>zatoshis a\<bar> \<le> 2 ^ 62"
    using amount_ok_abs [OF assms(1)] MAX_MONEY_double [of p] by (simp add: i64_max_def)
  moreover have "\<bar>int n\<bar> \<le> 2 ^ 64"
    using assms(2) by (simp add: u64_max_def)
  ultimately have "\<bar>zatoshis a * int n\<bar> \<le> 2 ^ 62 * 2 ^ 64"
    unfolding abs_mult by (intro mult_mono) auto
  then show ?thesis
    by (auto simp: in_i128_def abs_le_iff)
qed

lemma amount_mul_eq:
  assumes "amount_ok p C a" "n \<le> u64_max"
  shows "amount_mul p C a n =
    (if amount_ok p C (Amount (zatoshis a * int n)) then Ok (Amount (zatoshis a * int n))
     else Err (MultiplicationOverflow (zatoshis a) n (zatoshis a * int n)))"
  using in_i128_mul [OF assms] by (simp add: amount_mul_def checked_i128_def try_from_i128_eq)

lemma amount_ok_trunc_div:
  assumes "amount_ok p C a" "0 < n"
  shows "amount_ok p C (Amount (trunc_div (zatoshis a) n))"
proof (cases "0 \<le> zatoshis a")
  case True
  with assms have "0 \<le> zatoshis a div n"
    by (simp add: pos_imp_zdiv_nonneg_iff)
  with True assms show ?thesis
    using abs_trunc_div_le [of n "zatoshis a"] valid_range_bounds [of p C]
    by (auto simp: amount_ok_def trunc_div_nonneg)
next
  case False
  with assms have "0 \<le> (- zatoshis a) div n"
    by (simp add: pos_imp_zdiv_nonneg_iff)
  with False assms show ?thesis
    using abs_trunc_div_le [of n "zatoshis a"] valid_range_bounds [of p C]
    by (auto simp: amount_ok_def trunc_div_neg)
qed

lemma amount_div_eq:
  assumes "amount_ok p C a" "0 < n"
  shows "amount_div p C a n = Ok (Amount (trunc_div (zatoshis a) (int n)))"
  using amount_ok_trunc_div [OF assms(1), of "int n"] assms(2)
  by (simp add: amount_div_def try_from_i128_eq)

section \<open>Properties\<close>

text \<open>
  C39. Addition and subtraction of two valid amounts are exact: for every constraint and build
  profile the \<^verbatim>\<open>expect\<close> on the 64-bit overflow never fires, the result is the integer sum or
  difference when it satisfies the constraint, and otherwise the error carries the offending value
  and the range.
\<close>

theorem amount_add_sub_exact:
  assumes "amount_ok p C a" and "amount_ok p C b"
  shows "amount_add p C a b =
      (if amount_ok p C (Amount (zatoshis a + zatoshis b)) then Ok (Amount (zatoshis a + zatoshis b))
       else Err (Constraint (zatoshis a + zatoshis b) (valid_range p C)))
    \<and> amount_sub p C a b =
      (if amount_ok p C (Amount (zatoshis a - zatoshis b)) then Ok (Amount (zatoshis a - zatoshis b))
       else Err (Constraint (zatoshis a - zatoshis b) (valid_range p C)))"
  using assms by (simp add: amount_add_eq amount_sub_eq try_from_i64_eq)

theorem amount_add_sub_exact_witness:
  "amount_ok Wcash_profile NonNegative (Amount 5) \<and> amount_ok Wcash_profile NonNegative (Amount 7)
    \<and> amount_add Wcash_profile NonNegative (Amount 5) (Amount 7) = Ok (Amount 12)
    \<and> amount_sub Wcash_profile NonNegative (Amount 5) (Amount 7)
      = Err (Constraint (- 2) (0, MAX_MONEY Wcash_profile))"
proof -
  have ok: "amount_ok Wcash_profile NonNegative (Amount 5)"
    "amount_ok Wcash_profile NonNegative (Amount 7)"
    by (simp_all add: money_defs)
  show ?thesis
    using ok amount_add_sub_exact [OF ok] by (simp add: money_defs)
qed

text \<open>
  C40. Summing non-negative amounts succeeds exactly when the mathematical total is at most
  \<^verbatim>\<open>MAX_MONEY\<close>, whatever the order, and then returns that total; it never panics, and on failure the
  error reports the first partial sum over the limit and the number of items not yet added.
\<close>

theorem amount_sum_nonneg_correct:
  assumes "list_all (amount_ok p NonNegative) xs"
  shows "if sum_list (map zatoshis xs) \<le> MAX_MONEY p
    then amount_sum p NonNegative xs = Ok (Amount (sum_list (map zatoshis xs)))
    else \<exists>ys y rest. xs = ys @ y # rest \<and> sum_list (map zatoshis ys) \<le> MAX_MONEY p
        \<and> MAX_MONEY p < sum_list (map zatoshis (ys @ [y]))
        \<and> amount_sum p NonNegative xs =
            Err (SumOverflow (sum_list (map zatoshis (ys @ [y]))) (length rest))"
  using amount_sum_cases [OF assms]
proof (elim disjE exE conjE)
  fix s
  assume "amount_sum p NonNegative xs = Ok s" "amount_ok p NonNegative s"
    "zatoshis s = sum_list (map zatoshis xs)"
  then show ?thesis
    using amount.collapse [of s] by simp
next
  fix ys y rest
  assume xs: "xs = ys @ y # rest"
    and e: "amount_sum p NonNegative xs =
      Err (SumOverflow (sum_list (map zatoshis (ys @ [y]))) (length rest))"
    and ok: "amount_ok p NonNegative (Amount (sum_list (map zatoshis ys)))"
    and bad: "\<not> amount_ok p NonNegative (Amount (sum_list (map zatoshis (ys @ [y]))))"
  have "0 \<le> sum_list (map zatoshis (ys @ [y]))"
    using assms xs by (intro nonneg_sum_nonneg [of p]) simp
  with bad have over: "MAX_MONEY p < sum_list (map zatoshis (ys @ [y]))"
    by simp
  moreover have "sum_list (map zatoshis (ys @ [y])) \<le> sum_list (map zatoshis xs)"
    using assms xs nonneg_prefix_sum_le [of p "ys @ [y]" rest] by simp
  ultimately show ?thesis
    using xs e ok by auto
qed

theorem amount_sum_nonneg_correct_witness:
  "list_all (amount_ok Zcash_profile NonNegative) [Amount (20000000 * COIN), Amount (2000000 * COIN)]
    \<and> amount_sum Zcash_profile NonNegative [Amount 3, Amount 4] = Ok (Amount 7)
    \<and> amount_sum Zcash_profile NonNegative [Amount (20000000 * COIN), Amount (2000000 * COIN)]
      = Err (SumOverflow (22000000 * COIN) 0)"
proof -
  have ok: "list_all (amount_ok Zcash_profile NonNegative)
      [Amount (20000000 * COIN), Amount (2000000 * COIN)]"
    "list_all (amount_ok Zcash_profile NonNegative) [Amount 3, Amount 4]"
    by (simp_all add: money_defs)
  show ?thesis
    using ok amount_sum_nonneg_correct [OF ok(1)] amount_sum_nonneg_correct [OF ok(2)]
    by (auto simp: money_defs append_eq_Cons_conv Cons_eq_append_conv)
qed

text \<open>
  Scaling an amount by a fraction cannot leave its constraint: division truncates towards zero,
  stays in the range of the dividend and fails only on a zero divisor, and multiplication by a
  64-bit factor either is exact or reports the overflowing product.
\<close>

theorem amount_mul_div_exact:
  assumes "amount_ok p C a" and "n \<le> u64_max"
  shows "amount_mul p C a n =
      (if amount_ok p C (Amount (zatoshis a * int n)) then Ok (Amount (zatoshis a * int n))
       else Err (MultiplicationOverflow (zatoshis a) n (zatoshis a * int n)))
    \<and> amount_div p C a n =
      (if n = 0 then Err (DivideByZero (zatoshis a))
       else Ok (Amount (trunc_div (zatoshis a) (int n))))
    \<and> (0 < n \<longrightarrow> amount_ok p C (Amount (trunc_div (zatoshis a) (int n))))"
  using assms amount_ok_trunc_div [of p C a "int n"]
  by (cases "n = 0") (simp_all add: amount_mul_eq amount_div_def try_from_i128_eq)

theorem amount_mul_div_exact_witness:
  "amount_ok Wcash_profile NegativeAllowed (Amount (- 7)) \<and> (2::nat) \<le> u64_max
    \<and> amount_mul Wcash_profile NegativeAllowed (Amount (- 7)) 2 = Ok (Amount (- 14))
    \<and> amount_div Wcash_profile NegativeAllowed (Amount (- 7)) 2 = Ok (Amount (- 3))"
proof -
  have h: "amount_ok Wcash_profile NegativeAllowed (Amount (- 7))" "(2::nat) \<le> u64_max"
    by (simp_all add: money_defs u64_max_def)
  show ?thesis
    using h amount_mul_div_exact [OF h] by (simp add: money_defs trunc_div_def)
qed

text \<open>
  The wire format of amounts is a bijection: reading back a written amount returns it and the
  rest of the input, and whatever the reader accepts is a valid amount whose encoding is the eight
  bytes it read.
\<close>

theorem amount_wire_roundtrip:
  assumes "C \<noteq> NegativeOrZero"
  shows "(amount_ok p C a \<longrightarrow>
      (\<exists>w. amount_serialize C a = Ok w \<and> amount_deserialize p C (w @ rest) = Ok (a, rest)))
    \<and> (amount_deserialize p C bs = Ok (a, rest) \<longrightarrow>
      amount_ok p C a \<and> (\<exists>w. amount_serialize C a = Ok w \<and> bs = w @ rest))"
proof (intro conjI impI)
  assume ok: "amount_ok p C a"
  show "\<exists>w. amount_serialize C a = Ok w \<and> amount_deserialize p C (w @ rest) = Ok (a, rest)"
    using assms ok in_i64_if_ok [OF ok]
    by (cases C) (auto simp: amount_serialize_def amount_deserialize_def i64_from_le_to_le
        try_from_i64_eq try_from_u64_eq try_from_i128_eq u64_from_amount_def le_val_le_bytes
        in_i64_def i64_max_def)
next
  assume d: "amount_deserialize p C bs = Ok (a, rest)"
  then have l: "8 \<le> length bs" and rest: "rest = drop 8 bs"
    by (auto simp: amount_deserialize_def split: if_splits)
  from l have l8: "length (take 8 bs) = 8"
    by simp
  have "amount_ok p C a \<and> amount_serialize C a = Ok (take 8 bs)"
    using assms d l le_bytes_le_val' [OF l8] i64_to_le_from_le [OF l8]
    by (cases C) (auto simp: amount_deserialize_def amount_serialize_def try_from_i64_eq
        try_from_u64_eq try_from_i128_eq u64_from_amount_def split: if_splits)
  then show "amount_ok p C a" and "\<exists>w. amount_serialize C a = Ok w \<and> bs = w @ rest"
    using rest by auto
qed

theorem amount_wire_roundtrip_witness:
  "NonNegative \<noteq> NegativeOrZero
    \<and> (\<exists>w. amount_serialize NonNegative (Amount 258) = Ok w
      \<and> amount_deserialize Wcash_profile NonNegative (w @ [1]) = Ok (Amount 258, [1]))"
proof -
  have h: "NonNegative \<noteq> NegativeOrZero" by simp
  show ?thesis
    using h amount_wire_roundtrip [OF h, of Wcash_profile "Amount 258" "[1]" "[]"]
    by (auto simp: money_defs)
qed

end
