(* ===== verification/Value_Balance.thy ===== *)
theory Value_Balance
  imports Amounts
begin

text \<open>
  Balances of the value pools, from \<^verbatim>\<open>zebra-chain/src/value_balance.rs\<close>.

  \<^verbatim>\<open>ValueBalance<C>\<close> is a record of six amounts.  The source writes each operation once per pool,
  with the question mark after every pool; \<open>each_pool\<close> is that sequence, in the order of the
  struct, and the operations give it the amount computation of a pool.  Addition is a second
  implementation of the interface \<open>checked_sum\<close>, so the facts about sums of balances are the
  facts of that interface.
\<close>

section \<open>Pools, balances, errors\<close>

datatype pool = Transparent_pool | Sprout_pool | Sapling_pool | Orchard_pool | Deferred_pool
  | Ironwood_pool

record value_balance =
  transparent :: amount
  sprout :: amount
  sapling :: amount
  orchard :: amount
  deferred :: amount
  ironwood :: amount

fun pool_of :: "value_balance \<Rightarrow> pool \<Rightarrow> amount" where
  "pool_of v Transparent_pool = transparent v"
| "pool_of v Sprout_pool = sprout v"
| "pool_of v Sapling_pool = sapling v"
| "pool_of v Orchard_pool = orchard v"
| "pool_of v Deferred_pool = deferred v"
| "pool_of v Ironwood_pool = ironwood v"

definition pools :: "pool list" where
  "pools = [Transparent_pool, Sprout_pool, Sapling_pool, Orchard_pool, Deferred_pool, Ironwood_pool]"

datatype value_balance_error =
    Transparent amount_error
  | Sprout amount_error
  | Sapling amount_error
  | Orchard amount_error
  | Deferred amount_error
  | Ironwood amount_error
  | Total amount_error
  | Unparsable

text \<open>The type invariant of \<^verbatim>\<open>ValueBalance<C>\<close>.\<close>

definition vb_ok :: "profile \<Rightarrow> constraint_kind \<Rightarrow> value_balance \<Rightarrow> bool" where
  "vb_ok p C v \<longleftrightarrow> list_all (\<lambda>q. amount_ok p C (pool_of v q)) pools"

definition each_pool ::
  "(pool \<Rightarrow> (amount_error, amount) outcome) \<Rightarrow> (value_balance_error, value_balance) outcome" where
  "each_pool f =
     qbind (map_err Transparent (f Transparent_pool)) (\<lambda>t.
     qbind (map_err Sprout (f Sprout_pool)) (\<lambda>sp.
     qbind (map_err Sapling (f Sapling_pool)) (\<lambda>sa.
     qbind (map_err Orchard (f Orchard_pool)) (\<lambda>ord.
     qbind (map_err Deferred (f Deferred_pool)) (\<lambda>d.
     qbind (map_err Ironwood (f Ironwood_pool)) (\<lambda>i.
       Ok \<lparr>transparent = t, sprout = sp, sapling = sa, orchard = ord, deferred = d, ironwood = i\<rparr>))))))"

section \<open>Constructors and setters\<close>

definition vb_zero :: "profile \<Rightarrow> constraint_kind \<Rightarrow> ('e, value_balance) outcome" where
  "vb_zero p C =
     map_ok (\<lambda>z. \<lparr>transparent = z, sprout = z, sapling = z, orchard = z, deferred = z, ironwood = z\<rparr>)
       (amount_zero p C)"

definition from_transparent_amount ::
  "profile \<Rightarrow> constraint_kind \<Rightarrow> amount \<Rightarrow> ('e, value_balance) outcome" where
  "from_transparent_amount p C a = map_ok (\<lambda>v. v\<lparr>transparent := a\<rparr>) (vb_zero p C)"

definition from_sprout_amount ::
  "profile \<Rightarrow> constraint_kind \<Rightarrow> amount \<Rightarrow> ('e, value_balance) outcome" where
  "from_sprout_amount p C a = map_ok (\<lambda>v. v\<lparr>sprout := a\<rparr>) (vb_zero p C)"

definition from_sapling_amount ::
  "profile \<Rightarrow> constraint_kind \<Rightarrow> amount \<Rightarrow> ('e, value_balance) outcome" where
  "from_sapling_amount p C a = map_ok (\<lambda>v. v\<lparr>sapling := a\<rparr>) (vb_zero p C)"

definition from_orchard_amount ::
  "profile \<Rightarrow> constraint_kind \<Rightarrow> amount \<Rightarrow> ('e, value_balance) outcome" where
  "from_orchard_amount p C a = map_ok (\<lambda>v. v\<lparr>orchard := a\<rparr>) (vb_zero p C)"

definition from_ironwood_amount ::
  "profile \<Rightarrow> constraint_kind \<Rightarrow> amount \<Rightarrow> ('e, value_balance) outcome" where
  "from_ironwood_amount p C a = map_ok (\<lambda>v. v\<lparr>ironwood := a\<rparr>) (vb_zero p C)"

definition set_transparent_value_balance :: "value_balance \<Rightarrow> value_balance \<Rightarrow> value_balance" where
  "set_transparent_value_balance self v = self\<lparr>transparent := transparent v\<rparr>"

definition set_sprout_value_balance :: "value_balance \<Rightarrow> value_balance \<Rightarrow> value_balance" where
  "set_sprout_value_balance self v = self\<lparr>sprout := sprout v\<rparr>"

definition set_sapling_value_balance :: "value_balance \<Rightarrow> value_balance \<Rightarrow> value_balance" where
  "set_sapling_value_balance self v = self\<lparr>sapling := sapling v\<rparr>"

definition set_orchard_value_balance :: "value_balance \<Rightarrow> value_balance \<Rightarrow> value_balance" where
  "set_orchard_value_balance self v = self\<lparr>orchard := orchard v\<rparr>"

definition set_deferred_amount :: "value_balance \<Rightarrow> amount \<Rightarrow> value_balance" where
  "set_deferred_amount self a = self\<lparr>deferred := a\<rparr>"

definition set_ironwood_value_balance :: "value_balance \<Rightarrow> value_balance \<Rightarrow> value_balance" where
  "set_ironwood_value_balance self v = self\<lparr>ironwood := ironwood v\<rparr>"

section \<open>Operations\<close>

text \<open>The total is an \<^verbatim>\<open>i128\<close> sum; an overflow of it would panic.\<close>

definition vb_total :: "profile \<Rightarrow> constraint_kind \<Rightarrow> value_balance \<Rightarrow> (amount_error, amount) outcome" where
  "vb_total p C v =
     qbind (try_fold (\<lambda>acc a. expect (checked_i128 (acc + zatoshis a))) 0
              [transparent v, sprout v, sapling v, orchard v, deferred v, ironwood v])
       (amount_try_from_i128 p C)"

definition vb_constrain ::
  "profile \<Rightarrow> constraint_kind \<Rightarrow> value_balance \<Rightarrow> (value_balance_error, value_balance) outcome" where
  "vb_constrain p C2 v = each_pool (\<lambda>q. constrain p C2 (pool_of v q))"

definition vb_add ::
  "profile \<Rightarrow> constraint_kind \<Rightarrow> value_balance \<Rightarrow> value_balance
    \<Rightarrow> (value_balance_error, value_balance) outcome" where
  "vb_add p C v w = each_pool (\<lambda>q. amount_add p C (pool_of v q) (pool_of w q))"

definition vb_result_add ::
  "profile \<Rightarrow> constraint_kind \<Rightarrow> (value_balance_error, value_balance) outcome \<Rightarrow> value_balance
    \<Rightarrow> (value_balance_error, value_balance) outcome" where
  "vb_result_add p C r w = qbind r (\<lambda>v. vb_add p C v w)"

definition vb_add_result ::
  "profile \<Rightarrow> constraint_kind \<Rightarrow> value_balance \<Rightarrow> (value_balance_error, value_balance) outcome
    \<Rightarrow> (value_balance_error, value_balance) outcome" where
  "vb_add_result p C v r = qbind r (\<lambda>w. vb_add p C v w)"

definition vb_add_assign ::
  "profile \<Rightarrow> constraint_kind \<Rightarrow> (value_balance_error, value_balance) outcome \<Rightarrow> value_balance
    \<Rightarrow> (value_balance_error, value_balance) outcome" where
  "vb_add_assign p C self w = (case self of Ok v \<Rightarrow> vb_add p C v w | _ \<Rightarrow> self)"

definition vb_sub ::
  "profile \<Rightarrow> constraint_kind \<Rightarrow> value_balance \<Rightarrow> value_balance
    \<Rightarrow> (value_balance_error, value_balance) outcome" where
  "vb_sub p C v w = each_pool (\<lambda>q. amount_sub p C (pool_of v q) (pool_of w q))"

definition vb_result_sub ::
  "profile \<Rightarrow> constraint_kind \<Rightarrow> (value_balance_error, value_balance) outcome \<Rightarrow> value_balance
    \<Rightarrow> (value_balance_error, value_balance) outcome" where
  "vb_result_sub p C r w = qbind r (\<lambda>v. vb_sub p C v w)"

definition vb_sub_result ::
  "profile \<Rightarrow> constraint_kind \<Rightarrow> value_balance \<Rightarrow> (value_balance_error, value_balance) outcome
    \<Rightarrow> (value_balance_error, value_balance) outcome" where
  "vb_sub_result p C v r = qbind r (\<lambda>w. vb_sub p C v w)"

definition vb_sub_assign ::
  "profile \<Rightarrow> constraint_kind \<Rightarrow> (value_balance_error, value_balance) outcome \<Rightarrow> value_balance
    \<Rightarrow> (value_balance_error, value_balance) outcome" where
  "vb_sub_assign p C self w = (case self of Ok v \<Rightarrow> vb_sub p C v w | _ \<Rightarrow> self)"

definition vb_sum ::
  "profile \<Rightarrow> constraint_kind \<Rightarrow> value_balance list \<Rightarrow> (value_balance_error, value_balance) outcome" where
  "vb_sum p C vs = qbind (vb_zero p C) (\<lambda>z. try_fold (vb_add p C) z vs)"

definition vb_neg :: "profile \<Rightarrow> value_balance \<Rightarrow> (value_balance_error, value_balance) outcome" where
  "vb_neg p v = each_pool (\<lambda>q. amount_neg p (pool_of v q))"

definition remaining_transaction_value :: "profile \<Rightarrow> value_balance \<Rightarrow> (amount_error, amount) outcome" where
  "remaining_transaction_value p v =
     qbind
       (amount_result_add p NegativeAllowed
         (amount_result_add p NegativeAllowed
           (amount_result_add p NegativeAllowed
             (amount_add p NegativeAllowed (transparent v) (sprout v))
             (sapling v))
           (orchard v))
         (ironwood v))
       (constrain p NonNegative)"

definition add_chain_value_pool_change ::
  "profile \<Rightarrow> value_balance \<Rightarrow> value_balance \<Rightarrow> (value_balance_error, value_balance) outcome" where
  "add_chain_value_pool_change p self change =
     qbind (expect_ok (vb_constrain p NegativeAllowed self)) (\<lambda>chain_value_pool.
     qbind (vb_add p NegativeAllowed chain_value_pool change) (\<lambda>chain_value_pool.
     qbind (vb_constrain p NonNegative chain_value_pool) (\<lambda>chain_value_pool.
     qbind (map_err Total (vb_total p NonNegative chain_value_pool)) (\<lambda>_.
       Ok chain_value_pool))))"

section \<open>Bytes\<close>

definition vb_to_bytes :: "value_balance \<Rightarrow> (value_balance_error, bytes) outcome" where
  "vb_to_bytes v =
     (let bs = concat [amount_to_bytes (transparent v), amount_to_bytes (sprout v),
                       amount_to_bytes (sapling v), amount_to_bytes (orchard v),
                       amount_to_bytes (deferred v), amount_to_bytes (ironwood v)]
      in if length bs = 48 then Ok bs else Panic)"

text \<open>One pool's slice of a record; the slice and the conversion to an array may panic.\<close>

definition read_pool ::
  "profile \<Rightarrow> (amount_error \<Rightarrow> value_balance_error) \<Rightarrow> nat \<Rightarrow> nat \<Rightarrow> bytes
    \<Rightarrow> (value_balance_error, amount) outcome" where
  "read_pool p err i j bs =
     qbind (slice_range i j bs) (\<lambda>s.
     qbind (assert_that (length s = 8)) (\<lambda>_.
       map_err err (amount_from_bytes p NonNegative s)))"

definition vb_from_bytes :: "profile \<Rightarrow> bytes \<Rightarrow> (value_balance_error, value_balance) outcome" where
  "vb_from_bytes p bs =
     (let n = length bs in
      if \<not> (n = 32 \<or> n = 40 \<or> n = 48) then Err Unparsable
      else
        qbind (read_pool p Transparent 0 8 bs) (\<lambda>t.
        qbind (read_pool p Sprout 8 16 bs) (\<lambda>sp.
        qbind (read_pool p Sapling 16 24 bs) (\<lambda>sa.
        qbind (read_pool p Orchard 24 32 bs) (\<lambda>ord.
        qbind (if n = 32 then amount_zero p NonNegative
               else if n = 40 \<or> n = 48 then read_pool p Deferred 32 40 bs
               else Err Unparsable) (\<lambda>d.
        qbind (if n = 32 \<or> n = 40 then amount_zero p NonNegative
               else if n = 48 then read_pool p Ironwood 40 48 bs
               else Err Unparsable) (\<lambda>i.
          Ok \<lparr>transparent = t, sprout = sp, sapling = sa, orchard = ord, deferred = d,
              ironwood = i\<rparr>)))))))"

section \<open>Pointwise reasoning\<close>

lemma all_pools: "(\<forall>q. P q) \<longleftrightarrow> P Transparent_pool \<and> P Sprout_pool \<and> P Sapling_pool
    \<and> P Orchard_pool \<and> P Deferred_pool \<and> P Ironwood_pool"
  by (metis pool.exhaust)

lemma vb_ok_iff: "vb_ok p C v \<longleftrightarrow> (\<forall>q. amount_ok p C (pool_of v q))"
  by (simp add: vb_ok_def pools_def all_pools)

lemma vb_okD: "vb_ok p C v \<Longrightarrow> amount_ok p C (pool_of v q)"
  by (simp add: vb_ok_iff)

lemma vb_eqI: "(\<And>q. pool_of v q = pool_of w q) \<Longrightarrow> v = (w::value_balance)"
proof -
  assume eq: "\<And>q. pool_of v q = pool_of w q"
  show ?thesis
    using eq [of Transparent_pool] eq [of Sprout_pool] eq [of Sapling_pool] eq [of Orchard_pool]
      eq [of Deferred_pool] eq [of Ironwood_pool]
    by simp
qed

lemma each_pool_Ok: "each_pool f = Ok v \<longleftrightarrow> (\<forall>q. f q = Ok (pool_of v q))"
  by (auto simp: each_pool_def all_pools)

lemma each_pool_not_Panic: "(\<And>q. f q \<noteq> Panic) \<Longrightarrow> each_pool f \<noteq> Panic"
  by (auto simp: each_pool_def qbind_eq_Panic)

text \<open>The sum over all the pools.\<close>

definition vb_value :: "value_balance \<Rightarrow> int" where
  "vb_value v = sum_list (map (\<lambda>q. zatoshis (pool_of v q)) pools)"

lemma vb_value_eq: "vb_value v = zatoshis (transparent v) + zatoshis (sprout v)
    + zatoshis (sapling v) + zatoshis (orchard v) + zatoshis (deferred v) + zatoshis (ironwood v)"
  by (simp add: vb_value_def pools_def)

lemma vb_zero_eq [simp]: "vb_zero p C = Ok \<lparr>transparent = Amount 0, sprout = Amount 0,
    sapling = Amount 0, orchard = Amount 0, deferred = Amount 0, ironwood = Amount 0\<rparr>"
  by (simp add: vb_zero_def)

lemma pool_of_zero [simp]: "vb_zero p C = Ok z \<Longrightarrow> pool_of z q = Amount 0"
  by (cases q) auto


lemma vb_ok_zero: "vb_zero p C = Ok z \<Longrightarrow> vb_ok p C z"
  by (simp add: vb_ok_iff del: vb_zero_eq)

lemma vb_constrain_Ok [simp]: "vb_constrain p C v = Ok w \<longleftrightarrow> vb_ok p C v \<and> w = v"
  by (auto simp: vb_constrain_def each_pool_Ok vb_ok_iff intro: vb_eqI)

lemma vb_constrain_not_Panic [simp]: "vb_constrain p C v \<noteq> Panic"
  by (simp add: vb_constrain_def each_pool_not_Panic)

lemma amount_eqI: "zatoshis a = zatoshis b \<Longrightarrow> a = b"
  by (simp add: amount.expand)

lemma amount_add_Ok: "amount_ok p C a \<Longrightarrow> amount_ok p C b \<Longrightarrow>
    amount_add p C a b = Ok c \<longleftrightarrow> amount_ok p C c \<and> zatoshis c = zatoshis a + zatoshis b"
  using amounts.add_sound amounts.add_complete by blast

text \<open>Addition of balances keeps the contract of \<open>checked_sum\<close>, pool by pool.\<close>

interpretation balances: checked_sum "\<lambda>f g q. f q + g q" "\<lambda>q. 0" "vb_ok p C"
    "\<lambda>v q. zatoshis (pool_of v q)" "vb_add p C" for p C
proof unfold_locales
  fix v w u
  assume ok: "vb_ok p C v" "vb_ok p C w"
  then show "vb_add p C v w \<noteq> Panic"
    by (simp add: vb_add_def each_pool_not_Panic amounts.add_no_panic vb_okD)
  have *: "vb_add p C v w = Ok u \<longleftrightarrow> vb_ok p C u
      \<and> (\<lambda>q. zatoshis (pool_of u q)) = (\<lambda>q. zatoshis (pool_of v q) + zatoshis (pool_of w q))"
    using ok by (auto simp: vb_add_def each_pool_Ok amount_add_Ok vb_ok_iff fun_eq_iff)
  from * show "vb_add p C v w = Ok u \<Longrightarrow> vb_ok p C u
      \<and> (\<lambda>q. zatoshis (pool_of u q)) = (\<lambda>q. zatoshis (pool_of v q) + zatoshis (pool_of w q))"
    by simp
  from * show "vb_ok p C u \<Longrightarrow> (\<lambda>q. zatoshis (pool_of u q))
      = (\<lambda>q. zatoshis (pool_of v q) + zatoshis (pool_of w q)) \<Longrightarrow> vb_add p C v w = Ok u"
    by simp
qed (auto simp: fun_eq_iff)

lemma total_balances: "balances.total vs q = sum_list (map (\<lambda>v. zatoshis (pool_of v q)) vs)"
  by (induction vs) auto

lemma vb_add_Ok: "vb_ok p C v \<Longrightarrow> vb_ok p C w \<Longrightarrow> vb_add p C v w = Ok u \<longleftrightarrow> vb_ok p C u
    \<and> (\<forall>q. zatoshis (pool_of u q) = zatoshis (pool_of v q) + zatoshis (pool_of w q))"
  using balances.add_sound [of p C v w u] balances.add_complete [of p C v w u]
  by (auto simp: fun_eq_iff)

lemma i128_fold:
  "list_all (\<lambda>a. \<bar>zatoshis a\<bar> \<le> 2 ^ 62) as \<Longrightarrow> \<bar>acc\<bar> + int (length as) * 2 ^ 62 < 2 ^ 127 \<Longrightarrow>
    try_fold (\<lambda>acc a. expect (checked_i128 (acc + zatoshis a))) acc as
      = Ok (acc + sum_list (map zatoshis as))"
proof (induction as arbitrary: acc)
  case (Cons a as)
  have "\<bar>acc + zatoshis a\<bar> \<le> \<bar>acc\<bar> + 2 ^ 62"
    using Cons.prems abs_triangle_ineq [of acc "zatoshis a"] by simp
  moreover from this Cons.prems have "\<bar>acc + zatoshis a\<bar> + int (length as) * 2 ^ 62 < 2 ^ 127"
    by (simp add: algebra_simps)
  moreover from this have "checked_i128 (acc + zatoshis a) = Some (acc + zatoshis a)"
    by (auto simp: range_defs)
  ultimately show ?case
    using Cons by (simp add: add.assoc)
qed simp

lemma vb_total_eq:
  assumes "vb_ok p C' v"
  shows "vb_total p C v = amount_try_from_i128 p C (vb_value v)"
proof -
  have "MAX_MONEY p \<le> 2 ^ 62"
    using MAX_MONEY_double [of p] by (simp add: i64_max_def)
  then have "\<bar>zatoshis (pool_of v q)\<bar> \<le> 2 ^ 62" for q
    using amount_ok_abs [OF vb_okD [OF assms], of q] by linarith
  then have "list_all (\<lambda>a. \<bar>zatoshis a\<bar> \<le> 2 ^ 62) (map (pool_of v) pools)"
    by (simp only: list_all_iff set_map ball_simps) simp
  moreover have "[transparent v, sprout v, sapling v, orchard v, deferred v, ironwood v]
      = map (pool_of v) pools" and "length pools = 6"
    by (simp_all add: pools_def)
  ultimately show ?thesis
    by (simp only: vb_total_def i128_fold) (simp add: i128_fold vb_value_def comp_def)
qed

section \<open>The chain value pool\<close>

lemma nonneg_pool_le:
  assumes "\<And>q. 0 \<le> zatoshis (pool_of v q)"
  shows "zatoshis (pool_of v q) \<le> vb_value v"
  using assms [of Transparent_pool] assms [of Sprout_pool] assms [of Sapling_pool]
    assms [of Orchard_pool] assms [of Deferred_pool] assms [of Ironwood_pool]
  by (cases q) (simp_all add: vb_value_eq)

lemma vb_ok_nonnegI:
  assumes "\<And>q. 0 \<le> zatoshis (pool_of v q)" "vb_value v \<le> MAX_MONEY p"
  shows "vb_ok p NonNegative v"
  using assms nonneg_pool_le [of v] by (auto simp: vb_ok_iff intro: order_trans)

lemma vb_value_pointwise:
  "\<forall>q. zatoshis (pool_of u q) = zatoshis (pool_of v q) + zatoshis (pool_of w q) \<Longrightarrow>
    vb_value u = vb_value v + vb_value w"
  by (simp add: all_pools vb_value_eq)

lemma vb_ok_weaken: "vb_ok p NonNegative v \<Longrightarrow> vb_ok p NegativeAllowed v"
  using MAX_MONEY_pos [of p] by (auto simp: vb_ok_iff intro: order_trans [of _ 0])

lemma add_chain_Ok:
  assumes v: "vb_ok p NonNegative v" and w: "vb_ok p NegativeAllowed w"
  shows "add_chain_value_pool_change p v w = Ok u \<longleftrightarrow>
    (\<forall>q. zatoshis (pool_of u q) = zatoshis (pool_of v q) + zatoshis (pool_of w q)
         \<and> 0 \<le> zatoshis (pool_of u q))
    \<and> vb_value u \<le> MAX_MONEY p"
    (is "?L \<longleftrightarrow> ?R")
proof
  assume ?L
  with v w vb_ok_weaken [OF v] have u: "vb_ok p NonNegative u"
    and a: "vb_add p NegativeAllowed v w = Ok u"
    and t: "\<exists>x. vb_total p NonNegative u = Ok x"
    by (auto simp: add_chain_value_pool_change_def)
  from t u have "vb_value u \<le> MAX_MONEY p"
    by (auto simp: vb_total_eq try_from_i128_eq split: if_splits)
  with a u vb_ok_weaken [OF v] w show ?R
    by (auto simp: vb_add_Ok vb_ok_iff)
next
  assume R: ?R
  then have nn: "0 \<le> zatoshis (pool_of u q)" for q by blast
  have u: "vb_ok p NonNegative u"
    using nn R by (blast intro: vb_ok_nonnegI)
  have "0 \<le> vb_value u"
    using nn order_trans nonneg_pool_le [of u Transparent_pool, OF nn] by blast
  with R u have "\<exists>x. vb_total p NonNegative u = Ok x"
    by (auto simp: vb_total_eq try_from_i128_eq)
  with u vb_ok_weaken [OF u] vb_ok_weaken [OF v] w R show ?L
    by (auto simp: add_chain_value_pool_change_def vb_add_Ok)
qed

lemma add_chain_not_Panic:
  assumes "vb_ok p NonNegative v" "vb_ok p NegativeAllowed w"
  shows "add_chain_value_pool_change p v w \<noteq> Panic"
  using assms vb_ok_weaken [OF assms(1)]
  by (auto simp: add_chain_value_pool_change_def qbind_eq_Panic expect_ok_eq_Panic
      vb_total_eq try_from_i128_eq balances.add_no_panic split: if_splits)

text \<open>The pools of a chain: the changes of its blocks, applied from the genesis balance on.\<close>

definition chain_value_pools ::
  "profile \<Rightarrow> value_balance list \<Rightarrow> (value_balance_error, value_balance) outcome" where
  "chain_value_pools p changes =
     qbind (vb_zero p NonNegative) (\<lambda>z. try_fold (add_chain_value_pool_change p) z changes)"

lemma chain_fold_sound:
  "vb_ok p NonNegative v \<Longrightarrow> list_all (vb_ok p NegativeAllowed) ws \<Longrightarrow>
    try_fold (add_chain_value_pool_change p) v ws \<noteq> Panic
    \<and> (try_fold (add_chain_value_pool_change p) v ws = Ok u \<longrightarrow>
        vb_ok p NonNegative u
        \<and> (\<forall>q. zatoshis (pool_of u q)
              = zatoshis (pool_of v q) + sum_list (map (\<lambda>w. zatoshis (pool_of w q)) ws))
        \<and> (ws \<noteq> [] \<longrightarrow> vb_value u \<le> MAX_MONEY p))"
proof (induction ws arbitrary: v)
  case (Cons w ws)
  show ?case
  proof (cases "add_chain_value_pool_change p v w")
    case (Ok v')
    from Cons.prems have ok: "vb_ok p NonNegative v" "vb_ok p NegativeAllowed w" by simp_all
    from add_chain_Ok [OF ok, THEN iffD1, OF Ok]
    have v': "\<forall>q. zatoshis (pool_of v' q) = zatoshis (pool_of v q) + zatoshis (pool_of w q)
         \<and> 0 \<le> zatoshis (pool_of v' q)" "vb_value v' \<le> MAX_MONEY p"
      by blast+
    then have "vb_ok p NonNegative v'"
      by (blast intro: vb_ok_nonnegI)
    with Cons Ok v' show ?thesis
      by (cases ws) (auto simp: add.assoc)
  next
    case Panic
    with Cons.prems show ?thesis
      using add_chain_not_Panic [of p v w] by simp
  qed simp
qed auto


section \<open>Remaining transaction value\<close>

lemma amount_result_add_Ok [simp]:
  "amount_result_add p C r b = Ok c \<longleftrightarrow> (\<exists>a. r = Ok a \<and> amount_add p C a b = Ok c)"
  by (simp add: amount_result_add_def)

lemma amount_result_add_Panic:
  "amount_result_add p C r b = Panic \<longleftrightarrow> r = Panic \<or> (\<exists>a. r = Ok a \<and> amount_add p C a b = Panic)"
  by (simp add: amount_result_add_def qbind_eq_Panic)

text \<open>The partial sums that the chain of additions goes through.\<close>

definition transaction_prefix_sums :: "value_balance \<Rightarrow> int list" where
  "transaction_prefix_sums v =
     (let t = zatoshis (transparent v); sp = zatoshis (sprout v); sa = zatoshis (sapling v);
          ord = zatoshis (orchard v); i = zatoshis (ironwood v)
      in [t + sp, t + sp + sa, t + sp + sa + ord, t + sp + sa + ord + i])"

lemma amount_add_NA: "amount_ok p NegativeAllowed a \<Longrightarrow> amount_ok p NegativeAllowed b \<Longrightarrow>
    amount_add p NegativeAllowed a b =
      (if \<bar>zatoshis a + zatoshis b\<bar> \<le> MAX_MONEY p then Ok (Amount (zatoshis a + zatoshis b))
       else Err (Constraint (zatoshis a + zatoshis b) (valid_range p NegativeAllowed)))"
  by (auto simp: amount_add_eq try_from_i64_eq abs_le_iff)

lemma remaining_value_eq:
  assumes v: "vb_ok p NegativeAllowed v"
  shows "remaining_transaction_value p v =
    (case find (\<lambda>x. \<bar>x\<bar> > MAX_MONEY p) (transaction_prefix_sums v) of
       Some x \<Rightarrow> Err (Constraint x (valid_range p NegativeAllowed))
     | None \<Rightarrow>
         (let r = last (transaction_prefix_sums v)
          in if 0 \<le> r then Ok (Amount r) else Err (Constraint r (valid_range p NonNegative))))"
proof -
  have ok: "amount_ok p NegativeAllowed (transparent v)" "amount_ok p NegativeAllowed (sprout v)"
    "amount_ok p NegativeAllowed (sapling v)" "amount_ok p NegativeAllowed (orchard v)"
    "amount_ok p NegativeAllowed (ironwood v)"
    using vb_okD [OF v] by (metis pool_of.simps)+
  have ab: "\<bar>x\<bar> \<le> MAX_MONEY p \<Longrightarrow> amount_ok p NegativeAllowed (Amount x)" for x
    by (simp add: abs_le_iff)
  show ?thesis
    by (simp add: remaining_transaction_value_def amount_result_add_def amount_add_NA ok ab
        transaction_prefix_sums_def Let_def constrain_eq del: amount_ok_simps)
      (auto simp: abs_le_iff)
qed

section \<open>Bytes\<close>

lemma length_amount_to_bytes [simp]: "length (amount_to_bytes a) = 8"
  by (simp add: amount_to_bytes_def i64_to_le_def)

lemma amount_from_to_bytes: "amount_ok p C a \<Longrightarrow> amount_from_bytes p C (amount_to_bytes a) = Ok a"
  using in_i64_if_ok [of p C a]
  by (simp add: amount_from_bytes_def amount_to_bytes_def i64_from_le_to_le try_from_i64_eq)

lemma amount_to_from_bytes:
  "length bs = 8 \<Longrightarrow> amount_from_bytes p C bs = Ok a \<Longrightarrow> amount_to_bytes a = bs \<and> amount_ok p C a"
  by (auto simp: amount_from_bytes_def amount_to_bytes_def try_from_i64_eq i64_to_le_from_le
      split: if_splits)

lemma amount_from_bytes_not_Panic [simp]: "amount_from_bytes p C bs \<noteq> Panic"
  by (simp add: amount_from_bytes_def try_from_i64_eq)

lemma read_pool_eq:
  "j = i + 8 \<Longrightarrow> j \<le> length bs \<Longrightarrow>
    read_pool p err i j bs = map_err err (amount_from_bytes p NonNegative (take 8 (drop i bs)))"
  by (simp add: read_pool_def slice_range_def assert_that_def)

section \<open>Properties\<close>

text \<open>
  C24. adding a block's change to a valid chain value pool never panics, and it succeeds exactly
  when every resulting pool is non-negative and the total of the pools is at most
  \<^verbatim>\<open>MAX_MONEY\<close>; the result is the exact sum, pool by pool.
\<close>

theorem chain_pool_change_exact:
  assumes "vb_ok p NonNegative v" "vb_ok p NegativeAllowed w"
  shows "add_chain_value_pool_change p v w \<noteq> Panic
    \<and> (add_chain_value_pool_change p v w = Ok u \<longleftrightarrow>
        (\<forall>q. zatoshis (pool_of u q) = zatoshis (pool_of v q) + zatoshis (pool_of w q)
             \<and> 0 \<le> zatoshis (pool_of u q))
        \<and> vb_value u \<le> MAX_MONEY p)"
  using assms add_chain_not_Panic add_chain_Ok by blast

definition sample_pool :: value_balance where
  "sample_pool = \<lparr>transparent = Amount 10, sprout = Amount 0, sapling = Amount 5,
     orchard = Amount 7, deferred = Amount 0, ironwood = Amount 1\<rparr>"

definition sample_change :: value_balance where
  "sample_change = \<lparr>transparent = Amount (- 4), sprout = Amount 0, sapling = Amount 6,
     orchard = Amount (- 7), deferred = Amount 2, ironwood = Amount 0\<rparr>"

definition sample_result :: value_balance where
  "sample_result = \<lparr>transparent = Amount 6, sprout = Amount 0, sapling = Amount 11,
     orchard = Amount 0, deferred = Amount 2, ironwood = Amount 1\<rparr>"

lemmas sample_defs = sample_pool_def sample_change_def sample_result_def

theorem chain_pool_change_exact_witness:
  "vb_ok Wcash_profile NonNegative sample_pool \<and> vb_ok Wcash_profile NegativeAllowed sample_change
    \<and> add_chain_value_pool_change Wcash_profile sample_pool sample_change = Ok sample_result"
proof -
  have ok: "vb_ok Wcash_profile NonNegative sample_pool"
    "vb_ok Wcash_profile NegativeAllowed sample_change"
    by (simp_all add: vb_ok_def pools_def sample_defs money_defs)
  with chain_pool_change_exact [OF ok, of sample_result] show ?thesis
    by (simp add: all_pools vb_value_eq sample_defs money_defs)
qed

text \<open>
  C9. along a chain, the value pools are the exact sums of the block changes: whatever the
  changes are, folding them from the empty pools never panics, every pool stays non-negative,
  the total never exceeds \<^verbatim>\<open>MAX_MONEY\<close>, and the total is the sum of the totals of the changes.
\<close>

theorem chain_pools_conserve_value:
  assumes "list_all (vb_ok p NegativeAllowed) changes"
  shows "chain_value_pools p changes \<noteq> Panic
    \<and> (chain_value_pools p changes = Ok u \<longrightarrow>
        (\<forall>q. zatoshis (pool_of u q) = sum_list (map (\<lambda>w. zatoshis (pool_of w q)) changes)
             \<and> 0 \<le> zatoshis (pool_of u q))
        \<and> vb_value u = sum_list (map vb_value changes)
        \<and> vb_value u \<le> MAX_MONEY p)"
proof -
  obtain z where z: "vb_zero p NonNegative = (Ok z :: (value_balance_error, value_balance) outcome)"
    by simp
  note fold = chain_fold_sound [OF vb_ok_zero [OF z] assms]
  have "chain_value_pools p changes \<noteq> Panic"
    using z fold by (simp add: chain_value_pools_def del: vb_zero_eq)
  moreover {
    assume "chain_value_pools p changes = Ok u"
    with z have f: "try_fold (add_chain_value_pool_change p) z changes = Ok u"
      by (simp add: chain_value_pools_def del: vb_zero_eq)
    from fold [of u] f have u: "vb_ok p NonNegative u" by blast
    have q: "zatoshis (pool_of u q) = sum_list (map (\<lambda>w. zatoshis (pool_of w q)) changes)" for q
      using fold [of u] f z by (simp del: vb_zero_eq)
    have n: "0 \<le> zatoshis (pool_of u q)" for q
      using vb_okD [OF u, of q] by simp
    have "sum_list (map vb_value ws) = sum_list (map (\<lambda>q. sum_list (map (\<lambda>w. zatoshis (pool_of w q)) ws)) pools)"
      for ws
      by (induction ws) (simp_all add: vb_value_eq pools_def)
    with q have v: "vb_value u = sum_list (map vb_value changes)"
      by (simp add: vb_value_def)
    have "vb_value u \<le> MAX_MONEY p"
      using f fold [of u] v MAX_MONEY_pos [of p] by (cases "changes = []") auto
    with q n v have "(\<forall>q. zatoshis (pool_of u q) = sum_list (map (\<lambda>w. zatoshis (pool_of w q)) changes)
        \<and> 0 \<le> zatoshis (pool_of u q)) \<and> vb_value u = sum_list (map vb_value changes)
        \<and> vb_value u \<le> MAX_MONEY p"
      by metis
  }
  ultimately show ?thesis
    by blast
qed

theorem chain_pools_conserve_value_witness:
  "list_all (vb_ok Wcash_profile NegativeAllowed) [sample_pool, sample_change]
    \<and> chain_value_pools Wcash_profile [sample_pool, sample_change] = Ok sample_result
    \<and> vb_value sample_result = vb_value sample_pool + vb_value sample_change"
proof -
  have ok: "list_all (vb_ok Wcash_profile NegativeAllowed) [sample_pool, sample_change]"
    by (simp add: vb_ok_def pools_def sample_defs money_defs)
  have "chain_value_pools Wcash_profile [sample_pool, sample_change] = Ok sample_result"
    by code_simp
  with ok chain_pools_conserve_value [OF ok, of sample_result] show ?thesis
    by simp
qed


text \<open>
  The remaining value of a transaction never panics.  It is the sum of its five
  transaction pools when that is non-negative and no partial sum leaves the range of amounts;
  otherwise the error names the first partial sum out of range, or the negative remainder.
\<close>

theorem remaining_value_exact:
  assumes "vb_ok p NegativeAllowed v"
  shows "remaining_transaction_value p v =
    (case find (\<lambda>x. \<bar>x\<bar> > MAX_MONEY p) (transaction_prefix_sums v) of
       Some x \<Rightarrow> Err (Constraint x (valid_range p NegativeAllowed))
     | None \<Rightarrow>
         (let r = last (transaction_prefix_sums v)
          in if 0 \<le> r then Ok (Amount r) else Err (Constraint r (valid_range p NonNegative))))"
  using assms by (rule remaining_value_eq)

theorem remaining_value_exact_witness:
  "vb_ok Wcash_profile NegativeAllowed sample_pool
    \<and> remaining_transaction_value Wcash_profile sample_pool = Ok (Amount 23)"
proof -
  have ok: "vb_ok Wcash_profile NegativeAllowed sample_pool"
    by (simp add: vb_ok_def pools_def sample_defs money_defs)
  with remaining_value_exact [OF ok] show ?thesis
    by (simp add: transaction_prefix_sums_def sample_defs money_defs)
qed

text \<open>
  C38. the stored record of the pools is canonical.  A valid balance is written as 48 bytes and
  read back; reading 32- and 40-byte records of earlier versions gives the balance with the
  missing pools at zero; every other length is refused; reading never panics; and what a
  48-byte record is read as, is written as that record.
\<close>

theorem value_balance_bytes_roundtrip:
  "(vb_ok p NonNegative v \<longrightarrow> (\<exists>bs. vb_to_bytes v = Ok bs \<and> length bs = 48
      \<and> vb_from_bytes p bs = Ok v
      \<and> vb_from_bytes p (take 40 bs) = Ok (v\<lparr>ironwood := Amount 0\<rparr>)
      \<and> vb_from_bytes p (take 32 bs) = Ok (v\<lparr>deferred := Amount 0, ironwood := Amount 0\<rparr>)))
    \<and> vb_from_bytes p bs \<noteq> Panic
    \<and> (length bs \<notin> {32, 40, 48} \<longrightarrow> vb_from_bytes p bs = Err Unparsable)
    \<and> (length bs = 48 \<and> vb_from_bytes p bs = Ok v \<longrightarrow> vb_ok p NonNegative v \<and> vb_to_bytes v = Ok bs)"
proof (intro conjI impI)
  assume ok: "vb_ok p NonNegative v"
  have r: "amount_from_bytes p NonNegative (amount_to_bytes (pool_of v q)) = Ok (pool_of v q)" for q
    by (rule amount_from_to_bytes [OF vb_okD [OF ok]])
  note rs = r [of Transparent_pool] r [of Sprout_pool] r [of Sapling_pool] r [of Orchard_pool]
    r [of Deferred_pool] r [of Ironwood_pool]
  obtain bs where bs: "vb_to_bytes v = Ok bs" and cat: "bs = amount_to_bytes (transparent v)
      @ amount_to_bytes (sprout v) @ amount_to_bytes (sapling v) @ amount_to_bytes (orchard v)
      @ amount_to_bytes (deferred v) @ amount_to_bytes (ironwood v)"
    by (simp add: vb_to_bytes_def)
  from cat have "length bs = 48" by simp
  moreover from cat rs have "vb_from_bytes p bs = Ok v"
    "vb_from_bytes p (take 40 bs) = Ok (v\<lparr>ironwood := Amount 0\<rparr>)"
    "vb_from_bytes p (take 32 bs) = Ok (v\<lparr>deferred := Amount 0, ironwood := Amount 0\<rparr>)"
    by (simp_all add: vb_from_bytes_def read_pool_eq)
  ultimately show "\<exists>bs. vb_to_bytes v = Ok bs \<and> length bs = 48
      \<and> vb_from_bytes p bs = Ok v
      \<and> vb_from_bytes p (take 40 bs) = Ok (v\<lparr>ironwood := Amount 0\<rparr>)
      \<and> vb_from_bytes p (take 32 bs) = Ok (v\<lparr>deferred := Amount 0, ironwood := Amount 0\<rparr>)"
    using bs by blast
next
  show "vb_from_bytes p bs \<noteq> Panic"
    by (auto simp: vb_from_bytes_def read_pool_eq qbind_eq_Panic Let_def split: if_splits)
next
  assume "length bs \<notin> {32, 40, 48}"
  then show "vb_from_bytes p bs = Err Unparsable"
    by (simp add: vb_from_bytes_def)
next
  assume "length bs = 48 \<and> vb_from_bytes p bs = Ok v"
  then have l: "length bs = 48" and f: "vb_from_bytes p bs = Ok v" by auto
  from f l have parts: "\<forall>q. amount_from_bytes p NonNegative
      (take 8 (drop (case q of Transparent_pool \<Rightarrow> 0 | Sprout_pool \<Rightarrow> 8 | Sapling_pool \<Rightarrow> 16
        | Orchard_pool \<Rightarrow> 24 | Deferred_pool \<Rightarrow> 32 | Ironwood_pool \<Rightarrow> 40) bs)) = Ok (pool_of v q)"
    by (auto simp: vb_from_bytes_def read_pool_eq all_pools)
  have each: "amount_to_bytes (pool_of v q) = take 8 (drop (case q of Transparent_pool \<Rightarrow> 0
      | Sprout_pool \<Rightarrow> 8 | Sapling_pool \<Rightarrow> 16 | Orchard_pool \<Rightarrow> 24 | Deferred_pool \<Rightarrow> 32
      | Ironwood_pool \<Rightarrow> 40) bs) \<and> amount_ok p NonNegative (pool_of v q)" for q
    using l by (intro amount_to_from_bytes parts [rule_format]) (cases q; simp)
  then show "vb_ok p NonNegative v"
    by (simp add: vb_ok_iff)
  have split: "take 8 xs @ take k (drop 8 xs) = take (8 + k) xs" for xs :: bytes and k
    by (simp add: take_add)
  have "bs = take 8 bs @ take 8 (drop 8 bs) @ take 8 (drop 16 bs) @ take 8 (drop 24 bs)
      @ take 8 (drop 32 bs) @ take 8 (drop 40 bs)"
    using l take_add [of 8 40 bs] take_add [of 8 32 "drop 8 bs"] take_add [of 8 24 "drop 16 bs"]
      take_add [of 8 16 "drop 24 bs"] take_add [of 8 8 "drop 32 bs"]
    by simp
  with l each [of Transparent_pool] each [of Sprout_pool] each [of Sapling_pool]
    each [of Orchard_pool] each [of Deferred_pool] each [of Ironwood_pool]
  show "vb_to_bytes v = Ok bs"
    by (simp add: vb_to_bytes_def)
qed

theorem value_balance_bytes_roundtrip_witness:
  "vb_ok Wcash_profile NonNegative sample_pool
    \<and> (\<exists>bs. vb_to_bytes sample_pool = Ok bs \<and> vb_from_bytes Wcash_profile bs = Ok sample_pool
        \<and> length bs = 48 \<and> vb_from_bytes Wcash_profile (tl bs) = Err Unparsable)"
proof -
  have ok: "vb_ok Wcash_profile NonNegative sample_pool"
    by (simp add: vb_ok_def pools_def sample_defs money_defs)
  with value_balance_bytes_roundtrip [of Wcash_profile sample_pool "[]"]
  obtain bs where bs: "vb_to_bytes sample_pool = Ok bs"
    "vb_from_bytes Wcash_profile bs = Ok sample_pool" "length bs = 48"
    by blast
  with ok value_balance_bytes_roundtrip [of Wcash_profile sample_pool "tl bs"] show ?thesis
    by (intro conjI exI [of _ bs]) simp_all
qed

end
