(* ===== verification/Difficulty.thy ===== *)
theory Difficulty
  imports Wolf_Prelude
begin

unbundle bit_operations_syntax

text \<open>
  Difficulty thresholds and work, from \<^verbatim>\<open>zebra-chain/src/work/difficulty.rs\<close>.

  A \<^verbatim>\<open>CompactDifficulty\<close> is the 32-bit word of a block header.  An \<^verbatim>\<open>ExpandedDifficulty\<close> is a
  \<^verbatim>\<open>U256\<close>, a natural number below \<open>u256_limit\<close>: addition, multiplication and powers of \<^verbatim>\<open>U256\<close>
  panic on overflow, shifts drop the bits that leave the word.  \<^verbatim>\<open>Work\<close> is a \<^verbatim>\<open>u128\<close>.
\<close>

section \<open>256-bit arithmetic\<close>

type_synonym compact_difficulty = "32 word"
type_synonym expanded_difficulty = nat
type_synonym work = nat
type_synonym partial_cumulative_work = nat

definition u256_limit :: nat where "u256_limit = 2 ^ 256"
definition u128_max :: nat where "u128_max = 2 ^ 128 - 1"

definition u256 :: "nat \<Rightarrow> ('e, nat) outcome" where
  "u256 n = (if n < u256_limit then Ok n else Panic)"

definition u256_shl :: "nat \<Rightarrow> nat \<Rightarrow> nat" where
  "u256_shl n k = (n * 2 ^ k) mod u256_limit"

definition u256_shr :: "nat \<Rightarrow> nat \<Rightarrow> nat" where
  "u256_shr n k = n div 2 ^ k"

definition u256_not :: "nat \<Rightarrow> nat" where
  "u256_not n = u256_limit - 1 - n"

definition u256_div :: "nat \<Rightarrow> nat \<Rightarrow> ('e, nat) outcome" where
  "u256_div a b = (if b = 0 then Panic else Ok (a div b))"

text \<open>\<^verbatim>\<open>U256::bits\<close>: the length of the binary representation.\<close>

fun u256_bits :: "nat \<Rightarrow> nat" where
  "u256_bits n = (if n = 0 then 0 else Suc (u256_bits (n div 2)))"

declare u256_bits.simps [simp del]

section \<open>Compact and expanded difficulties\<close>

definition BASE :: nat where "BASE = 256"
definition OFFSET :: int where "OFFSET = 3"
definition PRECISION :: nat where "PRECISION = 24"
definition SIGN_BIT :: "32 word" where "SIGN_BIT = push_bit (PRECISION - 1) 1"
definition UNSIGNED_MANTISSA_MASK :: "32 word" where "UNSIGNED_MANTISSA_MASK = SIGN_BIT - 1"

text \<open>The normalisation of mantissa and exponent; \<open>None\<close> is the early \<^verbatim>\<open>return None\<close>.\<close>

definition normalise :: "32 word \<Rightarrow> int \<Rightarrow> (32 word \<times> int) option" where
  "normalise m e =
     (if e \<ge> 32 then None
      else if e = 31 \<and> m > 255 then None
      else if e = 31 \<and> m \<le> 255 then Some (push_bit 16 m, e - 2)
      else if e = 30 \<and> m > 65535 then None
      else if e = 30 \<and> m \<le> 65535 then Some (push_bit 8 m, e - 1)
      else if e < 0 then Some (drop_bit (nat (\<bar>e\<bar> * 8)) m, 0)
      else Some (m, e))"

definition to_expanded :: "compact_difficulty \<Rightarrow> ('e, expanded_difficulty option) outcome" where
  "to_expanded c =
     (if c AND SIGN_BIT = SIGN_BIT then Ok None
      else
        let mantissa = c AND UNSIGNED_MANTISSA_MASK;
            exponent = int (unat (drop_bit PRECISION c)) - OFFSET
        in case normalise mantissa exponent of
             None \<Rightarrow> Ok None
           | Some (m, e) \<Rightarrow>
               qbind (u256 (BASE ^ nat e)) (\<lambda>b.
               qbind (u256 (unat m * b)) (\<lambda>result.
                 if result = 0 then Ok None else Ok (Some result))))"

definition to_compact :: "expanded_difficulty \<Rightarrow> ('e, compact_difficulty) outcome" where
  "to_compact x =
     qbind (assert_that (x > 0)) (\<lambda>_.
       let size = u256_bits x div 8 + 1 in
       qbind (if x \<le> unat UNSIGNED_MANTISSA_MASK
              then (if size \<le> 3 then Ok (u256_shl x (8 * (3 - size))) else Panic)
              else (if 3 \<le> size then Ok (u256_shr x (8 * (size - 3))) else Panic)) (\<lambda>mantissa.
       qbind (assert_that (size < 34)) (\<lambda>_.
       qbind (assert_that (mantissa \<le> unat UNSIGNED_MANTISSA_MASK)) (\<lambda>_.
         if mantissa > 0 then Ok (word_of_nat mantissa + push_bit 24 (word_of_nat size))
         else Panic))))"

section \<open>Work\<close>

definition work_try_from :: "expanded_difficulty \<Rightarrow> (unit, work) outcome" where
  "work_try_from x =
     qbind (u256 (x + 1)) (\<lambda>d.
     qbind (u256_div (u256_not x) d) (\<lambda>q.
     qbind (u256 (q + 1)) (\<lambda>result.
       if result \<le> u128_max then Ok result else Err ())))"

definition to_work :: "compact_difficulty \<Rightarrow> ('e, work option) outcome" where
  "to_work c =
     qbind (to_expanded c) (\<lambda>r. case r of
         None \<Rightarrow> Ok None
       | Some x \<Rightarrow> (case work_try_from x of Ok w \<Rightarrow> Ok (Some w) | Err _ \<Rightarrow> Ok None | Panic \<Rightarrow> Panic))"

definition cumulative_add :: "partial_cumulative_work \<Rightarrow> work \<Rightarrow> ('e, partial_cumulative_work) outcome" where
  "cumulative_add c w = expect (if c + w \<le> u128_max then Some (c + w) else None)"

definition cumulative_sub :: "partial_cumulative_work \<Rightarrow> work \<Rightarrow> ('e, partial_cumulative_work) outcome" where
  "cumulative_sub c w = expect (if w \<le> c then Some (c - w) else None)"

section \<open>Hashes, bytes and sums\<close>

definition from_hash :: "bytes \<Rightarrow> expanded_difficulty" where
  "from_hash h = le_val h"

text \<open>\<^verbatim>\<open>block::Hash\<close> compared with a threshold: the hash is above the threshold.\<close>

definition hash_gt_threshold :: "bytes \<Rightarrow> expanded_difficulty \<Rightarrow> bool" where
  "hash_gt_threshold h t \<longleftrightarrow> from_hash h > t"

definition compact_bytes_in_display_order :: "compact_difficulty \<Rightarrow> bytes" where
  "compact_bytes_in_display_order c = be_bytes 4 (unat c)"

definition compact_from_bytes_in_display_order :: "bytes \<Rightarrow> (string, compact_difficulty) outcome" where
  "compact_from_bytes_in_display_order bs =
     (let difficulty = word_of_nat (be_val bs) in
      qbind (to_expanded difficulty) (\<lambda>r.
        if r = None then Err ''invalid difficulty value'' else Ok difficulty))"

definition expanded_bytes_in_serialized_order :: "expanded_difficulty \<Rightarrow> bytes" where
  "expanded_bytes_in_serialized_order x = be_bytes 32 x"

definition expanded_from_bytes_in_serialized_order :: "bytes \<Rightarrow> expanded_difficulty" where
  "expanded_from_bytes_in_serialized_order bs = be_val bs"

fun expanded_sum_from :: "nat \<Rightarrow> expanded_difficulty list \<Rightarrow> ('e, expanded_difficulty) outcome" where
  "expanded_sum_from acc [] = Ok acc"
| "expanded_sum_from acc (d # ds) = qbind (u256 (acc + d)) (\<lambda>acc'. expanded_sum_from acc' ds)"

definition expanded_sum :: "expanded_difficulty list \<Rightarrow> ('e, expanded_difficulty) outcome" where
  "expanded_sum ds = expanded_sum_from 0 ds"

section \<open>Binary length\<close>

lemma u256_bits_0 [simp]: "u256_bits 0 = 0"
  by (simp add: u256_bits.simps)

lemma u256_bits_upper: "n < 2 ^ u256_bits n"
proof (induction n rule: u256_bits.induct)
  case (1 n)
  show ?case
  proof (cases "n = 0")
    case False
    with 1 have "n div 2 < 2 ^ u256_bits (n div 2)" by simp
    then have "n < 2 * 2 ^ u256_bits (n div 2)" by linarith
    with False show ?thesis
      by (simp add: u256_bits.simps [of n])
  qed simp
qed

lemma u256_bits_lower: "0 < n \<Longrightarrow> 2 ^ (u256_bits n - 1) \<le> n"
proof (induction n rule: u256_bits.induct)
  case (1 n)
  show ?case
  proof (cases "n = 1")
    case False
    with 1 have n: "0 < n div 2" by auto
    with 1 have "2 ^ (u256_bits (n div 2) - 1) \<le> n div 2" by simp
    moreover have "0 < u256_bits (n div 2)"
      using n by (subst u256_bits.simps) simp
    ultimately show ?thesis
      using 1(2) by (subst u256_bits.simps) (cases "u256_bits (n div 2)"; simp; linarith)
  qed (simp add: u256_bits.simps)
qed

lemma u256_bits_unique: "2 ^ (k - 1) \<le> n \<Longrightarrow> n < 2 ^ k \<Longrightarrow> 0 < k \<Longrightarrow> u256_bits n = k"
proof -
  assume n: "2 ^ (k - 1) \<le> n" "n < 2 ^ k" and k: "0 < k"
  from n have "0 < n" by (cases n) auto
  then have "2 ^ (u256_bits n - 1) < (2::nat) ^ k" "(2::nat) ^ (k - 1) < 2 ^ u256_bits n"
    using le_less_trans [OF u256_bits_lower [of n] n(2)] le_less_trans [OF n(1) u256_bits_upper]
    by simp_all
  then have "u256_bits n - 1 < k" "k - 1 < u256_bits n"
    by (simp_all add: power_strict_increasing_iff)
  with k show ?thesis by linarith
qed

lemma u256_bits_le: "n < 2 ^ k \<Longrightarrow> u256_bits n \<le> k"
proof (cases "n = 0")
  case False
  assume "n < 2 ^ k"
  with False have "(2::nat) ^ (u256_bits n - 1) < 2 ^ k"
    by (intro le_less_trans [OF u256_bits_lower]) auto
  then show ?thesis
    by (simp add: power_strict_increasing_iff)
qed simp

lemma u256_bits_ge: "2 ^ k \<le> n \<Longrightarrow> k < u256_bits n"
proof -
  assume "2 ^ k \<le> n"
  then have "(2::nat) ^ k < 2 ^ u256_bits n"
    by (rule le_less_trans [OF _ u256_bits_upper])
  then show ?thesis
    by (simp add: power_strict_increasing_iff)
qed


section \<open>The normal form of a threshold\<close>

text \<open>
  \<open>canonical x\<close> is \<open>x\<close> with the digits below the three leading base-256 digits (counted with
  the sign bit adjustment) set to zero.
\<close>

definition compact_size :: "nat \<Rightarrow> nat" where
  "compact_size x = u256_bits x div 8 + 1"

definition canonical :: "nat \<Rightarrow> nat" where
  "canonical x = x div 256 ^ (compact_size x - 3) * 256 ^ (compact_size x - 3)"

text \<open>The value of the compact bits of a header as plain arithmetic.\<close>

definition target_value :: "compact_difficulty \<Rightarrow> nat option" where
  "target_value c =
     (let m = unat c mod 2 ^ 23; s = unat c div 2 ^ 24;
          v = (if 3 \<le> s then m * 256 ^ (s - 3) else m div 256 ^ (3 - s))
      in if odd (unat c div 2 ^ 23) \<or> v = 0 \<or> s \<ge> 35 \<or> v \<ge> u256_limit then None else Some v)"

lemma two_pow_8: "(2::nat) ^ (8 * k) = 256 ^ k"
  by (simp add: power_mult)

lemma MASK_eq: "UNSIGNED_MANTISSA_MASK = 8388607" "unat UNSIGNED_MANTISSA_MASK = 8388607"
  by (simp_all add: UNSIGNED_MANTISSA_MASK_def SIGN_BIT_def PRECISION_def)

lemma SIGN_BIT_eq: "SIGN_BIT = push_bit 23 1"
  by (simp add: SIGN_BIT_def PRECISION_def)

lemma sign_bit_iff: "c AND SIGN_BIT = SIGN_BIT \<longleftrightarrow> odd (unat c div 2 ^ 23)"
proof -
  have "bit SIGN_BIT n \<longleftrightarrow> n = 23" for n
    by (simp only: SIGN_BIT_eq push_bit_of_1 bit_exp_iff) auto
  then have "c AND SIGN_BIT = SIGN_BIT \<longleftrightarrow> bit c 23"
    by (auto simp: bit_eq_iff [of _ SIGN_BIT] bit_and_iff dest: spec [of _ 23])
  also have "\<dots> \<longleftrightarrow> bit (unat c) 23"
    by (simp add: bit_unsigned_iff)
  also have "\<dots> \<longleftrightarrow> odd (unat c div 2 ^ 23)"
    by (simp add: bit_iff_odd)
  finally show ?thesis .
qed

lemma mantissa_unat: "unat (c AND UNSIGNED_MANTISSA_MASK) = unat c mod 2 ^ 23"
proof -
  have "UNSIGNED_MANTISSA_MASK = mask 23"
    by (simp add: MASK_eq mask_eq_exp_minus_1)
  then have "c AND UNSIGNED_MANTISSA_MASK = take_bit 23 c"
    by (simp add: take_bit_eq_mask)
  then show ?thesis
    by (simp add: take_bit_eq_mod unat_mod_distrib)
qed

lemma exponent_unat: "unat (drop_bit PRECISION (c :: 32 word)) = unat c div 2 ^ 24"
  by (simp add: PRECISION_def drop_bit_eq_div unat_div_distrib)

lemma size_le_255: "unat (c :: 32 word) div 2 ^ 24 \<le> 255"
  using unsigned_less [of c, where 'a = nat] by (simp add: less_mult_imp_div_less less_Suc_eq_le)


lemma normalise_small: "0 \<le> e \<Longrightarrow> e < 30 \<Longrightarrow> normalise m e = Some (m, e)"
  by (simp add: normalise_def)

lemma normalise_down: "e < 0 \<Longrightarrow> normalise m e = Some (drop_bit (nat (- e * 8)) m, 0)"
  by (simp add: normalise_def)

lemma unat_push_bit_small:
  "unat (m :: 32 word) * 2 ^ k < 2 ^ 32 \<Longrightarrow> unat (push_bit k m) = unat m * 2 ^ k"
  unfolding unsigned_push_bit_eq by (simp add: push_bit_eq_mult take_bit_nat_eq_self)

lemma to_expanded_eq [simp]: "to_expanded c = Ok (target_value c)"
proof (cases "odd (unat c div 2 ^ 23)")
  case True
  then show ?thesis
    by (simp add: to_expanded_def sign_bit_iff target_value_def)
next
  case pos: False
  define m where "m = c AND UNSIGNED_MANTISSA_MASK"
  define s where "s = unat c div 2 ^ 24"
  have um: "unat c mod 2 ^ 23 = unat m" and mlt: "unat m < 2 ^ 23"
    by (simp_all add: m_def mantissa_unat)
  have exp: "to_expanded c = (case normalise m (int s - 3) of
        None \<Rightarrow> Ok None
      | Some (m, e) \<Rightarrow> qbind (u256 (256 ^ nat e)) (\<lambda>b. qbind (u256 (unat m * b)) (\<lambda>result.
          if result = 0 then Ok None else Ok (Some result))))"
    using pos unfolding to_expanded_def BASE_def
    by (simp add: sign_bit_iff m_def s_def exponent_unat OFFSET_def)
  have tv: "target_value c =
      (let v = (if 3 \<le> s then unat m * 256 ^ (s - 3) else unat m div 256 ^ (3 - s))
       in if v = 0 \<or> s \<ge> 35 \<or> v \<ge> u256_limit then None else Some v)"
    using pos unfolding target_value_def um s_def [symmetric] Let_def by simp
  consider "s \<ge> 35" | "s = 34" | "s = 33" | "3 \<le> s \<and> s \<le> 32" | "s < 3" by linarith
  then show ?thesis
  proof cases
    case 1
    then show ?thesis
      by (simp add: exp normalise_def tv)
  next
    case 2
    show ?thesis
    proof (cases "m \<le> 255")
      case True
      then have "unat m \<le> 255" by (simp add: word_le_nat_alt)
      then show ?thesis
        using 2 True leD [OF True] pos unat_push_bit_small [of m 16]
        by (simp add: exp normalise_def tv u256_def u256_limit_def)
    next
      case False
      then have "256 \<le> unat m" by (simp add: word_le_nat_alt)
      then show ?thesis
        using 2 False False [unfolded not_le] pos
        by (simp add: exp normalise_def tv u256_limit_def)
    qed
  next
    case 3
    show ?thesis
    proof (cases "m \<le> 65535")
      case True
      then have "unat m \<le> 65535" by (simp add: word_le_nat_alt)
      then show ?thesis
        using 3 True leD [OF True] pos unat_push_bit_small [of m 8]
        by (simp add: exp normalise_def tv u256_def u256_limit_def)
    next
      case False
      then have "65536 \<le> unat m" by (simp add: word_le_nat_alt)
      then show ?thesis
        using 3 False False [unfolded not_le] pos
        by (simp add: exp normalise_def tv u256_limit_def)
    qed
  next
    case 4
    have p: "(256::nat) ^ (s - 3) \<le> 256 ^ 29"
      using 4 by (intro power_increasing) auto
    have "unat m * 256 ^ (s - 3) < u256_limit"
      using mult_less_le_imp_less [OF mlt p] by (simp add: u256_limit_def)
    moreover have "(256::nat) ^ (s - 3) < u256_limit"
      using p by (simp add: u256_limit_def)
    moreover have "nat (int s - 3) = s - 3" using 4 by linarith
    ultimately show ?thesis
      using 4 pos
      by (simp add: exp normalise_small tv u256_def)
  next
    case 5
    have "unat (drop_bit (nat ((3 - int s) * 8)) m) = unat m div 256 ^ (3 - s)"
    proof -
      have "(3 - int s) * 8 = int (8 * (3 - s))" using 5 by (simp add: of_nat_diff)
      then have "nat ((3 - int s) * 8) = 8 * (3 - s)" by (simp only: nat_int)
      then show ?thesis
        using mlt unfolding unsigned_drop_bit_eq
        by (simp add: drop_bit_eq_div two_pow_8 take_bit_nat_eq_self)
    qed
    moreover have "unat m div 256 ^ (3 - s) < u256_limit"
      using mlt by (intro le_less_trans [OF div_le_dividend]) (simp add: u256_limit_def)
    ultimately show ?thesis
      using 5 pos
      by (simp add: exp normalise_down tv u256_def u256_limit_def)
  qed
qed


lemma target_value_bounds: "target_value c = Some v \<Longrightarrow> 0 < v \<and> v < u256_limit"
  by (auto simp: target_value_def Let_def split: if_splits)

text \<open>The mantissa of the normal form has between 16 and 23 bits.\<close>

lemma compact_size_pow:
  assumes "0 < x"
  shows "2 ^ 15 * 256 ^ (compact_size x) \<le> x * 256 ^ 3" "x * 256 ^ 3 < 2 ^ 23 * 256 ^ (compact_size x)"
proof -
  let ?b = "u256_bits x"
  have b: "0 < ?b"
    using assms u256_bits.simps [of x] by simp
  have d: "8 * (?b div 8) \<le> ?b" "?b < 8 * (?b div 8) + 8" by auto
  have pw: "(256::nat) ^ compact_size x = 2 ^ (8 * (?b div 8) + 8)" "(256::nat) ^ 3 = 2 ^ 24"
    by (simp_all add: compact_size_def two_pow_8 [symmetric] power_add algebra_simps)
  have "(2::nat) ^ 15 * 2 ^ (8 * (?b div 8) + 8) = 2 ^ (8 * (?b div 8) + 23)"
    by (simp add: power_add)
  also have "\<dots> \<le> 2 ^ (?b - 1 + 24)"
    using d b by (intro power_increasing) auto
  also have "\<dots> = 2 ^ (?b - 1) * 2 ^ 24"
    by (simp add: power_add)
  also have "\<dots> \<le> x * 2 ^ 24"
    using u256_bits_lower [OF assms] by simp
  finally show "2 ^ 15 * 256 ^ (compact_size x) \<le> x * 256 ^ 3"
    by (simp only: pw)
  have "x * 2 ^ 24 < 2 ^ ?b * 2 ^ 24"
    using u256_bits_upper [of x] by simp
  also have "\<dots> = 2 ^ (?b + 24)"
    by (simp add: power_add)
  also have "\<dots> \<le> 2 ^ (23 + (8 * (?b div 8) + 8))"
    using d by (intro power_increasing) auto
  also have "\<dots> = 2 ^ 23 * 2 ^ (8 * (?b div 8) + 8)"
    by (simp add: power_add)
  finally show "x * 256 ^ 3 < 2 ^ 23 * 256 ^ (compact_size x)"
    by (simp only: pw)
qed

definition mantissa_of :: "nat \<Rightarrow> nat" where
  "mantissa_of x = x * 256 ^ 3 div 256 ^ compact_size x"

lemma mantissa_of_bounds: "0 < x \<Longrightarrow> 2 ^ 15 \<le> mantissa_of x \<and> mantissa_of x < 2 ^ 23"
  using compact_size_pow [of x]
  by (auto simp: mantissa_of_def less_eq_div_iff_mult_less_eq div_less_iff_less_mult)

lemma compact_size_small: "0 < x \<Longrightarrow> compact_size x \<le> 3 \<longleftrightarrow> x \<le> 8388607"
proof
  assume x: "0 < x" and "compact_size x \<le> 3"
  then have "(256::nat) ^ compact_size x \<le> 256 ^ 3"
    by (intro power_increasing) auto
  then have "2 ^ 23 * (256::nat) ^ compact_size x \<le> 2 ^ 23 * 256 ^ 3"
    by simp
  with compact_size_pow(2) [OF x] have "x * 256 ^ 3 < 2 ^ 23 * 256 ^ 3"
    by (rule less_le_trans)
  then show "x \<le> 8388607" by simp
next
  assume "x \<le> 8388607"
  then have "u256_bits x \<le> 23" by (intro u256_bits_le) simp
  then show "compact_size x \<le> 3" by (simp add: compact_size_def)
qed

lemma mantissa_of_large: "3 \<le> compact_size x \<Longrightarrow> mantissa_of x = x div 256 ^ (compact_size x - 3)"
proof -
  assume "3 \<le> compact_size x"
  then have "(256::nat) ^ compact_size x = 256 ^ (compact_size x - 3) * 256 ^ 3"
    by (metis le_add_diff_inverse2 power_add)
  then show ?thesis
    by (simp add: mantissa_of_def)
qed

lemma mantissa_of_small: "compact_size x \<le> 3 \<Longrightarrow> mantissa_of x = x * 256 ^ (3 - compact_size x)"
proof -
  assume "compact_size x \<le> 3"
  then have "(256::nat) ^ 3 = 256 ^ (3 - compact_size x) * 256 ^ compact_size x"
    by (metis le_add_diff_inverse2 power_add)
  then have "x * 256 ^ 3 = x * 256 ^ (3 - compact_size x) * 256 ^ compact_size x"
    by (simp only: mult.assoc)
  then show ?thesis
    by (simp only: mantissa_of_def) simp
qed

lemma compact_size_le_33: "x < u256_limit \<Longrightarrow> compact_size x \<le> 33"
  using u256_bits_le [of x 256] by (simp add: compact_size_def u256_limit_def)

lemma to_compact_eq:
  assumes "0 < x" "x < u256_limit"
  shows "to_compact x = Ok (word_of_nat (mantissa_of x + compact_size x * 2 ^ 24))"
proof -
  have w: "word_of_nat m + push_bit 24 (word_of_nat n) = (word_of_nat (m + n * 2 ^ 24) :: 32 word)"
    for m n
    by (simp add: push_bit_eq_mult)
  have sh: "u256_shl x (8 * (3 - compact_size x)) = mantissa_of x" if "compact_size x \<le> 3"
    using that mantissa_of_bounds [OF assms(1)]
    by (simp add: u256_shl_def mantissa_of_small two_pow_8 u256_limit_def)
  have dn: "u256_shr x (8 * (compact_size x - 3)) = mantissa_of x" if "3 < compact_size x"
    using that by (simp add: u256_shr_def mantissa_of_large two_pow_8)
  have "to_compact x = Ok (word_of_nat (mantissa_of x) + push_bit 24 (word_of_nat (compact_size x)))"
    unfolding to_compact_def compact_size_def [symmetric] Let_def
    using assms mantissa_of_bounds [OF assms(1)] compact_size_le_33 [OF assms(2)]
      compact_size_small [OF assms(1)] sh dn
    by (cases "compact_size x \<le> 3") (simp_all add: MASK_eq assert_that_def)
  then show ?thesis
    by (simp only: w)
qed


lemma canonical_le: "canonical x \<le> x"
  by (simp add: canonical_def)

lemma canonical_small: "compact_size x \<le> 3 \<Longrightarrow> canonical x = x"
  by (simp add: canonical_def)

lemma canonical_mantissa:
  "3 \<le> compact_size x \<Longrightarrow> canonical x = mantissa_of x * 256 ^ (compact_size x - 3)"
  by (simp add: canonical_def mantissa_of_large)

lemma canonical_pos: "0 < x \<Longrightarrow> 0 < canonical x"
  using mantissa_of_bounds [of x]
  by (cases "compact_size x \<le> 3") (auto simp: canonical_small canonical_mantissa)

lemma canonical_bits: "0 < x \<Longrightarrow> u256_bits (canonical x) = u256_bits x"
proof (rule u256_bits_unique)
  assume x: "0 < x"
  show "0 < u256_bits x"
    using x u256_bits.simps [of x] by simp
  show "canonical x < 2 ^ u256_bits x"
    using canonical_le u256_bits_upper by (rule le_less_trans)
  let ?b = "u256_bits x" and ?k = "compact_size x - 3"
  show "2 ^ (?b - 1) \<le> canonical x"
  proof (cases "compact_size x \<le> 3")
    case True
    then show ?thesis
      using u256_bits_lower [OF x] by (simp add: canonical_small)
  next
    case False
    then have "8 * ?k \<le> ?b - 1" by (simp add: compact_size_def)
    then have e: "(2::nat) ^ (?b - 1) = 2 ^ (?b - 1 - 8 * ?k) * 256 ^ ?k"
      by (simp add: two_pow_8 [symmetric] power_add [symmetric])
    then have "2 ^ (?b - 1 - 8 * ?k) \<le> x div 256 ^ ?k"
      using u256_bits_lower [OF x] by (simp add: less_eq_div_iff_mult_less_eq)
    then show ?thesis
      unfolding e canonical_def by simp
  qed
qed

lemma canonical_size: "0 < x \<Longrightarrow> compact_size (canonical x) = compact_size x"
  by (simp add: compact_size_def canonical_bits)

lemma canonical_idem: "0 < x \<Longrightarrow> canonical (canonical x) = canonical x"
  unfolding canonical_def [of "canonical x"] by (simp add: canonical_size) (simp add: canonical_def)

lemma canonical_mono: "0 < x \<Longrightarrow> x \<le> y \<Longrightarrow> canonical x \<le> canonical y"
proof -
  assume x: "0 < x" and xy: "x \<le> y"
  then have y: "0 < y" by simp
  show ?thesis
  proof (cases "compact_size x = compact_size y")
    case True
    with xy show ?thesis by (simp add: canonical_def div_le_mono)
  next
    case False
    have "\<not> u256_bits y < u256_bits x"
    proof
      assume "u256_bits y < u256_bits x"
      then have "(2::nat) ^ u256_bits y \<le> 2 ^ (u256_bits x - 1)"
        by (intro power_increasing) auto
      with u256_bits_upper [of y] u256_bits_lower [OF x] xy show False by linarith
    qed
    with False have "u256_bits x \<le> u256_bits y - 1"
      by (auto simp: compact_size_def)
    then have "(2::nat) ^ u256_bits x \<le> 2 ^ (u256_bits y - 1)"
      by (intro power_increasing) auto
    moreover have "canonical x < 2 ^ u256_bits x"
      using canonical_le u256_bits_upper by (rule le_less_trans)
    moreover have "2 ^ (u256_bits y - 1) \<le> canonical y"
      using u256_bits_lower [OF canonical_pos [OF y]] by (simp add: canonical_bits y)
    ultimately show ?thesis by linarith
  qed
qed

lemma canonical_error: "0 < x \<Longrightarrow> (x - canonical x) * 2 ^ 15 < x"
proof (cases "compact_size x \<le> 3")
  case False
  assume x: "0 < x"
  let ?B = "256 ^ (compact_size x - 3) :: nat"
  have "x - canonical x < ?B"
    by (simp add: canonical_def minus_div_mult_eq_mod)
  then have "(x - canonical x) * 2 ^ 15 < ?B * 2 ^ 15" by simp
  also have "\<dots> \<le> mantissa_of x * ?B"
    using mantissa_of_bounds [OF x] by simp
  also have "\<dots> \<le> x"
    using False canonical_mantissa [of x] canonical_le [of x] by simp
  finally show ?thesis .
qed (simp add: canonical_small)

lemma target_value_canonical: "target_value c = Some v \<Longrightarrow> canonical v = v"
proof -
  assume t: "target_value c = Some v"
  define m where "m = unat c mod 2 ^ 23"
  define s where "s = unat c div 2 ^ 24"
  have m: "m < 2 ^ 23" by (simp add: m_def)
  from t have v: "v = (if 3 \<le> s then m * 256 ^ (s - 3) else m div 256 ^ (3 - s))"
    unfolding target_value_def m_def [symmetric] s_def [symmetric]
    by (auto simp: Let_def split: if_splits)
  show ?thesis
  proof (cases "3 \<le> s")
    case True
    have "m * 256 ^ (s - 3) < 2 ^ (8 * (s - 3) + 23)"
      using m by (simp add: power_add two_pow_8)
    with True v have "u256_bits v \<le> 8 * (s - 3) + 23"
      by (intro u256_bits_le) simp
    then have "compact_size v - 3 \<le> s - 3"
      by (simp add: compact_size_def)
    then have "(256::nat) ^ (compact_size v - 3) dvd v"
      using True v by (simp add: le_imp_power_dvd)
    then show ?thesis
      by (simp add: canonical_def)
  next
    case False
    then have "v \<le> m" using v by simp
    with m have "v < 2 ^ 23" by simp
    then have "u256_bits v \<le> 23" by (rule u256_bits_le)
    then show ?thesis
      by (intro canonical_small) (simp add: compact_size_def)
  qed
qed

lemma to_compact_target:
  assumes "0 < x" "x < u256_limit" "to_compact x = Ok c"
  shows "target_value c = Some (canonical x)"
proof -
  let ?m = "mantissa_of x" and ?s = "compact_size x"
  have m: "0 < ?m" "?m < 2 ^ 23" and s: "?s \<le> 33"
    using mantissa_of_bounds [OF assms(1)] compact_size_le_33 [OF assms(2)] by auto
  have "c = word_of_nat (?m + ?s * 2 ^ 24)"
    using to_compact_eq [OF assms(1,2)] assms(3) by (metis outcome.inject(1))
  then have "unat c = (?m + ?s * 2 ^ 24) mod 2 ^ 32"
    by (simp only: unat_of_nat) simp
  also have "\<dots> = ?m + ?s * 2 ^ 24"
    using m s by (intro mod_less) simp
  finally have "unat c = ?m + ?s * 2 ^ 24" .
  then have u: "unat c = ?m + 2 ^ 24 * ?s" "unat c = ?m + 2 ^ 23 * (2 * ?s)"
    by simp_all
  have c: "unat c mod 2 ^ 23 = ?m" "unat c div 2 ^ 23 = 2 * ?s"
    using m unfolding u(2) mod_mult_self2 by simp_all
  have c': "unat c div 2 ^ 24 = ?s"
    using m unfolding u(1) by simp
  have v: "(if 3 \<le> ?s then ?m * 256 ^ (?s - 3) else ?m div 256 ^ (3 - ?s)) = canonical x"
    by (auto simp: canonical_mantissa canonical_small mantissa_of_small)
  show ?thesis
    unfolding target_value_def c c' v Let_def
    using canonical_pos [OF assms(1)] le_less_trans [OF canonical_le assms(2)] s by simp
qed


section \<open>Work\<close>

lemma u256_not_div: "x < u256_limit \<Longrightarrow> u256_not x div (x + 1) + 1 = u256_limit div (x + 1)"
proof -
  assume "x < u256_limit"
  then have "u256_limit = u256_not x + (x + 1)"
    by (simp add: u256_not_def)
  then have "u256_limit div (x + 1) = (u256_not x + (x + 1)) div (x + 1)"
    by simp
  also have "\<dots> = u256_not x div (x + 1) + 1"
    by (subst div_add_self2) auto
  finally show ?thesis by simp
qed

lemma work_try_from_eq:
  assumes "0 < x" "x + 1 < u256_limit"
  shows "work_try_from x = (if u256_limit div (x + 1) \<le> u128_max then Ok (u256_limit div (x + 1)) else Err ())"
proof -
  have "u256_limit div (x + 1) \<le> u256_limit div 2"
    using assms by (intro div_le_mono2) auto
  then have "u256_limit div (x + 1) < u256_limit"
    by (simp add: u256_limit_def)
  then show ?thesis
    using assms u256_not_div [of x]
    by (simp add: work_try_from_def u256_def u256_div_def)
qed

text \<open>No threshold read from a header is the largest 256-bit number.\<close>

lemma target_value_not_max: "target_value c = Some v \<Longrightarrow> v + 1 < u256_limit"
proof -
  assume t: "target_value c = Some v"
  define m where "m = unat c mod 2 ^ 23"
  define s where "s = unat c div 2 ^ 24"
  have m: "m < 2 ^ 23" by (simp add: m_def)
  from t have v: "v = (if 3 \<le> s then m * 256 ^ (s - 3) else m div 256 ^ (3 - s))"
    unfolding target_value_def m_def [symmetric] s_def [symmetric]
    by (auto simp: Let_def split: if_splits)
  show ?thesis
  proof (cases "4 \<le> s")
    case True
    then have "v = 256 * (m * 256 ^ (s - 4))"
      using v by (simp add: power_eq_if [of _ "s - 3"])
    then have "even v" by simp
    moreover have "v < u256_limit" "even u256_limit"
      using target_value_bounds [OF t] by (auto simp: u256_limit_def)
    ultimately show ?thesis
      by (metis Suc_eq_plus1 Suc_lessI even_Suc)
  next
    case False
    then have "v \<le> m" using v by (cases "s = 3") auto
    with m show ?thesis by (simp add: u256_limit_def)
  qed
qed

definition work_value :: "nat \<Rightarrow> nat option" where
  "work_value x = (if u256_limit div (x + 1) \<le> u128_max then Some (u256_limit div (x + 1)) else None)"

lemma to_work_eq [simp]: "to_work c = Ok (Option.bind (target_value c) work_value)"
proof (cases "target_value c")
  case (Some v)
  then have "0 < v" "v + 1 < u256_limit"
    using target_value_bounds [of c v] target_value_not_max [of c v] by auto
  with Some show ?thesis
    by (simp add: to_work_def work_try_from_eq work_value_def)
qed (simp add: to_work_def)

lemma expanded_sum_from_eq:
  "acc + sum_list ds < u256_limit \<Longrightarrow> expanded_sum_from acc ds = Ok (acc + sum_list ds)"
  by (induction ds arbitrary: acc) (simp_all add: u256_def add.assoc)

lemma expanded_sum_eq: "sum_list ds < u256_limit \<Longrightarrow> expanded_sum ds = Ok (sum_list ds)"
  by (simp add: expanded_sum_def expanded_sum_from_eq)


section \<open>Properties\<close>

text \<open>
  C21. encoding a non-zero 256-bit threshold never panics, and it rounds down to the best
  approximation: the decoded value is the largest value that any compact bits denote and that is
  not above the threshold, its relative error is below one in 32768, and encoding it again gives
  the same bits.
\<close>

theorem to_compact_best_approximation:
  assumes "0 < x" "x < u256_limit"
  shows "\<exists>c v. (to_compact x :: (unit, _) outcome) = Ok c \<and> to_expanded c = (Ok (Some v) :: (unit, _) outcome)
    \<and> v \<le> x \<and> (x - v) * 2 ^ 15 < x \<and> (to_compact v :: (unit, _) outcome) = Ok c
    \<and> (\<forall>c' v'. to_expanded c' = (Ok (Some v') :: (unit, _) outcome) \<and> v' \<le> x \<longrightarrow> v' \<le> v)"
proof -
  let ?v = "canonical x"
  obtain c where c: "(to_compact x :: (unit, _) outcome) = Ok c"
    using to_compact_eq [OF assms] by blast
  have v: "0 < ?v" "?v < u256_limit"
    using canonical_pos [OF assms(1)] le_less_trans [OF canonical_le assms(2)] by auto
  have "(to_compact ?v :: (unit, _) outcome) = to_compact x"
    using canonical_size [OF assms(1)] canonical_mantissa [of x] canonical_mantissa [of ?v]
      canonical_idem [OF assms(1)] canonical_small [of x]
    by (simp add: to_compact_eq assms v) (metis mantissa_of_def mantissa_of_large mult_cancel2
        nle_le power_eq_0_iff zero_neq_numeral)
  moreover have "v' \<le> ?v" if "target_value c' = Some v'" "v' \<le> x" for c' v'
    using that canonical_mono [of v' x] target_value_canonical [of c' v'] target_value_bounds [of c' v']
    by simp
  ultimately show ?thesis
    using c to_compact_target [OF assms c] canonical_le [of x] canonical_error [OF assms(1)]
    by (intro exI [of _ c] exI [of _ ?v]) auto
qed

theorem to_compact_best_approximation_witness:
  "(0::nat) < 2 ^ 243 - 1 \<and> 2 ^ 243 - 1 < u256_limit
    \<and> (\<exists>c v. (to_compact (2 ^ 243 - 1) :: (unit, _) outcome) = Ok c
        \<and> to_expanded c = (Ok (Some v) :: (unit, _) outcome) \<and> v \<le> 2 ^ 243 - 1)"
proof -
  have h: "(0::nat) < 2 ^ 243 - 1" "2 ^ 243 - 1 < u256_limit"
    by (simp_all add: u256_limit_def)
  with to_compact_best_approximation [OF h] show ?thesis
    by blast
qed

text \<open>
  Decoding never panics, and a threshold that some header bits denote survives the
  conversions exactly: encoding it and decoding the result gives the same threshold, although
  the bits may differ from the header's.
\<close>

theorem header_threshold_stable:
  "(to_expanded c :: (unit, _) outcome) \<noteq> Panic
    \<and> (to_expanded c = (Ok (Some v) :: (unit, _) outcome) \<longrightarrow>
        (\<exists>c'. (to_compact v :: (unit, _) outcome) = Ok c'
          \<and> to_expanded c' = (Ok (Some v) :: (unit, _) outcome)))"
proof (intro conjI impI)
  assume "to_expanded c = (Ok (Some v) :: (unit, _) outcome)"
  then have t: "target_value c = Some v" by simp
  then have b: "0 < v" "v < u256_limit"
    using target_value_bounds by auto
  then obtain c' where c': "(to_compact v :: (unit, _) outcome) = Ok c'"
    using to_compact_eq by blast
  with to_compact_target [OF b c'] target_value_canonical [OF t]
  show "\<exists>c'. (to_compact v :: (unit, _) outcome) = Ok c'
      \<and> to_expanded c' = (Ok (Some v) :: (unit, _) outcome)"
    by simp
qed simp

theorem header_threshold_stable_witness:
  "to_expanded 0x04123456 = (Ok (Some 0x12345600) :: (unit, _) outcome)
    \<and> (\<exists>c'. (to_compact 0x12345600 :: (unit, _) outcome) = Ok c'
        \<and> to_expanded c' = (Ok (Some 0x12345600) :: (unit, _) outcome))"
proof -
  have t: "to_expanded 0x04123456 = (Ok (Some 0x12345600) :: (unit, _) outcome)"
    by (simp add: target_value_def u256_limit_def)
  with header_threshold_stable [of "0x04123456" "0x12345600"] show ?thesis
    by blast
qed

text \<open>
  C35. the work of a block is \<open>2\<^sup>2\<^sup>5\<^sup>6\<close> divided by the threshold plus one, rounded down, whenever
  that fits in 128 bits; the computation never panics, a lower threshold is never less work, and
  removing a block's work from a chain undoes adding it.
\<close>

theorem work_exact:
  "(to_work c :: (unit, _) outcome) \<noteq> Panic
    \<and> (to_work c = (Ok (Some w) :: (unit, _) outcome) \<longleftrightarrow>
        (\<exists>v. to_expanded c = (Ok (Some v) :: (unit, _) outcome)
          \<and> w = 2 ^ 256 div (v + 1) \<and> w < 2 ^ 128))
    \<and> (to_work c = (Ok (Some w) :: (unit, _) outcome)
        \<and> to_work c' = (Ok (Some w') :: (unit, _) outcome)
        \<and> to_expanded c = (Ok (Some v) :: (unit, _) outcome)
        \<and> to_expanded c' = (Ok (Some v') :: (unit, _) outcome) \<and> v \<le> v' \<longrightarrow> w' \<le> w)
    \<and> (cumulative_add t w = (Ok t' :: (unit, _) outcome) \<longrightarrow> cumulative_sub t' w = (Ok t :: (unit, _) outcome))"
proof -
  have "Option.bind (target_value c) work_value = Some w \<longleftrightarrow>
      (\<exists>v. target_value c = Some v \<and> w = 2 ^ 256 div (v + 1) \<and> w < 2 ^ 128)" for c w
    by (auto simp: work_value_def u256_limit_def u128_max_def bind_eq_Some_conv split: if_splits)
  moreover have "v \<le> v' \<Longrightarrow> (2::nat) ^ 256 div (v' + 1) \<le> 2 ^ 256 div (v + 1)" for v v'
    by (intro div_le_mono2) auto
  ultimately show ?thesis
    by (auto simp: cumulative_add_def cumulative_sub_def split: if_splits)
qed

theorem work_exact_witness:
  "to_work 0x1f07ffff = (Ok (Some 8192) :: (unit, _) outcome)
    \<and> cumulative_add 5 8192 = (Ok 8197 :: (unit, _) outcome)
    \<and> cumulative_sub 8197 8192 = (Ok 5 :: (unit, _) outcome)"
proof -
  have t: "target_value 0x1f07ffff = Some (0x07ffff * 256 ^ 28)"
    by (simp add: target_value_def u256_limit_def)
  have a: "cumulative_add 5 8192 = (Ok 8197 :: (unit, _) outcome)"
    by (simp add: cumulative_add_def u128_max_def)
  have "to_work 0x1f07ffff = (Ok (Some 8192) :: (unit, _) outcome)"
    by (simp add: t work_value_def u256_limit_def u128_max_def)
  with a work_exact [of "0x1f07ffff" 8192 0 0 0 0 5 8197] show ?thesis
    by simp
qed

end
