(* ===== verification/Ordered_Map.thy ===== *)
theory Ordered_Map
  imports Wolf_Prelude
begin

text \<open>
  \<^verbatim>\<open>BTreeMap\<close> as the list of its entries in key order.  The locale \<open>key_value_map\<close> is what the
  code that fills a map relies on: a lookup sees the last insertion of its key.  The facts about
  building a map from an iterator (\<^verbatim>\<open>collect\<close>, \<^verbatim>\<open>extend\<close>) are proved once in the locale; the
  sorted list is its implementation, and has range queries and \<^verbatim>\<open>split_off\<close> besides.
\<close>

section \<open>The interface\<close>

locale key_value_map =
  fixes insert :: "'k \<Rightarrow> 'v \<Rightarrow> 'm \<Rightarrow> 'm"
    and get :: "'m \<Rightarrow> 'k \<Rightarrow> 'v option"
    and invar :: "'m \<Rightarrow> bool"
  assumes get_insert: "invar m \<Longrightarrow> get (insert k v m) = (get m)(k \<mapsto> v)"
    and invar_insert: "invar m \<Longrightarrow> invar (insert k v m)"
begin

definition extend :: "('k \<times> 'v) list \<Rightarrow> 'm \<Rightarrow> 'm" where
  "extend xs m = fold (\<lambda>(k, v). insert k v) xs m"

lemma extend_Nil [simp]: "extend [] m = m"
  by (simp add: extend_def)

lemma extend_Cons [simp]: "extend ((k, v) # xs) m = extend xs (insert k v m)"
  by (simp add: extend_def)

lemma invar_extend: "invar m \<Longrightarrow> invar (extend xs m)"
  by (induction xs arbitrary: m) (auto simp: invar_insert)

lemma get_extend: "invar m \<Longrightarrow> get (extend xs m) = get m ++ map_of (rev xs)"
proof (induction xs arbitrary: m)
  case (Cons x xs)
  obtain k v where x: "x = (k, v)" by fastforce
  have "get (extend xs (insert k v m)) = (get m)(k \<mapsto> v) ++ map_of (rev xs)"
    using Cons by (simp add: get_insert invar_insert fun_upd_def)
  then show ?case
    by (simp add: x map_add_def fun_eq_iff split: option.split)
qed simp

lemma get_extend_in:
  "invar m \<Longrightarrow> get (extend xs m) k = Some v \<Longrightarrow> (k, v) \<in> set xs \<or> get m k = Some v"
  by (auto simp: get_extend map_add_Some_iff dest: map_of_SomeD)

end

section \<open>Sorted association lists\<close>

type_synonym ('k, 'v) btree_map = "('k \<times> 'v) list"

fun bt_insert :: "'k::linorder \<Rightarrow> 'v \<Rightarrow> ('k, 'v) btree_map \<Rightarrow> ('k, 'v) btree_map" where
  "bt_insert k v [] = [(k, v)]"
| "bt_insert k v ((k', v') # m) =
     (if k < k' then (k, v) # (k', v') # m
      else if k = k' then (k, v) # m
      else (k', v') # bt_insert k v m)"

definition bt_extend :: "('k::linorder \<times> 'v) list \<Rightarrow> ('k, 'v) btree_map \<Rightarrow> ('k, 'v) btree_map" where
  "bt_extend xs m = fold (\<lambda>(k, v). bt_insert k v) xs m"

text \<open>What \<^verbatim>\<open>split_off\<close> leaves in the map, and the range up to a key.\<close>

definition bt_split_off :: "'k::linorder \<Rightarrow> ('k, 'v) btree_map \<Rightarrow> ('k, 'v) btree_map" where
  "bt_split_off k m = filter (\<lambda>(k', _). k' < k) m"

definition bt_range_to :: "'k::linorder \<Rightarrow> ('k, 'v) btree_map \<Rightarrow> ('k, 'v) btree_map" where
  "bt_range_to k m = filter (\<lambda>(k', _). k' \<le> k) m"

definition sorted_keys :: "('k::linorder, 'v) btree_map \<Rightarrow> bool" where
  "sorted_keys m \<longleftrightarrow> sorted_wrt (<) (map fst m)"

lemma fst_set_bt_insert [simp]: "fst ` set (bt_insert k v m) = Set.insert k (fst ` set m)"
  by (induction k v m rule: bt_insert.induct) auto

lemma sorted_keys_simps [simp]:
  "sorted_keys []"
  "sorted_keys (x # m) \<longleftrightarrow> (\<forall>k \<in> fst ` set m. fst x < k) \<and> sorted_keys m"
  by (auto simp: sorted_keys_def)

lemma sorted_keys_insert: "sorted_keys m \<Longrightarrow> sorted_keys (bt_insert k v m)"
  by (induction k v m rule: bt_insert.induct) (auto simp del: image_iff)

lemma sorted_keys_distinct: "sorted_keys m \<Longrightarrow> distinct (map fst m)"
  by (induction m) auto

lemma bt_get_insert: "sorted_keys m \<Longrightarrow> map_of (bt_insert k v m) = (map_of m)(k \<mapsto> v)"
  by (induction k v m rule: bt_insert.induct) (auto simp: fun_eq_iff)

interpretation btree: key_value_map bt_insert map_of sorted_keys
  by unfold_locales (simp_all add: bt_get_insert sorted_keys_insert)

lemma bt_extend_eq: "bt_extend xs m = btree.extend xs m"
  by (simp add: bt_extend_def btree.extend_def)

lemma set_bt_map: "sorted_keys m \<Longrightarrow> (k, v) \<in> set m \<longleftrightarrow> map_of m k = Some v"
  by (metis map_of_SomeD map_of_is_SomeI sorted_keys_distinct)

lemma sorted_keys_filter: "sorted_keys m \<Longrightarrow> sorted_keys (filter P m)"
  by (induction m) auto

lemma sorted_keys_append:
  "sorted_keys (m @ n) \<longleftrightarrow> sorted_keys m \<and> sorted_keys n
    \<and> (\<forall>k \<in> fst ` set m. \<forall>k' \<in> fst ` set n. k < k')"
  by (induction m) auto

text \<open>Extending with larger keys in order appends them.\<close>

lemma bt_insert_last: "sorted_keys m \<Longrightarrow> \<forall>k' \<in> fst ` set m. k' < k \<Longrightarrow> bt_insert k v m = m @ [(k, v)]"
  by (induction k v m rule: bt_insert.induct) auto

lemma bt_extend_append:
  "sorted_keys (m @ n) \<Longrightarrow> bt_extend n m = m @ n"
proof (induction n arbitrary: m)
  case (Cons x n)
  obtain k v where x: "x = (k, v)" by fastforce
  have "bt_insert k v m = m @ [(k, v)]"
    using Cons.prems by (intro bt_insert_last) (auto simp: x sorted_keys_append)
  with Cons x show ?case
    by (simp add: bt_extend_def)
qed (simp add: bt_extend_def)

text \<open>\<^verbatim>\<open>remove\<close>, \<^verbatim>\<open>last_key_value\<close>, and the fact that the entries determine the map.\<close>

definition bt_remove :: "'k::linorder \<Rightarrow> ('k, 'v) btree_map \<Rightarrow> ('k, 'v) btree_map" where
  "bt_remove k m = filter (\<lambda>(k', _). k' \<noteq> k) m"

definition bt_last :: "('k, 'v) btree_map \<Rightarrow> ('k \<times> 'v) option" where
  "bt_last m = (if m = [] then None else Some (last m))"

lemma bt_remove_simps [simp]:
  "bt_remove k [] = []"
  "bt_remove k (x # m) = (if fst x = k then bt_remove k m else x # bt_remove k m)"
  "bt_remove k (m @ n) = bt_remove k m @ bt_remove k n"
  by (auto simp: bt_remove_def split: prod.splits)

lemma bt_remove_absent: "k \<notin> fst ` set m \<Longrightarrow> bt_remove k m = m"
  by (induction m) auto

lemma sorted_keys_remove: "sorted_keys m \<Longrightarrow> sorted_keys (bt_remove k m)"
  by (simp add: bt_remove_def sorted_keys_filter)

lemma bt_get_remove: "map_of (bt_remove k m) = (map_of m)(k := None)"
  by (induction m) (auto simp: fun_eq_iff)

lemma bt_eqI: "sorted_keys m \<Longrightarrow> sorted_keys n \<Longrightarrow> map_of m = map_of n \<Longrightarrow> m = n"
proof -
  assume mn: "sorted_keys m" "sorted_keys n" "map_of m = map_of n"
  have "set m = set n"
    using mn by (metis (no_types) set_bt_map subrelI subset_antisym)
  moreover have "sorted_wrt (\<lambda>x y. fst x < fst y) m" "sorted_wrt (\<lambda>x y. fst x < fst y) n"
    using mn by (simp_all add: sorted_keys_def sorted_wrt_map)
  ultimately show "m = n"
  proof (induction m arbitrary: n)
    case (Cons x m)
    then obtain y n' where n: "n = y # n'" by (cases n) auto
    have "x = y"
    proof (rule ccontr)
      assume "x \<noteq> y"
      with Cons.prems(1) n have "x \<in> set n'" "y \<in> set m" by auto
      with Cons.prems(2,3) n have "fst y < fst x" "fst x < fst y" by auto
      then show False by simp
    qed
    moreover have "x \<notin> set m" "y \<notin> set n'" using Cons.prems(2,3) n by auto
    ultimately have "set m = set n'" using Cons.prems(1) n by auto
    with Cons \<open>x = y\<close> n show ?case by simp
  qed simp
qed

end
