(* ===== verification/Upgrades.thy ===== *)
theory Upgrades
  imports Ordered_Map
begin

text \<open>
  Block heights (\<^verbatim>\<open>zebra-chain/src/block/height.rs\<close>) and the schedule of network upgrades
  (\<^verbatim>\<open>zebra-chain/src/parameters/network_upgrade.rs\<close>).

  A height is the \<^verbatim>\<open>u32\<close> inside \<^verbatim>\<open>Height\<close>, a height difference is an \<^verbatim>\<open>i64\<close>.  The activation list
  of a network is a \<^verbatim>\<open>BTreeMap\<close>; an upgrade that has no entry is active from the entry of the
  next upgrade that has one.  \<open>schedule_ok\<close> is what the lists of the source and the builder of
  configured networks guarantee: heights and upgrades increase together from \<^verbatim>\<open>Genesis\<close> at zero.
\<close>

section \<open>Heights\<close>

type_synonym height = nat
type_synonym height_diff = int

definition HEIGHT_MIN :: height where "HEIGHT_MIN = 0"
definition HEIGHT_MAX :: height where "HEIGHT_MAX = u32_max div 2"
definition MAX_EXPIRY_HEIGHT :: height where "MAX_EXPIRY_HEIGHT = 499999999"

datatype height_error = Overflow | Underflow

definition height_try_from_u32 :: "nat \<Rightarrow> height option" where
  "height_try_from_u32 n = (if n \<le> HEIGHT_MAX then Some n else None)"

definition height_try_from_i64 :: "int \<Rightarrow> height option" where
  "height_try_from_i64 x = u32_try_from x"

definition height_difference :: "height \<Rightarrow> height \<Rightarrow> height_diff" where
  "height_difference a b = int a - int b"

definition height_sub :: "height \<Rightarrow> height_diff \<Rightarrow> height option" where
  "height_sub h d = Option.bind (u32_try_from (int h - d)) height_try_from_u32"

definition height_add :: "height \<Rightarrow> height_diff \<Rightarrow> height option" where
  "height_add h d = Option.bind (u32_try_from (int h + d)) height_try_from_u32"

definition height_next :: "height \<Rightarrow> (height_error, height) outcome" where
  "height_next h = ok_or (height_add h 1) Overflow"

definition height_previous :: "height \<Rightarrow> (height_error, height) outcome" where
  "height_previous h = ok_or (height_sub h 1) Underflow"

definition height_is_min :: "height \<Rightarrow> bool" where
  "height_is_min h \<longleftrightarrow> h = HEIGHT_MIN"

section \<open>Network upgrades\<close>

datatype network_upgrade = Genesis | BeforeOverwinter | Overwinter | Sapling | Blossom | Heartwood
  | Canopy | Nu5 | Nu6 | Nu6_1 | Nu6_2 | Nu6_3 | Nu7

definition upgrade_iter :: "network_upgrade list" where
  "upgrade_iter = [Genesis, BeforeOverwinter, Overwinter, Sapling, Blossom, Heartwood, Canopy,
     Nu5, Nu6, Nu6_1, Nu6_2, Nu6_3, Nu7]"

text \<open>The derived order of the enum is the order of its variants.\<close>

fun upgrade_index :: "network_upgrade \<Rightarrow> nat" where
  "upgrade_index Genesis = 0"
| "upgrade_index BeforeOverwinter = 1"
| "upgrade_index Overwinter = 2"
| "upgrade_index Sapling = 3"
| "upgrade_index Blossom = 4"
| "upgrade_index Heartwood = 5"
| "upgrade_index Canopy = 6"
| "upgrade_index Nu5 = 7"
| "upgrade_index Nu6 = 8"
| "upgrade_index Nu6_1 = 9"
| "upgrade_index Nu6_2 = 10"
| "upgrade_index Nu6_3 = 11"
| "upgrade_index Nu7 = 12"

lemma upgrade_index_inj: "upgrade_index a = upgrade_index b \<Longrightarrow> a = b"
  by (cases a; cases b; simp)

instantiation network_upgrade :: linorder
begin

definition less_eq_network_upgrade :: "network_upgrade \<Rightarrow> network_upgrade \<Rightarrow> bool" where
  "less_eq_network_upgrade a b \<longleftrightarrow> upgrade_index a \<le> upgrade_index b"

definition less_network_upgrade :: "network_upgrade \<Rightarrow> network_upgrade \<Rightarrow> bool" where
  "less_network_upgrade a b \<longleftrightarrow> upgrade_index a < upgrade_index b"

instance
  by standard (auto simp: less_eq_network_upgrade_def less_network_upgrade_def intro: upgrade_index_inj)

end

definition next_upgrade :: "network_upgrade \<Rightarrow> network_upgrade option" where
  "next_upgrade nu = (case dropWhile (\<lambda>x. nu \<noteq> x) upgrade_iter of _ # y # _ \<Rightarrow> Some y | _ \<Rightarrow> None)"

definition previous_upgrade :: "network_upgrade \<Rightarrow> network_upgrade option" where
  "previous_upgrade nu =
     (case dropWhile (\<lambda>x. nu \<noteq> x) (rev upgrade_iter) of _ # y # _ \<Rightarrow> Some y | _ \<Rightarrow> None)"

section \<open>The activation schedule\<close>

type_synonym activation_list = "(height, network_upgrade) btree_map"

definition MAINNET_ACTIVATION_HEIGHTS :: "(height \<times> network_upgrade) list" where
  "MAINNET_ACTIVATION_HEIGHTS = [(0, Genesis), (1, BeforeOverwinter), (347500, Overwinter),
     (419200, Sapling), (653600, Blossom), (903000, Heartwood), (1046400, Canopy), (1687104, Nu5),
     (2726400, Nu6), (3146400, Nu6_1), (3364600, Nu6_2), (3428143, Nu6_3)]"

definition TESTNET_ACTIVATION_HEIGHTS :: "(height \<times> network_upgrade) list" where
  "TESTNET_ACTIVATION_HEIGHTS = [(0, Genesis), (1, BeforeOverwinter), (207500, Overwinter),
     (280000, Sapling), (584000, Blossom), (903800, Heartwood), (1028500, Canopy), (1842420, Nu5),
     (2976000, Nu6), (3536500, Nu6_1), (4052000, Nu6_2), (4134000, Nu6_3)]"

definition current_with_activation_height ::
  "activation_list \<Rightarrow> height \<Rightarrow> ('e, network_upgrade \<times> height) outcome" where
  "current_with_activation_height al h =
     expect (case rev (bt_range_to h al) of [] \<Rightarrow> None | (h', nu) # _ \<Rightarrow> Some (nu, h'))"

definition current_upgrade :: "activation_list \<Rightarrow> height \<Rightarrow> ('e, network_upgrade) outcome" where
  "current_upgrade al h =
     expect (case rev (bt_range_to h al) of [] \<Rightarrow> None | (_, nu) # _ \<Rightarrow> Some nu)"

lemma next_upgrade_index:
  "next_upgrade nu = (if nu = Nu7 then None else Some (upgrade_iter ! Suc (upgrade_index nu)))"
  by (cases nu) (simp_all add: next_upgrade_def upgrade_iter_def)

lemma next_upgrade_less: "next_upgrade nu = Some nu' \<Longrightarrow> upgrade_index nu' = Suc (upgrade_index nu)"
  by (cases nu) (auto simp: next_upgrade_def upgrade_iter_def)

function activation_height :: "activation_list \<Rightarrow> network_upgrade \<Rightarrow> height option" where
  "activation_height al nu =
     (case find (\<lambda>(_, nu'). nu' = nu) al of
        Some (h, _) \<Rightarrow> Some h
      | None \<Rightarrow>
          (case next_upgrade nu of
             None \<Rightarrow> None
           | Some nu' \<Rightarrow> activation_height al nu'))"
  by pat_completeness auto

termination activation_height
proof (relation "measure (\<lambda>(al, nu). 13 - upgrade_index nu)")
  fix al :: activation_list and nu nu'
  assume "next_upgrade nu = Some nu'"
  moreover have "upgrade_index nu' < 13" by (cases nu') simp_all
  ultimately show "((al, nu'), al, nu) \<in> measure (\<lambda>(al, nu). 13 - upgrade_index nu)"
    using next_upgrade_less [of nu nu'] by simp
qed simp

declare activation_height.simps [simp del]

definition is_activation_height :: "activation_list \<Rightarrow> height \<Rightarrow> bool" where
  "is_activation_height al h \<longleftrightarrow> map_of al h \<noteq> None"

definition full_activation_list :: "activation_list \<Rightarrow> (height \<times> network_upgrade) list" where
  "full_activation_list al =
     List.map_filter (\<lambda>nu. map_option (\<lambda>h. (h, nu)) (activation_height al nu)) upgrade_iter"

section \<open>Target spacing and the minimum difficulty rule\<close>

definition PRE_BLOSSOM_POW_TARGET_SPACING :: int where "PRE_BLOSSOM_POW_TARGET_SPACING = 150"
definition POST_BLOSSOM_POW_TARGET_SPACING :: int where "POST_BLOSSOM_POW_TARGET_SPACING = 75"
definition POW_AVERAGING_WINDOW :: nat where "POW_AVERAGING_WINDOW = 17"
definition TESTNET_MINIMUM_DIFFICULTY_GAP_MULTIPLIER :: int where
  "TESTNET_MINIMUM_DIFFICULTY_GAP_MULTIPLIER = 6"
definition TESTNET_MAX_TIME_START_HEIGHT :: height where "TESTNET_MAX_TIME_START_HEIGHT = 653606"

text \<open>Durations are in seconds.\<close>

definition target_spacing :: "network_upgrade \<Rightarrow> int" where
  "target_spacing nu =
     (if nu \<in> {Genesis, BeforeOverwinter, Overwinter, Sapling} then PRE_BLOSSOM_POW_TARGET_SPACING
      else POST_BLOSSOM_POW_TARGET_SPACING)"

definition target_spacings :: "activation_list \<Rightarrow> (height \<times> int) list" where
  "target_spacings al =
     List.map_filter (\<lambda>(nu, s). map_option (\<lambda>h. (h, s)) (activation_height al nu))
       [(Genesis, PRE_BLOSSOM_POW_TARGET_SPACING), (Blossom, POST_BLOSSOM_POW_TARGET_SPACING)]"

definition averaging_window_timespan :: "network_upgrade \<Rightarrow> int" where
  "averaging_window_timespan nu = target_spacing nu * int POW_AVERAGING_WINDOW"

section \<open>Consensus branch ids\<close>

type_synonym branch_id = "32 word"

definition CONSENSUS_BRANCH_IDS :: "(network_upgrade \<times> branch_id) list" where
  "CONSENSUS_BRANCH_IDS = [(Overwinter, 0x5ba81b19), (Sapling, 0x76b809bb), (Blossom, 0x2bb40e60),
     (Heartwood, 0xf5b9230b), (Canopy, 0xe9ff75a6), (Nu5, 0xc2d6d0b4), (Nu6, 0xc8e71055),
     (Nu6_1, 0x4dec4df0), (Nu6_2, 0x5437f330), (Nu6_3, 0x37a5165b)]"

definition WCASH_TESTNET_V1_BRANCH_ID :: branch_id where "WCASH_TESTNET_V1_BRANCH_ID = 0xb3cfd27e"
definition WCASH_TESTNET_V3_BRANCH_ID :: branch_id where "WCASH_TESTNET_V3_BRANCH_ID = 0x54ba2bfb"
definition WCASH_MAINNET_V1_BRANCH_ID :: branch_id where "WCASH_MAINNET_V1_BRANCH_ID = 0xd9c6a7ee"
definition WCASH_REGTEST_V1_BRANCH_ID :: branch_id where "WCASH_REGTEST_V1_BRANCH_ID = 0xc3a6678a"

datatype chain_error = InvalidConsensusBranchId

definition upgrade_branch_id :: "network_upgrade \<Rightarrow> branch_id option" where
  "upgrade_branch_id nu = map_of CONSENSUS_BRANCH_IDS nu"

definition upgrade_try_from :: "branch_id \<Rightarrow> (chain_error, network_upgrade) outcome" where
  "upgrade_try_from b =
     (if b \<in> set [WCASH_TESTNET_V1_BRANCH_ID, WCASH_TESTNET_V3_BRANCH_ID,
                  WCASH_MAINNET_V1_BRANCH_ID, WCASH_REGTEST_V1_BRANCH_ID]
      then Ok Nu6_3
      else ok_or (map_option fst (find (\<lambda>(_, b'). b' = b) CONSENSUS_BRANCH_IDS))
             InvalidConsensusBranchId)"

section \<open>Facts about heights\<close>

lemma height_add_eq: "height_add h d =
    (if 0 \<le> int h + d \<and> int h + d \<le> int HEIGHT_MAX then Some (nat (int h + d)) else None)"
  by (auto simp: height_add_def u32_try_from_def height_try_from_u32_def HEIGHT_MAX_def u32_max_def)

lemma height_sub_eq: "height_sub h d =
    (if 0 \<le> int h - d \<and> int h - d \<le> int HEIGHT_MAX then Some (nat (int h - d)) else None)"
  by (auto simp: height_sub_def u32_try_from_def height_try_from_u32_def HEIGHT_MAX_def u32_max_def)

lemma height_next_eq: "height_next h = (if h < HEIGHT_MAX then Ok (h + 1) else Err Overflow)"
  by (auto simp: height_next_def height_add_eq)

lemma height_previous_eq:
  "h \<le> HEIGHT_MAX \<Longrightarrow> height_previous h = (if 0 < h then Ok (h - 1) else Err Underflow)"
  by (auto simp: height_previous_def height_sub_eq)

section \<open>Well-formed schedules\<close>

definition schedule_ok :: "activation_list \<Rightarrow> bool" where
  "schedule_ok al \<longleftrightarrow> sorted_keys al \<and> sorted_wrt (<) (map snd al) \<and> al \<noteq> [] \<and> hd al = (0, Genesis)"

lemma schedule_ok_mainnet: "schedule_ok MAINNET_ACTIVATION_HEIGHTS"
  by (simp add: schedule_ok_def MAINNET_ACTIVATION_HEIGHTS_def less_network_upgrade_def)

lemma schedule_ok_testnet: "schedule_ok TESTNET_ACTIVATION_HEIGHTS"
  by (simp add: schedule_ok_def TESTNET_ACTIVATION_HEIGHTS_def less_network_upgrade_def)


lemma find_sorted_upgrade:
  "sorted_wrt (<) (map snd al) \<Longrightarrow> find (\<lambda>(_, n). n = (nu :: network_upgrade)) al = Some x \<Longrightarrow>
    find (\<lambda>(_, n). nu \<le> n) al = Some x"
proof (induction al)
  case (Cons y al)
  obtain k n where y: "y = (k, n)" by fastforce
  show ?case
  proof (cases "n = nu")
    case False
    with Cons.prems have f: "find (\<lambda>(_, n). n = nu) al = Some x"
      by (simp add: y)
    then have "snd x = nu" "x \<in> set al"
      by (auto dest: find_SomeD)
    with Cons.prems have "n < nu" by (auto simp: y)
    then have "\<not> nu \<le> n" by (simp add: not_le)
    with f Cons show ?thesis by (simp add: y)
  qed (use Cons y in auto)
qed simp

lemma Nu7_greatest: "Nu7 \<le> n \<Longrightarrow> n = Nu7"
  by (cases n) (simp_all add: less_eq_network_upgrade_def)

text \<open>An upgrade without an entry is active from the next entry on.\<close>

lemma activation_height_eq:
  assumes "sorted_wrt (<) (map snd al)"
  shows "activation_height al nu = map_option fst (find (\<lambda>(_, n). nu \<le> n) al)"
  using assms
proof (induction al nu rule: activation_height.induct)
  case (1 al nu)
  show ?case
  proof (cases "find (\<lambda>(_, n). n = nu) al")
    case not_listed: None
    have no: "snd x \<noteq> nu" if "x \<in> set al" for x
      using not_listed that by (cases x) (auto simp: find_None_iff)
    show ?thesis
    proof (cases "next_upgrade nu")
      case None
      then have "nu = Nu7" by (auto simp: next_upgrade_index split: if_splits)
      then have "find (\<lambda>(_, n). nu \<le> n) al = None"
        using no Nu7_greatest by (force simp: find_None_iff)
      with None not_listed show ?thesis
        by (simp add: activation_height.simps [of al nu])
    next
      case (Some nu')
      have "find (\<lambda>(_, n). nu \<le> n) al = find (\<lambda>(_, n). nu' \<le> n) al"
        using no next_upgrade_less [OF Some]
        by (intro find_cong) (force simp: less_eq_network_upgrade_def Suc_le_eq le_less
            dest: upgrade_index_inj)+
      with Some not_listed 1 show ?thesis
        by (simp add: activation_height.simps [of al nu])
    qed
  next
    case (Some x)
    then show ?thesis
      using find_sorted_upgrade [OF 1(2) Some]
      by (cases x) (simp add: activation_height.simps [of al nu])
  qed
qed

lemma bt_range_to_takeWhile: "sorted_keys al \<Longrightarrow> bt_range_to h al = takeWhile (\<lambda>(k, _). k \<le> h) al"
proof (induction al)
  case (Cons x al)
  have "filter (\<lambda>(k, _). k \<le> h) al = []" if "\<not> fst x \<le> h"
    using Cons.prems that by (auto simp: filter_empty_conv)
  with Cons show ?case
    by (auto simp: bt_range_to_def case_prod_beta)
qed (simp add: bt_range_to_def)

lemma current_upgrade_split:
  assumes "schedule_ok al"
  obtains pre post where "al = pre @ post" "pre \<noteq> []" "current_upgrade al h = Ok (snd (last pre))"
    "\<forall>(k, _) \<in> set pre. k \<le> h" "\<forall>(k, _) \<in> set post. h < k"
proof
  let ?P = "\<lambda>(k, _). k \<le> h"
  let ?pre = "takeWhile ?P al" and ?post = "dropWhile ?P al"
  from assms have so: "sorted_keys al" and ne: "al \<noteq> []" "hd al = (0, Genesis)"
    by (auto simp: schedule_ok_def)
  show "al = ?pre @ ?post" by simp
  show pre: "?pre \<noteq> []" using ne by (cases al) auto
  show "current_upgrade al h = Ok (snd (last ?pre))"
    using pre by (cases ?pre rule: rev_cases)
      (auto simp: current_upgrade_def bt_range_to_takeWhile [OF so])
  show "\<forall>(k, _) \<in> set ?pre. k \<le> h"
    by (auto dest: set_takeWhileD)
  show "\<forall>(k, _) \<in> set ?post. h < k"
  proof (cases ?post)
    case (Cons y ys)
    then have y: "\<not> ?P y" by (metis dropWhile_eq_Cons_conv)
    have "sorted_keys ?post"
      using so by (metis sorted_keys_append takeWhile_dropWhile_id)
    with y Cons show ?thesis by (auto simp: case_prod_beta)
  next
    case Nil
    then show ?thesis by (simp only: list.set ball_empty)
  qed
qed

lemma sorted_wrt_last: "sorted_wrt (<) xs \<Longrightarrow> x \<in> set xs \<Longrightarrow> x \<le> last (xs :: network_upgrade list)"
  by (induction xs) (auto intro: less_imp_le)

lemma schedule_current_iff:
  assumes ok: "schedule_ok al"
  shows "\<exists>nu. current_upgrade al h = (Ok nu :: ('e, network_upgrade) outcome)
    \<and> (\<forall>nu'. nu' \<le> nu \<longleftrightarrow> (\<exists>a. activation_height al nu' = Some a \<and> a \<le> h))"
proof -
  from ok have so: "sorted_wrt (<) (map snd al)" by (simp add: schedule_ok_def)
  obtain pre post where al: "al = pre @ post" and pre: "pre \<noteq> []"
    and cur: "current_upgrade al h = (Ok (snd (last pre)) :: ('e, network_upgrade) outcome)"
    and lo: "\<forall>(k, _) \<in> set pre. k \<le> h" and hi: "\<forall>(k, _) \<in> set post. h < k"
    using current_upgrade_split [OF ok] by blast
  have "nu' \<le> snd (last pre) \<longleftrightarrow> (\<exists>a. activation_height al nu' = Some a \<and> a \<le> h)" for nu'
  proof
    assume le: "nu' \<le> snd (last pre)"
    have "find (\<lambda>(_, n). nu' \<le> n) pre \<noteq> None"
      using le last_in_set [OF pre] by (cases "last pre") (auto simp: find_None_iff)
    then obtain x where x: "find (\<lambda>(_, n). nu' \<le> n) pre = Some x" by auto
    then have "x \<in> set pre" by (auto dest: find_SomeD)
    moreover have "find (\<lambda>(_, n). nu' \<le> n) al = Some x"
      using x unfolding al by (induction pre) (auto split: if_splits)
    ultimately show "\<exists>a. activation_height al nu' = Some a \<and> a \<le> h"
      using lo by (auto simp: activation_height_eq [OF so])
  next
    assume "\<exists>a. activation_height al nu' = Some a \<and> a \<le> h"
    then obtain a n where f: "find (\<lambda>(_, n). nu' \<le> n) al = Some (a, n)" and "a \<le> h"
      by (auto simp: activation_height_eq [OF so])
    then have "(a, n) \<in> set al" "nu' \<le> n"
      by (auto dest: find_SomeD)
    with \<open>a \<le> h\<close> hi have "(a, n) \<in> set pre" by (auto simp: al)
    then have "n \<le> last (map snd pre)"
      using so by (intro sorted_wrt_last) (force simp: al sorted_wrt_append)+
    with \<open>nu' \<le> n\<close> pre show "nu' \<le> snd (last pre)" by (simp add: last_map)
  qed
  with cur show ?thesis by blast
qed


section \<open>Properties\<close>

text \<open>
  C34. on a well-formed schedule every height has a current upgrade, so the \<^verbatim>\<open>expect\<close> never
  fires, and the two views of the schedule agree: an upgrade is at or before the current one
  exactly when its activation height, explicit or implied by a later upgrade, has been reached.
\<close>

theorem current_upgrade_iff_activated:
  assumes "schedule_ok al"
  shows "\<exists>nu. current_upgrade al h = (Ok nu :: (unit, network_upgrade) outcome)
    \<and> (\<forall>nu'. nu' \<le> nu \<longleftrightarrow> (\<exists>a. activation_height al nu' = Some a \<and> a \<le> h))"
  using assms by (rule schedule_current_iff)

theorem current_upgrade_iff_activated_witness:
  "schedule_ok [(0, Genesis), (1, Nu6_3)]
    \<and> current_upgrade [(0, Genesis), (1, Nu6_3)] 5 = (Ok Nu6_3 :: (unit, network_upgrade) outcome)
    \<and> (\<exists>a. activation_height [(0, Genesis), (1, Nu6_3)] Canopy = Some a \<and> a \<le> 5)"
proof -
  have ok: "schedule_ok [(0, Genesis), (1, Nu6_3)]"
    by (simp add: schedule_ok_def less_network_upgrade_def)
  have cur: "current_upgrade [(0, Genesis), (1, Nu6_3)] 5 = (Ok Nu6_3 :: (unit, network_upgrade) outcome)"
    by (simp add: current_upgrade_def bt_range_to_def)
  have "Canopy \<le> Nu6_3"
    by (simp add: less_eq_network_upgrade_def)
  with ok cur current_upgrade_iff_activated [OF ok, of 5] show ?thesis
    by auto
qed

end
