(* ===== verification/Checkpoint_List.thy ===== *)
theory Checkpoint_List
  imports Upgrades
begin

text \<open>
  Block hashes in text form (\<^verbatim>\<open>zebra-chain/src/block/hash.rs\<close>), heights in text form (\<^verbatim>\<open>block/height.rs\<close>)
  and the lists of checkpoints (\<^verbatim>\<open>zebra-chain/src/parameters/checkpoint/list.rs\<close>).

  A hash is shown with its bytes in reverse order, as hexadecimal digits.  The lemmas: reading a shown
  hash gives it back, and the list of the genesis checkpoint alone is accepted unless its hash is null.
\<close>

section \<open>Hexadecimal digits\<close>

definition hex_digit :: "char \<Rightarrow> nat option" where
  "hex_digit c =
     (let n = of_char c in
      if 48 \<le> n \<and> n \<le> 57 then Some (n - 48)
      else if 97 \<le> n \<and> n \<le> 102 then Some (n - 87)
      else if 65 \<le> n \<and> n \<le> 70 then Some (n - 55)
      else None)"

fun hex_bytes :: "string \<Rightarrow> bytes option" where
  "hex_bytes [] = Some []"
| "hex_bytes [_] = None"
| "hex_bytes (a # b # s) =
     Option.bind (hex_digit a) (\<lambda>x. Option.bind (hex_digit b) (\<lambda>y.
       map_option (Cons (of_nat (16 * x + y))) (hex_bytes s)))"

definition hex_char :: "nat \<Rightarrow> char" where
  "hex_char n = (if n < 10 then char_of (48 + n) else char_of (87 + n))"

definition encode_hex :: "bytes \<Rightarrow> string" where
  "encode_hex bs = concat (map (\<lambda>b. [hex_char (unat b div 16), hex_char (unat b mod 16)]) bs)"

section \<open>Block hashes and heights in text form\<close>

definition hash_from_str :: "string \<Rightarrow> bytes option" where
  "hash_from_str s = (if length s = 64 then map_option rev (hex_bytes s) else None)"

definition hash_to_string :: "bytes \<Rightarrow> string" where
  "hash_to_string h = encode_hex (rev h)"

definition decimal_digit :: "char \<Rightarrow> nat option" where
  "decimal_digit c = (let n = of_char c in if 48 \<le> n \<and> n \<le> 57 then Some (n - 48) else None)"

text \<open>\<^verbatim>\<open>u32::from_str\<close>: decimal digits after an optional plus sign.\<close>

fun digits_value :: "nat \<Rightarrow> string \<Rightarrow> nat option" where
  "digits_value acc [] = Some acc"
| "digits_value acc (c # s) = Option.bind (decimal_digit c) (\<lambda>d. Option.bind (checked_u32 (10 * acc + d)) (\<lambda>v. digits_value v s))"

definition parse_u32 :: "string \<Rightarrow> nat option" where
  "parse_u32 s =
     (let digits = (case s of c # rest \<Rightarrow> if c = CHR ''+'' then rest else s | [] \<Rightarrow> []) in
      if digits = [] then None else digits_value 0 digits)"

definition height_from_str :: "string \<Rightarrow> height option" where
  "height_from_str s = Option.bind (parse_u32 s) (\<lambda>h. if h \<le> HEIGHT_MAX then Some h else None)"

section \<open>Lists of checkpoints\<close>

datatype checkpoint_error =
    InvalidFormat | InvalidHeight | InvalidHash
  | NoGenesisCheckpoint | NoCheckpoints | DuplicateHeight | DuplicateHash | NullHash | HeightTooHigh

definition checkpoints_max_height :: "(height, bytes) btree_map \<Rightarrow> ('e, height) outcome" where
  "checkpoints_max_height m = expect (if m = [] then None else Some (fst (last m)))"

definition checkpoints_from_list :: "(height \<times> bytes) list \<Rightarrow> (checkpoint_error, (height, bytes) btree_map) outcome" where
  "checkpoints_from_list original =
     (let checkpoints = bt_extend original []; block_hashes = remdups (map snd checkpoints) in
      qbind (case checkpoints of (h, _) # _ \<Rightarrow> fail_if (h \<noteq> 0) NoGenesisCheckpoint | [] \<Rightarrow> Err NoCheckpoints) (\<lambda>_.
      qbind (fail_if (length checkpoints \<noteq> length original) DuplicateHeight) (\<lambda>_.
      qbind (fail_if (length block_hashes \<noteq> length original) DuplicateHash) (\<lambda>_.
      qbind (fail_if (replicate 32 0 \<in> set block_hashes) NullHash) (\<lambda>_.
      qbind (checkpoints_max_height checkpoints) (\<lambda>h.
      qbind (fail_if (h > HEIGHT_MAX) HeightTooHigh) (\<lambda>_.
        Ok checkpoints)))))))"

text \<open>The fields of a line between the spaces, and the lines of a text without their line ends.\<close>

fun split_at_char :: "char \<Rightarrow> string \<Rightarrow> string list" where
  "split_at_char sep [] = [[]]"
| "split_at_char sep (c # s) =
     (if c = sep then [] # split_at_char sep s
      else case split_at_char sep s of w # ws \<Rightarrow> (c # w) # ws | [] \<Rightarrow> [[c]])"

definition strip_cr :: "string \<Rightarrow> string" where
  "strip_cr s = (if s \<noteq> [] \<and> last s = CHR 0x0d then butlast s else s)"

definition str_lines :: "string \<Rightarrow> string list" where
  "str_lines s =
     (let parts = split_at_char (CHR 0x0a) s in
      map strip_cr (butlast parts) @ (if last parts = [] then [] else [last parts]))"

definition checkpoint_height_and_hash :: "string \<Rightarrow> (checkpoint_error, height \<times> bytes) outcome" where
  "checkpoint_height_and_hash checkpoint =
     (case split_at_char (CHR '' '') checkpoint of
        [h, hash] \<Rightarrow>
          qbind (ok_or (height_from_str h) InvalidHeight) (\<lambda>h.
            map_ok (Pair h) (ok_or (hash_from_str hash) InvalidHash))
      | _ \<Rightarrow> Err InvalidFormat)"

fun parse_checkpoints :: "string list \<Rightarrow> (checkpoint_error, (height \<times> bytes) list) outcome" where
  "parse_checkpoints [] = Ok []"
| "parse_checkpoints (line # ls) = qbind (checkpoint_height_and_hash line) (\<lambda>c. map_ok (Cons c) (parse_checkpoints ls))"

definition checkpoint_list_from_str :: "string \<Rightarrow> (checkpoint_error, (height, bytes) btree_map) outcome" where
  "checkpoint_list_from_str s = qbind (parse_checkpoints (str_lines s)) checkpoints_from_list"

text \<open>The hard-coded list of the Zcash test network is named and not spelled out.\<close>

datatype checkpoint_list = TESTNET_CHECKPOINT_LIST | CheckpointList "(height, bytes) btree_map"

section \<open>Facts\<close>

lemma hex_digit_hex_char: "n < 16 \<Longrightarrow> hex_digit (hex_char n) = Some n"
  by (auto simp: hex_digit_def hex_char_def Let_def)

lemma hex_bytes_encode: "hex_bytes (encode_hex bs) = Some bs"
proof (induction bs)
  case (Cons b bs)
  have "unat b < 256" using unsigned_less [of b, where ?'a = nat] by simp
  then have "unat b div 16 < 16" by (simp add: less_mult_imp_div_less)
  moreover have "(of_nat (16 * (unat b div 16) + unat b mod 16) :: byte) = b" by (simp only: mult_div_mod_eq) simp
  ultimately show ?case using Cons by (simp add: encode_hex_def hex_digit_hex_char del: of_nat_add of_nat_mult)
qed (simp add: encode_hex_def)

lemma length_encode_hex [simp]: "length (encode_hex bs) = 2 * length bs"
  by (induction bs) (simp_all add: encode_hex_def)

lemma hash_text_roundtrip: "length h = 32 \<Longrightarrow> hash_from_str (hash_to_string h) = Some h"
  by (simp add: hash_from_str_def hash_to_string_def hex_bytes_encode)

lemma checkpoints_from_list_genesis:
  "checkpoints_from_list [(0, h)] = (if h = replicate 32 0 then Err NullHash else Ok [(0, h)])"
  by (auto simp: checkpoints_from_list_def bt_extend_def fail_if_def checkpoints_max_height_def HEIGHT_MAX_def)

end
