(* ===== verification/Transparent.thy ===== *)
theory Transparent
  imports Amounts
begin

text \<open>
  Transparent addresses, their locking scripts and transaction outputs, from
  \<^verbatim>\<open>zebra-chain/src/transparent/address.rs\<close>, \<^verbatim>\<open>transparent/opcodes.rs\<close>,
  \<^verbatim>\<open>transparent.rs\<close> and the network kinds of \<^verbatim>\<open>parameters/network.rs\<close>.

  The two-byte version prefixes of Base58Check addresses are constants of the crate
  \<^verbatim>\<open>zcash_protocol\<close> and are arguments here; the Base58 text form itself is left to its library.
\<close>

datatype network_kind = Mainnet_kind | Testnet_kind | Regtest_kind

section \<open>Addresses and scripts\<close>

datatype (discs_sels) address =
    PayToScriptHash network_kind bytes
  | PayToPublicKeyHash network_kind bytes
  | Tex network_kind bytes

definition address_network_kind :: "address \<Rightarrow> network_kind" where
  "address_network_kind a =
     (case a of PayToScriptHash k _ \<Rightarrow> k | PayToPublicKeyHash k _ \<Rightarrow> k | Tex k _ \<Rightarrow> k)"

definition is_script_hash :: "address \<Rightarrow> bool" where
  "is_script_hash a = (case a of PayToScriptHash _ _ \<Rightarrow> True | _ \<Rightarrow> False)"

definition hash_bytes :: "address \<Rightarrow> bytes" where
  "hash_bytes a = (case a of PayToScriptHash _ h \<Rightarrow> h | PayToPublicKeyHash _ h \<Rightarrow> h | Tex _ h \<Rightarrow> h)"

datatype op_code = Equal | Hash160 | Push20Bytes | Dup | EqualVerify | CheckSig

fun op_byte :: "op_code \<Rightarrow> 8 word" where
  "op_byte Equal = 0x87"
| "op_byte Hash160 = 0xa9"
| "op_byte Push20Bytes = 0x14"
| "op_byte Dup = 0x76"
| "op_byte EqualVerify = 0x88"
| "op_byte CheckSig = 0xac"

definition address_script :: "address \<Rightarrow> bytes" where
  "address_script a =
     (case a of
        PayToScriptHash _ _ \<Rightarrow>
          [op_byte Hash160, op_byte Push20Bytes] @ hash_bytes a @ [op_byte Equal]
      | PayToPublicKeyHash _ _ \<Rightarrow>
          [op_byte Dup, op_byte Hash160, op_byte Push20Bytes] @ hash_bytes a
            @ [op_byte EqualVerify, op_byte CheckSig]
      | Tex _ _ \<Rightarrow> [])"

record tx_output =
  output_value :: amount
  lock_script :: bytes

definition output_new :: "amount \<Rightarrow> bytes \<Rightarrow> tx_output" where
  "output_new amount script = \<lparr>output_value = amount, lock_script = script\<rparr>"

section \<open>The binary form of addresses\<close>

record b58_prefixes =
  main_pubkey :: bytes
  main_script :: bytes
  test_pubkey :: bytes
  test_script :: bytes

definition b58_pubkey_address_prefix :: "b58_prefixes \<Rightarrow> network_kind \<Rightarrow> bytes" where
  "b58_pubkey_address_prefix p k = (case k of Mainnet_kind \<Rightarrow> main_pubkey p | _ \<Rightarrow> test_pubkey p)"

definition b58_script_address_prefix :: "b58_prefixes \<Rightarrow> network_kind \<Rightarrow> bytes" where
  "b58_script_address_prefix p k = (case k of Mainnet_kind \<Rightarrow> main_script p | _ \<Rightarrow> test_script p)"

definition tex_address_prefix :: "network_kind \<Rightarrow> bytes" where
  "tex_address_prefix k = (case k of Mainnet_kind \<Rightarrow> [0x1c, 0xb8] | _ \<Rightarrow> [0x1d, 0x25])"

definition address_serialize :: "b58_prefixes \<Rightarrow> address \<Rightarrow> bytes" where
  "address_serialize p a =
     (case a of
        PayToScriptHash k h \<Rightarrow> b58_script_address_prefix p k @ h
      | PayToPublicKeyHash k h \<Rightarrow> b58_pubkey_address_prefix p k @ h
      | Tex k h \<Rightarrow> tex_address_prefix k @ h)"

datatype address_error = Io_UnexpectedEof | Parse_bad_version

text \<open>\<^verbatim>\<open>read_exact\<close> of two and then twenty bytes; bytes after them are not read.\<close>

definition address_deserialize :: "b58_prefixes \<Rightarrow> bytes \<Rightarrow> (address_error, address) outcome" where
  "address_deserialize p bs =
     (if length bs < 2 then Err Io_UnexpectedEof
      else if length bs < 22 then Err Io_UnexpectedEof
      else
        let version = take 2 bs; hash = take 20 (drop 2 bs) in
        if version = main_script p then Ok (PayToScriptHash Mainnet_kind hash)
        else if version = test_script p then Ok (PayToScriptHash Testnet_kind hash)
        else if version = main_pubkey p then Ok (PayToPublicKeyHash Mainnet_kind hash)
        else if version = test_pubkey p then Ok (PayToPublicKeyHash Testnet_kind hash)
        else Err Parse_bad_version)"

text \<open>Well-formed values: 20-byte hashes and two-byte distinct prefixes.\<close>

definition address_ok :: "address \<Rightarrow> bool" where
  "address_ok a \<longleftrightarrow> length (hash_bytes a) = 20"

definition prefixes_ok :: "b58_prefixes \<Rightarrow> bool" where
  "prefixes_ok p \<longleftrightarrow> distinct [main_pubkey p, main_script p, test_pubkey p, test_script p]
     \<and> list_all (\<lambda>x. length x = 2) [main_pubkey p, main_script p, test_pubkey p, test_script p]"

definition zcash_prefixes :: b58_prefixes where
  "zcash_prefixes = \<lparr>main_pubkey = [0x1c, 0xb8], main_script = [0x1c, 0xbd],
     test_pubkey = [0x1d, 0x25], test_script = [0x1c, 0xba]\<rparr>"

fun t_kind :: "network_kind \<Rightarrow> network_kind" where
  "t_kind Mainnet_kind = Mainnet_kind"
| "t_kind Testnet_kind = Testnet_kind"
| "t_kind Regtest_kind = Testnet_kind"

section \<open>Properties\<close>

lemma address_script_inj:
  assumes "address_ok a" "address_ok b" "\<not> is_Tex a" "\<not> is_Tex b" "address_script a = address_script b"
  shows "is_script_hash a = is_script_hash b \<and> hash_bytes a = hash_bytes b"
  using assms by (cases a; cases b) (auto simp: address_script_def is_script_hash_def hash_bytes_def address_ok_def)

text \<open>
  A locking script pays one recipient: two P2SH or P2PKH addresses with the same script have
  the same type and hash, so they can only differ in their network; and the binary form of an
  address reads back, with Regtest read as Testnet and a TEX address as the public key address
  that shares its prefix.
\<close>

theorem address_forms_unambiguous:
  assumes "prefixes_ok p" "address_ok a" "address_ok b"
  shows "(\<not> is_Tex a \<and> \<not> is_Tex b \<and> address_script a = address_script b \<longrightarrow>
      is_script_hash a = is_script_hash b \<and> hash_bytes a = hash_bytes b)
    \<and> (\<not> is_Tex a \<longrightarrow> address_deserialize p (address_serialize p a @ rest) =
        Ok (if is_script_hash a then PayToScriptHash (t_kind (address_network_kind a)) (hash_bytes a)
            else PayToPublicKeyHash (t_kind (address_network_kind a)) (hash_bytes a)))
    \<and> (is_Tex a \<longrightarrow> address_deserialize zcash_prefixes (address_serialize p a) =
        Ok (PayToPublicKeyHash (t_kind (address_network_kind a)) (hash_bytes a)))"
proof -
  have "address_deserialize p (address_serialize p a @ rest) =
      Ok (if is_script_hash a then PayToScriptHash (t_kind (address_network_kind a)) (hash_bytes a)
          else PayToPublicKeyHash (t_kind (address_network_kind a)) (hash_bytes a))" if "\<not> is_Tex a"
    using that assms(1,2)
    by (cases a; cases "address_network_kind a")
      (auto simp: address_deserialize_def address_serialize_def prefixes_ok_def address_ok_def
        hash_bytes_def is_script_hash_def address_network_kind_def b58_script_address_prefix_def
        b58_pubkey_address_prefix_def Let_def)
  moreover have "address_deserialize zcash_prefixes (address_serialize p a) =
      Ok (PayToPublicKeyHash (t_kind (address_network_kind a)) (hash_bytes a))" if "is_Tex a"
    using that assms(2)
    by (cases a; cases "address_network_kind a")
      (auto simp: address_deserialize_def address_serialize_def zcash_prefixes_def address_ok_def
        hash_bytes_def address_network_kind_def tex_address_prefix_def Let_def)
  ultimately show ?thesis
    using address_script_inj [OF assms(2,3)] by blast
qed

theorem address_forms_unambiguous_witness:
  "address_deserialize zcash_prefixes
     (address_serialize zcash_prefixes (PayToScriptHash Regtest_kind (replicate 20 7)) @ [1, 2])
   = Ok (PayToScriptHash Testnet_kind (replicate 20 7))"
proof -
  have "prefixes_ok zcash_prefixes" by (simp add: prefixes_ok_def zcash_prefixes_def)
  moreover have "address_ok (PayToScriptHash Regtest_kind (replicate 20 7))"
    by (simp add: address_ok_def hash_bytes_def)
  ultimately show ?thesis
    using address_forms_unambiguous [of zcash_prefixes "PayToScriptHash Regtest_kind (replicate 20 7)"
        "PayToScriptHash Regtest_kind (replicate 20 7)" "[1, 2]"]
    by (simp add: is_script_hash_def hash_bytes_def address_network_kind_def)
qed

end
