(* ===== verification/Network.thy ===== *)
theory Network
  imports Checkpoint_List Difficulty Transparent
begin

text \<open>
  Networks and their parameters, from \<^verbatim>\<open>zebra-chain/src/parameters/network.rs\<close>,
  \<^verbatim>\<open>network/testnet.rs\<close> and the branch ids of \<^verbatim>\<open>network_upgrade.rs\<close>.

  \<^verbatim>\<open>Parameters\<close> is a record with the fields of the struct.  The consensus flavor is private in the source: only the three built-in
  Wcash networks have it, and a configured network cannot.  The builder operations that decide
  consensus (activation heights, difficulty limit, halving interval) are modelled with their
  errors; the built-in Wcash parameters are what the builder makes of the constants of the source.
\<close>

section \<open>Funding stream data\<close>

datatype funding_stream_receiver = Ecc | ZcashFoundation | MajorGrants | DeferredReceiver

definition is_deferred :: "funding_stream_receiver \<Rightarrow> bool" where
  "is_deferred r \<longleftrightarrow> r = DeferredReceiver"

record funding_stream_recipient =
  numerator :: nat
  addresses :: "address list"

text \<open>The recipients are a \<^verbatim>\<open>HashMap\<close>: a list of its entries in the order of iteration.\<close>

record funding_streams =
  height_range :: "height \<times> height"
  recipients :: "(funding_stream_receiver \<times> funding_stream_recipient) list"

section \<open>Parameters\<close>

datatype wcash_network_id = Wcash_Mainnet | Wcash_Testnet | Wcash_Regtest

datatype consensus_flavor = Zcash | Wcash wcash_network_id

record parameters =
  consensus_flavor :: consensus_flavor
  network_name :: string
  network_magic :: "nat list"
  genesis_hash :: bytes
  activation_heights :: activation_list
  slow_start_interval :: height
  slow_start_shift :: height
  params_funding_streams :: "funding_streams list"
  params_target_difficulty_limit :: expanded_difficulty
  disable_pow :: bool
  minimum_difficulty_start_height :: "height option"
  should_allow_unshielded_coinbase_spends :: bool
  pre_blossom_halving_interval :: height_diff
  post_blossom_halving_interval :: height_diff
  lockbox_disbursements :: "(string \<times> amount) list"
  params_checkpoints :: checkpoint_list
  temporary_orchard_disabling_soft_fork_height :: "height option"

datatype network = Mainnet | Testnet parameters

definition REGTEST_MAGIC :: "nat list" where "REGTEST_MAGIC = [0xaa, 0xe8, 0x3f, 0x5f]"
definition REGTEST_GENESIS_HASH :: string where
  "REGTEST_GENESIS_HASH = ''029f11d80ef9765602235e1bc9727e3eb6ba20839319f761fee920d63401e327''"
definition SLOW_START_INTERVAL :: height where "SLOW_START_INTERVAL = 20000"
definition SLOW_START_SHIFT :: height where "SLOW_START_SHIFT = SLOW_START_INTERVAL div 2"
definition PRE_BLOSSOM_REGTEST_HALVING_INTERVAL :: height_diff where
  "PRE_BLOSSOM_REGTEST_HALVING_INTERVAL = 144"
definition BLOSSOM_POW_TARGET_SPACING_RATIO :: int where "BLOSSOM_POW_TARGET_SPACING_RATIO = 2"
definition PRE_BLOSSOM_HALVING_INTERVAL :: height_diff where "PRE_BLOSSOM_HALVING_INTERVAL = 840000"
definition POST_BLOSSOM_HALVING_INTERVAL :: height_diff where
  "POST_BLOSSOM_HALVING_INTERVAL = PRE_BLOSSOM_HALVING_INTERVAL * BLOSSOM_POW_TARGET_SPACING_RATIO"
definition WCASH_MAINNET_NU7_PARENT_ACTIVATION_HEIGHT :: height where
  "WCASH_MAINNET_NU7_PARENT_ACTIVATION_HEIGHT = 51350"
definition MAINNET_TEMPORARY_ORCHARD_DISABLING_SOFT_FORK_HEIGHT :: height where
  "MAINNET_TEMPORARY_ORCHARD_DISABLING_SOFT_FORK_HEIGHT = 3363426"

text \<open>The 256-bit limit of Regtest, every byte \<^verbatim>\<open>0x0f\<close>, and of the public Wcash networks.\<close>

definition REGTEST_LIMIT :: nat where "REGTEST_LIMIT = be_val (replicate 32 0x0f)"
definition WCASH_LIMIT :: nat where
  "WCASH_LIMIT = be_val ([0x00, 0x00, 0x2f, 0xab, 0xe8] @ replicate 27 0)"

section \<open>Network queries\<close>

definition wcash_network :: "network \<Rightarrow> wcash_network_id option" where
  "wcash_network net =
     (case net of
        Mainnet \<Rightarrow> None
      | Testnet params \<Rightarrow> (case consensus_flavor params of Zcash \<Rightarrow> None | Wcash w \<Rightarrow> Some w))"

definition uses_wcash_consensus :: "network \<Rightarrow> bool" where
  "uses_wcash_consensus net =
     (case net of
        Mainnet \<Rightarrow> False
      | Testnet params \<Rightarrow> (case consensus_flavor params of Zcash \<Rightarrow> False | Wcash _ \<Rightarrow> True))"

definition is_wcash_testnet :: "network \<Rightarrow> bool" where
  "is_wcash_testnet net \<longleftrightarrow> wcash_network net = Some Wcash_Testnet"

definition is_wcash_mainnet :: "network \<Rightarrow> bool" where
  "is_wcash_mainnet net \<longleftrightarrow> wcash_network net = Some Wcash_Mainnet"

definition is_wcash_regtest :: "network \<Rightarrow> bool" where
  "is_wcash_regtest net \<longleftrightarrow> wcash_network net = Some Wcash_Regtest"

definition wcash_nu7_parent_activation_height :: "network \<Rightarrow> height option" where
  "wcash_nu7_parent_activation_height net =
     (if is_wcash_mainnet net then Some WCASH_MAINNET_NU7_PARENT_ACTIVATION_HEIGHT else None)"

definition is_compatible_with_compiled_consensus :: "profile \<Rightarrow> network \<Rightarrow> bool" where
  "is_compatible_with_compiled_consensus p net \<longleftrightarrow> uses_wcash_consensus net = (p = Wcash_profile)"

definition assert_compatible_with_compiled_consensus :: "profile \<Rightarrow> network \<Rightarrow> ('e, unit) outcome" where
  "assert_compatible_with_compiled_consensus p net =
     assert_that (is_compatible_with_compiled_consensus p net)"

definition activation_list_of :: "network \<Rightarrow> activation_list" where
  "activation_list_of net =
     (case net of
        Mainnet \<Rightarrow> bt_extend MAINNET_ACTIVATION_HEIGHTS []
      | Testnet params \<Rightarrow> activation_heights params)"

definition current :: "network \<Rightarrow> height \<Rightarrow> ('e, network_upgrade) outcome" where
  "current net h = current_upgrade (activation_list_of net) h"

definition upgrade_activation_height :: "network_upgrade \<Rightarrow> network \<Rightarrow> height option" where
  "upgrade_activation_height nu net = activation_height (activation_list_of net) nu"

text \<open>
  \<^verbatim>\<open>is_regtest\<close> compares with the default Regtest parameters, whose difficulty limit is the
  Regtest constant after the conversion to compact bits and back.
\<close>

definition is_regtest_params :: "parameters \<Rightarrow> bool" where
  "is_regtest_params params =
     (case consensus_flavor params of
        Wcash w \<Rightarrow> w = Wcash_Regtest
      | Zcash \<Rightarrow>
          network_magic params = REGTEST_MAGIC
          \<and> network_name params = ''Regtest''
          \<and> Some (genesis_hash params) = hash_from_str REGTEST_GENESIS_HASH
          \<and> slow_start_interval params = HEIGHT_MIN
          \<and> slow_start_shift params = HEIGHT_MIN div 2
          \<and> (qbind (to_compact REGTEST_LIMIT) to_expanded :: (unit, _) outcome)
              = Ok (Some (params_target_difficulty_limit params))
          \<and> disable_pow params
          \<and> pre_blossom_halving_interval params = PRE_BLOSSOM_REGTEST_HALVING_INTERVAL
          \<and> post_blossom_halving_interval params
              = PRE_BLOSSOM_REGTEST_HALVING_INTERVAL * BLOSSOM_POW_TARGET_SPACING_RATIO)"

definition is_regtest :: "network \<Rightarrow> bool" where
  "is_regtest net = (case net of Mainnet \<Rightarrow> False | Testnet params \<Rightarrow> is_regtest_params params)"

definition kind :: "network \<Rightarrow> network_kind" where
  "kind net =
     (case net of
        Mainnet \<Rightarrow> Mainnet_kind
      | Testnet params \<Rightarrow>
          if is_wcash_mainnet net then Mainnet_kind
          else if is_regtest_params params then Regtest_kind
          else Testnet_kind)"

definition t_addr_kind :: "network \<Rightarrow> network_kind" where
  "t_addr_kind net =
     (case net of
        Mainnet \<Rightarrow> Mainnet_kind
      | Testnet _ \<Rightarrow> if is_wcash_mainnet net then Mainnet_kind else Testnet_kind)"

definition is_a_test_network :: "network \<Rightarrow> bool" where
  "is_a_test_network net \<longleftrightarrow> kind net \<noteq> Mainnet_kind"

definition is_max_block_time_enforced :: "network \<Rightarrow> height \<Rightarrow> bool" where
  "is_max_block_time_enforced net h =
     (if is_wcash_testnet net then \<not> height_is_min h
      else if is_wcash_mainnet net then True
      else (case net of Mainnet \<Rightarrow> True | Testnet _ \<Rightarrow> h \<ge> TESTNET_MAX_TIME_START_HEIGHT))"

definition default_port :: "network \<Rightarrow> nat" where
  "default_port net =
     (case net of
        Mainnet \<Rightarrow> 8233
      | Testnet _ \<Rightarrow>
          if is_wcash_mainnet net then 48233
          else if is_wcash_testnet net then 38233
          else if is_wcash_regtest net then 28233
          else 18233)"

definition wcash_default_rpc_port :: "network \<Rightarrow> nat option" where
  "wcash_default_rpc_port net =
     map_option (\<lambda>w. case w of Wcash_Testnet \<Rightarrow> 38232 | Wcash_Regtest \<Rightarrow> 28232 | Wcash_Mainnet \<Rightarrow> 48232)
       (wcash_network net)"

definition mandatory_checkpoint_height :: "network \<Rightarrow> ('e, height) outcome" where
  "mandatory_checkpoint_height net =
     qbind (expect (upgrade_activation_height Canopy net)) (\<lambda>h. expect_ok (height_previous h))"

definition temporary_orchard_soft_fork_height :: "network \<Rightarrow> height option" where
  "temporary_orchard_soft_fork_height net =
     (case net of
        Mainnet \<Rightarrow> Some MAINNET_TEMPORARY_ORCHARD_DISABLING_SOFT_FORK_HEIGHT
      | Testnet params \<Rightarrow> temporary_orchard_disabling_soft_fork_height params)"

definition temporary_orchard_disabling_soft_fork_active :: "network \<Rightarrow> height \<Rightarrow> bool" where
  "temporary_orchard_disabling_soft_fork_active net h =
     (case temporary_orchard_soft_fork_height net of None \<Rightarrow> False | Some a \<Rightarrow> h \<ge> a)"

definition is_orchard_temporarily_disabled :: "network \<Rightarrow> height \<Rightarrow> bool" where
  "is_orchard_temporarily_disabled net h \<longleftrightarrow>
     temporary_orchard_disabling_soft_fork_active net h
     \<and> (case upgrade_activation_height Nu6_2 net of None \<Rightarrow> True | Some nu6_2 \<Rightarrow> h < nu6_2)"

definition orchard_canonical_proof_size_rule_active :: "network \<Rightarrow> height \<Rightarrow> bool" where
  "orchard_canonical_proof_size_rule_active net h =
     (case upgrade_activation_height Nu6_2 net of None \<Rightarrow> False | Some a \<Rightarrow> h \<ge> a)"

definition net_disable_pow :: "network \<Rightarrow> bool" where
  "net_disable_pow net = (case net of Mainnet \<Rightarrow> False | Testnet params \<Rightarrow> disable_pow params)"

definition net_slow_start_interval :: "network \<Rightarrow> height" where
  "net_slow_start_interval net =
     (case net of Mainnet \<Rightarrow> SLOW_START_INTERVAL | Testnet params \<Rightarrow> slow_start_interval params)"

definition net_slow_start_shift :: "network \<Rightarrow> height" where
  "net_slow_start_shift net =
     (case net of Mainnet \<Rightarrow> SLOW_START_SHIFT | Testnet params \<Rightarrow> slow_start_shift params)"

section \<open>Rules that depend on the height\<close>

definition target_spacing_for_height :: "network \<Rightarrow> height \<Rightarrow> ('e, int) outcome" where
  "target_spacing_for_height net h = map_ok target_spacing (current net h)"

definition averaging_window_timespan_for_height :: "network \<Rightarrow> height \<Rightarrow> ('e, int) outcome" where
  "averaging_window_timespan_for_height net h = map_ok averaging_window_timespan (current net h)"

definition minimum_difficulty_spacing_for_height :: "network \<Rightarrow> height \<Rightarrow> ('e, int option) outcome" where
  "minimum_difficulty_spacing_for_height net h =
     (case net of
        Mainnet \<Rightarrow> Ok None
      | Testnet params \<Rightarrow>
          (case minimum_difficulty_start_height params of
             None \<Rightarrow> Ok None
           | Some start_height \<Rightarrow>
               if h < start_height then Ok None
               else map_ok (\<lambda>nu. Some (target_spacing nu * TESTNET_MINIMUM_DIFFICULTY_GAP_MULTIPLIER))
                      (current net h)))"

definition is_testnet_min_difficulty_block ::
  "network \<Rightarrow> height \<Rightarrow> int \<Rightarrow> int \<Rightarrow> ('e, bool) outcome" where
  "is_testnet_min_difficulty_block net block_height block_time previous_block_time =
     map_ok (\<lambda>r. case r of
               Some min_difficulty_gap \<Rightarrow> block_time - previous_block_time > min_difficulty_gap
             | None \<Rightarrow> False)
       (minimum_difficulty_spacing_for_height net block_height)"

text \<open>The easiest threshold of a network.\<close>

definition target_difficulty_limit :: "network \<Rightarrow> ('e, expanded_difficulty) outcome" where
  "target_difficulty_limit net =
     (case net of
        Testnet params \<Rightarrow> Ok (params_target_difficulty_limit params)
      | Mainnet \<Rightarrow>
          qbind (to_compact (u256_shl 1 243 - 1)) (\<lambda>c. qbind (to_expanded c) expect))"

section \<open>Branch ids\<close>

definition for_network_upgrade :: "network \<Rightarrow> network_upgrade \<Rightarrow> branch_id option" where
  "for_network_upgrade net nu =
     (case (if nu = Nu6_3 then wcash_network net else None) of
        Some Wcash_Testnet \<Rightarrow> Some WCASH_TESTNET_V3_BRANCH_ID
      | Some Wcash_Regtest \<Rightarrow> Some WCASH_REGTEST_V1_BRANCH_ID
      | Some Wcash_Mainnet \<Rightarrow> Some WCASH_MAINNET_V1_BRANCH_ID
      | None \<Rightarrow> upgrade_branch_id nu)"

definition current_branch_id :: "network \<Rightarrow> height \<Rightarrow> ('e, branch_id option) outcome" where
  "current_branch_id net h = map_ok (for_network_upgrade net) (current net h)"

end
