(* ===== verification/Network_Builder.thy ===== *)
theory Network_Builder
  imports Network
begin

text \<open>
  The builder of configured networks and the built-in Wcash parameters, from
  \<^verbatim>\<open>zebra-chain/src/parameters/network/testnet.rs\<close>.

  The main fact is that every schedule the builder accepts is well formed, so that the lookups
  of \<open>Upgrades\<close> are total on every network; and that the built-in Wcash networks run NU6.3 rules
  from the first block on, with branch ids of their own.
\<close>

section \<open>The builder\<close>

datatype builder_error = LockFundingStreams | InvalidActivationHeight | InvalidHeightZero
  | OutOfOrderUpgrades | InvaildDifficultyLimits | HalvingIntervalAfterFundingStreams
  | ReservedNetworkMagic | InvalidGenesisHash | FailedToParseDefaultCheckpoint
  | FailedToReadCheckpointFile | FailedToParseCheckpointFile | InvalidCustomCheckpoints

record configured_activation_heights =
  cfg_before_overwinter :: "nat option"
  cfg_overwinter :: "nat option"
  cfg_sapling :: "nat option"
  cfg_blossom :: "nat option"
  cfg_heartwood :: "nat option"
  cfg_canopy :: "nat option"
  cfg_nu5 :: "nat option"
  cfg_nu6 :: "nat option"
  cfg_nu6_1 :: "nat option"
  cfg_nu6_2 :: "nat option"
  cfg_nu6_3 :: "nat option"
  cfg_nu7 :: "nat option"

definition cfg_default :: configured_activation_heights where
  "cfg_default = \<lparr>cfg_before_overwinter = None, cfg_overwinter = None, cfg_sapling = None,
     cfg_blossom = None, cfg_heartwood = None, cfg_canopy = None, cfg_nu5 = None, cfg_nu6 = None,
     cfg_nu6_1 = None, cfg_nu6_2 = None, cfg_nu6_3 = None, cfg_nu7 = None\<rparr>"

definition option_or :: "'a option \<Rightarrow> 'a option \<Rightarrow> 'a option" where
  "option_or x y = (case x of Some _ \<Rightarrow> x | None \<Rightarrow> y)"

definition for_regtest :: "configured_activation_heights \<Rightarrow> configured_activation_heights" where
  "for_regtest c =
     (let overwinter = option_or (option_or (cfg_overwinter c) (cfg_before_overwinter c)) (Some 1);
          sapling = option_or (cfg_sapling c) overwinter;
          blossom = option_or (cfg_blossom c) sapling;
          heartwood = option_or (cfg_heartwood c) blossom;
          canopy = option_or (cfg_canopy c) heartwood
      in c\<lparr>cfg_overwinter := overwinter, cfg_sapling := sapling, cfg_blossom := blossom,
           cfg_heartwood := heartwood, cfg_canopy := canopy\<rparr>)"

record parameters_builder =
  b_network_name :: string
  b_network_magic :: "nat list"
  b_genesis_hash :: bytes
  b_activation_heights :: activation_list
  b_slow_start_interval :: height
  b_funding_streams :: "funding_streams list"
  b_should_lock_funding_stream_address_period :: bool
  b_target_difficulty_limit :: expanded_difficulty
  b_disable_pow :: bool
  b_minimum_difficulty_start_height :: "height option"
  b_should_allow_unshielded_coinbase_spends :: bool
  b_pre_blossom_halving_interval :: height_diff
  b_post_blossom_halving_interval :: height_diff
  b_lockbox_disbursements :: "(string \<times> amount) list"
  b_checkpoints :: checkpoint_list
  b_temporary_orchard_disabling_soft_fork_height :: "height option"

text \<open>The configured heights in the order of the upgrades: \<^verbatim>\<open>into_iter\<close> and \<^verbatim>\<open>chain\<close>.\<close>

fun opt_entry :: "nat option \<Rightarrow> network_upgrade \<Rightarrow> (nat \<times> network_upgrade) list" where
  "opt_entry (Some h) nu = [(h, nu)]"
| "opt_entry None nu = []"

definition configured_entries :: "configured_activation_heights \<Rightarrow> (nat \<times> network_upgrade) list" where
  "configured_entries c =
     opt_entry (cfg_before_overwinter c) BeforeOverwinter @ opt_entry (cfg_overwinter c) Overwinter
     @ opt_entry (cfg_sapling c) Sapling @ opt_entry (cfg_blossom c) Blossom
     @ opt_entry (cfg_heartwood c) Heartwood @ opt_entry (cfg_canopy c) Canopy
     @ opt_entry (cfg_nu5 c) Nu5 @ opt_entry (cfg_nu6 c) Nu6 @ opt_entry (cfg_nu6_1 c) Nu6_1
     @ opt_entry (cfg_nu6_2 c) Nu6_2 @ opt_entry (cfg_nu6_3 c) Nu6_3 @ opt_entry (cfg_nu7 c) Nu7"

fun convert_heights ::
  "(nat \<times> network_upgrade) list \<Rightarrow> (builder_error, (height \<times> network_upgrade) list) outcome" where
  "convert_heights [] = Ok []"
| "convert_heights ((h, nu) # xs) =
     qbind (ok_or (height_try_from_u32 h) InvalidActivationHeight) (\<lambda>h'.
     map_ok (Cons (h', nu)) (convert_heights xs))"

text \<open>The loop that compares the map, in height order, with the order of the upgrades.\<close>

fun check_order ::
  "network_upgrade list \<Rightarrow> network_upgrade list \<Rightarrow> (height \<times> network_upgrade) list
    \<Rightarrow> (builder_error, unit) outcome" where
  "check_order [] upgrades entries = Ok ()"
| "check_order (expected # rest) upgrades entries =
     (if expected \<notin> set upgrades then check_order rest upgrades entries
      else case entries of
             [] \<Rightarrow> check_order rest upgrades []
           | (h, nu) # entries' \<Rightarrow>
               if h = 0 then Err InvalidHeightZero
               else if nu \<noteq> expected then Err OutOfOrderUpgrades
               else check_order rest upgrades entries')"

definition with_activation_heights ::
  "configured_activation_heights \<Rightarrow> parameters_builder \<Rightarrow> (builder_error, parameters_builder) outcome" where
  "with_activation_heights c self =
     (if b_should_lock_funding_stream_address_period self then Err LockFundingStreams
      else
        qbind (convert_heights (configured_entries c)) (\<lambda>entries.
          let activation_heights = bt_extend entries [] in
          qbind (check_order upgrade_iter (map snd activation_heights) activation_heights) (\<lambda>_.
            Ok (self\<lparr>b_activation_heights :=
              bt_extend activation_heights (bt_split_off 1 (b_activation_heights self))\<rparr>))))"

definition with_target_difficulty_limit ::
  "nat \<Rightarrow> parameters_builder \<Rightarrow> (builder_error, parameters_builder) outcome" where
  "with_target_difficulty_limit limit self =
     qbind (to_compact limit) (\<lambda>c.
     qbind (to_expanded c) (\<lambda>r.
     qbind (ok_or r InvaildDifficultyLimits) (\<lambda>x.
       Ok (self\<lparr>b_target_difficulty_limit := x\<rparr>))))"

definition with_halving_interval ::
  "height_diff \<Rightarrow> parameters_builder \<Rightarrow> (builder_error, parameters_builder) outcome" where
  "with_halving_interval i self =
     (if b_should_lock_funding_stream_address_period self then Err HalvingIntervalAfterFundingStreams
      else Ok (self\<lparr>b_pre_blossom_halving_interval := i,
                    b_post_blossom_halving_interval := i * BLOSSOM_POW_TARGET_SPACING_RATIO\<rparr>))"

definition with_genesis_hash ::
  "string \<Rightarrow> parameters_builder \<Rightarrow> (builder_error, parameters_builder) outcome" where
  "with_genesis_hash hash self =
     map_ok (\<lambda>h. self\<lparr>b_genesis_hash := h\<rparr>) (ok_or (hash_from_str hash) InvalidGenesisHash)"

text \<open>\<open>Checkpoint_path\<close> carries what reading the file gives.\<close>

datatype configured_checkpoints =
    Default_checkpoints bool | Checkpoint_path "string option" | HeightsAndHashes "(height \<times> bytes) list"

definition with_checkpoints ::
  "configured_checkpoints \<Rightarrow> parameters_builder \<Rightarrow> (builder_error, parameters_builder) outcome" where
  "with_checkpoints checkpoints self =
     map_ok (\<lambda>cs. self\<lparr>b_checkpoints := cs\<rparr>)
       (case checkpoints of
          Default_checkpoints True \<Rightarrow> Ok TESTNET_CHECKPOINT_LIST
        | Default_checkpoints False \<Rightarrow>
            map_ok CheckpointList (map_err (\<lambda>_. FailedToParseDefaultCheckpoint) (checkpoints_from_list [(0, b_genesis_hash self)]))
        | Checkpoint_path None \<Rightarrow> Err FailedToReadCheckpointFile
        | Checkpoint_path (Some raw_checkpoints_str) \<Rightarrow>
            map_ok CheckpointList (map_err (\<lambda>_. FailedToParseCheckpointFile) (checkpoint_list_from_str raw_checkpoints_str))
        | HeightsAndHashes items \<Rightarrow>
            map_ok CheckpointList (map_err (\<lambda>_. InvalidCustomCheckpoints) (checkpoints_from_list items)))"

definition finish :: "parameters_builder \<Rightarrow> parameters" where
  "finish b = \<lparr>consensus_flavor = Zcash,
     network_name = b_network_name b,
     network_magic = b_network_magic b,
     genesis_hash = b_genesis_hash b,
     activation_heights = b_activation_heights b,
     slow_start_interval = b_slow_start_interval b,
     slow_start_shift = b_slow_start_interval b div 2,
     params_funding_streams = b_funding_streams b,
     params_target_difficulty_limit = b_target_difficulty_limit b,
     disable_pow = b_disable_pow b,
     minimum_difficulty_start_height = b_minimum_difficulty_start_height b,
     should_allow_unshielded_coinbase_spends = b_should_allow_unshielded_coinbase_spends b,
     pre_blossom_halving_interval = b_pre_blossom_halving_interval b,
     post_blossom_halving_interval = b_post_blossom_halving_interval b,
     lockbox_disbursements = b_lockbox_disbursements b,
     params_checkpoints = b_checkpoints b,
     temporary_orchard_disabling_soft_fork_height = b_temporary_orchard_disabling_soft_fork_height b\<rparr>"

section \<open>The built-in Wcash parameters\<close>

text \<open>
  The three constructors start from a builder (the source uses the default Testnet builder),
  overwrite what they do not inherit, and set the private flavor.  The hash of the constructed genesis
  block is an argument, because its hash function is a library's; the difficulty threshold of the
  Testnet genesis block is read from the frozen block bytes, that of the Mainnet one is a constant of
  \<^verbatim>\<open>wcash-genesis\<close>.
\<close>

definition wcash_builder ::
  "string \<Rightarrow> nat \<Rightarrow> height option \<Rightarrow> height \<Rightarrow> parameters_builder \<Rightarrow> (builder_error, parameters_builder) outcome" where
  "wcash_builder genesis limit min_difficulty slow_start self =
     qbind (with_genesis_hash genesis self) (\<lambda>b.
     qbind (with_target_difficulty_limit limit b) (\<lambda>b.
     qbind (with_activation_heights (cfg_default\<lparr>cfg_nu6_3 := Some 1\<rparr>)
              (b\<lparr>b_disable_pow := False,
                 b_minimum_difficulty_start_height := min_difficulty,
                 b_should_allow_unshielded_coinbase_spends := False,
                 b_slow_start_interval := slow_start,
                 b_temporary_orchard_disabling_soft_fork_height := None\<rparr>)) (\<lambda>b.
       with_checkpoints (Default_checkpoints False) (b\<lparr>b_funding_streams := [], b_lockbox_disbursements := []\<rparr>))))"

definition WCASH_TESTNET_SLOW_START_INTERVAL :: height where "WCASH_TESTNET_SLOW_START_INTERVAL = 40000"
definition WCASH_MAINNET_SLOW_START_BLOCKS :: height where "WCASH_MAINNET_SLOW_START_BLOCKS = 40000"

definition WCASH_TESTNET_GENESIS_HASH :: string where
  "WCASH_TESTNET_GENESIS_HASH = ''6b66fff119977d36d9c989093b516a876dbf6596536791ff35bb4c581e3fda98''"

definition p2p_magic :: "wcash_network_id \<Rightarrow> nat list" where
  "p2p_magic w =
     (case w of
        Wcash_Mainnet \<Rightarrow> [0xc1, 0xe0, 0xdc, 0x1b]
      | Wcash_Testnet \<Rightarrow> [0x49, 0xd2, 0x93, 0x4b]
      | Wcash_Regtest \<Rightarrow> [0x4c, 0x23, 0x72, 0x61])"

text \<open>
  The header of the frozen Testnet genesis block up to its difficulty threshold: version, previous
  block hash, Merkle root, commitment and time take the first 104 bytes.
\<close>

definition WCASH_TESTNET_GENESIS_HEADER :: string where
  "WCASH_TESTNET_GENESIS_HEADER =
     ''010043d70000000000000000000000000000000000000000000000000000000000000000'' @
     ''a31b5a947de8801bc749a252787b6c28a83a15c4f3288eb8cd38e0b16e379f39'' @
     ''9996a4ee41e1fbf185b4efd6772b402253b3113098f956e3f2f4fee9bff90e0a'' @
     ''f070ac6ae8ab2f1e''"

definition wcash_testnet_genesis_threshold :: "('e, compact_difficulty) outcome" where
  "wcash_testnet_genesis_threshold =
     map_ok (\<lambda>bs. of_nat (le_val (take 4 (drop 104 bs)))) (expect (hex_bytes WCASH_TESTNET_GENESIS_HEADER))"

definition compact_from_display_order :: "bytes \<Rightarrow> ('e, compact_difficulty option) outcome" where
  "compact_from_display_order bs =
     (let difficulty = of_nat (be_val bs) in
      map_ok (\<lambda>x. if x = None then None else Some difficulty) (to_expanded difficulty))"

definition PUBLIC_MAINNET_POW_LIMIT_BITS :: nat where "PUBLIC_MAINNET_POW_LIMIT_BITS = 0x1e2fabe8"

definition wcash_mainnet_genesis_threshold :: "('e, compact_difficulty) outcome" where
  "wcash_mainnet_genesis_threshold =
     qbind (compact_from_display_order (rev (le_bytes 4 PUBLIC_MAINNET_POW_LIMIT_BITS))) expect"

text \<open>The genesis header must carry the limit of the network.\<close>

definition assert_genesis_bits :: "compact_difficulty \<Rightarrow> parameters \<Rightarrow> ('e, parameters) outcome" where
  "assert_genesis_bits genesis_bits p =
     qbind (to_compact (params_target_difficulty_limit p)) (\<lambda>limit.
     qbind (assert_that (genesis_bits = limit)) (\<lambda>_. Ok p))"

definition new_wcash_testnet :: "bytes \<Rightarrow> parameters_builder \<Rightarrow> (builder_error, parameters) outcome" where
  "new_wcash_testnet genesis dflt =
     qbind (assert_that (hash_to_string genesis = WCASH_TESTNET_GENESIS_HASH)) (\<lambda>_.
     qbind (wcash_builder WCASH_TESTNET_GENESIS_HASH WCASH_LIMIT (Some 1) WCASH_TESTNET_SLOW_START_INTERVAL dflt) (\<lambda>b.
     qbind wcash_testnet_genesis_threshold (\<lambda>genesis_bits.
     qbind (assert_genesis_bits genesis_bits (finish b)) (\<lambda>p.
       Ok (p\<lparr>consensus_flavor := Wcash Wcash_Testnet,
             network_name := ''WcashTestnet'', network_magic := p2p_magic Wcash_Testnet\<rparr>)))))"

text \<open>The Mainnet constructor panics if the builder refuses its constants.\<close>

definition wcash_mainnet_parameters :: "bytes \<Rightarrow> parameters_builder \<Rightarrow> ('e, parameters) outcome" where
  "wcash_mainnet_parameters genesis dflt =
     qbind wcash_mainnet_genesis_threshold (\<lambda>genesis_bits.
     qbind (expect_ok (wcash_builder (hash_to_string genesis) WCASH_LIMIT None WCASH_MAINNET_SLOW_START_BLOCKS dflt)) (\<lambda>b.
     qbind (assert_genesis_bits genesis_bits (finish b)) (\<lambda>p.
       Ok (p\<lparr>consensus_flavor := Wcash Wcash_Mainnet,
             network_name := ''WcashMainnet'', network_magic := p2p_magic Wcash_Mainnet\<rparr>))))"

definition new_wcash_regtest :: "bytes \<Rightarrow> parameters_builder \<Rightarrow> (builder_error, parameters) outcome" where
  "new_wcash_regtest genesis dflt =
     map_ok (\<lambda>b. (finish b)\<lparr>consensus_flavor := Wcash Wcash_Regtest,
                network_name := ''WcashRegtest'', network_magic := p2p_magic Wcash_Regtest\<rparr>)
       (wcash_builder (hash_to_string genesis) REGTEST_LIMIT None HEIGHT_MIN dflt)"

section \<open>Accepted schedules are well formed\<close>

lemma convert_heights_Ok: "convert_heights xs = Ok ys \<Longrightarrow> ys = xs"
  by (induction xs arbitrary: ys rule: convert_heights.induct)
    (auto simp: height_try_from_u32_def split: if_splits)

lemma convert_heights_not_Panic [simp]: "convert_heights xs \<noteq> Panic"
  by (induction xs rule: convert_heights.induct) (auto simp: qbind_eq_Panic)

lemma check_order_not_Panic [simp]: "check_order es us xs \<noteq> Panic"
  by (induction es us xs rule: check_order.induct) (auto split: list.splits)

lemma snd_opt_entry: "snd ` set (opt_entry x nu) \<subseteq> {nu}" "distinct (map snd (opt_entry x nu))"
  by (cases x; simp)+

definition configured_pairs :: "configured_activation_heights \<Rightarrow> (nat option \<times> network_upgrade) list" where
  "configured_pairs c = [(cfg_before_overwinter c, BeforeOverwinter), (cfg_overwinter c, Overwinter),
     (cfg_sapling c, Sapling), (cfg_blossom c, Blossom), (cfg_heartwood c, Heartwood),
     (cfg_canopy c, Canopy), (cfg_nu5 c, Nu5), (cfg_nu6 c, Nu6), (cfg_nu6_1 c, Nu6_1),
     (cfg_nu6_2 c, Nu6_2), (cfg_nu6_3 c, Nu6_3), (cfg_nu7 c, Nu7)]"

lemma configured_entries_concat:
  "configured_entries c = concat (map (\<lambda>(x, nu). opt_entry x nu) (configured_pairs c))"
  by (simp add: configured_entries_def configured_pairs_def)

lemma snd_concat_opt_entry:
  "snd ` set (concat (map (\<lambda>(x, nu). opt_entry x nu) ps)) \<subseteq> snd ` set ps"
proof
  fix nu
  assume "nu \<in> snd ` set (concat (map (\<lambda>(x, nu). opt_entry x nu) ps))"
  then obtain x nu' y where "(x, nu') \<in> set ps" "y \<in> set (opt_entry x nu')" "nu = snd y"
    by auto
  with snd_opt_entry(1) [of x nu'] show "nu \<in> snd ` set ps"
    by force
qed

lemma distinct_concat_opt_entry:
  "distinct (map snd ps) \<Longrightarrow> distinct (map snd (concat (map (\<lambda>(x, nu). opt_entry x nu) ps)))"
proof (induction ps)
  case (Cons p ps)
  obtain x nu where p: "p = (x, nu)" by fastforce
  have "nu \<notin> snd ` set ps"
    using Cons.prems by (simp add: p)
  then have "snd ` set (opt_entry x nu) \<inter> snd ` set (concat (map (\<lambda>(x, nu). opt_entry x nu) ps)) = {}"
    using snd_opt_entry(1) [of x nu] snd_concat_opt_entry [of ps] by blast
  with Cons show ?case
    using snd_opt_entry(2) [of x nu] by (simp add: p)
qed simp

lemma sorted_upgrade_iter: "sorted_wrt (<) upgrade_iter"
  by (simp add: upgrade_iter_def less_network_upgrade_def)

lemma set_upgrade_iter [simp]: "nu \<in> set upgrade_iter"
  by (cases nu) (simp_all add: upgrade_iter_def)

lemma distinct_upgrade_iter: "distinct upgrade_iter"
  by (simp add: upgrade_iter_def)

lemma configured_entries_distinct: "distinct (map snd (configured_entries c))"
  unfolding configured_entries_concat
  by (rule distinct_concat_opt_entry) (simp add: configured_pairs_def)

lemma configured_entries_not_Genesis: "Genesis \<notin> snd ` set (configured_entries c)"
proof -
  have "Genesis \<notin> snd ` set (configured_pairs c)"
    by (simp add: configured_pairs_def)
  with snd_concat_opt_entry [of "configured_pairs c"] show ?thesis
    unfolding configured_entries_concat by blast
qed

lemma check_order_Ok:
  "check_order es us xs = Ok () \<Longrightarrow> length (filter (\<lambda>e. e \<in> set us) es) = length xs \<Longrightarrow>
    map snd xs = filter (\<lambda>e. e \<in> set us) es \<and> 0 \<notin> fst ` set xs"
proof (induction es arbitrary: xs)
  case (Cons e es)
  show ?case
  proof (cases "e \<in> set us")
    case True
    with Cons.prems obtain h nu ys where xs: "xs = (h, nu) # ys" by (cases xs) auto
    with True Cons.prems have "h \<noteq> 0" "nu = e" "check_order es us ys = Ok ()"
      by (auto split: if_splits)
    with True xs Cons show ?thesis by simp
  qed (use Cons in simp)
qed simp

lemma Genesis_least: "nu \<noteq> Genesis \<Longrightarrow> Genesis < nu"
  by (cases nu) (simp_all add: less_network_upgrade_def)

text \<open>The map built from the configuration holds entries of the configuration only.\<close>

lemma bt_extend_subset: "set (bt_extend xs []) \<subseteq> set xs" "sorted_keys (bt_extend xs [])"
proof -
  show s: "sorted_keys (bt_extend xs [])"
    unfolding bt_extend_eq by (rule btree.invar_extend) simp
  show "set (bt_extend xs []) \<subseteq> set xs"
  proof
    fix x assume "x \<in> set (bt_extend xs [])"
    then obtain k v where x: "x = (k, v)" "map_of (bt_extend xs []) k = Some v"
      using set_bt_map [OF s] by (metis surj_pair)
    then show "x \<in> set xs"
      using btree.get_extend_in [of "[]" xs k v] by (auto simp: bt_extend_eq)
  qed
qed

lemma distinct_map_snd_subset:
  "distinct (map snd ys) \<Longrightarrow> set xs \<subseteq> set ys \<Longrightarrow> distinct xs \<Longrightarrow> distinct (map snd xs)"
  by (auto simp: distinct_map intro: inj_on_subset)

lemma bt_split_off_1: "schedule_ok al \<Longrightarrow> bt_split_off 1 al = [(0, Genesis)]"
  by (cases al) (auto simp: schedule_ok_def bt_split_off_def filter_empty_conv)

lemma with_activation_heights_schedule:
  assumes ok: "schedule_ok (b_activation_heights b)" and w: "with_activation_heights c b = Ok b'"
  shows "schedule_ok (b_activation_heights b')"
proof -
  define al where "al = bt_extend (configured_entries c) []"
  from w have co: "check_order upgrade_iter (map snd al) al = Ok ()"
    and b': "b_activation_heights b' = bt_extend al (bt_split_off 1 (b_activation_heights b))"
    by (auto simp: with_activation_heights_def al_def Let_def dest!: convert_heights_Ok split: if_splits)
  have sub: "set al \<subseteq> set (configured_entries c)" and so: "sorted_keys al"
    unfolding al_def by (rule bt_extend_subset)+
  have d: "distinct (map snd al)"
    using so by (intro distinct_map_snd_subset [OF configured_entries_distinct sub])
      (metis distinct_map sorted_keys_distinct)
  have "length (filter (\<lambda>e. e \<in> set (map snd al)) upgrade_iter) = length al"
  proof -
    have "set (filter (\<lambda>e. e \<in> set (map snd al)) upgrade_iter) = set (map snd al)"
      by auto
    then show ?thesis
      using distinct_card [OF distinct_filter [OF distinct_upgrade_iter]] distinct_card [OF d]
      by (metis length_map)
  qed
  with co have snd: "map snd al = filter (\<lambda>e. e \<in> set (map snd al)) upgrade_iter"
    and "0 \<notin> fst ` set al"
    using check_order_Ok by blast+
  then have nz: "\<forall>x \<in> set al. 0 < fst x"
    by (metis gr0I imageI)
  have "sorted_wrt (<) (map snd al)"
    by (subst snd) (rule sorted_wrt_filter [OF sorted_upgrade_iter])
  moreover have "\<forall>x \<in> set al. Genesis < snd x"
    using sub configured_entries_not_Genesis [of c] by (metis Genesis_least image_eqI subsetD)
  moreover have "b_activation_heights b' = (0, Genesis) # al"
    using so nz unfolding b' bt_split_off_1 [OF ok]
    by (subst bt_extend_append) auto
  ultimately show ?thesis
    using so nz by (auto simp: schedule_ok_def)
qed

lemma with_activation_heights_not_Panic: "with_activation_heights c b \<noteq> Panic"
  by (auto simp: with_activation_heights_def qbind_eq_Panic Let_def split: if_splits)

section \<open>The Wcash networks\<close>

definition wcash_schedule :: activation_list where
  "wcash_schedule = [(0, Genesis), (1, Nu6_3)]"

lemma schedule_ok_wcash: "schedule_ok wcash_schedule"
  by (simp add: wcash_schedule_def schedule_ok_def less_network_upgrade_def)

lemma wcash_activation:
  assumes "schedule_ok (b_activation_heights b)" "\<not> b_should_lock_funding_stream_address_period b"
  shows "with_activation_heights (cfg_default\<lparr>cfg_nu6_3 := Some 1\<rparr>) b
    = Ok (b\<lparr>b_activation_heights := wcash_schedule\<rparr>)"
proof -
  have "configured_entries (cfg_default\<lparr>cfg_nu6_3 := Some 1\<rparr>) = [(1, Nu6_3)]"
    by (simp add: configured_entries_def cfg_default_def)
  moreover have "check_order upgrade_iter [Nu6_3] [(1, Nu6_3)] = Ok ()"
    by (simp add: upgrade_iter_def)
  ultimately show ?thesis
    using assms(2) bt_split_off_1 [OF assms(1)]
    by (simp add: with_activation_heights_def height_try_from_u32_def HEIGHT_MAX_def u32_max_def
        bt_extend_def wcash_schedule_def)
qed

lemma with_target_difficulty_limit_eq:
  assumes "0 < limit" "limit < u256_limit"
  shows "with_target_difficulty_limit limit b = Ok (b\<lparr>b_target_difficulty_limit := canonical limit\<rparr>)"
proof -
  obtain c where "(to_compact limit :: (builder_error, _) outcome) = Ok c"
    using to_compact_eq [OF assms] by blast
  with to_compact_target [OF assms this] show ?thesis
    by (simp add: with_target_difficulty_limit_def)
qed

lemma wcash_builder_eq:
  assumes "schedule_ok (b_activation_heights b)" "\<not> b_should_lock_funding_stream_address_period b"
    and "0 < limit" "limit < u256_limit" "hash_from_str g = Some h"
  shows "if h = replicate 32 0 then wcash_builder g limit m s b = Err FailedToParseDefaultCheckpoint
    else \<exists>b'. wcash_builder g limit m s b = Ok b' \<and> b_activation_heights b' = wcash_schedule
      \<and> b_target_difficulty_limit b' = canonical limit \<and> b_funding_streams b' = [] \<and> \<not> b_disable_pow b'
      \<and> b_genesis_hash b' = h \<and> b_checkpoints b' = CheckpointList [(0, h)]"
  using assms by (simp add: wcash_builder_def with_genesis_hash_def with_target_difficulty_limit_eq wcash_activation
      with_checkpoints_def checkpoints_from_list_genesis del: One_nat_def)

lemma limits_in_range:
  "0 < WCASH_LIMIT" "WCASH_LIMIT < u256_limit" "0 < REGTEST_LIMIT" "REGTEST_LIMIT < u256_limit"
proof -
  have bound: "be_val bs < u256_limit" if "length bs = 32" for bs
    using that le_val_less [of "rev bs"] by (simp add: be_val_def u256_limit_def)
  have pos: "0 < be_val bs" if "b \<in> set bs" "b \<noteq> 0" for b bs
    using that le_val_eq_0_iff [of "rev bs"] by (metis be_val_def gr0I in_set_replicate set_rev)
  show "0 < WCASH_LIMIT" unfolding WCASH_LIMIT_def by (rule pos [of "0x2f"]) simp_all
  show "0 < REGTEST_LIMIT" unfolding REGTEST_LIMIT_def by (rule pos [of "0x0f"]) simp_all
  show "WCASH_LIMIT < u256_limit" "REGTEST_LIMIT < u256_limit"
    unfolding WCASH_LIMIT_def REGTEST_LIMIT_def by (rule bound; simp)+
qed

text \<open>The frozen compact form of the Wcash limit.\<close>

lemma wcash_limit_compact: "to_compact (canonical WCASH_LIMIT) = Ok 0x1e2fabe8"
proof -
  have v: "WCASH_LIMIT = 0x2fabe8 * 256 ^ 27"
    by (simp add: WCASH_LIMIT_def be_val_def le_val_append)
  have "u256_bits WCASH_LIMIT = 238"
    unfolding v by (rule u256_bits_unique) simp_all
  then have size: "compact_size WCASH_LIMIT = 30" by (simp add: compact_size_def)
  then have "mantissa_of WCASH_LIMIT = 0x2fabe8" by (simp add: mantissa_of_def v)
  moreover have "canonical WCASH_LIMIT = WCASH_LIMIT" unfolding canonical_def size by (simp add: v)
  ultimately show ?thesis
    using limits_in_range by (simp add: to_compact_eq size)
qed

lemma wcash_current:
  "current_upgrade wcash_schedule h = Ok (if h = 0 then Genesis else Nu6_3)"
  by (simp add: current_upgrade_def wcash_schedule_def bt_range_to_def)

section \<open>Properties\<close>

text \<open>
  C25. the builder never panics on configured activation heights, and a configuration it
  accepts gives a well-formed schedule, whatever heights and upgrades were configured: height
  zero stays \<^verbatim>\<open>Genesis\<close>, and upgrades come in their order at increasing heights.
\<close>

theorem builder_schedule_well_formed:
  assumes "schedule_ok (b_activation_heights b)"
  shows "with_activation_heights c b \<noteq> Panic
    \<and> (\<forall>b'. with_activation_heights c b = Ok b' \<longrightarrow> schedule_ok (b_activation_heights b'))"
  using assms with_activation_heights_not_Panic with_activation_heights_schedule by blast

definition sample_builder :: parameters_builder where
  "sample_builder = \<lparr>b_network_name = ''UnknownTestnet'', b_network_magic = [0xfa, 0x1a, 0xf9, 0xbf],
     b_genesis_hash = replicate 32 1, b_activation_heights = TESTNET_ACTIVATION_HEIGHTS,
     b_slow_start_interval = SLOW_START_INTERVAL, b_funding_streams = [],
     b_should_lock_funding_stream_address_period = False, b_target_difficulty_limit = 1,
     b_disable_pow = False, b_minimum_difficulty_start_height = Some 299188,
     b_should_allow_unshielded_coinbase_spends = False,
     b_pre_blossom_halving_interval = PRE_BLOSSOM_HALVING_INTERVAL,
     b_post_blossom_halving_interval = POST_BLOSSOM_HALVING_INTERVAL, b_lockbox_disbursements = [],
     b_checkpoints = TESTNET_CHECKPOINT_LIST, b_temporary_orchard_disabling_soft_fork_height = Some 4048500\<rparr>"

theorem builder_schedule_well_formed_witness:
  "\<exists>b. with_activation_heights (cfg_default\<lparr>cfg_nu6_3 := Some 1\<rparr>) sample_builder = Ok b \<and> schedule_ok (b_activation_heights b)"
proof -
  have ok: "schedule_ok (b_activation_heights sample_builder)" "\<not> b_should_lock_funding_stream_address_period sample_builder"
    by (simp_all add: sample_builder_def schedule_ok_testnet)
  from wcash_activation [OF ok] builder_schedule_well_formed [OF ok(1)] show ?thesis by blast
qed

text \<open>A Wcash network as its constructor should make it.\<close>

definition runs_nu6_3 :: "wcash_network_id \<Rightarrow> bytes \<Rightarrow> parameters \<Rightarrow> bool" where
  "runs_nu6_3 w hash p \<longleftrightarrow> wcash_network (Testnet p) = Some w \<and> network_magic p = p2p_magic w
     \<and> genesis_hash p = hash \<and> params_checkpoints p = CheckpointList [(0, hash)]
     \<and> \<not> disable_pow p \<and> params_funding_streams p = []
     \<and> (\<forall>h. current (Testnet p) h = (Ok (if h = 0 then Genesis else Nu6_3) :: (unit, _) outcome))"

lemma genesis_thresholds:
  "wcash_testnet_genesis_threshold = Ok 0x1e2fabe8" "wcash_mainnet_genesis_threshold = Ok 0x1e2fabe8"
proof -
  have "hex_bytes WCASH_TESTNET_GENESIS_HEADER \<noteq> None \<and> take 4 (drop 104 (the (hex_bytes WCASH_TESTNET_GENESIS_HEADER))) = [0xe8, 0xab, 0x2f, 0x1e]"
    unfolding WCASH_TESTNET_GENESIS_HEADER_def by code_simp
  then show "wcash_testnet_genesis_threshold = Ok 0x1e2fabe8" by (auto simp: wcash_testnet_genesis_threshold_def)
  have "be_val (rev (le_bytes 4 PUBLIC_MAINNET_POW_LIMIT_BITS)) = 0x1e2fabe8"
    by (simp add: be_val_def le_val_le_bytes PUBLIC_MAINNET_POW_LIMIT_BITS_def)
  moreover have "target_value 0x1e2fabe8 \<noteq> None" by (simp add: target_value_def u256_limit_def)
  ultimately show "wcash_mainnet_genesis_threshold = Ok 0x1e2fabe8"
    by (simp add: wcash_mainnet_genesis_threshold_def compact_from_display_order_def)
qed

lemma frozen_hash_not_null: "hash_to_string (replicate 32 0) \<noteq> WCASH_TESTNET_GENESIS_HASH"
  by code_simp

lemma assert_genesis_bits_eq:
  "params_target_difficulty_limit p = canonical WCASH_LIMIT \<Longrightarrow> assert_genesis_bits 0x1e2fabe8 p = Ok p"
  by (simp add: assert_genesis_bits_def wcash_limit_compact assert_that_def)

text \<open>
  C26. The three built-in Wcash networks, made from any unlocked builder with a well-formed schedule
  and a genesis block with a given hash.  Testnet is built exactly when that hash is the frozen one,
  and its constructor panics otherwise; Mainnet is built unless the hash is null, when it panics;
  Regtest is built unless the hash is null, when it is an error.  A network that is built has its own
  magic, the hash as genesis hash and only checkpoint, proof of work, no funding streams, and runs
  NU6.3 at every height above genesis.  A configured network, which only \<^verbatim>\<open>finish\<close> can make, never has
  Wcash consensus.
\<close>

theorem wcash_networks_run_nu6_3:
  assumes "schedule_ok (b_activation_heights b)" "\<not> b_should_lock_funding_stream_address_period b" "length g = 32"
  shows "(if hash_to_string g = WCASH_TESTNET_GENESIS_HASH
      then \<exists>t. new_wcash_testnet g b = Ok t \<and> runs_nu6_3 Wcash_Testnet g t else new_wcash_testnet g b = Panic)
    \<and> (if g = replicate 32 0 then (wcash_mainnet_parameters g b :: (builder_error, _) outcome) = Panic
       else \<exists>m. (wcash_mainnet_parameters g b :: (builder_error, _) outcome) = Ok m \<and> runs_nu6_3 Wcash_Mainnet g m)
    \<and> (if g = replicate 32 0 then new_wcash_regtest g b = Err FailedToParseDefaultCheckpoint
       else \<exists>r. new_wcash_regtest g b = Ok r \<and> runs_nu6_3 Wcash_Regtest g r)
    \<and> \<not> uses_wcash_consensus (Testnet (finish b))"
proof -
  have hash: "hash_from_str (hash_to_string g) = Some g" by (rule hash_text_roundtrip [OF assms(3)])
  note w = wcash_builder_eq [OF assms(1,2) _ _ hash]
  note defs = runs_nu6_3_def wcash_network_def finish_def current_def activation_list_of_def wcash_current
  show ?thesis
  proof (cases "g = replicate 32 0")
    case True
    then show ?thesis
      using w [OF limits_in_range(1,2), of None WCASH_MAINNET_SLOW_START_BLOCKS] w [OF limits_in_range(3,4), of None HEIGHT_MIN] frozen_hash_not_null
      by (simp add: new_wcash_testnet_def wcash_mainnet_parameters_def new_wcash_regtest_def genesis_thresholds
          uses_wcash_consensus_def wcash_network_def finish_def assert_that_def)
  next
    case False
    from w [OF limits_in_range(1,2), of "Some 1" WCASH_TESTNET_SLOW_START_INTERVAL] False obtain bt where
      "wcash_builder (hash_to_string g) WCASH_LIMIT (Some 1) WCASH_TESTNET_SLOW_START_INTERVAL b = Ok bt"
      "b_activation_heights bt = wcash_schedule" "b_target_difficulty_limit bt = canonical WCASH_LIMIT" "b_funding_streams bt = []"
      "\<not> b_disable_pow bt" "b_genesis_hash bt = g" "b_checkpoints bt = CheckpointList [(0, g)]" by auto
    then have t: "if hash_to_string g = WCASH_TESTNET_GENESIS_HASH
      then \<exists>t. new_wcash_testnet g b = Ok t \<and> runs_nu6_3 Wcash_Testnet g t else new_wcash_testnet g b = Panic"
      by (auto simp: new_wcash_testnet_def genesis_thresholds assert_genesis_bits_eq assert_that_def defs)
    from w [OF limits_in_range(1,2), of None WCASH_MAINNET_SLOW_START_BLOCKS] False obtain bm where
      "wcash_builder (hash_to_string g) WCASH_LIMIT None WCASH_MAINNET_SLOW_START_BLOCKS b = Ok bm"
      "b_activation_heights bm = wcash_schedule" "b_target_difficulty_limit bm = canonical WCASH_LIMIT" "b_funding_streams bm = []"
      "\<not> b_disable_pow bm" "b_genesis_hash bm = g" "b_checkpoints bm = CheckpointList [(0, g)]" by auto
    then have m: "\<exists>m. (wcash_mainnet_parameters g b :: (builder_error, _) outcome) = Ok m \<and> runs_nu6_3 Wcash_Mainnet g m"
      by (auto simp: wcash_mainnet_parameters_def genesis_thresholds assert_genesis_bits_eq defs)
    from w [OF limits_in_range(3,4), of None HEIGHT_MIN] False
    have r: "\<exists>r. new_wcash_regtest g b = Ok r \<and> runs_nu6_3 Wcash_Regtest g r" by (auto simp: new_wcash_regtest_def defs)
    from t m r False show ?thesis by (simp add: uses_wcash_consensus_def wcash_network_def finish_def)
  qed
qed

theorem wcash_networks_run_nu6_3_witness:
  "\<exists>g t. hash_from_str WCASH_TESTNET_GENESIS_HASH = Some g
    \<and> new_wcash_testnet g sample_builder = Ok t \<and> runs_nu6_3 Wcash_Testnet g t"
proof -
  have ok: "schedule_ok (b_activation_heights sample_builder)" "\<not> b_should_lock_funding_stream_address_period sample_builder"
    by (simp_all add: sample_builder_def schedule_ok_testnet)
  have "\<exists>g. hash_from_str WCASH_TESTNET_GENESIS_HASH = Some g \<and> length g = 32 \<and> hash_to_string g = WCASH_TESTNET_GENESIS_HASH"
    by (rule exI [of _ "the (hash_from_str WCASH_TESTNET_GENESIS_HASH)"]) code_simp
  then obtain g where g: "hash_from_str WCASH_TESTNET_GENESIS_HASH = Some g" "length g = 32" "hash_to_string g = WCASH_TESTNET_GENESIS_HASH"
    by blast
  with wcash_networks_run_nu6_3 [OF ok g(2)] show ?thesis by auto
qed

text \<open>
  C27. consensus branch ids identify the upgrade and, for NU6.3, the Wcash network: two
  networks give two upgrades the same branch id only if the upgrades are equal and, at NU6.3,
  the networks are the same Wcash network or both are Zcash networks; and the upgrade is
  recovered from the id.
\<close>

theorem branch_ids_separate_networks:
  "(for_network_upgrade net nu = Some b \<and> for_network_upgrade net' nu' = Some b \<longrightarrow>
      nu = nu' \<and> (nu = Nu6_3 \<longrightarrow> wcash_network net = wcash_network net'))
    \<and> (for_network_upgrade net nu = Some b \<longrightarrow> upgrade_try_from b = Ok nu)"
proof -
  have ids: "for_network_upgrade net nu =
      (if nu = Nu6_3 then (case wcash_network net of Some Wcash_Testnet \<Rightarrow> Some 0x54ba2bfb
         | Some Wcash_Regtest \<Rightarrow> Some 0xc3a6678a | Some Wcash_Mainnet \<Rightarrow> Some 0xd9c6a7ee
         | None \<Rightarrow> Some 0x37a5165b)
       else map_of CONSENSUS_BRANCH_IDS nu)" for net nu
    by (simp add: for_network_upgrade_def upgrade_branch_id_def WCASH_TESTNET_V3_BRANCH_ID_def
        WCASH_REGTEST_V1_BRANCH_ID_def WCASH_MAINNET_V1_BRANCH_ID_def CONSENSUS_BRANCH_IDS_def
        split: option.splits wcash_network_id.splits)
  have rec: "upgrade_try_from b = Ok nu" if "for_network_upgrade net nu = Some b" for net nu b
    using that unfolding ids
    by (cases nu) (auto simp: upgrade_try_from_def WCASH_TESTNET_V1_BRANCH_ID_def
        WCASH_TESTNET_V3_BRANCH_ID_def WCASH_REGTEST_V1_BRANCH_ID_def WCASH_MAINNET_V1_BRANCH_ID_def
        CONSENSUS_BRANCH_IDS_def split: option.splits wcash_network_id.splits)
  have "wcash_network net = wcash_network net'"
    if "for_network_upgrade net Nu6_3 = Some b" "for_network_upgrade net' Nu6_3 = Some b"
    using that unfolding ids by (auto split: option.splits wcash_network_id.splits)
  with rec show ?thesis
    by (metis outcome.inject(1))
qed

theorem branch_ids_separate_networks_witness:
  "for_network_upgrade Mainnet Nu6_3 = Some 0x37a5165b \<and> upgrade_try_from 0x37a5165b = Ok Nu6_3"
proof -
  have "for_network_upgrade Mainnet Nu6_3 = Some 0x37a5165b"
    by (simp add: for_network_upgrade_def wcash_network_def upgrade_branch_id_def CONSENSUS_BRANCH_IDS_def)
  with branch_ids_separate_networks [of Mainnet Nu6_3 "0x37a5165b" Mainnet Nu6_3] show ?thesis
    by blast
qed

end
