(* ===== verification/Difficulty_Adjust.thy ===== *)
theory Difficulty_Adjust
  imports Network_Builder
begin

text \<open>
  Difficulty adjustment and the contextual checks of a block header against its recent chain,
  from \<^verbatim>\<open>zebra-state/src/service/check/difficulty.rs\<close> and \<^verbatim>\<open>service/check.rs\<close>.

  Block times are whole seconds (the header field is a \<^verbatim>\<open>u32\<close>), so a \<^verbatim>\<open>Duration\<close> is an \<^typ>\<open>int\<close> and
  \<^verbatim>\<open>num_seconds\<close> after a division is truncation towards zero.  The context is the list of
  thresholds and times of the previous blocks, newest first.
\<close>

section \<open>Constants and state\<close>

definition POW_MEDIAN_BLOCK_SPAN :: nat where "POW_MEDIAN_BLOCK_SPAN = 11"
definition POW_ADJUSTMENT_BLOCK_SPAN :: nat where
  "POW_ADJUSTMENT_BLOCK_SPAN = POW_AVERAGING_WINDOW + POW_MEDIAN_BLOCK_SPAN"
definition POW_DAMPING_FACTOR :: int where "POW_DAMPING_FACTOR = 4"
definition POW_MAX_ADJUST_UP_PERCENT :: int where "POW_MAX_ADJUST_UP_PERCENT = 16"
definition POW_MAX_ADJUST_DOWN_PERCENT :: int where "POW_MAX_ADJUST_DOWN_PERCENT = 32"
definition BLOCK_MAX_TIME_SINCE_MEDIAN :: int where "BLOCK_MAX_TIME_SINCE_MEDIAN = 90 * 60"

lemmas pow_defs = POW_MEDIAN_BLOCK_SPAN_def POW_ADJUSTMENT_BLOCK_SPAN_def POW_AVERAGING_WINDOW_def
  POW_DAMPING_FACTOR_def POW_MAX_ADJUST_UP_PERCENT_def POW_MAX_ADJUST_DOWN_PERCENT_def

record adjusted_difficulty =
  candidate_time :: int
  candidate_height :: height
  ad_network :: network
  relevant_difficulty_thresholds :: "compact_difficulty list"
  relevant_times :: "int list"

text \<open>\<^verbatim>\<open>BoundedVec::try_from\<close> with bounds 1 and \<^verbatim>\<open>POW_ADJUSTMENT_BLOCK_SPAN\<close>, under \<^verbatim>\<open>expect\<close>.\<close>

definition bounded_vec :: "'a list \<Rightarrow> ('e, 'a list) outcome" where
  "bounded_vec xs =
     (if 1 \<le> length xs \<and> length xs \<le> POW_ADJUSTMENT_BLOCK_SPAN then Ok xs else Panic)"

definition new_from_header_time ::
  "int \<Rightarrow> height \<Rightarrow> network \<Rightarrow> (compact_difficulty \<times> int) list \<Rightarrow> ('e, adjusted_difficulty) outcome" where
  "new_from_header_time candidate_header_time previous_block_height net context =
     qbind (expect (height_add previous_block_height 1)) (\<lambda>candidate_height.
       let taken = take POW_ADJUSTMENT_BLOCK_SPAN context in
       qbind (bounded_vec (map fst taken)) (\<lambda>thresholds.
       qbind (bounded_vec (map snd taken)) (\<lambda>times.
         Ok \<lparr>candidate_time = candidate_header_time, candidate_height = candidate_height,
             ad_network = net, relevant_difficulty_thresholds = thresholds,
             relevant_times = times\<rparr>)))"

section \<open>Median times\<close>

definition median_time :: "int list \<Rightarrow> ('e, int) outcome" where
  "median_time block_times =
     (let sorted_times = sort block_times; median_idx = length sorted_times div 2
      in if median_idx < length sorted_times then Ok (sorted_times ! median_idx) else Panic)"

definition median_time_past :: "adjusted_difficulty \<Rightarrow> ('e, int) outcome" where
  "median_time_past self = median_time (take POW_MEDIAN_BLOCK_SPAN (relevant_times self))"

definition median_timespan :: "adjusted_difficulty \<Rightarrow> ('e, int) outcome" where
  "median_timespan self =
     qbind (median_time_past self) (\<lambda>newer_median.
     qbind (if length (relevant_times self) > POW_AVERAGING_WINDOW
            then median_time
                   (take POW_MEDIAN_BLOCK_SPAN (drop POW_AVERAGING_WINDOW (relevant_times self)))
            else Ok (last (relevant_times self))) (\<lambda>older_median.
       Ok (newer_median - older_median)))"

definition median_timespan_bounded :: "adjusted_difficulty \<Rightarrow> ('e, int) outcome" where
  "median_timespan_bounded self =
     qbind (averaging_window_timespan_for_height (ad_network self) (candidate_height self)) (\<lambda>window.
     qbind (median_timespan self) (\<lambda>timespan.
       let damped_variance = trunc_div (timespan - window) POW_DAMPING_FACTOR;
           median_timespan_damped = window + damped_variance;
           min_median_timespan = trunc_div (window * (100 - POW_MAX_ADJUST_UP_PERCENT)) 100;
           max_median_timespan = trunc_div (window * (100 + POW_MAX_ADJUST_DOWN_PERCENT)) 100
       in Ok (max min_median_timespan (min max_median_timespan median_timespan_damped))))"

section \<open>The expected threshold\<close>

fun expand_all :: "compact_difficulty list \<Rightarrow> ('e, expanded_difficulty list) outcome" where
  "expand_all [] = Ok []"
| "expand_all (c # cs) =
     qbind (to_expanded c) (\<lambda>r. qbind (expect r) (\<lambda>x. map_ok (Cons x) (expand_all cs)))"

definition mean_target_difficulty :: "adjusted_difficulty \<Rightarrow> ('e, expanded_difficulty) outcome" where
  "mean_target_difficulty self =
     (if length (relevant_difficulty_thresholds self) \<ge> POW_AVERAGING_WINDOW
      then qbind (expand_all (take POW_AVERAGING_WINDOW (relevant_difficulty_thresholds self))) (\<lambda>ts.
           qbind (expanded_sum ts) (\<lambda>total. u256_div total POW_AVERAGING_WINDOW))
      else target_difficulty_limit (ad_network self))"

text \<open>The conversion of an \<^verbatim>\<open>i64\<close> into a \<^verbatim>\<open>U256\<close> panics on negative values.\<close>

definition u256_from_i64 :: "int \<Rightarrow> ('e, nat) outcome" where
  "u256_from_i64 x = (if 0 \<le> x then Ok (nat x) else Panic)"

definition threshold_bits :: "adjusted_difficulty \<Rightarrow> ('e, compact_difficulty) outcome" where
  "threshold_bits self =
     qbind (averaging_window_timespan_for_height (ad_network self) (candidate_height self)) (\<lambda>window.
     qbind (mean_target_difficulty self) (\<lambda>mean.
     qbind (u256_from_i64 window) (\<lambda>w.
     qbind (u256_div mean w) (\<lambda>q.
     qbind (median_timespan_bounded self) (\<lambda>timespan.
     qbind (u256_from_i64 timespan) (\<lambda>b.
     qbind (u256 (q * b)) (\<lambda>threshold.
     qbind (target_difficulty_limit (ad_network self)) (\<lambda>limit.
       to_compact (min limit threshold)))))))))"

definition expected_difficulty_threshold :: "adjusted_difficulty \<Rightarrow> ('e, compact_difficulty) outcome" where
  "expected_difficulty_threshold self =
     (if is_regtest (ad_network self)
      then qbind (target_difficulty_limit (ad_network self)) to_compact
      else
        qbind (is_testnet_min_difficulty_block (ad_network self) (candidate_height self)
                 (candidate_time self) (hd (relevant_times self))) (\<lambda>min_difficulty.
          if min_difficulty
          then qbind (assert_that (is_a_test_network (ad_network self))) (\<lambda>_.
               qbind (target_difficulty_limit (ad_network self)) to_compact)
          else threshold_bits self))"

section \<open>Contextual checks\<close>

datatype validate_context_error =
    OrphanedBlock height height
  | NotReadyToBeCommitted
  | NonSequentialBlock height height
  | TimeTooEarly int int
  | TimeTooLate int int
  | InvalidDifficultyThreshold compact_difficulty compact_difficulty

definition block_is_not_orphaned :: "height \<Rightarrow> height \<Rightarrow> (validate_context_error, unit) outcome" where
  "block_is_not_orphaned finalized_tip_height h =
     fail_if (h \<le> finalized_tip_height) (OrphanedBlock h finalized_tip_height)"

definition height_one_more_than_parent_height ::
  "height \<Rightarrow> height \<Rightarrow> (validate_context_error, unit) outcome" where
  "height_one_more_than_parent_height parent_height h =
     fail_if (height_add parent_height 1 \<noteq> Some h) (NonSequentialBlock h parent_height)"

definition difficulty_threshold_and_time_are_valid ::
  "compact_difficulty \<Rightarrow> adjusted_difficulty \<Rightarrow> (validate_context_error, unit) outcome" where
  "difficulty_threshold_and_time_are_valid difficulty_threshold ad =
     qbind (median_time_past ad) (\<lambda>median.
       let block_time_max = median + BLOCK_MAX_TIME_SINCE_MEDIAN in
       qbind (expect (upgrade_activation_height Genesis (ad_network ad))) (\<lambda>genesis_height.
       qbind (fail_if (candidate_time ad \<le> median \<and> candidate_height ad \<noteq> genesis_height)
                (TimeTooEarly (candidate_time ad) median)) (\<lambda>_.
       qbind (fail_if (is_max_block_time_enforced (ad_network ad) (candidate_height ad)
                         \<and> candidate_time ad > block_time_max)
                (TimeTooLate (candidate_time ad) block_time_max)) (\<lambda>_.
       qbind (expected_difficulty_threshold ad) (\<lambda>expected.
         fail_if (difficulty_threshold \<noteq> expected)
           (InvalidDifficultyThreshold difficulty_threshold expected))))))"

text \<open>What the check reads of a block, and of the candidate.\<close>

record chain_block =
  coinbase_height :: "height option"
  header_threshold :: compact_difficulty
  header_time :: int

definition new_from_block ::
  "chain_block \<Rightarrow> network \<Rightarrow> (compact_difficulty \<times> int) list \<Rightarrow> ('e, adjusted_difficulty) outcome" where
  "new_from_block candidate net context =
     qbind (expect (coinbase_height candidate)) (\<lambda>candidate_block_height.
     qbind (expect (height_sub candidate_block_height 1)) (\<lambda>previous_block_height.
       new_from_header_time (header_time candidate) previous_block_height net context))"

definition block_is_valid_for_recent_chain ::
  "chain_block \<Rightarrow> height \<Rightarrow> network \<Rightarrow> height option \<Rightarrow> chain_block list
    \<Rightarrow> (validate_context_error, unit) outcome" where
  "block_is_valid_for_recent_chain block h net finalized_tip_height relevant_chain =
     qbind (expect finalized_tip_height) (\<lambda>tip.
     qbind (block_is_not_orphaned tip h) (\<lambda>_.
       case take POW_ADJUSTMENT_BLOCK_SPAN relevant_chain of
         [] \<Rightarrow> Err NotReadyToBeCommitted
       | parent # rest \<Rightarrow>
           qbind (expect (coinbase_height parent)) (\<lambda>parent_height.
           qbind (height_one_more_than_parent_height parent_height h) (\<lambda>_.
           qbind (new_from_block block net
                    (map (\<lambda>b. (header_threshold b, header_time b)) (parent # rest))) (\<lambda>ad.
             difficulty_threshold_and_time_are_valid (header_threshold block) ad)))))"

section \<open>Medians\<close>

lemma median_time_eq: "xs \<noteq> [] \<Longrightarrow> median_time xs = Ok (sort xs ! (length xs div 2))"
  by (simp add: median_time_def Let_def)

lemma sorted_nth_count_less:
  "sorted xs \<Longrightarrow> k < length xs \<Longrightarrow> length (filter (\<lambda>x. x < xs ! k) xs) \<le> k"
proof -
  assume s: "sorted xs" and k: "k < length xs"
  have "filter (\<lambda>x. x < xs ! k) (drop k xs) = []"
    using s k by (auto simp: filter_empty_conv in_set_conv_nth not_less sorted_iff_nth_mono)
  moreover have "filter (\<lambda>x. x < xs ! k) xs
      = filter (\<lambda>x. x < xs ! k) (take k xs) @ filter (\<lambda>x. x < xs ! k) (drop k xs)"
    by (metis append_take_drop_id filter_append)
  ultimately show ?thesis
    using length_filter_le [of "\<lambda>x. x < xs ! k" "take k xs"] k by simp
qed

lemma sorted_nth_count_greater:
  "sorted xs \<Longrightarrow> k < length xs \<Longrightarrow> length (filter (\<lambda>x. xs ! k < x) xs) \<le> length xs - Suc k"
proof -
  assume s: "sorted xs" and k: "k < length xs"
  have "filter (\<lambda>x. xs ! k < x) (take (Suc k) xs) = []"
    using s k by (auto simp: filter_empty_conv in_set_conv_nth not_less sorted_iff_nth_mono)
  moreover have "filter (\<lambda>x. xs ! k < x) xs
      = filter (\<lambda>x. xs ! k < x) (take (Suc k) xs) @ filter (\<lambda>x. xs ! k < x) (drop (Suc k) xs)"
    by (metis append_take_drop_id filter_append)
  ultimately show ?thesis
    using length_filter_le [of "\<lambda>x. xs ! k < x" "drop (Suc k) xs"] by simp
qed

lemma length_filter_sort: "length (filter P (sort xs)) = length (filter P xs)"
  by (simp add: filter_sort)

section \<open>Retargeting\<close>

text \<open>The easiest threshold of a network as a number; computing it never panics.\<close>

definition pow_limit :: "network \<Rightarrow> nat" where
  "pow_limit net =
     (case net of Mainnet \<Rightarrow> canonical (2 ^ 243 - 1) | Testnet params \<Rightarrow> params_target_difficulty_limit params)"

lemma target_difficulty_limit_eq: "target_difficulty_limit net = Ok (pow_limit net)"
proof (cases net)
  case Mainnet
  have shl: "u256_shl 1 243 - 1 = 2 ^ 243 - 1"
    by (simp add: u256_shl_def u256_limit_def)
  have b: "0 < (2 ^ 243 - 1 :: nat)" "(2 ^ 243 - 1 :: nat) < u256_limit"
    by (simp_all add: u256_limit_def)
  define c :: compact_difficulty
    where "c = word_of_nat (mantissa_of (2 ^ 243 - 1) + compact_size (2 ^ 243 - 1) * 2 ^ 24)"
  have c: "to_compact (2 ^ 243 - 1) = (Ok c :: ('e, _) outcome)"
    unfolding c_def by (rule to_compact_eq [OF b])
  have "target_value c = Some (canonical (2 ^ 243 - 1))"
    by (rule to_compact_target [OF b c])
  then show ?thesis
    unfolding Mainnet target_difficulty_limit_def shl pow_limit_def c qbind.simps to_expanded_eq
    by (simp only: qbind.simps expect.simps network.case)
qed (simp add: target_difficulty_limit_def pow_limit_def)

text \<open>The context of a candidate that the recent chain has already verified.\<close>

definition context_ok :: "adjusted_difficulty \<Rightarrow> nat \<Rightarrow> bool" where
  "context_ok ad limit \<longleftrightarrow>
     schedule_ok (activation_list_of (ad_network ad))
     \<and> pow_limit (ad_network ad) = limit
     \<and> 17 * limit < u256_limit
     \<and> length (relevant_difficulty_thresholds ad) = length (relevant_times ad)
     \<and> relevant_times ad \<noteq> []
     \<and> list_all (\<lambda>c. case target_value c of None \<Rightarrow> False | Some v \<Rightarrow> 2550 \<le> v \<and> v \<le> limit)
         (relevant_difficulty_thresholds ad)
     \<and> 2550 \<le> limit"

text \<open>The targets of the averaging window, and their mean.\<close>

definition window_targets :: "adjusted_difficulty \<Rightarrow> nat list" where
  "window_targets ad = map (the \<circ> target_value) (take POW_AVERAGING_WINDOW (relevant_difficulty_thresholds ad))"

definition mean_target :: "adjusted_difficulty \<Rightarrow> nat \<Rightarrow> nat" where
  "mean_target ad limit =
     (if length (relevant_difficulty_thresholds ad) \<ge> POW_AVERAGING_WINDOW
      then sum_list (window_targets ad) div POW_AVERAGING_WINDOW else limit)"

lemma expand_all_eq:
  "list_all (\<lambda>c. target_value c \<noteq> None) cs \<Longrightarrow> expand_all cs = Ok (map (the \<circ> target_value) cs)"
  by (induction cs) auto

lemma sum_list_le_length: "list_all (\<lambda>x. x \<le> l) xs \<Longrightarrow> sum_list xs \<le> length xs * (l :: nat)"
  by (induction xs) auto

lemma sum_list_ge_length: "list_all (\<lambda>x. l \<le> x) xs \<Longrightarrow> length xs * l \<le> sum_list (xs :: nat list)"
  by (induction xs) auto

lemma window_targets_bounds:
  assumes "context_ok ad limit"
  shows "list_all (\<lambda>x. 2550 \<le> x \<and> x \<le> limit) (window_targets ad)"
proof -
  have *: "2550 \<le> the (target_value c) \<and> the (target_value c) \<le> limit"
    if "c \<in> set (relevant_difficulty_thresholds ad)" for c
    using assms that by (auto simp: context_ok_def list_all_iff split: option.splits)
  show ?thesis
    by (auto simp: window_targets_def list_all_iff dest!: in_set_takeD *)
qed

lemma mean_target_bounds:
  assumes "context_ok ad limit"
  shows "2550 \<le> mean_target ad limit" "mean_target ad limit \<le> limit"
proof -
  have "2550 \<le> mean_target ad limit \<and> mean_target ad limit \<le> limit"
  proof (cases "length (relevant_difficulty_thresholds ad) \<ge> POW_AVERAGING_WINDOW")
    case True
    then have l: "length (window_targets ad) = 17"
      by (simp add: window_targets_def pow_defs)
    have "17 * 2550 \<le> sum_list (window_targets ad)" "sum_list (window_targets ad) \<le> 17 * limit"
      using window_targets_bounds [OF assms] sum_list_le_length [of limit "window_targets ad"]
        sum_list_ge_length [of 2550 "window_targets ad"] l
      by (simp_all add: list_all_iff)
    then show ?thesis
      using True by (simp add: mean_target_def pow_defs) linarith
  next
    case False
    then show ?thesis
      using assms by (simp add: mean_target_def context_ok_def)
  qed
  then show "2550 \<le> mean_target ad limit" "mean_target ad limit \<le> limit" by auto
qed

lemma window_expand:
  assumes "context_ok ad limit"
  shows "expand_all (take POW_AVERAGING_WINDOW (relevant_difficulty_thresholds ad))
    = Ok (window_targets ad)"
proof -
  have "list_all (\<lambda>c. target_value c \<noteq> None)
      (take POW_AVERAGING_WINDOW (relevant_difficulty_thresholds ad))"
    using assms by (auto simp: context_ok_def list_all_iff dest!: in_set_takeD split: option.splits)
  then show ?thesis
    by (simp add: expand_all_eq window_targets_def)
qed

lemma mean_target_difficulty_eq:
  assumes "context_ok ad limit"
  shows "mean_target_difficulty ad = Ok (mean_target ad limit)"
proof (cases "length (relevant_difficulty_thresholds ad) \<ge> POW_AVERAGING_WINDOW")
  case True
  have "length (window_targets ad) = 17"
    using True by (simp add: window_targets_def pow_defs)
  then have "sum_list (window_targets ad) \<le> 17 * limit"
    using window_targets_bounds [OF assms] sum_list_le_length [of limit "window_targets ad"]
    by (simp add: list_all_iff)
  then have "sum_list (window_targets ad) < u256_limit"
    using assms by (simp add: context_ok_def)
  with True show ?thesis
    unfolding mean_target_difficulty_def window_expand [OF assms]
    by (simp add: expanded_sum_eq u256_div_def mean_target_def POW_AVERAGING_WINDOW_def)
next
  case False
  then show ?thesis
    using assms
    by (simp add: mean_target_difficulty_def mean_target_def context_ok_def target_difficulty_limit_eq)
qed

text \<open>The averaging window timespan is 17 target spacings of 150 or 75 seconds.\<close>

lemma current_total: "schedule_ok (activation_list_of net) \<Longrightarrow> \<exists>nu. current net h = Ok nu"
  using schedule_current_iff [of "activation_list_of net" h] by (auto simp: current_def)

lemma window_timespan:
  assumes "schedule_ok (activation_list_of net)"
  shows "\<exists>w. averaging_window_timespan_for_height net h = (Ok w :: ('e, _) outcome)
    \<and> (w = 2550 \<or> w = 1275)"
proof -
  obtain nu where "current net h = (Ok nu :: ('e, _) outcome)"
    using current_total [OF assms] by blast
  then show ?thesis
    by (simp add: averaging_window_timespan_for_height_def averaging_window_timespan_def
        target_spacing_def PRE_BLOSSOM_POW_TARGET_SPACING_def POST_BLOSSOM_POW_TARGET_SPACING_def
        POW_AVERAGING_WINDOW_def)
qed

lemma median_timespan_total: "relevant_times ad \<noteq> [] \<Longrightarrow> \<exists>t. median_timespan ad = Ok t"
  by (simp add: median_timespan_def median_time_past_def median_time_eq POW_MEDIAN_BLOCK_SPAN_def
      POW_AVERAGING_WINDOW_def)

lemma median_timespan_bounded_bounds:
  assumes "relevant_times ad \<noteq> []"
    and w: "averaging_window_timespan_for_height (ad_network ad) (candidate_height ad)
      = (Ok w :: ('e, _) outcome)"
    and "w = 2550 \<or> w = 1275"
  shows "\<exists>b. median_timespan_bounded ad = (Ok b :: ('e, _) outcome) \<and> 84 * w \<le> 100 * b \<and> 100 * b \<le> 132 * w"
proof -
  obtain t where t: "median_timespan ad = (Ok t :: ('e, _) outcome)"
    using median_timespan_total [OF assms(1)] by blast
  have "trunc_div (w * 84) 100 = w * 84 div 100" "trunc_div (w * 132) 100 = w * 132 div 100"
    using assms(3) by (auto simp: trunc_div_nonneg)
  with t w assms(3) show ?thesis
    by (auto simp: median_timespan_bounded_def pow_defs Let_def max_def min_def)
qed

lemma threshold_bits_eq:
  assumes ok: "context_ok ad limit"
  shows "\<exists>c t w. threshold_bits ad = (Ok c :: ('e, _) outcome)
    \<and> target_value c = Some (canonical (min limit t)) \<and> 0 < min limit t
    \<and> w \<in> {1275, 2550}
    \<and> 84 * (mean_target ad limit - w) \<le> 100 * t \<and> 100 * t \<le> 132 * mean_target ad limit"
proof -
  let ?m = "mean_target ad limit"
  from ok have sch: "schedule_ok (activation_list_of (ad_network ad))"
    and lim: "pow_limit (ad_network ad) = limit" and big: "17 * limit < u256_limit"
    and ne: "relevant_times ad \<noteq> []" and l: "2550 \<le> limit"
    by (auto simp: context_ok_def)
  obtain w where w: "averaging_window_timespan_for_height (ad_network ad) (candidate_height ad)
      = (Ok w :: ('e, _) outcome)" and wv: "w = 2550 \<or> w = 1275"
    using window_timespan [OF sch] by blast
  obtain b where b: "median_timespan_bounded ad = (Ok b :: ('e, _) outcome)"
    and b1: "84 * w \<le> 100 * b" and b2: "100 * b \<le> 132 * w"
    using median_timespan_bounded_bounds [OF ne w wv] by blast
  define W where "W = nat w"
  define B where "B = nat b"
  have W: "W \<in> {1275, 2550}" and wW: "w = int W"
    using wv by (auto simp: W_def)
  have bB: "b = int B" using b1 wv by (auto simp: B_def)
  have B1: "84 * W \<le> 100 * B" and B2: "100 * B \<le> 132 * W"
    using b1 b2 by (simp_all add: wW bB)
  define q where "q = ?m div W"
  have m: "2550 \<le> ?m" "?m \<le> limit"
    using mean_target_bounds [OF ok] by auto
  have Wpos: "0 < W" using W by auto
  have qW: "q * W \<le> ?m" "?m < q * W + W"
    using Wpos dividend_less_div_times [of W ?m] by (simp_all add: q_def add.commute)
  have q: "0 < q"
    using m W Wpos by (auto simp: q_def div_greater_zero_iff)
  have up: "100 * (q * B) \<le> 132 * ?m"
  proof -
    have "100 * (q * B) = q * (100 * B)" by simp
    also have "\<dots> \<le> q * (132 * W)" using B2 by (rule mult_le_mono2)
    also have "\<dots> = 132 * (q * W)" by simp
    also have "\<dots> \<le> 132 * ?m" using qW by simp
    finally show ?thesis .
  qed
  have lo: "84 * (?m - W) \<le> 100 * (q * B)"
  proof -
    have "84 * (?m - W) \<le> 84 * (q * W)" using qW by simp
    also have "\<dots> = q * (84 * W)" by simp
    also have "\<dots> \<le> q * (100 * B)" using B1 by (rule mult_le_mono2)
    finally show ?thesis by simp
  qed
  have small: "q * B < u256_limit"
    using up m big by linarith
  have pos: "0 < min limit (q * B)"
    using q B1 Wpos l by (cases B) auto
  have lt: "min limit (q * B) < u256_limit"
    using small by (simp add: min_def)
  obtain c where c: "to_compact (min limit (q * B)) = (Ok c :: ('e, _) outcome)"
    using to_compact_eq [OF pos lt] by blast
  have "threshold_bits ad = (Ok c :: ('e, _) outcome)"
    unfolding threshold_bits_def w qbind.simps mean_target_difficulty_eq [OF ok] b
      target_difficulty_limit_eq lim
    using Wpos small c
    by (simp add: u256_from_i64_def wW bB u256_div_def q_def u256_def)
  with to_compact_target [OF pos lt c] pos W lo up show ?thesis by blast
qed

section \<open>The checks on a candidate\<close>

lemma genesis_activation: "schedule_ok al \<Longrightarrow> activation_height al Genesis = Some 0"
  by (cases al) (auto simp: schedule_ok_def activation_height.simps)

lemma median_time_past_total: "relevant_times ad \<noteq> [] \<Longrightarrow> \<exists>m. median_time_past ad = Ok m"
  by (simp add: median_time_past_def median_time_eq POW_MEDIAN_BLOCK_SPAN_def)

lemma header_checks_Ok:
  assumes "schedule_ok (activation_list_of (ad_network ad))"
  shows "difficulty_threshold_and_time_are_valid c ad = Ok () \<longleftrightarrow>
    (\<exists>m. median_time_past ad = (Ok m :: (validate_context_error, _) outcome)
      \<and> (candidate_height ad = 0 \<or> m < candidate_time ad)
      \<and> (is_max_block_time_enforced (ad_network ad) (candidate_height ad) \<longrightarrow>
          candidate_time ad \<le> m + 5400)
      \<and> expected_difficulty_threshold ad = (Ok c :: (validate_context_error, _) outcome))"
  using genesis_activation [OF assms]
  by (auto simp: difficulty_threshold_and_time_are_valid_def Let_def upgrade_activation_height_def
      BLOCK_MAX_TIME_SINCE_MEDIAN_def)

text \<open>The minimum difficulty rule is configured on test networks only.\<close>

definition min_difficulty_on_test_networks :: "network \<Rightarrow> bool" where
  "min_difficulty_on_test_networks net \<longleftrightarrow>
     (case net of Mainnet \<Rightarrow> True
      | Testnet params \<Rightarrow> minimum_difficulty_start_height params \<noteq> None \<longrightarrow> is_a_test_network net)"

lemma expected_threshold_not_Panic:
  assumes ok: "context_ok ad limit" and m: "min_difficulty_on_test_networks (ad_network ad)"
  shows "\<exists>c. expected_difficulty_threshold ad = (Ok c :: ('e, _) outcome)"
proof -
  let ?net = "ad_network ad"
  from ok have sch: "schedule_ok (activation_list_of ?net)" and lim: "pow_limit ?net = limit"
    and b: "0 < limit" "limit < u256_limit"
    by (auto simp: context_ok_def)
  have limit: "\<exists>c. qbind (target_difficulty_limit ?net) to_compact = (Ok c :: ('e, _) outcome)"
    by (simp add: target_difficulty_limit_eq lim to_compact_eq [OF b])
  obtain nu where cur: "current ?net (candidate_height ad) = (Ok nu :: ('e, _) outcome)"
    using current_total [OF sch] by blast
  obtain c where t: "threshold_bits ad = (Ok c :: ('e, _) outcome)"
    using threshold_bits_eq [OF ok] by blast
  have "\<exists>r. is_testnet_min_difficulty_block ?net (candidate_height ad) (candidate_time ad)
      (hd (relevant_times ad)) = (Ok r :: ('e, _) outcome) \<and> (r \<longrightarrow> is_a_test_network ?net)"
  proof (cases ?net)
    case Mainnet
    then show ?thesis
      by (intro exI [of _ False])
        (simp add: is_testnet_min_difficulty_block_def minimum_difficulty_spacing_for_height_def)
  next
    case (Testnet ps)
    show ?thesis
    proof (cases "minimum_difficulty_start_height ps")
      case None
      with Testnet show ?thesis
        by (intro exI [of _ False])
          (simp add: is_testnet_min_difficulty_block_def minimum_difficulty_spacing_for_height_def)
    next
      case (Some start)
      then have "is_a_test_network ?net"
        using m Testnet by (simp add: min_difficulty_on_test_networks_def)
      with Testnet Some cur show ?thesis
        by (cases "candidate_height ad < start")
          (simp_all add: is_testnet_min_difficulty_block_def minimum_difficulty_spacing_for_height_def
            ex_bool_eq)
    qed
  qed
  then obtain r where r: "is_testnet_min_difficulty_block ?net (candidate_height ad) (candidate_time ad)
      (hd (relevant_times ad)) = (Ok r :: ('e, _) outcome)" and tn: "r \<longrightarrow> is_a_test_network ?net"
    by blast
  obtain cl where cl: "qbind (target_difficulty_limit ?net) to_compact = (Ok cl :: ('e, _) outcome)"
    using limit by blast
  show ?thesis
    unfolding expected_difficulty_threshold_def r cl qbind.simps t
    using tn by (cases r) (simp_all add: assert_that_def)
qed

section \<open>Properties\<close>

text \<open>
  C20. retargeting is total and bounded.  In a context whose schedule is well formed and whose
  thresholds are at most the network limit and at least 2550, computing the next threshold never
  panics and gives the compact form of a value that is at most the limit, at most 132 percent of
  the mean target of the averaging window, and, unless the limit cuts it, at least 84 percent of
  that mean less one window timespan, up to the rounding of the compact form.
\<close>

theorem retarget_bounded:
  assumes "context_ok ad limit"
  shows "\<exists>c v t w. threshold_bits ad = (Ok c :: (unit, _) outcome)
    \<and> to_expanded c = (Ok (Some v) :: (unit, _) outcome)
    \<and> v \<le> limit \<and> 100 * v \<le> 132 * mean_target ad limit
    \<and> v \<le> min limit t \<and> (min limit t - v) * 2 ^ 15 < min limit t
    \<and> w \<in> {1275, 2550} \<and> 84 * (mean_target ad limit - w) \<le> 100 * t"
proof -
  obtain c t w where c: "threshold_bits ad = (Ok c :: (unit, _) outcome)"
    "target_value c = Some (canonical (min limit t))" "0 < min limit t" "w \<in> {1275, 2550}"
    "84 * (mean_target ad limit - w) \<le> 100 * t" "100 * t \<le> 132 * mean_target ad limit"
    using threshold_bits_eq [OF assms] by blast
  have "canonical (min limit t) \<le> min limit t"
    by (rule canonical_le)
  with c canonical_error [OF c(3)] show ?thesis
    by (intro exI [of _ c] exI [of _ "canonical (min limit t)"] exI [of _ t] exI [of _ w]) auto
qed

definition sample_context :: adjusted_difficulty where
  "sample_context = \<lparr>candidate_time = 75, candidate_height = 3,
     ad_network = Testnet ((finish sample_builder)\<lparr>activation_heights := wcash_schedule,
       params_target_difficulty_limit := 0x2fabe8 * 256 ^ 2\<rparr>),
     relevant_difficulty_thresholds = [0x052fabe8, 0x052fabe8], relevant_times = [0, 1]\<rparr>"

theorem retarget_bounded_witness:
  "context_ok sample_context (0x2fabe8 * 256 ^ 2)
    \<and> (\<exists>c v. threshold_bits sample_context = (Ok c :: (unit, _) outcome)
        \<and> to_expanded c = (Ok (Some v) :: (unit, _) outcome) \<and> v \<le> 0x2fabe8 * 256 ^ 2)"
proof -
  have ok: "context_ok sample_context (0x2fabe8 * 256 ^ 2)"
    by (simp add: context_ok_def sample_context_def activation_list_of_def finish_def schedule_ok_wcash
        pow_limit_def target_value_def u256_limit_def)
  with retarget_bounded [OF ok] show ?thesis
    by blast
qed

text \<open>
  The median of a non-empty list of block times is one of them, at most half of the times
  are earlier and fewer than half are later; so an interval that contains a strict majority of
  the times contains the median, and a minority of block times cannot move it out.
\<close>

theorem median_time_majority:
  assumes "xs \<noteq> []"
  shows "\<exists>m. median_time xs = (Ok m :: (unit, _) outcome) \<and> m \<in> set xs
    \<and> 2 * length (filter (\<lambda>x. x < m) xs) \<le> length xs
    \<and> 2 * length (filter (\<lambda>x. m < x) xs) < length xs
    \<and> (\<forall>a b. 2 * length (filter (\<lambda>x. a \<le> x \<and> x \<le> b) xs) > length xs \<longrightarrow> a \<le> m \<and> m \<le> b)"
proof -
  let ?k = "length xs div 2" and ?s = "sort xs"
  let ?m = "?s ! ?k"
  have k: "?k < length ?s" using assms by simp
  have mem: "?m \<in> set xs" using nth_mem [OF k] by simp
  have less: "length (filter (\<lambda>x. x < ?m) xs) \<le> ?k"
    using sorted_nth_count_less [OF _ k] by (simp add: length_filter_sort)
  have greater: "length (filter (\<lambda>x. ?m < x) xs) \<le> length xs - Suc ?k"
    using sorted_nth_count_greater [OF _ k] by (simp add: length_filter_sort)
  have "a \<le> ?m \<and> ?m \<le> b" if maj: "2 * length (filter (\<lambda>x. a \<le> x \<and> x \<le> b) xs) > length xs" for a b
  proof (rule ccontr)
    assume "\<not> (a \<le> ?m \<and> ?m \<le> b)"
    then consider "?m < a" | "b < ?m" by linarith
    then have "length (filter (\<lambda>x. a \<le> x \<and> x \<le> b) xs) \<le> ?k"
    proof cases
      case 1
      then have "length (filter (\<lambda>x. a \<le> x \<and> x \<le> b) xs) \<le> length (filter (\<lambda>x. ?m < x) xs)"
        by (intro length_filter_imp) auto
      with greater show ?thesis by linarith
    next
      case 2
      then have "length (filter (\<lambda>x. a \<le> x \<and> x \<le> b) xs) \<le> length (filter (\<lambda>x. x < ?m) xs)"
        by (intro length_filter_imp) auto
      with less show ?thesis by linarith
    qed
    with maj show False by linarith
  qed
  moreover have "2 * length (filter (\<lambda>x. x < ?m) xs) \<le> length xs" using less by linarith
  moreover have "2 * length (filter (\<lambda>x. ?m < x) xs) < length xs"
  proof -
    have "0 < length xs" using assms by simp
    with greater show ?thesis by linarith
  qed
  ultimately show ?thesis
    using mem median_time_eq [OF assms] by blast
qed

theorem median_time_majority_witness:
  "[30, 10, 20 :: int] \<noteq> [] \<and> median_time [30, 10, 20] = (Ok 20 :: (unit, _) outcome)"
proof -
  have ne: "[30, 10, 20 :: int] \<noteq> []" by simp
  obtain m where "median_time [30, 10, 20] = (Ok m :: (unit, _) outcome)"
    "2 * length (filter (\<lambda>x. 20 \<le> x \<and> x \<le> 30) [30, 10, 20 :: int]) > 3 \<longrightarrow> 20 \<le> m \<and> m \<le> 30"
    "2 * length (filter (\<lambda>x. 10 \<le> x \<and> x \<le> 20) [30, 10, 20 :: int]) > 3 \<longrightarrow> 10 \<le> m \<and> m \<le> 20"
    using median_time_majority [OF ne] by auto
  then show ?thesis by simp
qed

text \<open>
  C7. the contextual check of a block against its recent chain accepts exactly the blocks that
  extend their parent by one height, above the finalized tip, with a time after the median of the
  previous eleven times and, where the rule is enforced, at most 90 minutes after it, and with
  exactly the expected threshold bits.
\<close>

theorem recent_chain_check_exact:
  assumes "coinbase_height block = Some h" "0 < h" "h \<le> HEIGHT_MAX"
    and "schedule_ok (activation_list_of net)" and "coinbase_height parent = Some ph"
  shows "block_is_valid_for_recent_chain block h net (Some tip) (parent # chain) = Ok () \<longleftrightarrow>
    tip < h \<and> h = ph + 1
    \<and> (\<exists>ad m. ad = \<lparr>candidate_time = header_time block, candidate_height = h, ad_network = net,
            relevant_difficulty_thresholds = map header_threshold (take 28 (parent # chain)),
            relevant_times = map header_time (take 28 (parent # chain))\<rparr>
        \<and> median_time (map header_time (take 11 (parent # chain)))
            = (Ok m :: (validate_context_error, _) outcome)
        \<and> m < header_time block
        \<and> (is_max_block_time_enforced net h \<longrightarrow> header_time block \<le> m + 5400)
        \<and> expected_difficulty_threshold ad
            = (Ok (header_threshold block) :: (validate_context_error, _) outcome))"
proof -
  define ad where "ad = \<lparr>candidate_time = header_time block, candidate_height = h, ad_network = net,
      relevant_difficulty_thresholds = map header_threshold (take 28 (parent # chain)),
      relevant_times = map header_time (take 28 (parent # chain))\<rparr>"
  obtain k where h: "h = Suc k" using assms(2) by (cases h) auto
  have span: "POW_ADJUSTMENT_BLOCK_SPAN = 28" by (simp add: pow_defs)
  have len: "length (take 28 (parent # chain)) \<le> 28" "take 28 (parent # chain) = parent # take 27 chain"
    by simp_all
  have nb: "new_from_block block net (map (\<lambda>b. (header_threshold b, header_time b)) (take 28 (parent # chain)))
      = (Ok ad :: (validate_context_error, _) outcome)"
    using assms(1,3) h
    by (simp add: new_from_block_def new_from_header_time_def height_sub_eq height_add_eq span
        bounded_vec_def ad_def comp_def Let_def)
  have ext: "height_add ph 1 = Some h \<longleftrightarrow> h = ph + 1"
    using assms(3) by (auto simp: height_add_eq)
  have mt: "median_time_past ad = median_time (map header_time (take 11 (parent # chain)))"
    by (simp add: median_time_past_def ad_def POW_MEDIAN_BLOCK_SPAN_def take_map min_def)
  have "block_is_valid_for_recent_chain block h net (Some tip) (parent # chain) = Ok () \<longleftrightarrow>
      tip < h \<and> h = ph + 1 \<and> difficulty_threshold_and_time_are_valid (header_threshold block) ad = Ok ()"
    unfolding block_is_valid_for_recent_chain_def span len(2)
    using assms(5) nb ext
    by (auto simp: block_is_not_orphaned_def height_one_more_than_parent_height_def len(2))
  also have "\<dots> \<longleftrightarrow> tip < h \<and> h = ph + 1 \<and> (\<exists>m. median_time_past ad = (Ok m :: (validate_context_error, _) outcome)
      \<and> (candidate_height ad = 0 \<or> m < candidate_time ad)
      \<and> (is_max_block_time_enforced (ad_network ad) (candidate_height ad) \<longrightarrow> candidate_time ad \<le> m + 5400)
      \<and> expected_difficulty_threshold ad = (Ok (header_threshold block) :: (validate_context_error, _) outcome))"
    using header_checks_Ok [of ad "header_threshold block"] assms(4) by (simp add: ad_def)
  also have "\<dots> \<longleftrightarrow> tip < h \<and> h = ph + 1 \<and> (\<exists>m. median_time (map header_time (take 11 (parent # chain)))
        = (Ok m :: (validate_context_error, _) outcome)
      \<and> m < header_time block \<and> (is_max_block_time_enforced net h \<longrightarrow> header_time block \<le> m + 5400)
      \<and> expected_difficulty_threshold ad = (Ok (header_threshold block) :: (validate_context_error, _) outcome))"
    using assms(2) unfolding mt by (simp add: ad_def)
  finally show ?thesis
    unfolding ad_def by simp
qed

definition sample_regtest :: network where
  "sample_regtest = Testnet ((finish sample_builder)\<lparr>consensus_flavor := Wcash Wcash_Regtest,
     activation_heights := wcash_schedule, params_target_difficulty_limit := 32\<rparr>)"

theorem recent_chain_check_exact_witness:
  "block_is_valid_for_recent_chain
     \<lparr>coinbase_height = Some 2, header_threshold = 0x01200000, header_time = 7\<rparr> 2 sample_regtest (Some 0)
     [\<lparr>coinbase_height = Some 1, header_threshold = 0x01200000, header_time = 5\<rparr>] = Ok ()"
proof -
  have "u256_bits 32 = 6" by (rule u256_bits_unique) simp_all
  then have "to_compact 32 = (Ok 0x01200000 :: (validate_context_error, _) outcome)"
    by (simp add: to_compact_eq u256_limit_def mantissa_of_def compact_size_def)
  then have "expected_difficulty_threshold ad = (Ok 0x01200000 :: (validate_context_error, _) outcome)"
    if "ad_network ad = sample_regtest" for ad
    using that by (simp add: expected_difficulty_threshold_def is_regtest_def is_regtest_params_def
        sample_regtest_def target_difficulty_limit_def)
  then show ?thesis
    by (subst recent_chain_check_exact)
      (simp_all add: HEIGHT_MAX_def u32_max_def sample_regtest_def activation_list_of_def
        schedule_ok_wcash median_time_def is_max_block_time_enforced_def is_wcash_testnet_def
        is_wcash_mainnet_def wcash_network_def TESTNET_MAX_TIME_START_HEIGHT_def)
qed

text \<open>
  C19. the contextual check never panics on a candidate whose parent has a height: in an already
  verified context none of its \<^verbatim>\<open>expect\<close>s and assertions fire, on every network that configures the
  minimum difficulty rule on test networks only.
\<close>

theorem recent_chain_check_no_panic:
  assumes "coinbase_height block = Some h" "0 < h" "h \<le> HEIGHT_MAX"
    and "coinbase_height parent = Some ph" and "min_difficulty_on_test_networks net"
    and "context_ok \<lparr>candidate_time = header_time block, candidate_height = h, ad_network = net,
        relevant_difficulty_thresholds = map header_threshold (take 28 (parent # chain)),
        relevant_times = map header_time (take 28 (parent # chain))\<rparr> limit"
  shows "block_is_valid_for_recent_chain block h net (Some tip) (parent # chain) \<noteq> Panic"
proof -
  define ad where "ad = \<lparr>candidate_time = header_time block, candidate_height = h, ad_network = net,
      relevant_difficulty_thresholds = map header_threshold (take 28 (parent # chain)),
      relevant_times = map header_time (take 28 (parent # chain))\<rparr>"
  obtain k where h: "h = Suc k" using assms(2) by (cases h) auto
  have span: "POW_ADJUSTMENT_BLOCK_SPAN = 28" by (simp add: pow_defs)
  have len: "take 28 (parent # chain) = parent # take 27 chain" by simp
  have nb: "new_from_block block net (map (\<lambda>b. (header_threshold b, header_time b)) (take 28 (parent # chain)))
      = (Ok ad :: (validate_context_error, _) outcome)"
    using assms(1,3) h
    by (simp add: new_from_block_def new_from_header_time_def height_sub_eq height_add_eq span
        bounded_vec_def ad_def comp_def Let_def)
  have ok: "context_ok ad limit" using assms(6) by (simp add: ad_def)
  have "activation_height (activation_list_of (ad_network ad)) Genesis = Some 0"
    using ok by (simp add: context_ok_def genesis_activation)
  moreover obtain m where "median_time_past ad = (Ok m :: (validate_context_error, _) outcome)"
    using ok median_time_past_total [of ad] by (auto simp: context_ok_def)
  moreover obtain c where "expected_difficulty_threshold ad = (Ok c :: (validate_context_error, _) outcome)"
    using expected_threshold_not_Panic [OF ok] assms(5) by (auto simp: ad_def)
  ultimately have "difficulty_threshold_and_time_are_valid x ad \<noteq> Panic" for x
    by (simp add: difficulty_threshold_and_time_are_valid_def Let_def upgrade_activation_height_def
        qbind_eq_Panic)
  then show ?thesis
    unfolding block_is_valid_for_recent_chain_def span len
    using assms(4) nb
    by (auto simp: block_is_not_orphaned_def height_one_more_than_parent_height_def len qbind_eq_Panic)
qed

theorem recent_chain_check_no_panic_witness:
  "block_is_valid_for_recent_chain
     \<lparr>coinbase_height = Some 2, header_threshold = 0x052fabe8, header_time = 7\<rparr> 2
     (ad_network sample_context) (Some 0)
     [\<lparr>coinbase_height = Some 1, header_threshold = 0x052fabe8, header_time = 5\<rparr>] \<noteq> Panic"
  by (rule recent_chain_check_no_panic [where limit = "0x2fabe8 * 256 ^ 2" and ph = 1])
    (simp_all add: HEIGHT_MAX_def u32_max_def min_difficulty_on_test_networks_def sample_context_def
      is_a_test_network_def kind_def is_wcash_mainnet_def wcash_network_def finish_def context_ok_def
      activation_list_of_def schedule_ok_wcash pow_limit_def target_value_def u256_limit_def
      is_regtest_params_def REGTEST_MAGIC_def)

end
