(* ===== verification/Emission.thy ===== *)
theory Emission
  imports Amounts
begin

text \<open>
  The Wcash Mainnet emission, from
  \<^verbatim>\<open>zebra-chain/src/parameters/network/subsidy/wcash_mainnet.rs\<close>.

  The subsidy of a block depends on its height and on a counter of what the curve has emitted
  on the parent branch.  \<open>subsidy_atoms\<close>, \<open>advance_curve_counter\<close> and \<open>validate_and_advance\<close> are the
  operations of the source; \<open>build_pre_tail_subsidies\<close> is the loop that fills the table which
  \<open>mainnet_block_subsidy\<close> reads.  The table has 3,455,360 entries, far too many to evaluate, so
  the facts about it come from the recurrence: the remaining emission is a geometric sequence up
  to rounding, and the power \<open>(1 - 5 / 2\<^sup>2\<^sup>2) ^ n\<close> is bounded by repeated squaring in fixed point.
\<close>

section \<open>Constants and errors\<close>

definition SLOW_START_BLOCKS :: nat where "SLOW_START_BLOCKS = 40000"
definition MAIN_EMISSION_SCALE :: nat where "MAIN_EMISSION_SCALE = 1844674407370955"
definition EMISSION_NUMERATOR :: nat where "EMISSION_NUMERATOR = 5"
definition EMISSION_DENOMINATOR :: nat where "EMISSION_DENOMINATOR = 4194304"
definition TAIL_SUBSIDY :: nat where "TAIL_SUBSIDY = 37500000"
definition RAMP_PEAK :: nat where "RAMP_PEAK = 2199023255"
definition FIRST_TAIL_HEIGHT :: nat where "FIRST_TAIL_HEIGHT = 3455360"

datatype emission_error = CounterOutOfRange | CounterBeforeCurve | GenesisFees | AmountOverflow
  | IncorrectCoinbaseClaim

named_theorems emission_defs \<open>the constants of the emission\<close>

declare SLOW_START_BLOCKS_def [emission_defs] MAIN_EMISSION_SCALE_def [emission_defs]
  EMISSION_NUMERATOR_def [emission_defs] EMISSION_DENOMINATOR_def [emission_defs]
  TAIL_SUBSIDY_def [emission_defs] RAMP_PEAK_def [emission_defs] FIRST_TAIL_HEIGHT_def [emission_defs]

section \<open>The recurrence\<close>

text \<open>The products are \<^verbatim>\<open>u128\<close>: factors of at most 64 bits cannot overflow it.\<close>

definition subsidy_atoms :: "nat \<Rightarrow> nat \<Rightarrow> (emission_error, nat) outcome" where
  "subsidy_atoms height curve_emitted_before =
     (if curve_emitted_before > MAIN_EMISSION_SCALE then Err CounterOutOfRange
      else if height \<le> SLOW_START_BLOCKS then
        (if curve_emitted_before \<noteq> 0 then Err CounterBeforeCurve
         else ok_or (checked_u64 (RAMP_PEAK * height div SLOW_START_BLOCKS)) AmountOverflow)
      else
        let remaining = MAIN_EMISSION_SCALE - curve_emitted_before in
        qbind (ok_or (checked_u64 (EMISSION_NUMERATOR * remaining div EMISSION_DENOMINATOR)) AmountOverflow)
          (\<lambda>curve_reward. Ok (max curve_reward TAIL_SUBSIDY)))"

definition advance_curve_counter :: "nat \<Rightarrow> nat \<Rightarrow> nat \<Rightarrow> (emission_error, nat) outcome" where
  "advance_curve_counter height curve_emitted_before subsidy =
     (if curve_emitted_before > MAIN_EMISSION_SCALE then Err CounterOutOfRange
      else if height \<le> SLOW_START_BLOCKS then
        (if curve_emitted_before \<noteq> 0 then Err CounterBeforeCurve else Ok 0)
      else
        qbind (ok_or (checked_u64 (curve_emitted_before + subsidy)) AmountOverflow)
          (\<lambda>s. Ok (min s MAIN_EMISSION_SCALE)))"

definition validate_and_advance :: "nat \<Rightarrow> nat \<Rightarrow> nat \<Rightarrow> nat \<Rightarrow> (emission_error, nat) outcome" where
  "validate_and_advance height curve_emitted_before fees coinbase_value =
     (if height = 0 \<and> fees \<noteq> 0 then Err GenesisFees
      else
        qbind (subsidy_atoms height curve_emitted_before) (\<lambda>subsidy.
        qbind (ok_or (checked_u64 (subsidy + fees)) AmountOverflow) (\<lambda>expected.
          if coinbase_value \<noteq> expected then Err IncorrectCoinbaseClaim
          else advance_curve_counter height curve_emitted_before subsidy)))"

text \<open>The loop over the heights; the state is the table so far and the counter.\<close>

fun build_loop :: "nat \<Rightarrow> ('e, nat list \<times> nat) outcome" where
  "build_loop 0 = Ok ([], 0)"
| "build_loop (Suc height) =
     qbind (build_loop height) (\<lambda>(subsidies, curve_counter).
     qbind (expect_ok (subsidy_atoms height curve_counter)) (\<lambda>subsidy.
     qbind (expect (checked_u32 subsidy)) (\<lambda>entry.
     qbind (expect_ok (advance_curve_counter height curve_counter subsidy)) (\<lambda>curve_counter'.
       Ok (subsidies @ [entry], curve_counter')))))"

text \<open>
  The two debug assertions are there in a build with \<open>debug_assertions\<close>; the functions below are those of
  a release build, which compiles them out.
\<close>

definition build_pre_tail_subsidies :: "bool \<Rightarrow> ('e, nat list) outcome" where
  "build_pre_tail_subsidies debug_assertions =
     qbind (build_loop FIRST_TAIL_HEIGHT) (\<lambda>(subsidies, curve_counter).
     qbind (assert_that (debug_assertions \<longrightarrow> length subsidies = FIRST_TAIL_HEIGHT)) (\<lambda>_.
     qbind (assert_that (debug_assertions \<longrightarrow> subsidy_atoms FIRST_TAIL_HEIGHT curve_counter = Ok TAIL_SUBSIDY)) (\<lambda>_.
       Ok subsidies)))"

definition mainnet_block_subsidy :: "nat \<Rightarrow> (amount_error, amount) outcome" where
  "mainnet_block_subsidy height =
     qbind (if height \<ge> FIRST_TAIL_HEIGHT then Ok TAIL_SUBSIDY
            else qbind (build_pre_tail_subsidies False) (\<lambda>subsidies.
                   expect (if height < length subsidies then Some (subsidies ! height) else None)))
       (\<lambda>subsidy. amount_try_from_u64 Wcash_profile NonNegative subsidy)"

section \<open>The canonical schedule\<close>

text \<open>The counter before a height, and the subsidy at it, when every block claims exactly.\<close>

definition curve_reward :: "nat \<Rightarrow> nat" where
  "curve_reward remaining = 5 * remaining div 4194304"

fun remaining_before :: "nat \<Rightarrow> nat" where
  "remaining_before 0 = MAIN_EMISSION_SCALE"
| "remaining_before (Suc h) =
     (if h \<le> SLOW_START_BLOCKS then MAIN_EMISSION_SCALE
      else remaining_before h - max (curve_reward (remaining_before h)) TAIL_SUBSIDY)"

definition counter_before :: "nat \<Rightarrow> nat" where
  "counter_before h = MAIN_EMISSION_SCALE - remaining_before h"

definition emission :: "nat \<Rightarrow> nat" where
  "emission h =
     (if h \<le> SLOW_START_BLOCKS then RAMP_PEAK * h div SLOW_START_BLOCKS
      else max (curve_reward (remaining_before h)) TAIL_SUBSIDY)"

lemma remaining_before_le: "remaining_before h \<le> MAIN_EMISSION_SCALE"
  by (induction h) (auto simp: le_diff_conv intro: order_trans)

lemma remaining_before_slow: "h \<le> Suc SLOW_START_BLOCKS \<Longrightarrow> remaining_before h = MAIN_EMISSION_SCALE"
  by (cases h) auto

lemma curve_reward_mono: "r \<le> r' \<Longrightarrow> curve_reward r \<le> curve_reward r'"
  unfolding curve_reward_def by (intro div_le_mono) simp

lemma curve_reward_scale: "curve_reward MAIN_EMISSION_SCALE = RAMP_PEAK"
  by (simp add: curve_reward_def emission_defs)

lemma emission_le_peak: "emission h \<le> RAMP_PEAK"
proof (cases "h \<le> SLOW_START_BLOCKS")
  case True
  then have "RAMP_PEAK * h div SLOW_START_BLOCKS \<le> RAMP_PEAK * SLOW_START_BLOCKS div SLOW_START_BLOCKS"
    by (intro div_le_mono) simp
  with True show ?thesis by (simp add: emission_def SLOW_START_BLOCKS_def)
next
  case False
  have "curve_reward (remaining_before h) \<le> RAMP_PEAK"
    using curve_reward_mono [OF remaining_before_le [of h]] by (simp add: curve_reward_scale)
  with False show ?thesis by (simp add: emission_def emission_defs)
qed

lemma counter_before_le: "counter_before h \<le> MAIN_EMISSION_SCALE"
  by (simp add: counter_before_def)

lemma subsidy_atoms_canonical: "subsidy_atoms h (counter_before h) = Ok (emission h)"
proof (cases "h \<le> SLOW_START_BLOCKS")
  case True
  then have "RAMP_PEAK * h div SLOW_START_BLOCKS \<le> u64_max"
    using emission_le_peak [of h] by (simp add: emission_def RAMP_PEAK_def u64_max_def)
  with True show ?thesis
    by (simp add: subsidy_atoms_def counter_before_def remaining_before_slow checked_u64_def emission_def)
next
  case False
  have "curve_reward (remaining_before h) \<le> u64_max"
    using emission_le_peak [of h] False by (simp add: emission_def RAMP_PEAK_def u64_max_def)
  then have "5 * (MAIN_EMISSION_SCALE - counter_before h) div 4194304 \<le> u64_max"
    using remaining_before_le [of h] by (simp add: counter_before_def curve_reward_def)
  with False show ?thesis
    using remaining_before_le [of h] counter_before_le [of h]
    by (simp add: subsidy_atoms_def checked_u64_def EMISSION_NUMERATOR_def EMISSION_DENOMINATOR_def
        Let_def emission_def curve_reward_def counter_before_def)
qed

lemma advance_canonical: "advance_curve_counter h (counter_before h) (emission h) = Ok (counter_before (Suc h))"
proof (cases "h \<le> SLOW_START_BLOCKS")
  case True
  then show ?thesis
    by (simp add: advance_curve_counter_def counter_before_def remaining_before_slow)
next
  case False
  have "counter_before h + emission h \<le> u64_max"
    using counter_before_le [of h] emission_le_peak [of h] by (simp add: emission_defs u64_max_def)
  moreover have "counter_before (Suc h) = min (counter_before h + emission h) MAIN_EMISSION_SCALE"
    using False remaining_before_le [of h] by (simp add: counter_before_def emission_def min_def) linarith
  ultimately show ?thesis
    using False counter_before_le [of h] by (simp add: advance_curve_counter_def checked_u64_def)
qed

lemma build_loop_eq: "build_loop n = Ok (map emission [0..<n], counter_before n)"
proof (induction n)
  case (Suc n)
  have "checked_u32 (emission n) = Some (emission n)"
    using emission_le_peak [of n] by (simp add: checked_u32_def u32_max_def RAMP_PEAK_def)
  with Suc show ?case
    by (simp add: subsidy_atoms_canonical advance_canonical)
qed (simp add: counter_before_def)

lemma build_pre_tail_subsidies_eq:
  "build_pre_tail_subsidies debug = (if debug \<and> emission FIRST_TAIL_HEIGHT \<noteq> TAIL_SUBSIDY then Panic else Ok (map emission [0 ..< FIRST_TAIL_HEIGHT]))"
  by (simp add: build_pre_tail_subsidies_def build_loop_eq subsidy_atoms_canonical assert_that_def)

lemma mainnet_block_subsidy_eq: "mainnet_block_subsidy h =
    Ok (Amount (int (if h \<ge> FIRST_TAIL_HEIGHT then TAIL_SUBSIDY else emission h)))"
  using emission_le_peak [of h]
  by (simp add: mainnet_block_subsidy_def build_pre_tail_subsidies_eq try_from_u64_eq
      try_from_i128_eq money_defs TAIL_SUBSIDY_def RAMP_PEAK_def)

section \<open>Geometric bounds\<close>

text \<open>The curve without the tail floor, after \<open>n\<close> blocks.\<close>

definition curve_step :: "nat \<Rightarrow> nat" where
  "curve_step r = r - curve_reward r"

fun pure_remaining :: "nat \<Rightarrow> nat" where
  "pure_remaining 0 = MAIN_EMISSION_SCALE"
| "pure_remaining (Suc n) = curve_step (pure_remaining n)"

lemma curve_reward_Suc: "curve_reward (Suc r) \<le> Suc (curve_reward r)"
  by (simp add: curve_reward_def)

lemma curve_reward_le: "curve_reward r \<le> r"
  by (simp add: curve_reward_def)

lemma curve_step_mono: "r \<le> r' \<Longrightarrow> curve_step r \<le> curve_step r'"
proof (induction r' rule: dec_induct)
  case (step r')
  then show ?case
    using curve_reward_Suc [of r'] by (simp add: curve_step_def)
qed simp

lemma remaining_le_pure: "remaining_before (Suc SLOW_START_BLOCKS + n) \<le> pure_remaining n"
proof (induction n)
  case (Suc n)
  let ?r = "remaining_before (Suc SLOW_START_BLOCKS + n)"
  have "remaining_before (Suc (Suc SLOW_START_BLOCKS + n)) = ?r - max (curve_reward ?r) TAIL_SUBSIDY"
    unfolding remaining_before.simps(2) [of "Suc SLOW_START_BLOCKS + n"] by (rule if_not_P) simp
  then have "remaining_before (Suc SLOW_START_BLOCKS + Suc n) \<le> curve_step ?r"
    unfolding add_Suc_right curve_step_def by (metis diff_le_mono2 max.cobounded1)
  also have "\<dots> \<le> pure_remaining (Suc n)"
    using curve_step_mono [OF Suc] by simp
  finally show ?case .
qed (simp add: remaining_before_le)

lemma curve_step_upper: "4194304 * (5 * int (curve_step r) - 4194304) \<le> 4194299 * (5 * int r - 4194304)"
proof -
  define q where "q = curve_reward r"
  have "5 * r < 4194304 * q + 4194304"
    unfolding q_def curve_reward_def by linarith
  then have "5 * int r < 4194304 * int q + 4194304" by linarith
  moreover have "int (curve_step r) = int r - int q"
    using curve_reward_le [of r] by (simp add: curve_step_def q_def)
  ultimately show ?thesis by (simp add: algebra_simps)
qed

lemma curve_step_lower: "4194299 * int r \<le> 4194304 * int (curve_step r)"
proof -
  define q where "q = curve_reward r"
  have "4194304 * q \<le> 5 * r"
    unfolding q_def curve_reward_def by simp
  then have "4194304 * int q \<le> 5 * int r" by linarith
  moreover have "int (curve_step r) = int r - int q"
    using curve_reward_le [of r] by (simp add: curve_step_def q_def)
  ultimately show ?thesis by (simp add: algebra_simps)
qed

lemma pure_upper:
  "4194304 ^ n * (5 * int (pure_remaining n) - 4194304)
    \<le> 4194299 ^ n * (5 * int MAIN_EMISSION_SCALE - 4194304)"
proof (induction n)
  case (Suc n)
  have "4194304 ^ Suc n * (5 * int (pure_remaining (Suc n)) - 4194304)
      = 4194304 ^ n * (4194304 * (5 * int (curve_step (pure_remaining n)) - 4194304))"
    by simp
  also have "\<dots> \<le> 4194304 ^ n * (4194299 * (5 * int (pure_remaining n) - 4194304))"
    using curve_step_upper by (intro mult_left_mono) auto
  also have "\<dots> = 4194299 * (4194304 ^ n * (5 * int (pure_remaining n) - 4194304))"
    by simp
  also have "\<dots> \<le> 4194299 * (4194299 ^ n * (5 * int MAIN_EMISSION_SCALE - 4194304))"
    using Suc by (intro mult_left_mono) auto
  finally show ?case by simp
qed simp

lemma pure_lower: "4194299 ^ n * int MAIN_EMISSION_SCALE \<le> 4194304 ^ n * int (pure_remaining n)"
proof (induction n)
  case (Suc n)
  have "4194299 ^ Suc n * int MAIN_EMISSION_SCALE
      = 4194299 * (4194299 ^ n * int MAIN_EMISSION_SCALE)"
    by simp
  also have "\<dots> \<le> 4194299 * (4194304 ^ n * int (pure_remaining n))"
    using Suc by (intro mult_left_mono) auto
  also have "\<dots> = 4194304 ^ n * (4194299 * int (pure_remaining n))"
    by simp
  also have "\<dots> \<le> 4194304 ^ n * (4194304 * int (curve_step (pure_remaining n)))"
    using curve_step_lower by (intro mult_left_mono) auto
  finally show ?case by simp
qed simp

text \<open>Fixed-point powers with 64 fractional bits, rounded up and down.\<close>

definition sq_up :: "nat \<Rightarrow> nat" where "sq_up p = (p * p + (2 ^ 64 - 1)) div 2 ^ 64"
definition sq_down :: "nat \<Rightarrow> nat" where "sq_down p = p * p div 2 ^ 64"
definition mul_up :: "nat \<Rightarrow> nat" where "mul_up p = (p * 4194299 + 4194303) div 4194304"
definition mul_down :: "nat \<Rightarrow> nat" where "mul_down p = p * 4194299 div 4194304"

fun pow_up :: "nat \<Rightarrow> nat" where
  "pow_up n =
     (if n = 0 then 2 ^ 64
      else if odd n then mul_up (sq_up (pow_up (n div 2))) else sq_up (pow_up (n div 2)))"

fun pow_down :: "nat \<Rightarrow> nat" where
  "pow_down n =
     (if n = 0 then 2 ^ 64
      else if odd n then mul_down (sq_down (pow_down (n div 2))) else sq_down (pow_down (n div 2)))"

declare pow_up.simps [simp del] pow_down.simps [simp del]

lemma sq_up_bound: "x * 2 ^ 64 \<le> p * d \<Longrightarrow> x * x * 2 ^ 64 \<le> sq_up p * (d * (d :: nat))"
proof -
  assume a: "x * 2 ^ 64 \<le> p * d"
  have "x * x * 2 ^ 64 * 2 ^ 64 = (x * 2 ^ 64) * (x * 2 ^ 64)" by simp
  also have "\<dots> \<le> (p * d) * (p * d)" by (rule mult_le_mono [OF a a])
  also have "\<dots> = p * p * (d * d)" by simp
  also have "\<dots> \<le> (sq_up p * 2 ^ 64) * (d * d)"
    by (intro mult_right_mono) (auto simp: sq_up_def)
  finally have "(x * x * 2 ^ 64) * 2 ^ 64 \<le> (sq_up p * (d * d)) * 2 ^ 64" by (simp add: mult_ac)
  then show ?thesis by (simp only: mult_le_cancel2) simp
qed

lemma sq_down_bound: "p * d \<le> x * 2 ^ 64 \<Longrightarrow> sq_down p * (d * d) \<le> x * x * (2 ^ 64 :: nat)"
proof -
  assume a: "p * d \<le> x * 2 ^ 64"
  have "sq_down p * (d * d) * 2 ^ 64 = (sq_down p * 2 ^ 64) * (d * d)" by simp
  also have "\<dots> \<le> p * p * (d * d)"
    by (intro mult_right_mono) (auto simp: sq_down_def)
  also have "\<dots> = (p * d) * (p * d)" by simp
  also have "\<dots> \<le> (x * 2 ^ 64) * (x * 2 ^ 64)" by (rule mult_le_mono [OF a a])
  finally have "(sq_down p * (d * d)) * 2 ^ 64 \<le> (x * x * 2 ^ 64) * 2 ^ 64" by (simp add: mult_ac)
  then show ?thesis by (simp only: mult_le_cancel2) simp
qed

lemma pow_split: "(a :: nat) ^ n = (if odd n then a else 1) * (a ^ (n div 2) * a ^ (n div 2))"
proof -
  have "a ^ n = a ^ (n mod 2 + (n div 2 + n div 2))"
    by (metis mod_mult_div_eq mult_2)
  then show ?thesis
    by (cases "odd n") (simp_all add: power_add odd_iff_mod_2_eq_one even_iff_mod_2_eq_zero)
qed

lemma pow_up_bound: "4194299 ^ n * 2 ^ 64 \<le> pow_up n * 4194304 ^ n"
proof (induction n rule: pow_up.induct)
  case (1 n)
  show ?case
  proof (cases "n = 0")
    case False
    let ?a = "4194299 ^ (n div 2) :: nat" and ?d = "4194304 ^ (n div 2) :: nat"
    have IH: "?a * 2 ^ 64 \<le> pow_up (n div 2) * ?d"
      using 1 False by blast
    have sq: "?a * ?a * 2 ^ 64 \<le> sq_up (pow_up (n div 2)) * (?d * ?d)"
      by (rule sq_up_bound [OF IH])
    show ?thesis
    proof (cases "odd n")
      case True
      let ?q = "sq_up (pow_up (n div 2))"
      have "4194299 ^ n * 2 ^ 64 = 4194299 * (?a * ?a * 2 ^ 64)"
        using True by (subst pow_split) simp
      also have "\<dots> \<le> 4194299 * (?q * (?d * ?d))" using sq by (rule mult_le_mono2)
      also have "\<dots> = ?q * 4194299 * (?d * ?d)" by simp
      also have "\<dots> \<le> (mul_up ?q * 4194304) * (?d * ?d)"
        by (intro mult_le_mono1) (simp add: mul_up_def)
      also have "\<dots> = mul_up ?q * 4194304 ^ n"
        using True by (subst pow_split [of _ n]) simp
      finally show ?thesis
        using True False by (simp add: pow_up.simps [of n])
    next
      case even: False
      then show ?thesis
        using sq False by (subst (1 2) pow_split) (simp add: pow_up.simps [of n])
    qed
  qed (simp add: pow_up.simps)
qed

lemma pow_down_bound: "pow_down n * 4194304 ^ n \<le> 4194299 ^ n * 2 ^ 64"
proof (induction n rule: pow_down.induct)
  case (1 n)
  show ?case
  proof (cases "n = 0")
    case False
    let ?a = "4194299 ^ (n div 2) :: nat" and ?d = "4194304 ^ (n div 2) :: nat"
    have IH: "pow_down (n div 2) * ?d \<le> ?a * 2 ^ 64"
      using 1 False by blast
    have sq: "sq_down (pow_down (n div 2)) * (?d * ?d) \<le> ?a * ?a * 2 ^ 64"
      by (rule sq_down_bound [OF IH])
    show ?thesis
    proof (cases "odd n")
      case True
      let ?q = "sq_down (pow_down (n div 2))"
      have "mul_down ?q * 4194304 ^ n = (mul_down ?q * 4194304) * (?d * ?d)"
        using True by (subst pow_split) simp
      also have "\<dots> \<le> ?q * 4194299 * (?d * ?d)"
        by (intro mult_le_mono1) (simp add: mul_down_def)
      also have "\<dots> = 4194299 * (?q * (?d * ?d))" by simp
      also have "\<dots> \<le> 4194299 * (?a * ?a * 2 ^ 64)" using sq by (rule mult_le_mono2)
      also have "\<dots> = 4194299 ^ n * 2 ^ 64"
        using True by (subst pow_split [of _ n]) simp
      finally show ?thesis
        using True False by (simp add: pow_down.simps [of n])
    next
      case even: False
      then show ?thesis
        using sq False by (subst (1 2) pow_split) (simp add: pow_down.simps [of n])
    qed
  qed (simp add: pow_down.simps)
qed

lemma fixed_point_upper:
  fixes d x a m s p :: int
  assumes "0 < d" "d * x \<le> a * m" "a * s \<le> p * d" "0 \<le> m" "0 \<le> s"
  shows "x * s \<le> p * m"
proof -
  have "d * (x * s) = (d * x) * s" by (simp only: mult.assoc)
  also have "\<dots> \<le> (a * m) * s" using assms by (intro mult_right_mono)
  also have "\<dots> = (a * s) * m" by (simp only: mult_ac)
  also have "\<dots> \<le> (p * d) * m" using assms by (intro mult_right_mono)
  also have "\<dots> = d * (p * m)" by (simp only: mult_ac)
  finally show ?thesis using assms(1) by (simp only: mult_le_cancel_left_pos)
qed

lemma fixed_point_lower:
  fixes d x a m s p :: nat
  assumes "0 < d" "a * m \<le> d * x" "p * d \<le> a * s"
  shows "p * m \<le> x * s"
proof -
  have "d * (p * m) = (p * d) * m" by (simp only: mult_ac)
  also have "\<dots> \<le> (a * s) * m" using assms(3) by (rule mult_le_mono1)
  also have "\<dots> = (a * m) * s" by (simp only: mult_ac)
  also have "\<dots> \<le> (d * x) * s" using assms(2) by (rule mult_le_mono1)
  also have "\<dots> = d * (x * s)" by (simp only: mult_ac)
  finally show ?thesis using assms(1) by (simp only: nat_mult_le_cancel1)
qed

lemma pure_upper_fixed:
  "(5 * int (pure_remaining n) - 4194304) * 2 ^ 64 \<le> int (pow_up n) * (5 * int MAIN_EMISSION_SCALE - 4194304)"
proof (rule fixed_point_upper [OF _ pure_upper])
  have "int (4194299 ^ n * 2 ^ 64) \<le> int (pow_up n * 4194304 ^ n)"
    using pow_up_bound [of n] by (simp only: of_nat_le_iff)
  then show "4194299 ^ n * 2 ^ 64 \<le> int (pow_up n) * 4194304 ^ n"
    by (simp only: of_nat_mult of_nat_power of_nat_numeral)
qed (simp_all add: MAIN_EMISSION_SCALE_def)

lemma pure_lower_fixed: "pow_down n * MAIN_EMISSION_SCALE \<le> pure_remaining n * 2 ^ 64"
proof (rule fixed_point_lower [OF _ _ pow_down_bound])
  have "int (4194299 ^ n * MAIN_EMISSION_SCALE) \<le> int (4194304 ^ n * pure_remaining n)"
    using pure_lower [of n] by (simp only: of_nat_mult of_nat_power of_nat_numeral)
  then show "4194299 ^ n * MAIN_EMISSION_SCALE \<le> 4194304 ^ n * pure_remaining n"
    by (simp only: of_nat_le_iff)
qed simp

lemma pow_values:
  "pow_up 3415359 = 314572802128372497" "pow_up 3415360 = 314572427128369959"
  "pow_down 3415358 = 314573177128781669"
  by (simp_all add: pow_up.simps pow_down.simps sq_up_def sq_down_def mul_up_def mul_down_def)

lemma pure_antimono: "m \<le> n \<Longrightarrow> pure_remaining n \<le> pure_remaining m"
  by (induction n rule: dec_induct) (auto simp: curve_step_def)

lemma pure_at_tail:
  "curve_reward (pure_remaining 3415358) \<ge> 37500044"
  "curve_reward (pure_remaining 3415359) \<le> 37500001"
  "curve_reward (pure_remaining 3415360) \<le> 37499956"
proof -
  have "31457317712879 \<le> pure_remaining 3415358"
    using pure_lower_fixed [of 3415358] by (simp add: pow_values MAIN_EMISSION_SCALE_def)
  then show "curve_reward (pure_remaining 3415358) \<ge> 37500044"
    using curve_reward_mono [of 31457317712879 "pure_remaining 3415358"]
    by (simp add: curve_reward_def)
  have "int (pure_remaining 3415359) \<le> 31457281037392"
    using pure_upper_fixed [of 3415359] by (simp add: pow_values MAIN_EMISSION_SCALE_def)
  then show "curve_reward (pure_remaining 3415359) \<le> 37500001"
    using curve_reward_mono [of "pure_remaining 3415359" 31457281037392]
    by (simp add: curve_reward_def)
  have "int (pure_remaining 3415360) \<le> 31457243537392"
    using pure_upper_fixed [of 3415360] by (simp add: pow_values MAIN_EMISSION_SCALE_def)
  then show "curve_reward (pure_remaining 3415360) \<le> 37499956"
    using curve_reward_mono [of "pure_remaining 3415360" 31457243537392]
    by (simp add: curve_reward_def)
qed

text \<open>Before the tail the floor does not bind, so the remaining emission is the pure curve.\<close>

lemma remaining_eq_pure:
  "n \<le> 3415359 \<Longrightarrow> remaining_before (Suc SLOW_START_BLOCKS + n) = pure_remaining n"
proof (induction n)
  case (Suc n)
  let ?r = "remaining_before (Suc SLOW_START_BLOCKS + n)"
  have "pure_remaining 3415358 \<le> pure_remaining n"
    using Suc.prems by (intro pure_antimono) simp
  then have "TAIL_SUBSIDY \<le> curve_reward (pure_remaining n)"
    using curve_reward_mono [of "pure_remaining 3415358" "pure_remaining n"] pure_at_tail(1)
    by (simp add: TAIL_SUBSIDY_def)
  moreover have "?r = pure_remaining n" using Suc by simp
  moreover have "remaining_before (Suc (Suc SLOW_START_BLOCKS + n)) = ?r - max (curve_reward ?r) TAIL_SUBSIDY"
    unfolding remaining_before.simps(2) [of "Suc SLOW_START_BLOCKS + n"] by (rule if_not_P) simp
  ultimately show ?case
    unfolding add_Suc_right by (simp add: curve_step_def max_def)
qed (simp add: remaining_before_slow)

lemma emission_before_tail:
  assumes "SLOW_START_BLOCKS < h" "h < FIRST_TAIL_HEIGHT"
  shows "emission h = curve_reward (pure_remaining (h - 40001))" "TAIL_SUBSIDY < emission h"
proof -
  have n: "h - 40001 \<le> 3415358" "h = Suc SLOW_START_BLOCKS + (h - 40001)"
    using assms by (simp_all add: emission_defs)
  then have r: "remaining_before h = pure_remaining (h - 40001)"
    using remaining_eq_pure [of "h - 40001"] by simp
  have "37500044 \<le> curve_reward (pure_remaining (h - 40001))"
    using order_trans [OF pure_at_tail(1) curve_reward_mono [OF pure_antimono [OF n(1)]]] .
  with r assms show "emission h = curve_reward (pure_remaining (h - 40001))" "TAIL_SUBSIDY < emission h"
    by (simp_all add: emission_def TAIL_SUBSIDY_def)
qed

lemma emission_at_tail: "emission FIRST_TAIL_HEIGHT \<in> {TAIL_SUBSIDY, TAIL_SUBSIDY + 1}"
proof -
  have "FIRST_TAIL_HEIGHT = Suc SLOW_START_BLOCKS + 3415359" by (simp add: emission_defs)
  then have "remaining_before FIRST_TAIL_HEIGHT = pure_remaining 3415359"
    using remaining_eq_pure [of 3415359] by simp
  then show ?thesis
    using pure_at_tail(2) by (simp add: emission_def emission_defs) linarith
qed

lemma emission_after_tail: "FIRST_TAIL_HEIGHT < h \<Longrightarrow> emission h = TAIL_SUBSIDY"
proof -
  assume h: "FIRST_TAIL_HEIGHT < h"
  then have n: "3415360 \<le> h - 40001" "h = Suc SLOW_START_BLOCKS + (h - 40001)"
    by (simp_all add: emission_defs)
  have "remaining_before h \<le> pure_remaining (h - 40001)"
    using remaining_le_pure [of "h - 40001"] unfolding n(2) [symmetric] .
  then have "remaining_before h \<le> pure_remaining 3415360"
    by (rule order_trans [OF _ pure_antimono [OF n(1)]])
  then have "curve_reward (remaining_before h) \<le> 37499956"
    using order_trans [OF curve_reward_mono pure_at_tail(3)] by blast
  with h show ?thesis
    by (simp add: emission_def emission_defs)
qed

lemma remaining_Suc:
  "SLOW_START_BLOCKS < h \<Longrightarrow> remaining_before (Suc h) = remaining_before h - emission h"
  by (simp add: emission_def)

lemma emission_le_remaining:
  assumes "SLOW_START_BLOCKS < h" "h < FIRST_TAIL_HEIGHT"
  shows "emission h \<le> remaining_before h"
proof -
  have "TAIL_SUBSIDY < emission h" using emission_before_tail(2) [OF assms] .
  with assms(1) have "emission h = curve_reward (remaining_before h)"
    by (simp add: emission_def max_def split: if_splits)
  then show ?thesis using curve_reward_le by simp
qed

text \<open>Until the tail, the counter is exactly what the curve has emitted.\<close>

lemma counter_before_sum:
  "h \<le> FIRST_TAIL_HEIGHT \<Longrightarrow> counter_before h = (\<Sum>i \<in> {SLOW_START_BLOCKS<..<h}. emission i)"
proof (induction h)
  case (Suc h)
  show ?case
  proof (cases "SLOW_START_BLOCKS < h")
    case True
    then have "{SLOW_START_BLOCKS<..<Suc h} = insert h {SLOW_START_BLOCKS<..<h}" by auto
    moreover have "counter_before (Suc h) = counter_before h + emission h"
      using remaining_Suc [OF True] emission_le_remaining [OF True] Suc.prems remaining_before_le [of h]
      by (simp add: counter_before_def)
    ultimately show ?thesis using Suc by simp
  next
    case False
    then have "{SLOW_START_BLOCKS<..<Suc h} = {}" by auto
    with False show ?thesis by (simp add: counter_before_def del: remaining_before.simps)
        (simp add: remaining_before_slow del: remaining_before.simps)
  qed
qed (simp add: counter_before_def)

lemma emission_ramp_mono: "h \<le> h' \<Longrightarrow> h' \<le> SLOW_START_BLOCKS \<Longrightarrow> emission h \<le> emission h'"
  by (simp add: emission_def div_le_mono)

lemma emission_decay:
  assumes "SLOW_START_BLOCKS < h" "h \<le> h'"
  shows "emission h' \<le> emission h"
  using assms(2)
proof (induction h' rule: dec_induct)
  case (step n)
  then have "remaining_before (Suc n) \<le> remaining_before n"
    using assms(1) by (simp add: remaining_Suc del: remaining_before.simps)
  from curve_reward_mono [OF this] have "emission (Suc n) \<le> emission n"
    using step assms(1) by (simp add: emission_def del: remaining_before.simps)
  with step show ?case by simp
qed simp

section \<open>Chains of validated claims\<close>

text \<open>A branch from genesis as the list of the fees and the coinbase value of each block; the
  counter is threaded through \<open>validate_and_advance\<close>.\<close>

fun advance_chain :: "nat \<Rightarrow> nat \<Rightarrow> (nat \<times> nat) list \<Rightarrow> (emission_error, nat) outcome" where
  "advance_chain height counter [] = Ok counter"
| "advance_chain height counter ((fees, coinbase) # blocks) =
     qbind (validate_and_advance height counter fees coinbase) (\<lambda>counter'.
       advance_chain (Suc height) counter' blocks)"

definition claim_ok :: "nat \<Rightarrow> nat \<times> nat \<Rightarrow> bool" where
  "claim_ok height claim \<longleftrightarrow>
     (height = 0 \<longrightarrow> fst claim = 0) \<and> snd claim = emission height + fst claim \<and> snd claim \<le> u64_max"

lemma validate_canonical:
  "validate_and_advance h (counter_before h) fees coinbase = Ok c \<longleftrightarrow>
     claim_ok h (fees, coinbase) \<and> c = counter_before (Suc h)"
  by (auto simp: validate_and_advance_def subsidy_atoms_canonical advance_canonical claim_ok_def
      checked_u64_def)

lemma advance_chain_iff:
  "advance_chain h (counter_before h) bs = Ok c \<longleftrightarrow>
     (\<forall>i < length bs. claim_ok (h + i) (bs ! i)) \<and> c = counter_before (h + length bs)"
proof (induction bs arbitrary: h)
  case (Cons b bs)
  obtain fees coinbase where b: "b = (fees, coinbase)" by (cases b)
  show ?case
    unfolding b advance_chain.simps qbind_eq_Ok validate_canonical
    using Cons [of "Suc h"] by (auto simp: All_less_Suc2 b)
qed auto

lemma advance_chain_no_panic: "advance_chain h (counter_before h) bs \<noteq> Panic"
proof (induction bs arbitrary: h)
  case (Cons b bs)
  obtain fees coinbase where b: "b = (fees, coinbase)" by (cases b)
  show ?case
  proof (cases "validate_and_advance h (counter_before h) fees coinbase")
    case (Ok c)
    then have "c = counter_before (Suc h)" using validate_canonical by blast
    with Ok show ?thesis using Cons [of "Suc h"] by (simp add: b)
  next
    case Panic
    then show ?thesis
      by (simp add: validate_and_advance_def subsidy_atoms_canonical advance_canonical checked_u64_def
          split: if_splits)
  qed (simp add: b)
qed simp

lemma counter_before_0: "counter_before 0 = 0"
  by (simp add: counter_before_def)

lemma sum_list_claims:
  "\<forall>i < length bs. claim_ok (h + i) (bs ! i) \<Longrightarrow>
    sum_list (map snd bs) = sum_list (map fst bs) + (\<Sum>i < length bs. emission (h + i))"
proof (induction bs arbitrary: h)
  case (Cons b bs)
  then have "claim_ok h b" "\<forall>i < length bs. claim_ok (Suc h + i) (bs ! i)" by (auto simp: All_less_Suc2)
  then have "snd b = emission h + fst b"
      "sum_list (map snd bs) = sum_list (map fst bs) + (\<Sum>i < length bs. emission (Suc h + i))"
    using Cons.IH by (simp add: claim_ok_def, blast)
  then show ?case
    by (simp add: sum.lessThan_Suc_shift del: sum.lessThan_Suc)
qed simp

section \<open>Properties\<close>

text \<open>C2. The per-branch emission rule: a branch from genesis passes the chain of
  \<open>validate_and_advance\<close> calls exactly when every coinbase claims the scheduled subsidy of its
  height plus its fees (no fees at genesis, a total within 64 bits), and then the counter is the
  scheduled one, which up to the tail is the sum of what the curve has emitted; no call panics,
  and the coins created by the branch are the sum of the schedule.\<close>

theorem emission_branch_exact:
  "advance_chain 0 0 bs \<noteq> Panic \<and>
   (advance_chain 0 0 bs = Ok c \<longleftrightarrow>
      (\<forall>i < length bs. claim_ok i (bs ! i)) \<and> c = counter_before (length bs)) \<and>
   (advance_chain 0 0 bs = Ok c \<longrightarrow>
      sum_list (map snd bs) = sum_list (map fst bs) + (\<Sum>i < length bs. emission i) \<and>
      (length bs \<le> FIRST_TAIL_HEIGHT \<longrightarrow> c = (\<Sum>i \<in> {SLOW_START_BLOCKS<..<length bs}. emission i)))"
  using advance_chain_iff [of 0 bs c] advance_chain_no_panic [of 0 bs] sum_list_claims [of bs 0]
    counter_before_sum [of "length bs"]
  by (auto simp: counter_before_0)

theorem emission_branch_exact_witness:
  "advance_chain 0 0 [(0, 0), (7, 54982), (0, 109951)] = Ok 0 \<and>
   (\<Sum>i < 3. emission i) = 54975 + 109951"
proof -
  have e: "emission 0 = 0" "emission 1 = 54975" "emission 2 = 109951"
    by (simp_all add: emission_def emission_defs)
  let ?bs = "[(0, 0), (7, 54982), (0, 109951)] :: (nat \<times> nat) list"
  have "claim_ok 0 (?bs ! 0)" "claim_ok 1 (?bs ! 1)" "claim_ok 2 (?bs ! 2)"
    using e by (simp_all add: claim_ok_def u64_max_def)
  moreover have "i < length ?bs \<Longrightarrow> i = 0 \<or> i = 1 \<or> i = 2" for i by auto
  ultimately have "\<forall>i < length ?bs. claim_ok i (?bs ! i)" by blast
  moreover have "counter_before (length ?bs) = 0"
    by (simp add: counter_before_def remaining_before_slow SLOW_START_BLOCKS_def
        del: remaining_before.simps)
  ultimately have "advance_chain 0 0 ?bs = Ok 0"
    using emission_branch_exact [of ?bs 0] by (simp only:)
  moreover have "{..<3::nat} = {0, 1, 2}" by auto
  ultimately show ?thesis by (simp add: e del: One_nat_def)
qed

text \<open>C23. The shape of the schedule: a rising ramp to the peak, then a decay that never rises
  and never falls below the tail; the tail floor first binds at \<open>FIRST_TAIL_HEIGHT\<close>, where the
  recurrence is the tail or one atom above it (a debug assertion of the code says that it is the tail, which
  this theorem leaves open), strictly above before and exactly on it afterwards.\<close>

theorem emission_shape:
  "subsidy_atoms h (counter_before h) = Ok (emission h) \<and>
   (h \<le> h' \<and> h' \<le> SLOW_START_BLOCKS \<longrightarrow> emission h \<le> emission h') \<and>
   (SLOW_START_BLOCKS < h \<and> h \<le> h' \<longrightarrow> emission h' \<le> emission h) \<and>
   emission SLOW_START_BLOCKS = RAMP_PEAK \<and> emission (Suc SLOW_START_BLOCKS) = RAMP_PEAK \<and>
   emission h \<le> RAMP_PEAK \<and>
   (SLOW_START_BLOCKS < h \<and> h < FIRST_TAIL_HEIGHT \<longrightarrow> TAIL_SUBSIDY < emission h) \<and>
   emission FIRST_TAIL_HEIGHT \<in> {TAIL_SUBSIDY, TAIL_SUBSIDY + 1} \<and>
   (FIRST_TAIL_HEIGHT < h \<longrightarrow> emission h = TAIL_SUBSIDY)"
proof -
  have "emission SLOW_START_BLOCKS = RAMP_PEAK" by (simp add: emission_def SLOW_START_BLOCKS_def)
  moreover have "emission (Suc SLOW_START_BLOCKS) = RAMP_PEAK"
    unfolding emission_def remaining_before_slow [OF order_refl] curve_reward_scale
    by (simp add: RAMP_PEAK_def TAIL_SUBSIDY_def)
  ultimately show ?thesis
    using emission_ramp_mono emission_decay emission_le_peak emission_before_tail(2)
      emission_at_tail emission_after_tail subsidy_atoms_canonical by blast
qed

theorem emission_shape_witness:
  "emission 5000000 = TAIL_SUBSIDY \<and> emission 5000001 \<le> emission 5000000"
  using emission_shape [of 5000000 5000001] emission_shape [of 5000001 5000001]
  by (simp add: emission_defs)

text \<open>C22. The subsidy table: at every height \<open>mainnet_block_subsidy\<close> returns the reward of the
  recurrence along the scheduled counters, except that at \<open>FIRST_TAIL_HEIGHT\<close> the recurrence may
  give one atom more; the table lookup, the table construction and the conversion never fail.\<close>

theorem mainnet_subsidy_table_correct:
  "\<exists>atoms. mainnet_block_subsidy h = Ok (Amount (int atoms)) \<and>
     (if h = FIRST_TAIL_HEIGHT
      then atoms = TAIL_SUBSIDY \<and> (subsidy_atoms h (counter_before h) = Ok atoms
             \<or> subsidy_atoms h (counter_before h) = Ok (atoms + 1))
      else subsidy_atoms h (counter_before h) = Ok atoms)"
  using emission_at_tail emission_after_tail [of h]
  by (auto simp: mainnet_block_subsidy_eq subsidy_atoms_canonical)

end
