(* ===== verification/Subsidy_Tables.thy ===== *)
theory Subsidy_Tables
  imports Network_Builder
begin

text \<open>
  The funding-stream, founder and lockbox tables of Mainnet and of the default Testnet, from
  \<^verbatim>\<open>zebra-chain/src/parameters/network/subsidy/constants/\<close>, and the network queries that
  read them.

  The hard-coded addresses are text; \<^verbatim>\<open>FundingStreamRecipient::new\<close> parses them and panics when
  one does not parse.  The parser rests on Base58Check of the library \<^verbatim>\<open>bs58\<close>, so it is the
  argument \<open>parse\<close> of the definitions that use it.
\<close>

section \<open>Addresses\<close>

definition MAINNET_FUNDING_STREAM_ECC_ADDRESSES :: "string list" where
  "MAINNET_FUNDING_STREAM_ECC_ADDRESSES = [
    ''t3LmX1cxWPPPqL4TZHx42HU3U5ghbFjRiif'', ''t3Toxk1vJQ6UjWQ42tUJz2rV2feUWkpbTDs'',
    ''t3ZBdBe4iokmsjdhMuwkxEdqMCFN16YxKe6'', ''t3ZuaJziLM8xZ32rjDUzVjVtyYdDSz8GLWB'',
    ''t3bAtYWa4bi8VrtvqySxnbr5uqcG9czQGTZ'', ''t3dktADfb5Rmxncpe1HS5BRS5Gcj7MZWYBi'',
    ''t3hgskquvKKoCtvxw86yN7q8bzwRxNgUZmc'', ''t3R1VrLzwcxAZzkX4mX3KGbWpNsgtYtMntj'',
    ''t3ff6fhemqPMVujD3AQurxRxTdvS1pPSaa2'', ''t3cEUQFG3KYnFG6qYhPxSNgGi3HDjUPwC3J'',
    ''t3WR9F5U4QvUFqqx9zFmwT6xFqduqRRXnaa'', ''t3PYc1LWngrdUrJJbHkYPCKvJuvJjcm85Ch'',
    ''t3bgkjiUeatWNkhxY3cWyLbTxKksAfk561R'', ''t3Z5rrR8zahxUpZ8itmCKhMSfxiKjUp5Dk5'',
    ''t3PU1j7YW3fJ67jUbkGhSRto8qK2qXCUiW3'', ''t3S3yaT7EwNLaFZCamfsxxKwamQW2aRGEkh'',
    ''t3eutXKJ9tEaPSxZpmowhzKhPfJvmtwTEZK'', ''t3gbTb7brxLdVVghSPSd3ycGxzHbUpukeDm'',
    ''t3UCKW2LrHFqPMQFEbZn6FpjqnhAAbfpMYR'', ''t3NyHsrnYbqaySoQqEQRyTWkjvM2PLkU7Uu'',
    ''t3QEFL6acxuZwiXtW3YvV6njDVGjJ1qeaRo'', ''t3PdBRr2S1XTDzrV8bnZkXF3SJcrzHWe1wj'',
    ''t3ZWyRPpWRo23pKxTLtWsnfEKeq9T4XPxKM'', ''t3he6QytKCTydhpztykFsSsb9PmBT5JBZLi'',
    ''t3VWxWDsLb2TURNEP6tA1ZSeQzUmPKFNxRY'', ''t3NmWLvZkbciNAipauzsFRMxoZGqmtJksbz'',
    ''t3cKr4YxVPvPBG1mCvzaoTTdBNokohsRJ8n'', ''t3T3smGZn6BoSFXWWXa1RaoQdcyaFjMfuYK'',
    ''t3gkDUe9Gm4GGpjMk86TiJZqhztBVMiUSSA'', ''t3eretuBeBXFHe5jAqeSpUS1cpxVh51fAeb'',
    ''t3dN8g9zi2UGJdixGe9txeSxeofLS9t3yFQ'', ''t3S799pq9sYBFwccRecoTJ3SvQXRHPrHqvx'',
    ''t3fhYnv1S5dXwau7GED3c1XErzt4n4vDxmf'', ''t3cmE3vsBc5xfDJKXXZdpydCPSdZqt6AcNi'',
    ''t3h5fPdjJVHaH4HwynYDM5BB3J7uQaoUwKi'', ''t3Ma35c68BgRX8sdLDJ6WR1PCrKiWHG4Da9'',
    ''t3LokMKPL1J8rkJZvVpfuH7dLu6oUWqZKQK'', ''t3WFFGbEbhJWnASZxVLw2iTJBZfJGGX73mM'',
    ''t3L8GLEsUn4QHNaRYcX3EGyXmQ8kjpT1zTa'', ''t3PgfByBhaBSkH8uq4nYJ9ZBX4NhGCJBVYm'',
    ''t3WecsqKDhWXD4JAgBVcnaCC2itzyNZhJrv'', ''t3ZG9cSfopnsMQupKW5v9sTotjcP5P6RTbn'',
    ''t3hC1Ywb5zDwUYYV8LwhvF5rZ6m49jxXSG5'', ''t3VgMqDL15ZcyQDeqBsBW3W6rzfftrWP2yB'',
    ''t3LC94Y6BwLoDtBoK2NuewaEbnko1zvR9rm'', ''t3cWCUZJR3GtALaTcatrrpNJ3MGbMFVLRwQ'',
    ''t3YYF4rPLVxDcF9hHFsXyc5Yq1TFfbojCY6'', ''t3XHAGxRP2FNfhAjxGjxbrQPYtQQjc3RCQD'']"

definition MAINNET_FOUNDER_ADDRESS_LIST :: "string list" where
  "MAINNET_FOUNDER_ADDRESS_LIST = [
    ''t3Vz22vK5z2LcKEdg16Yv4FFneEL1zg9ojd'', ''t3cL9AucCajm3HXDhb5jBnJK2vapVoXsop3'',
    ''t3fqvkzrrNaMcamkQMwAyHRjfDdM2xQvDTR'', ''t3TgZ9ZT2CTSK44AnUPi6qeNaHa2eC7pUyF'',
    ''t3SpkcPQPfuRYHsP5vz3Pv86PgKo5m9KVmx'', ''t3Xt4oQMRPagwbpQqkgAViQgtST4VoSWR6S'',
    ''t3ayBkZ4w6kKXynwoHZFUSSgXRKtogTXNgb'', ''t3adJBQuaa21u7NxbR8YMzp3km3TbSZ4MGB'',
    ''t3K4aLYagSSBySdrfAGGeUd5H9z5Qvz88t2'', ''t3RYnsc5nhEvKiva3ZPhfRSk7eyh1CrA6Rk'',
    ''t3Ut4KUq2ZSMTPNE67pBU5LqYCi2q36KpXQ'', ''t3ZnCNAvgu6CSyHm1vWtrx3aiN98dSAGpnD'',
    ''t3fB9cB3eSYim64BS9xfwAHQUKLgQQroBDG'', ''t3cwZfKNNj2vXMAHBQeewm6pXhKFdhk18kD'',
    ''t3YcoujXfspWy7rbNUsGKxFEWZqNstGpeG4'', ''t3bLvCLigc6rbNrUTS5NwkgyVrZcZumTRa4'',
    ''t3VvHWa7r3oy67YtU4LZKGCWa2J6eGHvShi'', ''t3eF9X6X2dSo7MCvTjfZEzwWrVzquxRLNeY'',
    ''t3esCNwwmcyc8i9qQfyTbYhTqmYXZ9AwK3X'', ''t3M4jN7hYE2e27yLsuQPPjuVek81WV3VbBj'',
    ''t3gGWxdC67CYNoBbPjNvrrWLAWxPqZLxrVY'', ''t3LTWeoxeWPbmdkUD3NWBquk4WkazhFBmvU'',
    ''t3P5KKX97gXYFSaSjJPiruQEX84yF5z3Tjq'', ''t3f3T3nCWsEpzmD35VK62JgQfFig74dV8C9'',
    ''t3Rqonuzz7afkF7156ZA4vi4iimRSEn41hj'', ''t3fJZ5jYsyxDtvNrWBeoMbvJaQCj4JJgbgX'',
    ''t3Pnbg7XjP7FGPBUuz75H65aczphHgkpoJW'', ''t3WeKQDxCijL5X7rwFem1MTL9ZwVJkUFhpF'',
    ''t3Y9FNi26J7UtAUC4moaETLbMo8KS1Be6ME'', ''t3aNRLLsL2y8xcjPheZZwFy3Pcv7CsTwBec'',
    ''t3gQDEavk5VzAAHK8TrQu2BWDLxEiF1unBm'', ''t3Rbykhx1TUFrgXrmBYrAJe2STxRKFL7G9r'',
    ''t3aaW4aTdP7a8d1VTE1Bod2yhbeggHgMajR'', ''t3YEiAa6uEjXwFL2v5ztU1fn3yKgzMQqNyo'',
    ''t3g1yUUwt2PbmDvMDevTCPWUcbDatL2iQGP'', ''t3dPWnep6YqGPuY1CecgbeZrY9iUwH8Yd4z'',
    ''t3QRZXHDPh2hwU46iQs2776kRuuWfwFp4dV'', ''t3enhACRxi1ZD7e8ePomVGKn7wp7N9fFJ3r'',
    ''t3PkLgT71TnF112nSwBToXsD77yNbx2gJJY'', ''t3LQtHUDoe7ZhhvddRv4vnaoNAhCr2f4oFN'',
    ''t3fNcdBUbycvbCtsD2n9q3LuxG7jVPvFB8L'', ''t3dKojUU2EMjs28nHV84TvkVEUDu1M1FaEx'',
    ''t3aKH6NiWN1ofGd8c19rZiqgYpkJ3n679ME'', ''t3MEXDF9Wsi63KwpPuQdD6by32Mw2bNTbEa'',
    ''t3WDhPfik343yNmPTqtkZAoQZeqA83K7Y3f'', ''t3PSn5TbMMAEw7Eu36DYctFezRzpX1hzf3M'',
    ''t3R3Y5vnBLrEn8L6wFjPjBLnxSUQsKnmFpv'', ''t3Pcm737EsVkGTbhsu2NekKtJeG92mvYyoN'']"

definition TESTNET_FUNDING_STREAM_ECC_ADDRESSES :: "string list" where
  "TESTNET_FUNDING_STREAM_ECC_ADDRESSES = [
    ''t26ovBdKAJLtrvBsE2QGF4nqBkEuptuPFZz'', ''t26ovBdKAJLtrvBsE2QGF4nqBkEuptuPFZz'',
    ''t26ovBdKAJLtrvBsE2QGF4nqBkEuptuPFZz'', ''t26ovBdKAJLtrvBsE2QGF4nqBkEuptuPFZz'',
    ''t2NNHrgPpE388atmWSF4DxAb3xAoW5Yp45M'', ''t2VMN28itPyMeMHBEd9Z1hm6YLkQcGA1Wwe'',
    ''t2CHa1TtdfUV8UYhNm7oxbzRyfr8616BYh2'', ''t2F77xtr28U96Z2bC53ZEdTnQSUAyDuoa67'',
    ''t2ARrzhbgcpoVBDPivUuj6PzXzDkTBPqfcT'', ''t278aQ8XbvFR15mecRguiJDQQVRNnkU8kJw'',
    ''t2Dp1BGnZsrTXZoEWLyjHmg3EPvmwBnPDGB'', ''t2KzeqXgf4ju33hiSqCuKDb8iHjPCjMq9iL'',
    ''t2Nyxqv1BiWY1eUSiuxVw36oveawYuo18tr'', ''t2DKFk5JRsVoiuinK8Ti6eM4Yp7v8BbfTyH'',
    ''t2CUaBca4k1x36SC4q8Nc8eBoqkMpF3CaLg'', ''t296SiKL7L5wvFmEdMxVLz1oYgd6fTfcbZj'',
    ''t29fBCFbhgsjL3XYEZ1yk1TUh7eTusB6dPg'', ''t2FGofLJXa419A76Gpf5ncxQB4gQXiQMXjK'',
    ''t2ExfrnRVnRiXDvxerQ8nZbcUQvNvAJA6Qu'', ''t28JUffLp47eKPRHKvwSPzX27i9ow8LSXHx'',
    ''t2JXWPtrtyL861rFWMZVtm3yfgxAf4H7uPA'', ''t2QdgbJoWfYHgyvEDEZBjHmgkr9yNJff3Hi'',
    ''t2QW43nkco8r32ZGRN6iw6eSzyDjkMwCV3n'', ''t2DgYDXMJTYLwNcxighQ9RCgPxMVATRcUdC'',
    ''t2Bop7dg33HGZx3wunnQzi2R2ntfpjuti3M'', ''t2HVeEwovcLq9RstAbYkqngXNEsCe2vjJh9'',
    ''t2HxbP5keQSx7p592zWQ5bJ5GrMmGDsV2Xa'', ''t2TJzUg2matao3mztBRJoWnJY6ekUau6tPD'',
    ''t29pMzxmo6wod25YhswcjKv3AFRNiBZHuhj'', ''t2QBQMRiJKYjshJpE6RhbF7GLo51yE6d4wZ'',
    ''t2F5RqnqguzZeiLtYHFx4yYfy6pDnut7tw5'', ''t2CHvyZANE7XCtg8AhZnrcHCC7Ys1jJhK13'',
    ''t2BRzpMdrGWZJ2upsaNQv6fSbkbTy7EitLo'', ''t2BFixHGQMAWDY67LyTN514xRAB94iEjXp3'',
    ''t2Uvz1iVPzBEWfQBH1p7NZJsFhD74tKaG8V'', ''t2CmFDj5q6rJSRZeHf1SdrowinyMNcj438n'',
    ''t2ErNvWEReTfPDBaNizjMPVssz66aVZh1hZ'', ''t2GeJQ8wBUiHKDVzVM5ZtKfY5reCg7CnASs'',
    ''t2L2eFtkKv1G6j55kLytKXTGuir4raAy3yr'', ''t2EK2b87dpPazb7VvmEGc8iR6SJ289RywGL'',
    ''t2DJ7RKeZJxdA4nZn8hRGXE8NUyTzjujph9'', ''t2K1pXo4eByuWpKLkssyMLe8QKUbxnfFC3H'',
    ''t2TB4mbSpuAcCWkH94Leb27FnRxo16AEHDg'', ''t2Phx4gVL4YRnNsH3jM1M7jE4Fo329E66Na'',
    ''t2VQZGmeNomN8c3USefeLL9nmU6M8x8CVzC'', ''t2RicCvTVTY5y9JkreSRv3Xs8q2K67YxHLi'',
    ''t2JrSLxTGc8wtPDe9hwbaeUjCrCfc4iZnDD'', ''t2Uh9Au1PDDSw117sAbGivKREkmMxVC5tZo'',
    ''t2FDwoJKLeEBMTy3oP7RLQ1Fihhvz49a3Bv'', ''t2FY18mrgtb7QLeHA8ShnxLXuW8cNQ2n1v8'',
    ''t2L15TkDYum7dnQRBqfvWdRe8Yw3jVy9z7g'']"

definition TESTNET_FOUNDER_ADDRESS_LIST :: "string list" where
  "TESTNET_FOUNDER_ADDRESS_LIST = [
    ''t2UNzUUx8mWBCRYPRezvA363EYXyEpHokyi'', ''t2N9PH9Wk9xjqYg9iin1Ua3aekJqfAtE543'',
    ''t2NGQjYMQhFndDHguvUw4wZdNdsssA6K7x2'', ''t2ENg7hHVqqs9JwU5cgjvSbxnT2a9USNfhy'',
    ''t2BkYdVCHzvTJJUTx4yZB8qeegD8QsPx8bo'', ''t2J8q1xH1EuigJ52MfExyyjYtN3VgvshKDf'',
    ''t2Crq9mydTm37kZokC68HzT6yez3t2FBnFj'', ''t2EaMPUiQ1kthqcP5UEkF42CAFKJqXCkXC9'',
    ''t2F9dtQc63JDDyrhnfpzvVYTJcr57MkqA12'', ''t2LPirmnfYSZc481GgZBa6xUGcoovfytBnC'',
    ''t26xfxoSw2UV9Pe5o3C8V4YybQD4SESfxtp'', ''t2D3k4fNdErd66YxtvXEdft9xuLoKD7CcVo'',
    ''t2DWYBkxKNivdmsMiivNJzutaQGqmoRjRnL'', ''t2C3kFF9iQRxfc4B9zgbWo4dQLLqzqjpuGQ'',
    ''t2MnT5tzu9HSKcppRyUNwoTp8MUueuSGNaB'', ''t2AREsWdoW1F8EQYsScsjkgqobmgrkKeUkK'',
    ''t2Vf4wKcJ3ZFtLj4jezUUKkwYR92BLHn5UT'', ''t2K3fdViH6R5tRuXLphKyoYXyZhyWGghDNY'',
    ''t2VEn3KiKyHSGyzd3nDw6ESWtaCQHwuv9WC'', ''t2F8XouqdNMq6zzEvxQXHV1TjwZRHwRg8gC'',
    ''t2BS7Mrbaef3fA4xrmkvDisFVXVrRBnZ6Qj'', ''t2FuSwoLCdBVPwdZuYoHrEzxAb9qy4qjbnL'',
    ''t2SX3U8NtrT6gz5Db1AtQCSGjrpptr8JC6h'', ''t2V51gZNSoJ5kRL74bf9YTtbZuv8Fcqx2FH'',
    ''t2FyTsLjjdm4jeVwir4xzj7FAkUidbr1b4R'', ''t2EYbGLekmpqHyn8UBF6kqpahrYm7D6N1Le'',
    ''t2NQTrStZHtJECNFT3dUBLYA9AErxPCmkka'', ''t2GSWZZJzoesYxfPTWXkFn5UaxjiYxGBU2a'',
    ''t2RpffkzyLRevGM3w9aWdqMX6bd8uuAK3vn'', ''t2JzjoQqnuXtTGSN7k7yk5keURBGvYofh1d'',
    ''t2AEefc72ieTnsXKmgK2bZNckiwvZe3oPNL'', ''t2NNs3ZGZFsNj2wvmVd8BSwSfvETgiLrD8J'',
    ''t2ECCQPVcxUCSSQopdNquguEPE14HsVfcUn'', ''t2JabDUkG8TaqVKYfqDJ3rqkVdHKp6hwXvG'',
    ''t2FGzW5Zdc8Cy98ZKmRygsVGi6oKcmYir9n'', ''t2DUD8a21FtEFn42oVLp5NGbogY13uyjy9t'',
    ''t2UjVSd3zheHPgAkuX8WQW2CiC9xHQ8EvWp'', ''t2TBUAhELyHUn8i6SXYsXz5Lmy7kDzA1uT5'',
    ''t2Tz3uCyhP6eizUWDc3bGH7XUC9GQsEyQNc'', ''t2NysJSZtLwMLWEJ6MH3BsxRh6h27mNcsSy'',
    ''t2KXJVVyyrjVxxSeazbY9ksGyft4qsXUNm9'', ''t2J9YYtH31cveiLZzjaE4AcuwVho6qjTNzp'',
    ''t2QgvW4sP9zaGpPMH1GRzy7cpydmuRfB4AZ'', ''t2NDTJP9MosKpyFPHJmfjc5pGCvAU58XGa4'',
    ''t29pHDBWq7qN4EjwSEHg8wEqYe9pkmVrtRP'', ''t2Ez9KM8VJLuArcxuEkNRAkhNvidKkzXcjJ'',
    ''t2D5y7J5fpXajLbGrMBQkFg2mFN8fo3n8cX'', ''t2UV2wr1PTaUiybpkV3FdSdGxUJeZdZztyt'']"

definition MAINNET_FUNDING_STREAM_ZF_ADDRESSES :: "string list" where
  "MAINNET_FUNDING_STREAM_ZF_ADDRESSES = replicate 48 ''t3dvVE3SQEi7kqNzwrfNePxZ1d4hUyztBA1''"

definition MAINNET_FUNDING_STREAM_MG_ADDRESSES :: "string list" where
  "MAINNET_FUNDING_STREAM_MG_ADDRESSES = replicate 48 ''t3XyYW8yBFRuMnfvm5KLGFbEVz25kckZXym''"

definition MAINNET_POST_NU6_FUNDING_STREAM_FPF_ADDRESSES :: "string list" where
  "MAINNET_POST_NU6_FUNDING_STREAM_FPF_ADDRESSES = replicate 12 ''t3cFfPt1Bcvgez9ZbMBFWeZsskxTkPzGCow''"

definition MAINNET_POST_NU6_1_FUNDING_STREAM_FPF_ADDRESSES :: "string list" where
  "MAINNET_POST_NU6_1_FUNDING_STREAM_FPF_ADDRESSES = replicate 36 ''t3cFfPt1Bcvgez9ZbMBFWeZsskxTkPzGCow''"

definition TESTNET_FUNDING_STREAM_ZF_ADDRESSES :: "string list" where
  "TESTNET_FUNDING_STREAM_ZF_ADDRESSES = replicate 51 ''t27eWDgjFYJGVXmzrXeVjnb5J3uXDM9xH9v''"

definition TESTNET_FUNDING_STREAM_MG_ADDRESSES :: "string list" where
  "TESTNET_FUNDING_STREAM_MG_ADDRESSES = replicate 51 ''t2Gvxv2uNM7hbbACjNox4H6DjByoKZ2Fa3P''"

definition TESTNET_POST_NU6_FUNDING_STREAM_FPF_ADDRESSES :: "string list" where
  "TESTNET_POST_NU6_FUNDING_STREAM_FPF_ADDRESSES = replicate 13 ''t2HifwjUj9uyxr9bknR8LFuQbc98c3vkXtu''"

definition TESTNET_POST_NU6_1_FUNDING_STREAM_FPF_ADDRESSES :: "string list" where
  "TESTNET_POST_NU6_1_FUNDING_STREAM_FPF_ADDRESSES = replicate 27 ''t2HifwjUj9uyxr9bknR8LFuQbc98c3vkXtu''"

definition founder_address_list :: "network \<Rightarrow> string list" where
  "founder_address_list net =
     (case net of Mainnet \<Rightarrow> MAINNET_FOUNDER_ADDRESS_LIST | Testnet _ \<Rightarrow> TESTNET_FOUNDER_ADDRESS_LIST)"

section \<open>Recipients and streams\<close>

fun parse_all :: "(string \<Rightarrow> address option) \<Rightarrow> string list \<Rightarrow> ('e, address list) outcome" where
  "parse_all parse [] = Ok []"
| "parse_all parse (s # ss) =
     qbind (expect (parse s)) (\<lambda>a. qbind (parse_all parse ss) (\<lambda>rest. Ok (a # rest)))"

definition recipient_new ::
  "(string \<Rightarrow> address option) \<Rightarrow> nat \<Rightarrow> string list \<Rightarrow> ('e, funding_stream_recipient) outcome" where
  "recipient_new parse n ss = map_ok (\<lambda>addrs. \<lparr>numerator = n, addresses = addrs\<rparr>) (parse_all parse ss)"

text \<open>\<^verbatim>\<open>iter().cycle().take(target_len)\<close>.\<close>

definition cycle_take :: "nat \<Rightarrow> 'a list \<Rightarrow> 'a list" where
  "cycle_take n xs = map (\<lambda>i. xs ! (i mod length xs)) [0..<n]"

definition extend_addresses ::
  "nat \<Rightarrow> funding_stream_recipient \<Rightarrow> ('e, funding_stream_recipient) outcome" where
  "extend_addresses target_len r =
     qbind (assert_that (addresses r \<noteq> [])) (\<lambda>_.
       Ok (r\<lparr>addresses := cycle_take target_len (addresses r)\<rparr>))"

fun extend_entries ::
  "nat \<Rightarrow> (funding_stream_receiver \<times> funding_stream_recipient) list
    \<Rightarrow> ('e, (funding_stream_receiver \<times> funding_stream_recipient) list) outcome" where
  "extend_entries n [] = Ok []"
| "extend_entries n ((receiver, r) # rest) =
     qbind (if is_deferred receiver then Ok r else extend_addresses n r) (\<lambda>r'.
     qbind (extend_entries n rest) (\<lambda>rest'. Ok ((receiver, r') # rest')))"

definition extend_recipient_addresses ::
  "nat \<Rightarrow> funding_streams \<Rightarrow> ('e, funding_streams) outcome" where
  "extend_recipient_addresses n s =
     map_ok (\<lambda>entries. s\<lparr>recipients := entries\<rparr>) (extend_entries n (recipients s))"

definition recipient :: "funding_streams \<Rightarrow> funding_stream_receiver \<Rightarrow> funding_stream_recipient option" where
  "recipient s r = map_of (recipients s) r"

text \<open>A table of streams: height range and, per receiver, the numerator and the addresses.\<close>

type_synonym stream_table = "((height \<times> height) \<times> (funding_stream_receiver \<times> nat \<times> string list) list) list"

fun build_recipients ::
  "(string \<Rightarrow> address option) \<Rightarrow> (funding_stream_receiver \<times> nat \<times> string list) list
    \<Rightarrow> ('e, (funding_stream_receiver \<times> funding_stream_recipient) list) outcome" where
  "build_recipients parse [] = Ok []"
| "build_recipients parse ((receiver, n, ss) # rest) =
     qbind (recipient_new parse n ss) (\<lambda>r.
     qbind (build_recipients parse rest) (\<lambda>rs. Ok ((receiver, r) # rs)))"

fun build_streams ::
  "(string \<Rightarrow> address option) \<Rightarrow> stream_table \<Rightarrow> ('e, funding_streams list) outcome" where
  "build_streams parse [] = Ok []"
| "build_streams parse ((hr, entries) # rest) =
     qbind (build_recipients parse entries) (\<lambda>rs.
     qbind (build_streams parse rest) (\<lambda>ss. Ok (\<lparr>height_range = hr, recipients = rs\<rparr> # ss)))"

definition POST_NU6_FUNDING_STREAM_NUM_BLOCKS :: nat where "POST_NU6_FUNDING_STREAM_NUM_BLOCKS = 420000"

definition MAINNET_FUNDING_STREAMS :: stream_table where
  "MAINNET_FUNDING_STREAMS =
     [((1046400, 2726400),
        [(Ecc, 7, MAINNET_FUNDING_STREAM_ECC_ADDRESSES),
         (ZcashFoundation, 5, MAINNET_FUNDING_STREAM_ZF_ADDRESSES),
         (MajorGrants, 8, MAINNET_FUNDING_STREAM_MG_ADDRESSES)]),
      ((2726400, 2726400 + POST_NU6_FUNDING_STREAM_NUM_BLOCKS),
        [(DeferredReceiver, 12, []),
         (MajorGrants, 8, MAINNET_POST_NU6_FUNDING_STREAM_FPF_ADDRESSES)]),
      ((3146400, 4406400),
        [(DeferredReceiver, 12, []),
         (MajorGrants, 8, MAINNET_POST_NU6_1_FUNDING_STREAM_FPF_ADDRESSES)])]"

definition TESTNET_FUNDING_STREAMS :: stream_table where
  "TESTNET_FUNDING_STREAMS =
     [((1028500, 2796000),
        [(Ecc, 7, TESTNET_FUNDING_STREAM_ECC_ADDRESSES),
         (ZcashFoundation, 5, TESTNET_FUNDING_STREAM_ZF_ADDRESSES),
         (MajorGrants, 8, TESTNET_FUNDING_STREAM_MG_ADDRESSES)]),
      ((2976000, 2976000 + POST_NU6_FUNDING_STREAM_NUM_BLOCKS),
        [(DeferredReceiver, 12, []),
         (MajorGrants, 8, TESTNET_POST_NU6_FUNDING_STREAM_FPF_ADDRESSES)]),
      ((3536500, 4476000),
        [(DeferredReceiver, 12, []),
         (MajorGrants, 8, TESTNET_POST_NU6_1_FUNDING_STREAM_FPF_ADDRESSES)])]"

section \<open>Lockbox disbursements and the default Testnet\<close>

definition EXPECTED_NU6_1_LOCKBOX_DISBURSEMENTS_TOTAL :: amount where
  "EXPECTED_NU6_1_LOCKBOX_DISBURSEMENTS_TOTAL = Amount (78750 * COIN)"

definition NU6_1_LOCKBOX_DISBURSEMENTS :: "string \<Rightarrow> (string \<times> amount) list" where
  "NU6_1_LOCKBOX_DISBURSEMENTS addr =
     replicate 10 (addr, Amount (zatoshis EXPECTED_NU6_1_LOCKBOX_DISBURSEMENTS_TOTAL div 10))"

definition MAINNET_NU6_1_LOCKBOX_DISBURSEMENTS :: "(string \<times> amount) list" where
  "MAINNET_NU6_1_LOCKBOX_DISBURSEMENTS =
     NU6_1_LOCKBOX_DISBURSEMENTS ''t3ev37Q2uL1sfTsiJQJiWJoFzQpDhmnUwYo''"

definition TESTNET_NU6_1_LOCKBOX_DISBURSEMENTS :: "(string \<times> amount) list" where
  "TESTNET_NU6_1_LOCKBOX_DISBURSEMENTS =
     NU6_1_LOCKBOX_DISBURSEMENTS ''t2RnBRiqrN1nW4ecZs1Fj3WWjNdnSs4kiX8''"

definition TESTNET_GENESIS_HASH :: string where
  "TESTNET_GENESIS_HASH = ''05a60a92d99d85997cce3b87616c089f6124d7342af37106edc76126334a2c38''"

definition TESTNET_TEMPORARY_ORCHARD_DISABLING_SOFT_FORK_HEIGHT :: height where
  "TESTNET_TEMPORARY_ORCHARD_DISABLING_SOFT_FORK_HEIGHT = 4048500"

definition builder_default :: "(string \<Rightarrow> address option) \<Rightarrow> ('e, parameters_builder) outcome" where
  "builder_default parse =
     qbind (to_compact (2 ^ 251 - 1)) (\<lambda>c.
     qbind (to_expanded c) (\<lambda>limit.
     qbind (expect limit) (\<lambda>limit.
     qbind (build_streams parse TESTNET_FUNDING_STREAMS) (\<lambda>streams.
     qbind (expect (hash_from_str TESTNET_GENESIS_HASH)) (\<lambda>hash.
       Ok \<lparr>b_network_name = ''UnknownTestnet'',
           b_network_magic = [0xfa, 0x1a, 0xf9, 0xbf],
           b_genesis_hash = hash,
           b_activation_heights = bt_extend TESTNET_ACTIVATION_HEIGHTS [],
           b_slow_start_interval = SLOW_START_INTERVAL,
           b_funding_streams = streams,
           b_should_lock_funding_stream_address_period = False,
           b_target_difficulty_limit = limit,
           b_disable_pow = False,
           b_minimum_difficulty_start_height = Some 299188,
           b_should_allow_unshielded_coinbase_spends = False,
           b_pre_blossom_halving_interval = PRE_BLOSSOM_HALVING_INTERVAL,
           b_post_blossom_halving_interval = POST_BLOSSOM_HALVING_INTERVAL,
           b_lockbox_disbursements = TESTNET_NU6_1_LOCKBOX_DISBURSEMENTS,
           b_checkpoints = TESTNET_CHECKPOINT_LIST,
           b_temporary_orchard_disabling_soft_fork_height =
             Some TESTNET_TEMPORARY_ORCHARD_DISABLING_SOFT_FORK_HEIGHT\<rparr>)))))"

definition parameters_default :: "(string \<Rightarrow> address option) \<Rightarrow> ('e, parameters) outcome" where
  "parameters_default parse =
     map_ok (\<lambda>b. (finish b)\<lparr>network_name := ''Testnet''\<rparr>) (builder_default parse)"

definition is_default_testnet ::
  "(string \<Rightarrow> address option) \<Rightarrow> parameters \<Rightarrow> ('e, bool) outcome" where
  "is_default_testnet parse params = map_ok (\<lambda>d. params = d) (parameters_default parse)"

section \<open>Network queries\<close>

definition all_funding_streams ::
  "(string \<Rightarrow> address option) \<Rightarrow> network \<Rightarrow> ('e, funding_streams list) outcome" where
  "all_funding_streams parse net =
     (case net of Testnet params \<Rightarrow> Ok (params_funding_streams params)
      | Mainnet \<Rightarrow> build_streams parse MAINNET_FUNDING_STREAMS)"

definition in_range :: "height \<times> height \<Rightarrow> height \<Rightarrow> bool" where
  "in_range r h \<longleftrightarrow> fst r \<le> h \<and> h < snd r"

definition funding_streams_at ::
  "(string \<Rightarrow> address option) \<Rightarrow> network \<Rightarrow> height \<Rightarrow> ('e, funding_streams option) outcome" where
  "funding_streams_at parse net h =
     map_ok (find (\<lambda>s. in_range (height_range s) h)) (all_funding_streams parse net)"

fun parse_disbursements ::
  "(string \<Rightarrow> address option) \<Rightarrow> (string \<times> amount) list \<Rightarrow> ('e, (address \<times> amount) list) outcome" where
  "parse_disbursements parse [] = Ok []"
| "parse_disbursements parse ((s, v) # rest) =
     qbind (expect (parse s)) (\<lambda>a. qbind (parse_disbursements parse rest) (\<lambda>ds. Ok ((a, v) # ds)))"

definition net_lockbox_disbursements ::
  "(string \<Rightarrow> address option) \<Rightarrow> network \<Rightarrow> height \<Rightarrow> ('e, (address \<times> amount) list) outcome" where
  "net_lockbox_disbursements parse net h =
     (if Some h \<noteq> upgrade_activation_height Nu6_1 net then Ok []
      else
        qbind (case net of
                 Mainnet \<Rightarrow> Ok MAINNET_NU6_1_LOCKBOX_DISBURSEMENTS
               | Testnet params \<Rightarrow>
                   map_ok (\<lambda>d. if d then TESTNET_NU6_1_LOCKBOX_DISBURSEMENTS else lockbox_disbursements params)
                     (is_default_testnet parse params))
          (parse_disbursements parse))"

section \<open>The tables are complete\<close>

definition parses :: "(string \<Rightarrow> address option) \<Rightarrow> string list \<Rightarrow> bool" where
  "parses parse ss \<longleftrightarrow> list_all (\<lambda>s. parse s \<noteq> None) ss"

text \<open>The addresses of a table, and of all the tables of the source.\<close>

definition table_addresses :: "stream_table \<Rightarrow> string list" where
  "table_addresses t = concat (map (\<lambda>(_, es). concat (map (\<lambda>(_, _, ss). ss) es)) t)"

definition parsed_recipient :: "(string \<Rightarrow> address option) \<Rightarrow> nat \<Rightarrow> string list \<Rightarrow> funding_stream_recipient" where
  "parsed_recipient parse n ss = \<lparr>numerator = n, addresses = map (\<lambda>s. the (parse s)) ss\<rparr>"

definition parsed_streams :: "(string \<Rightarrow> address option) \<Rightarrow> stream_table \<Rightarrow> funding_streams list" where
  "parsed_streams parse t =
     map (\<lambda>(r, es). \<lparr>height_range = r,
            recipients = map (\<lambda>(receiver, n, ss). (receiver, parsed_recipient parse n ss)) es\<rparr>) t"

lemma parse_all_Ok: "parses parse ss \<Longrightarrow> parse_all parse ss = Ok (map (\<lambda>s. the (parse s)) ss)"
  by (induction ss) (auto simp: parses_def)

lemma recipient_new_Ok: "parses parse ss \<Longrightarrow> recipient_new parse n ss = Ok (parsed_recipient parse n ss)"
  by (simp add: recipient_new_def parse_all_Ok parsed_recipient_def)

lemma build_recipients_Ok:
  "parses parse (concat (map (\<lambda>(_, _, ss). ss) es)) \<Longrightarrow>
    build_recipients parse es = Ok (map (\<lambda>(receiver, n, ss). (receiver, parsed_recipient parse n ss)) es)"
  by (induction parse es rule: build_recipients.induct) (auto simp: parses_def recipient_new_Ok)

lemma build_streams_Ok:
  "parses parse (table_addresses t) \<Longrightarrow> build_streams parse t = Ok (parsed_streams parse t)"
  by (induction parse t rule: build_streams.induct)
    (auto simp: parses_def table_addresses_def parsed_streams_def build_recipients_Ok)

lemma table_lengths:
  "length MAINNET_FUNDING_STREAM_ECC_ADDRESSES = 48" "length TESTNET_FUNDING_STREAM_ECC_ADDRESSES = 51"
  "length MAINNET_FOUNDER_ADDRESS_LIST = 48" "length TESTNET_FOUNDER_ADDRESS_LIST = 48"
  by (simp_all add: MAINNET_FUNDING_STREAM_ECC_ADDRESSES_def TESTNET_FUNDING_STREAM_ECC_ADDRESSES_def
      MAINNET_FOUNDER_ADDRESS_LIST_def TESTNET_FOUNDER_ADDRESS_LIST_def)

lemma cycle_take_length [simp]: "length (cycle_take n xs) = n"
  by (simp add: cycle_take_def)

end
