(* ===== verification/Subsidy.thy ===== *)
theory Subsidy
  imports Subsidy_Tables Emission
begin

text \<open>
  Block subsidies, halvings, funding streams, the founders reward and the Wcash foundation
  allocation, from \<^verbatim>\<open>zebra-chain/src/parameters/network/subsidy.rs\<close>,
  \<^verbatim>\<open>subsidy/wcash_foundation.rs\<close> and \<^verbatim>\<open>zebra-consensus/src/block/subsidy.rs\<close>.

  Heights are natural numbers and height differences are integers; arithmetic on \<^verbatim>\<open>i64\<close> that is
  not checked in the source is \<open>i64_arith\<close>, which panics on overflow.
\<close>

section \<open>Constants\<close>

definition WCASH_INITIAL_BLOCK_SUBSIDY :: nat where "WCASH_INITIAL_BLOCK_SUBSIDY = 625000000"
definition WCASH_TESTNET_SLOW_START_SHIFT :: height where "WCASH_TESTNET_SLOW_START_SHIFT = 20000"
definition WCASH_HALVING_INTERVAL :: height_diff where "WCASH_HALVING_INTERVAL = 1680000"
definition WCASH_REGTEST_FIRST_HALVING_HEIGHT :: height where "WCASH_REGTEST_FIRST_HALVING_HEIGHT = 1680001"
definition WCASH_TESTNET_FIRST_HALVING_HEIGHT :: height where "WCASH_TESTNET_FIRST_HALVING_HEIGHT = 1700000"
definition REGTEST_FIRST_HALVING :: height where "REGTEST_FIRST_HALVING = 287"
definition TESTNET_FIRST_HALVING :: height where "TESTNET_FIRST_HALVING = 1116000"
definition MAX_BLOCK_SUBSIDY :: nat where "MAX_BLOCK_SUBSIDY = nat (25 * COIN div 2)"
definition FUNDING_STREAM_RECEIVER_DENOMINATOR :: nat where "FUNDING_STREAM_RECEIVER_DENOMINATOR = 100"

named_theorems subsidy_defs \<open>the constants of the subsidy schedules\<close>

declare WCASH_INITIAL_BLOCK_SUBSIDY_def [subsidy_defs] WCASH_TESTNET_SLOW_START_SHIFT_def [subsidy_defs]
  WCASH_HALVING_INTERVAL_def [subsidy_defs] WCASH_REGTEST_FIRST_HALVING_HEIGHT_def [subsidy_defs]
  WCASH_TESTNET_FIRST_HALVING_HEIGHT_def [subsidy_defs] MAX_BLOCK_SUBSIDY_def [subsidy_defs]
  FUNDING_STREAM_RECEIVER_DENOMINATOR_def [subsidy_defs] COIN_def [subsidy_defs]
  SLOW_START_INTERVAL_def [subsidy_defs] SLOW_START_SHIFT_def [subsidy_defs]
  WCASH_TESTNET_SLOW_START_INTERVAL_def [subsidy_defs] BLOSSOM_POW_TARGET_SPACING_RATIO_def [subsidy_defs]
  PRE_BLOSSOM_HALVING_INTERVAL_def [subsidy_defs] POST_BLOSSOM_HALVING_INTERVAL_def [subsidy_defs]

definition i64_arith :: "int \<Rightarrow> ('e, int) outcome" where
  "i64_arith x = expect (checked_i64 x)"

definition i64_div :: "int \<Rightarrow> int \<Rightarrow> ('e, int) outcome" where
  "i64_div a b = (if b = 0 then Panic else i64_arith (trunc_div a b))"

section \<open>Halvings\<close>

definition net_post_blossom_halving_interval :: "network \<Rightarrow> height_diff" where
  "net_post_blossom_halving_interval net =
     (if uses_wcash_consensus net then WCASH_HALVING_INTERVAL
      else case net of Mainnet \<Rightarrow> POST_BLOSSOM_HALVING_INTERVAL
           | Testnet params \<Rightarrow> post_blossom_halving_interval params)"

definition net_pre_blossom_halving_interval :: "network \<Rightarrow> height_diff" where
  "net_pre_blossom_halving_interval net =
     (if uses_wcash_consensus net then WCASH_HALVING_INTERVAL
      else case net of Mainnet \<Rightarrow> PRE_BLOSSOM_HALVING_INTERVAL
           | Testnet params \<Rightarrow> pre_blossom_halving_interval params)"

definition funding_stream_address_change_interval :: "network \<Rightarrow> height_diff" where
  "funding_stream_address_change_interval net = trunc_div (net_post_blossom_halving_interval net) 48"

text \<open>Each \<^verbatim>\<open>?\<close> on a checked operation returns \<open>None\<close>; the subtraction is unchecked.\<close>

definition height_for_halving :: "nat \<Rightarrow> network \<Rightarrow> ('e, height option) outcome" where
  "height_for_halving k net =
     (if k = 0 then Ok (Some 0)
      else if is_wcash_mainnet net then Ok None
      else if uses_wcash_consensus net then
        Ok (Option.bind (u32_try_from WCASH_HALVING_INTERVAL) (\<lambda>interval.
            Option.bind (checked_u32 (k * interval)) (\<lambda>h.
            Option.bind (checked_u32 (h + (if is_wcash_testnet net then WCASH_TESTNET_SLOW_START_SHIFT else 1)))
              height_try_from_u32)))
      else
        case upgrade_activation_height Blossom net of
          None \<Rightarrow> Ok None
        | Some b \<Rightarrow>
            let shift = int (net_slow_start_shift net); blossom = int b in
            case checked_i64 (int k * net_pre_blossom_halving_interval net) of
              None \<Rightarrow> Ok None
            | Some unscaled \<Rightarrow>
                case checked_i64 (min unscaled blossom + shift) of
                  None \<Rightarrow> Ok None
                | Some pre \<Rightarrow>
                    qbind (i64_arith (unscaled - blossom)) (\<lambda>d.
                      Ok (Option.bind (checked_i64 (max 0 d * BLOSSOM_POW_TARGET_SPACING_RATIO)) (\<lambda>scaled.
                          Option.bind (checked_i64 (scaled + shift)) (\<lambda>post.
                          Option.bind (checked_i64 (pre + post)) (\<lambda>h.
                          Option.bind (u32_try_from h) height_try_from_u32))))))"

definition halving :: "height \<Rightarrow> network \<Rightarrow> ('e, nat) outcome" where
  "halving h net =
     (if is_wcash_mainnet net then Ok 0
      else if uses_wcash_consensus net then
        Ok ((h - (if is_wcash_testnet net then WCASH_TESTNET_SLOW_START_SHIFT else 1))
              div nat WCASH_HALVING_INTERVAL)
      else
        qbind (expect (upgrade_activation_height Blossom net)) (\<lambda>blossom.
        qbind
          (if h < net_slow_start_shift net then Ok 0
           else if h < blossom then
             i64_div (height_difference h (net_slow_start_shift net)) (net_pre_blossom_halving_interval net)
           else
             let pre = height_difference blossom (net_slow_start_shift net);
                 scaled = pre * BLOSSOM_POW_TARGET_SPACING_RATIO;
                 post = height_difference h blossom
             in i64_div (scaled + post) (net_post_blossom_halving_interval net))
          (\<lambda>index. expect (u32_try_from index))))"

definition halving_divisor :: "height \<Rightarrow> network \<Rightarrow> ('e, nat option) outcome" where
  "halving_divisor h net = map_ok (\<lambda>k. if k < 64 then Some (2 ^ k) else None) (halving h net)"

definition height_for_first_halving ::
  "(string \<Rightarrow> address option) \<Rightarrow> network \<Rightarrow> ('e, height) outcome" where
  "height_for_first_halving parse net =
     (if uses_wcash_consensus net then
        Ok (if is_wcash_mainnet net then HEIGHT_MAX
            else if is_wcash_testnet net then WCASH_TESTNET_FIRST_HALVING_HEIGHT
            else WCASH_REGTEST_FIRST_HALVING_HEIGHT)
      else case net of
        Mainnet \<Rightarrow> expect (upgrade_activation_height Canopy net)
      | Testnet params \<Rightarrow>
          if is_regtest_params params then Ok REGTEST_FIRST_HALVING
          else qbind (is_default_testnet parse params) (\<lambda>d.
            if d then Ok TESTNET_FIRST_HALVING
            else qbind (height_for_halving 1 net) expect))"

definition funding_stream_address_period ::
  "(string \<Rightarrow> address option) \<Rightarrow> height \<Rightarrow> network \<Rightarrow> ('e, nat) outcome" where
  "funding_stream_address_period parse h net =
     qbind (height_for_first_halving parse net) (\<lambda>first.
     qbind (i64_arith (height_difference h first + net_post_blossom_halving_interval net)) (\<lambda>n.
     qbind (i64_div n (funding_stream_address_change_interval net)) (\<lambda>period.
       expect (u32_try_from period))))"

section \<open>Subsidies\<close>

datatype subsidy_error = NoCoinbase | FundingStreamNotFound | FoundersRewardNotFound
  | OneTimeLockboxDisbursementNotFound | InvalidMinerFees | WcashSaplingCoinbaseOutput
  | WcashOrchardCoinbaseOutput | WcashCoinbaseOutputMissing | WcashMixedCoinbaseOutputs
  | WcashIronwoodValueBalanceNotNegative | WcashCoinbaseValueTooLarge | WcashFoundationOutputMissing
  | Subsidy_Overflow | Subsidy_Underflow | UnsupportedHeight | InvalidAmount amount_error

definition block_subsidy :: "profile \<Rightarrow> height \<Rightarrow> network \<Rightarrow> (subsidy_error, amount) outcome" where
  "block_subsidy p h net =
     (if is_wcash_mainnet net then map_err InvalidAmount (mainnet_block_subsidy h)
      else if uses_wcash_consensus net then
        if is_wcash_testnet net \<and> h \<le> WCASH_TESTNET_SLOW_START_INTERVAL then
          qbind (expect (checked_u64 (WCASH_INITIAL_BLOCK_SUBSIDY * h))) (\<lambda>n.
            map_err InvalidAmount (amount_try_from_u64 p NonNegative (n div WCASH_TESTNET_SLOW_START_INTERVAL)))
        else if h = HEIGHT_MIN then amount_zero p NonNegative
        else
          qbind (halving h net) (\<lambda>k.
            map_err InvalidAmount (amount_try_from_u64 p NonNegative
              (if k < 64 then WCASH_INITIAL_BLOCK_SUBSIDY div 2 ^ k else 0)))
      else
        qbind (halving_divisor h net) (\<lambda>d. case d of
          None \<Rightarrow> amount_zero p NonNegative
        | Some halving_div \<Rightarrow>
            let interval = net_slow_start_interval net in
            qbind
              (if h < interval then
                 let rate = MAX_BLOCK_SUBSIDY div interval in
                 Ok (if h < net_slow_start_shift net then rate * h else rate * (h + 1))
               else
                 qbind (current net h) (\<lambda>nu.
                   Ok ((if nu < Blossom then MAX_BLOCK_SUBSIDY
                        else MAX_BLOCK_SUBSIDY div nat BLOSSOM_POW_TARGET_SPACING_RATIO) div halving_div)))
              (\<lambda>n. map_err InvalidAmount (amount_try_from_u64 p NonNegative n))))"

fun stream_values ::
  "profile \<Rightarrow> amount \<Rightarrow> (funding_stream_receiver \<times> funding_stream_recipient) list
    \<Rightarrow> (amount_error, (funding_stream_receiver \<times> amount) list) outcome" where
  "stream_values p subsidy [] = Ok []"
| "stream_values p subsidy ((receiver, r) # rest) =
     qbind (amount_mul p NonNegative subsidy (numerator r)) (\<lambda>m.
     qbind (amount_div p NonNegative m FUNDING_STREAM_RECEIVER_DENOMINATOR) (\<lambda>v.
     qbind (stream_values p subsidy rest) (\<lambda>vs. Ok ((receiver, v) # vs))))"

definition funding_stream_values ::
  "profile \<Rightarrow> (string \<Rightarrow> address option) \<Rightarrow> height \<Rightarrow> network \<Rightarrow> amount
    \<Rightarrow> (amount_error, (funding_stream_receiver \<times> amount) list) outcome" where
  "funding_stream_values p parse h net subsidy =
     (if uses_wcash_consensus net then Ok []
      else if is_zero subsidy then Ok []
      else
        qbind (current net h) (\<lambda>nu.
          if nu \<ge> Canopy then
            qbind (funding_streams_at parse net h) (\<lambda>s. case s of
              None \<Rightarrow> Ok []
            | Some streams \<Rightarrow> stream_values p subsidy (recipients streams))
          else Ok []))"

definition founders_reward :: "profile \<Rightarrow> network \<Rightarrow> height \<Rightarrow> ('e, amount) outcome" where
  "founders_reward p net h =
     (if uses_wcash_consensus net then amount_zero p NonNegative
      else
        qbind (halving h net) (\<lambda>k.
        qbind (if k < 1 then map_ok (\<lambda>nu. nu < Canopy) (current net h) else Ok False) (\<lambda>early.
          if early then qbind (expect_ok (block_subsidy p h net)) (\<lambda>s. div_exact s 5)
          else amount_zero p NonNegative)))"

text \<open>\<^verbatim>\<open>div_ceil\<close> by the length of the list, which panics for an empty list.\<close>

definition founders_reward_address ::
  "(string \<Rightarrow> address option) \<Rightarrow> network \<Rightarrow> height \<Rightarrow> ('e, address option) outcome" where
  "founders_reward_address parse net h =
     (if uses_wcash_consensus net then Ok None
      else
        let addrs = founder_address_list net in
        case u32_try_from (net_pre_blossom_halving_interval net) of
          None \<Rightarrow> Ok None
        | Some interval \<Rightarrow>
            case checked_u32 (net_slow_start_shift net + interval) of
              None \<Rightarrow> Ok None
            | Some period \<Rightarrow>
                qbind (if length addrs = 0 then Panic
                       else Ok ((period + length addrs - 1) div length addrs)) (\<lambda>change_interval.
                qbind (current net h) (\<lambda>nu.
                  case (if nu < Blossom then Some h
                        else Option.bind (upgrade_activation_height Blossom net) (\<lambda>b.
                               if b \<le> h then checked_u32 (b + (h - b) div 2) else None)) of
                    None \<Rightarrow> Ok None
                  | Some adjusted \<Rightarrow>
                      qbind (if change_interval = 0 then Panic else Ok (adjusted div change_interval)) (\<lambda>i.
                        Ok (if i < length addrs then parse (addrs ! i) else None)))))"

section \<open>The Wcash foundation allocation\<close>

definition WCASH_FOUNDATION_START_HEIGHT :: height where "WCASH_FOUNDATION_START_HEIGHT = 33000"
definition WCASH_FOUNDATION_EXPIRY_HEIGHT :: height where "WCASH_FOUNDATION_EXPIRY_HEIGHT = 621455"
definition WCASH_FOUNDATION_NUMERATOR :: nat where "WCASH_FOUNDATION_NUMERATOR = 3"
definition WCASH_FOUNDATION_DENOMINATOR :: nat where "WCASH_FOUNDATION_DENOMINATOR = 10"
definition WCASH_FOUNDATION_ADDRESS :: string where
  "WCASH_FOUNDATION_ADDRESS = ''W1ZRudbQKz7jQdKmAarbaJsegscnZzXjpu2''"
definition WCASH_FOUNDATION_TEST_ADDRESS :: string where
  "WCASH_FOUNDATION_TEST_ADDRESS = ''WRHUq9CTLZFa52NmAyHH5usN21Q8jZVskN1''"

record foundation_allocation =
  allocation_amount :: amount
  allocation_address :: address

definition allocation_output :: "foundation_allocation \<Rightarrow> tx_output" where
  "allocation_output a = output_new (allocation_amount a) (address_script (allocation_address a))"

text \<open>The build flag \<open>fixture\<close> is \<^verbatim>\<open>WCASH_FOUNDATION_TEST_FIXTURE_ENABLED\<close>.\<close>

definition wcash_foundation_activation_height :: "bool \<Rightarrow> network \<Rightarrow> height option" where
  "wcash_foundation_activation_height fixture net =
     (if is_wcash_mainnet net then Some WCASH_FOUNDATION_START_HEIGHT
      else if fixture \<and> is_wcash_regtest net then Some 10 else None)"

definition wcash_foundation_expiry_height :: "bool \<Rightarrow> network \<Rightarrow> height option" where
  "wcash_foundation_expiry_height fixture net =
     (if is_wcash_mainnet net then Some WCASH_FOUNDATION_EXPIRY_HEIGHT
      else if fixture \<and> is_wcash_regtest net then Some 20 else None)"

definition wcash_foundation_fund ::
  "profile \<Rightarrow> bool \<Rightarrow> (string \<Rightarrow> network \<Rightarrow> address option) \<Rightarrow> height \<Rightarrow> network \<Rightarrow> amount
    \<Rightarrow> ('e, foundation_allocation option) outcome" where
  "wcash_foundation_fund p fixture parse_wcash h net gross_subsidy =
     (case wcash_foundation_activation_height fixture net of
        None \<Rightarrow> Ok None
      | Some start \<Rightarrow>
          if h < start then Ok None
          else case wcash_foundation_expiry_height fixture net of
            None \<Rightarrow> Ok None
          | Some expiry \<Rightarrow>
              if h \<ge> expiry then Ok None
              else
                let encoded = (if is_wcash_mainnet net then WCASH_FOUNDATION_ADDRESS
                               else WCASH_FOUNDATION_TEST_ADDRESS) in
                qbind (u64_from_amount gross_subsidy) (\<lambda>gross.
                let n = gross * WCASH_FOUNDATION_NUMERATOR div WCASH_FOUNDATION_DENOMINATOR in
                qbind (expect (checked_u64 n)) (\<lambda>n.
                qbind (expect_ok (amount_try_from_u64 p NonNegative n)) (\<lambda>amount.
                qbind (expect (parse_wcash encoded net)) (\<lambda>addr.
                  Ok (Some \<lparr>allocation_amount = amount, allocation_address = addr\<rparr>))))))"

fun position :: "('a \<Rightarrow> bool) \<Rightarrow> 'a list \<Rightarrow> nat option" where
  "position P [] = None"
| "position P (x # xs) = (if P x then Some 0 else map_option Suc (position P xs))"

definition wcash_foundation_fund_output_index ::
  "profile \<Rightarrow> bool \<Rightarrow> (string \<Rightarrow> network \<Rightarrow> address option) \<Rightarrow> height \<Rightarrow> network \<Rightarrow> amount
    \<Rightarrow> tx_output list \<Rightarrow> (subsidy_error, nat option) outcome" where
  "wcash_foundation_fund_output_index p fixture parse_wcash h net gross_subsidy outputs =
     qbind (wcash_foundation_fund p fixture parse_wcash h net gross_subsidy) (\<lambda>f. case f of
       None \<Rightarrow> Ok None
     | Some allocation \<Rightarrow>
         map_ok Some (ok_or (position (\<lambda>out. out = allocation_output allocation) outputs)
                        WcashFoundationOutputMissing))"

definition miner_subsidy ::
  "profile \<Rightarrow> bool \<Rightarrow> (string \<Rightarrow> address option) \<Rightarrow> (string \<Rightarrow> network \<Rightarrow> address option)
    \<Rightarrow> height \<Rightarrow> network \<Rightarrow> amount \<Rightarrow> (amount_error, amount) outcome" where
  "miner_subsidy p fixture parse parse_wcash h net subsidy =
     (if uses_wcash_consensus net then
        qbind (wcash_foundation_fund p fixture parse_wcash h net subsidy) (\<lambda>f.
        qbind (case f of None \<Rightarrow> amount_zero p NonNegative | Some a \<Rightarrow> Ok (allocation_amount a)) (\<lambda>share.
          amount_sub p NonNegative subsidy share))
      else
        qbind (founders_reward p net h) (\<lambda>founders.
        qbind (funding_stream_values p parse h net subsidy) (\<lambda>values.
        qbind (amount_sum p NonNegative (map snd values)) (\<lambda>streams.
          amount_result_sub p NonNegative (amount_sub p NonNegative subsidy founders) streams))))"

section \<open>Funding stream addresses\<close>

definition funding_stream_address_index ::
  "(string \<Rightarrow> address option) \<Rightarrow> height \<Rightarrow> network \<Rightarrow> funding_stream_receiver \<Rightarrow> ('e, nat option) outcome" where
  "funding_stream_address_index parse h net receiver =
     (if receiver = DeferredReceiver then Ok None
      else
        qbind (funding_streams_at parse net h) (\<lambda>s. case s of
          None \<Rightarrow> Ok None
        | Some streams \<Rightarrow>
            (case recipient streams receiver of
               None \<Rightarrow> Ok None
             | Some r \<Rightarrow>
                 qbind (funding_stream_address_period parse h net) (\<lambda>now.
                 case checked_u32 (1 + now) of
                   None \<Rightarrow> Ok None
                 | Some n \<Rightarrow>
                     qbind (funding_stream_address_period parse (fst (height_range streams)) net) (\<lambda>first.
                       if n < first then Ok None
                       else
                         let index = n - first in
                         qbind (assert_that (0 < index \<and> index \<le> length (addresses r))) (\<lambda>_.
                           Ok (Some (index - 1)))))))) "

definition funding_stream_address ::
  "(string \<Rightarrow> address option) \<Rightarrow> height \<Rightarrow> network \<Rightarrow> funding_stream_receiver \<Rightarrow> ('e, address option) outcome" where
  "funding_stream_address parse h net receiver =
     qbind (funding_stream_address_index parse h net receiver) (\<lambda>i. case i of
       None \<Rightarrow> Ok None
     | Some index \<Rightarrow>
         qbind (funding_streams_at parse net h) (\<lambda>s. Ok
           (Option.bind s (\<lambda>streams.
            Option.bind (recipient streams receiver) (\<lambda>r.
              if index < length (addresses r) then Some (addresses r ! index) else None)))))"

section \<open>Facts about the networks\<close>

lemma i64_arith_Ok: "in_i64 x \<Longrightarrow> i64_arith x = Ok x"
  by (simp add: i64_arith_def checked_i64_def)

lemma i64_div_Ok:
  assumes "0 \<le> a" "a \<le> i64_max" "0 < b"
  shows "i64_div a b = Ok (a div b)"
proof -
  have "a div b \<le> a" using assms zdiv_mono2 [of a 1 b] by simp
  moreover have "0 \<le> a div b" using assms by (simp add: pos_imp_zdiv_nonneg_iff)
  ultimately have "in_i64 (a div b)" using assms by (simp add: in_i64_def i64_min_def)
  with assms show ?thesis by (simp add: i64_div_def trunc_div_nonneg i64_arith_Ok)
qed

lemma activation_list_Mainnet: "activation_list_of Mainnet = MAINNET_ACTIVATION_HEIGHTS"
  by (simp add: activation_list_of_def MAINNET_ACTIVATION_HEIGHTS_def bt_extend_def)

lemma mainnet_upgrade_heights:
  "upgrade_activation_height Blossom Mainnet = Some 653600"
  "upgrade_activation_height Canopy Mainnet = Some 1046400"
  "upgrade_activation_height Nu6_1 Mainnet = Some 3146400"
  by (simp_all add: upgrade_activation_height_def activation_list_Mainnet activation_height.simps
      MAINNET_ACTIVATION_HEIGHTS_def)

lemma mainnet_not_wcash [simp]: "\<not> uses_wcash_consensus Mainnet" "\<not> is_wcash_mainnet Mainnet"
    "\<not> is_wcash_testnet Mainnet"
  by (simp_all add: uses_wcash_consensus_def is_wcash_mainnet_def is_wcash_testnet_def wcash_network_def)

lemma not_wcash_flavor: "\<not> uses_wcash_consensus net \<Longrightarrow> \<not> is_wcash_mainnet net"
  by (auto simp: uses_wcash_consensus_def is_wcash_mainnet_def wcash_network_def
      split: network.splits consensus_flavor.splits)

section \<open>Halving heights\<close>

text \<open>A Zcash network whose slow start ends before Blossom at height \<open>b\<close>, with a halving interval
  \<open>i\<close> that doubles at Blossom, as every builder makes it.\<close>

definition zcash_schedule :: "network \<Rightarrow> height \<Rightarrow> int \<Rightarrow> bool" where
  "zcash_schedule net b i \<longleftrightarrow> \<not> uses_wcash_consensus net
     \<and> upgrade_activation_height Blossom net = Some b \<and> net_slow_start_shift net \<le> b \<and> b \<le> u32_max
     \<and> net_pre_blossom_halving_interval net = i \<and> 0 < i \<and> net_post_blossom_halving_interval net = 2 * i"

lemma zcash_schedule_mainnet: "zcash_schedule Mainnet 653600 840000"
  by (simp add: zcash_schedule_def mainnet_upgrade_heights net_slow_start_shift_def u32_max_def
      net_pre_blossom_halving_interval_def net_post_blossom_halving_interval_def subsidy_defs)

lemma div_index_bounds:
  fixes a i :: int
  assumes "0 \<le> a" "a \<le> 3 * int u32_max" "0 < i"
  shows "i64_div a i = Ok (a div i)" "a \<le> int u32_max \<Longrightarrow> u32_try_from (a div i) = Some (nat (a div i))"
proof -
  show "i64_div a i = Ok (a div i)"
    using assms by (intro i64_div_Ok) (simp_all add: i64_max_def u32_max_def)
  show "u32_try_from (a div i) = Some (nat (a div i))" if "a \<le> int u32_max"
    using assms that zdiv_mono2 [of a 1 i] by (simp add: u32_try_from_def pos_imp_zdiv_nonneg_iff)
qed

lemma halving_zcash:
  assumes "zcash_schedule net b i" "h \<le> HEIGHT_MAX" "b \<le> HEIGHT_MAX"
  shows "halving h net = Ok (nat (if h < net_slow_start_shift net then 0
      else if h < b then (int h - int (net_slow_start_shift net)) div i
      else (int h + int b - 2 * int (net_slow_start_shift net)) div (2 * i)))"
proof -
  note z = assms(1) [unfolded zcash_schedule_def]
  let ?s = "net_slow_start_shift net"
  note simps = halving_def height_difference_def BLOSSOM_POW_TARGET_SPACING_RATIO_def Let_def
  have max: "int h \<le> 2147483647" "int b \<le> 2147483647" "int u32_max = 4294967295"
    using assms(2,3) by (simp_all add: HEIGHT_MAX_def u32_max_def)
  consider "h < ?s" | "?s \<le> h" "h < b" | "b \<le> h" using z by linarith
  then show ?thesis
  proof cases
    case 1
    then show ?thesis using z not_wcash_flavor [of net] by (simp add: simps u32_try_from_def)
  next
    case 2
    then have "0 \<le> int h - int ?s" "int h - int ?s \<le> 3 * int u32_max" "int h - int ?s \<le> int u32_max" "0 < i"
      using z max by simp_all
    note d = div_index_bounds [OF this(1,2,4)] div_index_bounds(2) [OF this(1,2,4) this(3)]
    show ?thesis using 2 z not_wcash_flavor [of net] by (simp add: simps d)
  next
    case 3
    let ?a = "int h + int b - 2 * int ?s"
    have "0 \<le> ?a" "?a \<le> 3 * int u32_max" "?a \<le> int u32_max" "0 < 2 * i" using 3 z max by simp_all
    note d = div_index_bounds [OF this(1,2,4)] div_index_bounds(2) [OF this(1,2,4) this(3)]
    have a: "(int b - int ?s) * 2 + (int h - int b) = ?a" by simp
    show ?thesis using 3 z not_wcash_flavor [of net] unfolding simps by (simp add: a d del: left_diff_distrib_numeral)
  qed
qed

lemma height_for_halving_zcash:
  assumes "zcash_schedule net b i" "0 < k" "(height_for_halving k net :: ('e, _) outcome) = Ok (Some H)"
  shows "int H = min (int k * i) (int b) + 2 * int (net_slow_start_shift net) + 2 * max 0 (int k * i - int b)"
  using assms not_wcash_flavor [of net]
  by (auto simp: height_for_halving_def zcash_schedule_def Let_def checked_i64_def u32_try_from_def
      height_try_from_u32_def subsidy_defs i64_arith_def split: option.splits if_splits)

lemma le_div_iff_int:
  assumes "0 < (d::int)" "0 \<le> a"
  shows "k \<le> nat (a div d) \<longleftrightarrow> int k * d \<le> a"
proof
  assume "k \<le> nat (a div d)"
  then have "int k \<le> a div d" using assms by (simp add: le_nat_iff pos_imp_zdiv_nonneg_iff)
  then have "int k * d \<le> a div d * d" using assms by simp
  also have "\<dots> \<le> a" using assms by (metis add.commute add_le_cancel_left div_mult_mod_eq le_add_same_cancel1 pos_mod_sign)
  finally show "int k * d \<le> a" .
next
  assume "int k * d \<le> a"
  then have "int k * d div d \<le> a div d" using assms(1) by (rule zdiv_mono1)
  then show "k \<le> nat (a div d)" using assms by (simp add: le_nat_iff)
qed

text \<open>A slow start moves the halvings before Blossom by two shifts in one function and by one in
  the other, so the two agree only from Blossom on or without a slow start.\<close>

lemma halving_iff_zcash:
  assumes "zcash_schedule net b i" "h \<le> HEIGHT_MAX" "b \<le> HEIGHT_MAX" "0 < k"
    and "(height_for_halving k net :: ('e, _) outcome) = Ok (Some H)"
    and "int b \<le> int k * i \<or> net_slow_start_shift net = 0"
  shows "\<exists>n. (halving h net :: ('f, _) outcome) = Ok n \<and> (k \<le> n \<longleftrightarrow> H \<le> h)"
proof -
  let ?s = "net_slow_start_shift net"
  note H = height_for_halving_zcash [OF assms(1,4,5)]
  have i: "0 < i" "?s \<le> b" using assms(1) by (simp_all add: zcash_schedule_def)
  have ki: "i \<le> int k * i" using assms(4) i by simp
  show ?thesis
  proof (cases "h < b")
    case True
    then have "(k \<le> nat ((int h - int ?s) div i)) = (H \<le> h)" if "?s \<le> h"
      using le_div_iff_int [of i "int h - int ?s" k] that H assms(6) i by (auto simp: min_def max_def split: if_splits)
    moreover have "\<not> H \<le> h" if "h < ?s"
      using that True H assms(6) ki i by auto
    ultimately show ?thesis
      using True assms(4) by (simp add: halving_zcash [OF assms(1-3)])
  next
    case False
    define K where "K = int k * i"
    have "(k \<le> nat ((int h + int b - 2 * int ?s) div (2 * i))) = (2 * K \<le> int h + int b - 2 * int ?s)"
      using le_div_iff_int [of "2 * i" "int h + int b - 2 * int ?s" k] False i by (simp add: K_def mult.left_commute)
    also have "\<dots> = (H \<le> h)"
      using H assms(6) False unfolding K_def [symmetric] by (auto simp: min_def max_def split: if_splits)
    finally have "(k \<le> nat ((int h + int b - 2 * int ?s) div (2 * i))) = (H \<le> h)" .
    then show ?thesis
      using False i by (simp add: halving_zcash [OF assms(1-3)])
  qed
qed

lemma halving_iff_wcash:
  assumes "uses_wcash_consensus net" "0 < k"
    and "(height_for_halving k net :: ('e, _) outcome) = Ok (Some H)"
  shows "\<exists>n. (halving h net :: ('f, _) outcome) = Ok n \<and> (k \<le> n \<longleftrightarrow> H \<le> h)"
proof -
  let ?s = "if is_wcash_testnet net then WCASH_TESTNET_SLOW_START_SHIFT else 1"
  have m: "\<not> is_wcash_mainnet net" using assms by (auto simp: height_for_halving_def)
  with assms have "H = k * 1680000 + ?s"
    by (auto simp: height_for_halving_def u32_try_from_def subsidy_defs u32_max_def checked_u32_def
        height_try_from_u32_def split: if_splits)
  moreover have "k \<le> (h - ?s) div 1680000 \<longleftrightarrow> k * 1680000 \<le> h - ?s"
    by (simp add: less_eq_div_iff_mult_less_eq)
  ultimately show ?thesis
    using assms m by (auto simp: halving_def subsidy_defs)
qed

section \<open>Total issuance\<close>

text \<open>The coins issued by the subsidies of the heights below \<open>n\<close>.\<close>

fun issued :: "profile \<Rightarrow> network \<Rightarrow> nat \<Rightarrow> (subsidy_error, int) outcome" where
  "issued p net 0 = Ok 0"
| "issued p net (Suc h) =
     qbind (issued p net h) (\<lambda>total. qbind (block_subsidy p h net) (\<lambda>a. Ok (total + zatoshis a)))"

lemma issued_sum:
  assumes "\<And>h. h < n \<Longrightarrow> block_subsidy p h net = Ok (Amount (int (f h)))"
  shows "issued p net n = Ok (int (\<Sum>h < n. f h))"
  using assms by (induction n) simp_all

text \<open>Zcash Mainnet.\<close>

definition zcash_subsidy :: "height \<Rightarrow> nat" where
  "zcash_subsidy h =
     (if h < 20000 then 62500 * (if h < 10000 then h else h + 1)
      else if h < 653600 then 1250000000
      else 625000000 div 2 ^ ((h + 633600) div 1680000))"

lemma halving_mainnet:
  assumes "h \<le> HEIGHT_MAX"
  shows "halving h Mainnet = Ok (if h < 653600 then 0 else (h + 633600) div 1680000)"
proof -
  have m: "653600 \<le> HEIGHT_MAX" by (simp add: HEIGHT_MAX_def u32_max_def)
  have s: "net_slow_start_shift Mainnet = 10000" by (simp add: net_slow_start_shift_def subsidy_defs)
  have d: "(int h + 633600) div 1680000 = int ((h + 633600) div 1680000)" by (simp add: zdiv_int)
  show ?thesis
    unfolding halving_zcash [OF zcash_schedule_mainnet assms m] s by (auto simp: d)
qed

lemma mainnet_upgrade_at:
  "\<exists>nu. current Mainnet h = (Ok nu :: ('e, _) outcome) \<and> (nu < Blossom \<longleftrightarrow> h < 653600) \<and> (nu < Canopy \<longleftrightarrow> h < 1046400)"
proof -
  have "schedule_ok (activation_list_of Mainnet)"
    by (simp add: activation_list_Mainnet schedule_ok_mainnet)
  from schedule_current_iff [OF this, of h] obtain nu where
    nu: "current Mainnet h = (Ok nu :: ('e, _) outcome)"
      "\<And>nu'. nu' \<le> nu \<longleftrightarrow> (\<exists>a. upgrade_activation_height nu' Mainnet = Some a \<and> a \<le> h)"
    unfolding current_def upgrade_activation_height_def by blast
  show ?thesis
    using nu(1) nu(2) [of Blossom] nu(2) [of Canopy]
    by (intro exI [of _ nu]) (auto simp: mainnet_upgrade_heights not_le [symmetric])
qed

lemma zcash_subsidy_le: "zcash_subsidy h \<le> 1250000000"
proof -
  have "(625000000 :: nat) div 2 ^ n \<le> 1250000000" for n
    using div_le_dividend [of "625000000 :: nat" "2 ^ n"] by linarith
  then show ?thesis by (auto simp: zcash_subsidy_def)
qed

lemma zcash_halved:
  "(if k < 64 then (625000000 :: nat) div 2 ^ k else 0) = 625000000 div 2 ^ k"
proof (cases "k < 64")
  case False
  then have "(2::nat) ^ 64 \<le> 2 ^ k" by (intro power_increasing) auto
  then have "(625000000 :: nat) < 2 ^ k" by (rule less_le_trans [rotated]) simp
  with False show ?thesis by simp
qed simp

lemma amount_nonneg_Ok: "int n \<le> MAX_MONEY p \<Longrightarrow> amount_try_from_u64 p NonNegative n = Ok (Amount (int n))"
  by (simp add: try_from_u64_eq try_from_i128_eq)

lemma block_subsidy_mainnet:
  assumes "h \<le> HEIGHT_MAX"
  shows "block_subsidy Zcash_profile h Mainnet = Ok (Amount (int (zcash_subsidy h)))"
proof -
  let ?k = "if h < 653600 then 0 else (h + 633600) div 1680000"
  obtain nu where nu: "current Mainnet h = (Ok nu :: (subsidy_error, _) outcome)" "nu < Blossom \<longleftrightarrow> h < 653600"
    using mainnet_upgrade_at by blast
  from zcash_halved [of ?k] have z: "zcash_subsidy h = (if ?k < 64
      then (if h < 20000 then 62500 * (if h < 10000 then h else h + 1)
            else (if nu < Blossom then 1250000000 else 625000000) div 2 ^ ?k) else 0)"
    using nu(2) by (auto simp: zcash_subsidy_def split: if_splits)
  have "int (zcash_subsidy h) \<le> MAX_MONEY Zcash_profile"
    using zcash_subsidy_le [of h] by (simp add: money_defs)
  from amount_nonneg_Ok [OF this] have a:
    "amount_try_from_u64 Zcash_profile NonNegative (zcash_subsidy h) = Ok (Amount (int (zcash_subsidy h)))" .
  show ?thesis
  proof (cases "?k < 64")
    case True
    note simps = block_subsidy_def halving_divisor_def halving_mainnet [OF assms] nu(1) Let_def
      net_slow_start_interval_def net_slow_start_shift_def subsidy_defs
    consider "h < 10000" | "10000 \<le> h" "h < 20000" | "20000 \<le> h" "h < 653600" | "653600 \<le> h" by linarith
    then show ?thesis
      using a True nu(2) by cases (simp_all add: simps zcash_subsidy_def)
  next
    case False
    then show ?thesis
      using z by (simp add: block_subsidy_def halving_divisor_def halving_mainnet [OF assms] split del: if_split)
  qed
qed

lemma sum_constant_range:
  assumes "\<And>h. a \<le> h \<Longrightarrow> h < a + (L::nat) \<Longrightarrow> f h = (c::nat)"
  shows "(\<Sum>h < a + L. f h) = (\<Sum>h < a. f h) + L * c"
proof -
  have "{..<a + L} = {..<a} \<union> {a..<a + L}" by auto
  then have "(\<Sum>h < a + L. f h) = (\<Sum>h < a. f h) + (\<Sum>h \<in> {a..<a + L}. f h)"
    by (simp add: sum.union_disjoint ivl_disj_int)
  also have "(\<Sum>h \<in> {a..<a + L}. f h) = (\<Sum>h \<in> {a..<a + L}. c)"
    by (rule sum.cong) (auto intro: assms)
  finally show ?thesis by simp
qed

lemma sum_below: "2 * (\<Sum>h < n. (h::nat)) = n * (n - 1)"
  by (induction n) (auto simp: algebra_simps)

lemma zcash_slow_start_sum: "(\<Sum>h < 20000. zcash_subsidy h) = 12500000000000"
proof -
  have "(\<Sum>h < 10000 + (10000::nat). zcash_subsidy h)
      = (\<Sum>h < 10000. 62500 * h) + (\<Sum>h \<in> {10000..<20000}. 62500 * (h + 1))"
  proof -
    have "{..<20000::nat} = {..<10000} \<union> {10000..<20000}" by auto
    then have "(\<Sum>h < 20000. zcash_subsidy h)
        = (\<Sum>h \<in> {..<10000}. zcash_subsidy h) + (\<Sum>h \<in> {10000..<20000}. zcash_subsidy h)"
      by (simp add: sum.union_disjoint ivl_disj_int)
    also have "(\<Sum>h \<in> {..<10000}. zcash_subsidy h) = (\<Sum>h < 10000. 62500 * h)"
      by (rule sum.cong) (auto simp: zcash_subsidy_def)
    also have "(\<Sum>h \<in> {10000..<20000}. zcash_subsidy h) = (\<Sum>h \<in> {10000..<20000}. 62500 * (h + 1))"
      by (rule sum.cong) (auto simp: zcash_subsidy_def)
    finally show ?thesis by simp
  qed
  also have "(\<Sum>h \<in> {10000..<20000::nat}. 62500 * (h + 1)) = (\<Sum>h < 10000. 62500 * (h + 10001))"
    using sum.shift_bounds_nat_ivl [of "\<lambda>h. 62500 * (h + 1)" 0 10000 10000] by (simp add: atLeast0LessThan algebra_simps)
  also have "(\<Sum>h < 10000. 62500 * h) + (\<Sum>h < 10000. 62500 * (h + 10001))
      = 62500 * (2 * (\<Sum>h < 10000. h) + 10000 * (10001::nat))"
    by (simp add: sum_distrib_left [symmetric] sum.distrib)
  also have "\<dots> = 12500000000000" unfolding sum_below by simp
  finally show ?thesis by simp
qed

lemma zcash_first_era_sum: "(\<Sum>h < 1046400. zcash_subsidy h) = 1050000000000000"
proof -
  have "(\<Sum>h < 20000 + 633600. zcash_subsidy h) = (\<Sum>h < 20000. zcash_subsidy h) + 633600 * 1250000000"
    by (rule sum_constant_range) (simp add: zcash_subsidy_def)
  moreover have "(\<Sum>h < 653600 + 392800. zcash_subsidy h) = (\<Sum>h < 653600. zcash_subsidy h) + 392800 * 625000000"
    by (rule sum_constant_range) (simp add: zcash_subsidy_def)
  ultimately show ?thesis using zcash_slow_start_sum by simp
qed

lemma zcash_era_sum:
  "2 ^ m * (\<Sum>h < 1046400 + 1680000 * m. zcash_subsidy h) + 1050000000000000 \<le> 2100000000000000 * 2 ^ m"
proof (induction m)
  case 0
  show ?case using zcash_first_era_sum by simp
next
  case (Suc m)
  let ?S = "\<lambda>m. \<Sum>h < 1046400 + 1680000 * m. zcash_subsidy h" and ?c = "625000000 div 2 ^ Suc m :: nat"
  have "(h + 633600) div 1680000 = Suc m" if "1046400 + 1680000 * m \<le> h" "h < 1046400 + 1680000 * m + 1680000" for h
    using that by simp
  then have "zcash_subsidy h = ?c" if "1046400 + 1680000 * m \<le> h" "h < 1046400 + 1680000 * m + 1680000" for h
    using that by (simp add: zcash_subsidy_def)
  from sum_constant_range [of "1046400 + 1680000 * m" 1680000 zcash_subsidy ?c, OF this]
  have "?S (Suc m) = ?S m + 1680000 * ?c" by (simp add: add.commute add.left_commute)
  then have "2 ^ Suc m * ?S (Suc m) = 2 * (2 ^ m * ?S m) + 1680000 * (2 ^ Suc m * ?c)"
    by (simp add: algebra_simps)
  also have "\<dots> \<le> 2 * (2 ^ m * ?S m) + 1680000 * 625000000"
    by (intro add_left_mono mult_le_mono2 times_div_less_eq_dividend)
  finally show ?case using Suc by simp
qed

lemma zcash_issuance: "(\<Sum>h < n. zcash_subsidy h) \<le> 2100000000000000"
proof -
  let ?S = "\<Sum>h < 1046400 + 1680000 * n. zcash_subsidy h"
  have "2 ^ n * ?S \<le> 2 ^ n * 2100000000000000"
    using add_leD1 [OF zcash_era_sum [of n]] unfolding mult.commute [of "2100000000000000"] .
  then have "?S \<le> 2100000000000000" by simp
  moreover have "(\<Sum>h < n. zcash_subsidy h) \<le> ?S"
    by (rule sum_mono2) auto
  ultimately show ?thesis by simp
qed

text \<open>The Wcash networks.\<close>

lemma wcash_mainnet_issuance:
  assumes "n \<le> Suc HEIGHT_MAX"
  shows "(\<Sum>h < n. emission h) + n \<le> 4611686018427387903"
proof -
  let ?A = "{..SLOW_START_BLOCKS}" and ?B = "{SLOW_START_BLOCKS<..<FIRST_TAIL_HEIGHT}"
  have "emission h \<le> 37500001" if "FIRST_TAIL_HEIGHT \<le> h" for h
    using emission_at_tail emission_after_tail [of h] that
    by (cases "h = FIRST_TAIL_HEIGHT") (auto simp: TAIL_SUBSIDY_def)
  then have tail: "(\<Sum>h \<in> {FIRST_TAIL_HEIGHT..<n}. emission h) \<le> (n - FIRST_TAIL_HEIGHT) * 37500001"
    using sum_bounded_above [of "{FIRST_TAIL_HEIGHT..<n}" emission 37500001] by simp
  have ramp: "(\<Sum>h \<in> ?A. emission h) \<le> 40001 * RAMP_PEAK"
    using sum_bounded_above [of ?A emission RAMP_PEAK] emission_le_peak by (simp add: SLOW_START_BLOCKS_def)
  have curve: "(\<Sum>h \<in> ?B. emission h) \<le> MAIN_EMISSION_SCALE"
    using counter_before_sum [of FIRST_TAIL_HEIGHT] counter_before_le [of FIRST_TAIL_HEIGHT] by simp
  have "(\<Sum>h < n. emission h) \<le> (\<Sum>h \<in> (?A \<union> ?B) \<union> {FIRST_TAIL_HEIGHT..<n}. emission h)"
    by (rule sum_mono2) auto
  also have "\<dots> \<le> (\<Sum>h \<in> ?A \<union> ?B. emission h) + (\<Sum>h \<in> {FIRST_TAIL_HEIGHT..<n}. emission h)"
    by (rule sum_Un_nat [THEN eq_refl, THEN order_trans]) auto
  also have "(\<Sum>h \<in> ?A \<union> ?B. emission h) \<le> (\<Sum>h \<in> ?A. emission h) + (\<Sum>h \<in> ?B. emission h)"
    by (rule sum_Un_nat [THEN eq_refl, THEN order_trans]) auto
  finally show ?thesis
    using tail ramp curve assms by (simp add: emission_defs HEIGHT_MAX_def u32_max_def)
qed

lemma wcash_kinds:
  "uses_wcash_consensus net \<Longrightarrow> is_wcash_mainnet net \<or> is_wcash_testnet net \<or> is_wcash_regtest net"
  by (auto simp: uses_wcash_consensus_def is_wcash_mainnet_def is_wcash_testnet_def is_wcash_regtest_def
      wcash_network_def split: network.splits consensus_flavor.splits) (metis wcash_network_id.exhaust)

definition wcash_test_subsidy :: "network \<Rightarrow> height \<Rightarrow> nat" where
  "wcash_test_subsidy net h =
     (if is_wcash_testnet net \<and> h \<le> 40000 then 625000000 * h div 40000
      else if h = 0 then 0
      else 625000000 div 2 ^ ((h - (if is_wcash_testnet net then 20000 else 1)) div 1680000))"

lemma wcash_test_subsidy_le: "wcash_test_subsidy net h \<le> 625000000"
proof -
  have "625000000 * h div 40000 \<le> 625000000 * 40000 div 40000" if "h \<le> 40000"
    using that by (intro div_le_mono mult_le_mono2)
  then show ?thesis by (simp add: wcash_test_subsidy_def)
qed

lemma block_subsidy_wcash_test:
  assumes "uses_wcash_consensus net" "\<not> is_wcash_mainnet net"
  shows "block_subsidy Wcash_profile h net = Ok (Amount (int (wcash_test_subsidy net h)))"
proof -
  have "int (wcash_test_subsidy net h) \<le> MAX_MONEY Wcash_profile"
    using wcash_test_subsidy_le [of net h] by (simp add: money_defs)
  note a = amount_nonneg_Ok [OF this]
  show ?thesis
  proof (cases "is_wcash_testnet net \<and> h \<le> 40000")
    case True
    then have "checked_u64 (625000000 * h) = Some (625000000 * h)"
      by (simp add: checked_u64_def u64_max_def)
    with True a assms show ?thesis
      by (simp add: block_subsidy_def subsidy_defs wcash_test_subsidy_def)
  next
    case False
    define k where "k = (h - (if is_wcash_testnet net then 20000 else 1)) div 1680000"
    have hv: "halving h net = Ok k"
      using assms by (simp add: halving_def subsidy_defs k_def)
    have f: "\<not> (is_wcash_testnet net \<and> h \<le> WCASH_TESTNET_SLOW_START_INTERVAL)"
      using False by (simp add: subsidy_defs)
    have w: "wcash_test_subsidy net h = (if h = 0 then 0 else 625000000 div 2 ^ k)"
      using False unfolding wcash_test_subsidy_def k_def by (simp only: if_False)
    show ?thesis
      using a assms unfolding w block_subsidy_def if_not_P [OF f] hv qbind.simps
        WCASH_INITIAL_BLOCK_SUBSIDY_def zcash_halved by (cases "h = 0") (simp_all add: HEIGHT_MIN_def)
  qed
qed

lemma block_subsidy_wcash_mainnet:
  "is_wcash_mainnet net \<Longrightarrow> block_subsidy p h net =
    Ok (Amount (int (if h \<ge> FIRST_TAIL_HEIGHT then TAIL_SUBSIDY else emission h)))"
  by (simp add: block_subsidy_def mainnet_block_subsidy_eq)

lemma table_le_emission: "(if h \<ge> FIRST_TAIL_HEIGHT then TAIL_SUBSIDY else emission h) \<le> emission h"
  using emission_at_tail emission_after_tail [of h] by (cases "h = FIRST_TAIL_HEIGHT") auto

section \<open>Properties of the subsidy\<close>

text \<open>
  C6. The block subsidies never fail and never issue more than the amount type can hold: on Zcash
  Mainnet the subsidies of all heights together stay within the 21 million coins of
  \<open>MAX_MONEY\<close>, and on each Wcash network, permanent tail included, the subsidies of every
  representable height stay within the Wcash money range.
\<close>

theorem issuance_within_money_range:
  assumes "p = Zcash_profile \<and> net = Mainnet \<or> p = Wcash_profile \<and> uses_wcash_consensus net"
    and "n \<le> Suc HEIGHT_MAX"
  shows "\<exists>total. issued p net n = Ok total \<and> 0 \<le> total \<and> total \<le> MAX_MONEY p"
proof -
  consider "p = Zcash_profile" "net = Mainnet" | "p = Wcash_profile" "is_wcash_mainnet net"
    | "p = Wcash_profile" "uses_wcash_consensus net" "\<not> is_wcash_mainnet net" using assms(1) by blast
  then show ?thesis
  proof cases
    case 1
    have "issued p net n = Ok (int (\<Sum>h < n. zcash_subsidy h))"
      using assms(2) by (intro issued_sum) (simp add: 1 block_subsidy_mainnet)
    with zcash_issuance [of n] 1 show ?thesis by (simp add: money_defs del: of_nat_sum)
  next
    case 2
    let ?f = "\<lambda>h. if h \<ge> FIRST_TAIL_HEIGHT then TAIL_SUBSIDY else emission h"
    have "issued p net n = Ok (int (\<Sum>h < n. ?f h))"
      by (rule issued_sum) (rule block_subsidy_wcash_mainnet [OF 2(2)])
    moreover have "(\<Sum>h < n. ?f h) \<le> (\<Sum>h < n. emission h)"
      by (rule sum_mono) (rule table_le_emission)
    ultimately show ?thesis
      using wcash_mainnet_issuance [OF assms(2)] 2 by (simp add: money_defs del: of_nat_sum)
  next
    case 3
    have "issued p net n = Ok (int (\<Sum>h < n. wcash_test_subsidy net h))"
      by (intro issued_sum) (simp add: 3 block_subsidy_wcash_test)
    moreover have "(\<Sum>h < n. wcash_test_subsidy net h) \<le> n * 625000000"
      using sum_bounded_above [of "{..<n}" "wcash_test_subsidy net" 625000000] wcash_test_subsidy_le by simp
    ultimately show ?thesis
      using assms(2) 3 by (simp add: money_defs HEIGHT_MAX_def u32_max_def del: of_nat_sum)
  qed
qed

theorem issuance_within_money_range_witness:
  "\<exists>total. issued Zcash_profile Mainnet 2147483647 = Ok total \<and> total \<le> 2100000000000000"
  using issuance_within_money_range [of Zcash_profile Mainnet 2147483647]
  by (auto simp: money_defs HEIGHT_MAX_def u32_max_def)

text \<open>
  C37. The two halving functions agree: \<open>halving\<close> reaches \<open>k\<close> exactly at \<open>height_for_halving k\<close>, on
  the Wcash networks and on every Zcash-type network for the halvings from Blossom on, or without
  a slow start; and \<open>halving\<close> does not panic there.
\<close>

theorem halving_agrees_with_height_for_halving:
  assumes "0 < k" "h \<le> HEIGHT_MAX"
    and "(height_for_halving k net :: (unit, _) outcome) = Ok (Some H)"
    and "uses_wcash_consensus net \<or> (zcash_schedule net b i \<and> b \<le> HEIGHT_MAX
      \<and> (int b \<le> int k * i \<or> net_slow_start_shift net = 0))"
  shows "\<exists>n. (halving h net :: (unit, _) outcome) = Ok n \<and> (k \<le> n \<longleftrightarrow> H \<le> h)"
  using assms halving_iff_wcash [OF _ assms(1,3)] halving_iff_zcash [OF _ assms(2) _ assms(1,3)] by blast

theorem halving_agrees_with_height_for_halving_witness:
  "(height_for_halving 1 Mainnet :: (unit, _) outcome) = Ok (Some 1046400)
    \<and> (\<exists>n. (halving 1046400 Mainnet :: (unit, _) outcome) = Ok n \<and> 1 \<le> n)"
proof -
  have H: "(height_for_halving 1 Mainnet :: (unit, _) outcome) = Ok (Some 1046400)"
    by (simp add: height_for_halving_def mainnet_upgrade_heights Let_def net_slow_start_shift_def subsidy_defs
        net_pre_blossom_halving_interval_def checked_i64_def in_i64_def range_defs i64_arith_def
        height_try_from_u32_def HEIGHT_MAX_def)
  have "(1046400 :: nat) \<le> HEIGHT_MAX" "(653600 :: nat) \<le> HEIGHT_MAX" by (simp_all add: HEIGHT_MAX_def u32_max_def)
  with halving_agrees_with_height_for_halving [OF _ _ H, of 1046400 653600 840000] zcash_schedule_mainnet H
  show ?thesis by auto
qed

text \<open>A configured test network with Blossom after its first halving shows the difference.\<close>

definition late_blossom :: network where
  "late_blossom = Testnet (finish (sample_builder
     \<lparr>b_activation_heights := [(0, Genesis), (1, BeforeOverwinter), (1000000, Blossom)]\<rparr>))"

lemma height_for_halving_shifted_twice:
  "(height_for_halving 1 late_blossom :: (unit, _) outcome) = Ok (Some 860000)
    \<and> (halving 850000 late_blossom :: (unit, _) outcome) = Ok 1"
proof -
  have w: "\<not> uses_wcash_consensus late_blossom" "\<not> is_wcash_mainnet late_blossom"
    by (simp_all add: late_blossom_def uses_wcash_consensus_def is_wcash_mainnet_def wcash_network_def finish_def)
  have b: "upgrade_activation_height Blossom late_blossom = Some 1000000"
    by (simp add: late_blossom_def upgrade_activation_height_def activation_list_of_def finish_def
        activation_height.simps)
  have s: "net_slow_start_shift late_blossom = 10000" "net_pre_blossom_halving_interval late_blossom = 840000"
    using w by (simp_all add: net_slow_start_shift_def net_pre_blossom_halving_interval_def late_blossom_def
        finish_def sample_builder_def subsidy_defs uses_wcash_consensus_def)
  show ?thesis
    by (simp add: height_for_halving_def halving_def w b s Let_def checked_i64_def in_i64_def range_defs
        i64_arith_def i64_div_def trunc_div_def height_difference_def height_try_from_u32_def HEIGHT_MAX_def
        subsidy_defs)
qed

text \<open>With Blossom before the slow-start shift the scaled height is negative, and a short halving
  interval makes the index negative too: the final conversion panics.\<close>

definition early_blossom :: network where
  "early_blossom = Testnet (finish (sample_builder
     \<lparr>b_activation_heights := [(0, Genesis), (1, Blossom)], b_pre_blossom_halving_interval := 100,
      b_post_blossom_halving_interval := 200\<rparr>))"

lemma halving_negative_index_panics: "(halving 10000 early_blossom :: (unit, _) outcome) = Panic"
proof -
  have w: "\<not> uses_wcash_consensus early_blossom" "\<not> is_wcash_mainnet early_blossom"
    by (simp_all add: early_blossom_def uses_wcash_consensus_def is_wcash_mainnet_def wcash_network_def finish_def)
  have b: "upgrade_activation_height Blossom early_blossom = Some 1"
    by (simp add: early_blossom_def upgrade_activation_height_def activation_list_of_def finish_def
        activation_height.simps)
  have s: "net_slow_start_shift early_blossom = 10000" "net_post_blossom_halving_interval early_blossom = 200"
    using w by (simp_all add: net_slow_start_shift_def net_post_blossom_halving_interval_def early_blossom_def
        finish_def sample_builder_def subsidy_defs uses_wcash_consensus_def)
  show ?thesis
    by (simp add: halving_def w b s Let_def checked_i64_def in_i64_def range_defs i64_arith_def i64_div_def
        trunc_div_def height_difference_def subsidy_defs)
qed

lemma position_Some:
  "position P xs = Some i \<longleftrightarrow> i < length xs \<and> P (xs ! i) \<and> (\<forall>j < i. \<not> P (xs ! j))"
proof (induction xs arbitrary: i)
  case (Cons x xs)
  then show ?case by (cases i) (auto simp: All_less_Suc2)
qed simp

lemma position_None: "position P xs = None \<longleftrightarrow> (\<forall>x \<in> set xs. \<not> P x)"
  by (induction xs) auto

definition funded :: "network \<Rightarrow> height \<Rightarrow> bool" where
  "funded net h \<longleftrightarrow> is_wcash_mainnet net \<and> 33000 \<le> h \<and> h < 621455"

lemma fund_eq:
  assumes "amount_ok Wcash_profile NonNegative gross"
    and "is_wcash_mainnet net \<Longrightarrow> parse_wcash WCASH_FOUNDATION_ADDRESS net = Some addr"
  shows "wcash_foundation_fund Wcash_profile False parse_wcash h net gross =
    Ok (if funded net h then Some \<lparr>allocation_amount = Amount (zatoshis gross * 3 div 10), allocation_address = addr\<rparr>
        else None)"
proof -
  have z: "0 \<le> zatoshis gross" "zatoshis gross \<le> MAX_MONEY Wcash_profile" using assms(1) by simp_all
  define n where "n = nat (zatoshis gross) * 3 div 10"
  have n: "int n = zatoshis gross * 3 div 10" using z by (simp add: n_def zdiv_int)
  moreover have "zatoshis gross * 3 div 10 \<le> zatoshis gross" using z by simp
  ultimately have le: "int n \<le> MAX_MONEY Wcash_profile" using z by simp
  then have "checked_u64 n = Some n" by (simp add: checked_u64_def u64_max_def money_defs)
  then show ?thesis
    using z amount_nonneg_Ok [OF le] assms(2) n
    by (simp add: wcash_foundation_fund_def wcash_foundation_activation_height_def funded_def
        wcash_foundation_expiry_height_def WCASH_FOUNDATION_START_HEIGHT_def WCASH_FOUNDATION_EXPIRY_HEIGHT_def
        u64_from_amount_def WCASH_FOUNDATION_NUMERATOR_def WCASH_FOUNDATION_DENOMINATOR_def n_def Let_def)
qed

text \<open>
  C17. The Wcash foundation allocation: exactly the Mainnet blocks from 33,000 to before 621,455
  pay it, the share and the miner subsidy always add up to the gross subsidy with the share
  rounded down from thirty percent, no arithmetic or conversion fails, and the output check finds
  the first output that pays exactly the share to the fixed address and fails exactly when there
  is none.
\<close>

theorem foundation_split_exact:
  assumes "uses_wcash_consensus net" "amount_ok Wcash_profile NonNegative gross"
    and "is_wcash_mainnet net \<Longrightarrow> parse_wcash WCASH_FOUNDATION_ADDRESS net = Some addr"
  shows "\<exists>share miner.
      miner_subsidy Wcash_profile False parse parse_wcash h net gross = Ok (Amount miner)
    \<and> share + miner = zatoshis gross \<and> 0 \<le> share \<and> 0 \<le> miner
    \<and> (if funded net h then 10 * share \<le> 3 * zatoshis gross \<and> 3 * zatoshis gross < 10 * share + 10 else share = 0)
    \<and> wcash_foundation_fund_output_index Wcash_profile False parse_wcash h net gross outs =
        (if funded net h then
           (case position (\<lambda>out. out = output_new (Amount share) (address_script addr)) outs of
              None \<Rightarrow> Err WcashFoundationOutputMissing | Some i \<Rightarrow> Ok (Some i))
         else Ok None)"
proof -
  define share where "share = (if funded net h then zatoshis gross * 3 div 10 else 0)"
  have z: "0 \<le> zatoshis gross" "zatoshis gross \<le> MAX_MONEY Wcash_profile" using assms(2) by simp_all
  then have sh: "0 \<le> share" "share \<le> zatoshis gross" by (auto simp: share_def)
  then have "amount_ok Wcash_profile NonNegative (Amount share)" using z by simp
  from amount_sub_eq [OF assms(2) this]
  have m: "amount_sub Wcash_profile NonNegative gross (Amount share) = Ok (Amount (zatoshis gross - share))"
    using sh z by (simp add: try_from_i64_eq)
  note f = fund_eq [where parse_wcash = parse_wcash and net = net and addr = addr, OF assms(2,3)]
  show ?thesis
  proof (intro exI conjI)
    show "miner_subsidy Wcash_profile False parse parse_wcash h net gross = Ok (Amount (zatoshis gross - share))"
      using assms(1) m by (cases "funded net h") (simp_all add: miner_subsidy_def f share_def)
    show "if funded net h then 10 * share \<le> 3 * zatoshis gross \<and> 3 * zatoshis gross < 10 * share + 10 else share = 0"
      by (auto simp: share_def)
    show "wcash_foundation_fund_output_index Wcash_profile False parse_wcash h net gross outs =
        (if funded net h then
           (case position (\<lambda>out. out = output_new (Amount share) (address_script addr)) outs of
              None \<Rightarrow> Err WcashFoundationOutputMissing | Some i \<Rightarrow> Ok (Some i))
         else Ok None)"
      by (simp add: wcash_foundation_fund_output_index_def f allocation_output_def share_def
          split: option.splits)
  qed (use sh in simp_all)
qed

definition sample_wcash_mainnet :: network where
  "sample_wcash_mainnet = Testnet ((finish sample_builder)\<lparr>consensus_flavor := Wcash Wcash_Mainnet\<rparr>)"

lemma sample_wcash_mainnet: "is_wcash_mainnet sample_wcash_mainnet" "uses_wcash_consensus sample_wcash_mainnet"
  by (simp_all add: sample_wcash_mainnet_def is_wcash_mainnet_def uses_wcash_consensus_def wcash_network_def)

theorem foundation_split_exact_witness:
  "\<exists>miner. miner_subsidy Wcash_profile False Map.empty
      (\<lambda>_ _. Some (PayToPublicKeyHash Mainnet_kind (replicate 20 7))) 33000 sample_wcash_mainnet
      (Amount 1001) = Ok (Amount miner) \<and> 300 + miner = 1001"
proof -
  let ?parse = "\<lambda>_ _. Some (PayToPublicKeyHash Mainnet_kind (replicate 20 7))"
  have ok: "amount_ok Wcash_profile NonNegative (Amount 1001)" by (simp add: money_defs)
  have fu: "funded sample_wcash_mainnet 33000" by (simp add: funded_def sample_wcash_mainnet)
  from foundation_split_exact [OF sample_wcash_mainnet(2) ok, of ?parse
      "PayToPublicKeyHash Mainnet_kind (replicate 20 7)" Map.empty 33000 "[]"]
  obtain share miner where "miner_subsidy Wcash_profile False Map.empty ?parse 33000 sample_wcash_mainnet
      (Amount 1001) = Ok (Amount miner)" "share + miner = 1001"
      "10 * share \<le> 3003 \<and> 3003 < 10 * share + 10"
    using fu by (auto split: if_splits)
  then show ?thesis by (intro exI [of _ miner]) presburger
qed

section \<open>Funding stream addresses\<close>

lemma period_eq:
  assumes "(height_for_first_halving parse net :: ('e, _) outcome) = Ok first"
    and "net_post_blossom_halving_interval net = 1680000" "first \<le> h + 1680000" "h \<le> HEIGHT_MAX" "first \<le> HEIGHT_MAX"
  shows "(funding_stream_address_period parse h net :: ('e, _) outcome) = Ok ((h + 1680000 - first) div 35000)"
proof -
  have c: "funding_stream_address_change_interval net = 35000"
    by (simp add: funding_stream_address_change_interval_def assms(2) trunc_div_def)
  have e: "int h - int first + 1680000 = int (h + 1680000 - first)" using assms(3) by simp
  have b: "h + 1680000 - first \<le> 2149163647" using assms(4) by (simp add: HEIGHT_MAX_def u32_max_def)
  have "in_i64 (int (h + 1680000 - first))" using b by (simp add: in_i64_def range_defs)
  moreover have "0 \<le> int (h + 1680000 - first)" "int (h + 1680000 - first) \<le> i64_max" "0 < (35000 :: int)"
    using b by (simp_all add: i64_max_def)
  note d = i64_div_Ok [OF this]
  moreover have "int (h + 1680000 - first) div 35000 = int ((h + 1680000 - first) div 35000)"
    by (simp add: zdiv_int)
  moreover have "u32_try_from (int ((h + 1680000 - first) div 35000)) = Some ((h + 1680000 - first) div 35000)"
    using b by (simp add: u32_try_from_def u32_max_def)
  ultimately show ?thesis
    unfolding funding_stream_address_period_def assms(1,2) qbind.simps c height_difference_def e
    by (simp add: i64_arith_Ok d)
qed

text \<open>A table entry has an address for every period of its range.\<close>

definition stream_covered ::
  "height \<Rightarrow> (height \<times> height) \<times> (funding_stream_receiver \<times> nat \<times> string list) list \<Rightarrow> bool" where
  "stream_covered first e \<longleftrightarrow> (case e of ((start, stop), es) \<Rightarrow>
     start < stop \<and> stop \<le> HEIGHT_MAX \<and> first \<le> start + 1680000
     \<and> list_all (\<lambda>(receiver, _, ss). receiver \<noteq> DeferredReceiver \<longrightarrow>
         (stop - 1 + 1680000 - first) div 35000 < length ss + (start + 1680000 - first) div 35000) es)"

lemma mainnet_covered: "list_all (stream_covered 1046400) MAINNET_FUNDING_STREAMS"
  by (simp add: MAINNET_FUNDING_STREAMS_def stream_covered_def HEIGHT_MAX_def u32_max_def table_lengths
      MAINNET_FUNDING_STREAM_ZF_ADDRESSES_def MAINNET_FUNDING_STREAM_MG_ADDRESSES_def
      MAINNET_POST_NU6_FUNDING_STREAM_FPF_ADDRESSES_def MAINNET_POST_NU6_1_FUNDING_STREAM_FPF_ADDRESSES_def
      POST_NU6_FUNDING_STREAM_NUM_BLOCKS_def)

lemma testnet_covered: "list_all (stream_covered 1116000) TESTNET_FUNDING_STREAMS"
  by (simp add: TESTNET_FUNDING_STREAMS_def stream_covered_def HEIGHT_MAX_def u32_max_def table_lengths
      TESTNET_FUNDING_STREAM_ZF_ADDRESSES_def TESTNET_FUNDING_STREAM_MG_ADDRESSES_def
      TESTNET_POST_NU6_FUNDING_STREAM_FPF_ADDRESSES_def TESTNET_POST_NU6_1_FUNDING_STREAM_FPF_ADDRESSES_def
      POST_NU6_FUNDING_STREAM_NUM_BLOCKS_def)

lemma recipient_parsed:
  assumes "s \<in> set (parsed_streams parse t)" "recipient s receiver = Some r"
  obtains start stop es n ss where "((start, stop), es) \<in> set t" "height_range s = (start, stop)"
    "(receiver, n, ss) \<in> set es" "length (addresses r) = length ss"
proof -
  from assms(1) obtain start stop es where t: "((start, stop), es) \<in> set t" "height_range s = (start, stop)"
    "recipients s = map (\<lambda>(receiver, n, ss). (receiver, parsed_recipient parse n ss)) es"
    by (auto simp: parsed_streams_def)
  with assms(2) have "(receiver, r) \<in> set (map (\<lambda>(receiver, n, ss). (receiver, parsed_recipient parse n ss)) es)"
    by (auto simp: recipient_def dest: map_of_SomeD)
  then obtain n ss where "(receiver, n, ss) \<in> set es" "r = parsed_recipient parse n ss" by auto
  with t that show ?thesis by (simp add: parsed_recipient_def)
qed

lemma funding_stream_address_covered:
  assumes streams: "(all_funding_streams parse net :: ('e, _) outcome) = Ok (parsed_streams parse t)"
    and covered: "list_all (stream_covered first) t"
    and first: "(height_for_first_halving parse net :: ('e, _) outcome) = Ok first" "first \<le> HEIGHT_MAX"
    and post: "net_post_blossom_halving_interval net = 1680000"
    and receiver: "receiver \<noteq> DeferredReceiver" and h: "h \<le> HEIGHT_MAX"
    and s: "s = find (\<lambda>s. in_range (height_range s) h) (parsed_streams parse t)"
  shows "\<exists>res. (funding_stream_address parse h net receiver :: ('e, _) outcome) = Ok res
    \<and> (case Option.bind s (\<lambda>streams. recipient streams receiver) of None \<Rightarrow> res = None
       | Some r \<Rightarrow> \<exists>i < length (addresses r). res = Some (addresses r ! i))"
proof -
  have at: "(funding_streams_at parse net h :: ('e, _) outcome) = Ok s"
    by (simp add: funding_streams_at_def streams s)
  show ?thesis
  proof (cases "Option.bind s (\<lambda>streams. recipient streams receiver)")
    case None
    then show ?thesis
      using receiver by (cases s) (simp_all add: funding_stream_address_def funding_stream_address_index_def at)
  next
    case (Some r)
    then obtain streams where st: "s = Some streams" "recipient streams receiver = Some r"
      by (auto simp: bind_eq_Some_conv)
    with s have mem: "streams \<in> set (parsed_streams parse t)" "in_range (height_range streams) h"
      by (auto dest: find_SomeD [OF sym])
    obtain start stop es n ss where t: "((start, stop), es) \<in> set t" "height_range streams = (start, stop)"
        "(receiver, n, ss) \<in> set es" "length (addresses r) = length ss"
      using recipient_parsed [OF mem(1) st(2)] by blast
    have "stream_covered first ((start, stop), es)" using covered t(1) by (auto simp: list_all_iff)
    then have c: "first \<le> start + 1680000" "start \<le> HEIGHT_MAX"
        "(stop - 1 + 1680000 - first) div 35000 < length ss + (start + 1680000 - first) div 35000"
      using t(3) receiver by (auto simp: stream_covered_def list_all_iff)
    have r: "start \<le> h" "h < stop" using mem(2) t(2) by (auto simp: in_range_def)
    define now where "now = (h + 1680000 - first) div 35000"
    define old where "old = (start + 1680000 - first) div 35000"
    have now: "(funding_stream_address_period parse h net :: ('e, _) outcome) = Ok now"
      using first post c r h by (simp add: period_eq now_def)
    have old: "(funding_stream_address_period parse start net :: ('e, _) outcome) = Ok old"
      using first post c by (simp add: period_eq old_def)
    have "old \<le> now" using r by (simp add: now_def old_def div_le_mono)
    moreover have "now \<le> (stop - 1 + 1680000 - first) div 35000" using r by (simp add: now_def div_le_mono)
    moreover have "now < u32_max" using h by (simp add: now_def HEIGHT_MAX_def u32_max_def)
    ultimately have i: "old \<le> now" "now - old < length (addresses r)" "checked_u32 (Suc now) = Some (Suc now)"
      using c(3) t(4) by (simp_all add: old_def [symmetric] checked_u32_def)
    then have "assert_that (0 < Suc now - old \<and> Suc now - old \<le> length (addresses r)) = (Ok () :: ('e, _) outcome)"
      by (simp add: assert_that_def Suc_diff_le)
    then have "(funding_stream_address parse h net receiver :: ('e, _) outcome) = Ok (Some (addresses r ! (now - old)))"
      using receiver st t(2) i
      by (simp add: funding_stream_address_def funding_stream_address_index_def at now old Let_def)
    then show ?thesis using Some i(2) by auto
  qed
qed

lemma parameters_default_eq:
  assumes "parses parse (table_addresses TESTNET_FUNDING_STREAMS)"
    and "(parameters_default parse :: ('e, _) outcome) = Ok d"
  shows "consensus_flavor d = Zcash" "params_funding_streams d = parsed_streams parse TESTNET_FUNDING_STREAMS"
    "network_name d = ''Testnet''" "post_blossom_halving_interval d = 1680000"
  using assms
  by (auto simp: parameters_default_def builder_default_def build_streams_Ok finish_def subsidy_defs)

lemma default_testnet_first_halving:
  assumes "parses parse (table_addresses TESTNET_FUNDING_STREAMS)"
    and "(parameters_default parse :: ('e, _) outcome) = Ok d"
  shows "(height_for_first_halving parse (Testnet d) :: ('e, _) outcome) = Ok 1116000"
proof -
  note d = parameters_default_eq [OF assms(1,2)]
  have "\<not> is_regtest_params d" using d by (simp add: is_regtest_params_def)
  with d assms(2) show ?thesis
    by (simp add: height_for_first_halving_def uses_wcash_consensus_def is_default_testnet_def
        TESTNET_FIRST_HALVING_def)
qed

text \<open>
  C32. Funding streams always have an address: on Mainnet and on the default Testnet, whose tables
  hold as many addresses as their height ranges have address periods, the lookup of a stream's
  address never panics, at any height, and returns one of the recipient's addresses whenever a
  stream with that recipient is active.
\<close>

theorem funding_stream_addresses_cover:
  assumes "parses parse (table_addresses MAINNET_FUNDING_STREAMS)"
    and "parses parse (table_addresses TESTNET_FUNDING_STREAMS)"
    and "net = Mainnet \<or> net = Testnet d \<and> (parameters_default parse :: (unit, _) outcome) = Ok d"
    and "receiver \<noteq> DeferredReceiver" "h \<le> HEIGHT_MAX"
  shows "\<exists>s res. (funding_streams_at parse net h :: (unit, _) outcome) = Ok s
    \<and> (funding_stream_address parse h net receiver :: (unit, _) outcome) = Ok res
    \<and> (case Option.bind s (\<lambda>streams. recipient streams receiver) of None \<Rightarrow> res = None
       | Some r \<Rightarrow> \<exists>i < length (addresses r). res = Some (addresses r ! i))"
  using assms(3)
proof
  assume net: "net = Mainnet"
  have s: "(all_funding_streams parse net :: (unit, _) outcome) = Ok (parsed_streams parse MAINNET_FUNDING_STREAMS)"
    by (simp add: net all_funding_streams_def build_streams_Ok assms)
  have f: "(height_for_first_halving parse net :: (unit, _) outcome) = Ok 1046400"
    by (simp add: net height_for_first_halving_def mainnet_upgrade_heights)
  have "(1046400 :: nat) \<le> HEIGHT_MAX" "net_post_blossom_halving_interval net = 1680000"
    by (simp_all add: net HEIGHT_MAX_def u32_max_def net_post_blossom_halving_interval_def subsidy_defs)
  from funding_stream_address_covered [OF s mainnet_covered f this assms(4,5) refl] show ?thesis
    by (simp add: funding_streams_at_def s)
next
  assume net: "net = Testnet d \<and> (parameters_default parse :: (unit, _) outcome) = Ok d"
  note d = parameters_default_eq [OF assms(2) conjunct2 [OF net]]
  have s: "(all_funding_streams parse net :: (unit, _) outcome) = Ok (parsed_streams parse TESTNET_FUNDING_STREAMS)"
    using net d by (simp add: all_funding_streams_def)
  have f: "(height_for_first_halving parse net :: (unit, _) outcome) = Ok 1116000"
    using default_testnet_first_halving [OF assms(2) conjunct2 [OF net]] net by simp
  have "(1116000 :: nat) \<le> HEIGHT_MAX" "net_post_blossom_halving_interval net = 1680000"
    using net d by (simp_all add: HEIGHT_MAX_def u32_max_def net_post_blossom_halving_interval_def
        uses_wcash_consensus_def)
  from funding_stream_address_covered [OF s testnet_covered f this assms(4,5) refl] show ?thesis
    by (simp add: funding_streams_at_def s)
qed

theorem funding_stream_addresses_cover_witness:
  "\<exists>res. (funding_stream_address (\<lambda>_. Some (PayToScriptHash Mainnet_kind (replicate 20 7))) 1046400 Mainnet Ecc
     :: (unit, _) outcome) = Ok res"
  using funding_stream_addresses_cover [of "\<lambda>_. Some (PayToScriptHash Mainnet_kind (replicate 20 7))"
      Mainnet "finish sample_builder" Ecc 1046400]
  by (auto simp: parses_def list_all_iff HEIGHT_MAX_def u32_max_def)

end
