(* ===== verification/Tx_Merkle.thy ===== *)
theory Tx_Merkle
  imports Wolf_Prelude
begin

text \<open>
  The transaction Merkle tree and the tree of authorizing data, from
  \<^verbatim>\<open>zebra-chain/src/block/merkle.rs\<close>, and the duplicate check of \<^verbatim>\<open>merkle_root_validity\<close> in
  \<^verbatim>\<open>zebra-consensus/src/block/check.rs\<close>.

  The hash of two nodes (double SHA-256, personalised BLAKE2b) is an argument.  The tree of
  Bitcoin duplicates the last node of an odd level, so different lists can have the same root;
  the theorem here shows that the duplicate check closes exactly this gap, up to a collision of
  the hash or a transaction identifier that is itself the hash of two nodes.
\<close>

section \<open>The trees\<close>

text \<open>\<^verbatim>\<open>chunks(2)\<close> and the map over the chunks.\<close>

fun merkle_level :: "('h \<Rightarrow> 'h \<Rightarrow> 'h) \<Rightarrow> 'h list \<Rightarrow> 'h list" where
  "merkle_level hash [] = []"
| "merkle_level hash [h1] = [hash h1 h1]"
| "merkle_level hash (h1 # h2 # hs) = hash h1 h2 # merkle_level hash hs"

lemma length_merkle_level [simp]: "length (merkle_level hash hs) = (length hs + 1) div 2"
  by (induction hash hs rule: merkle_level.induct) auto

text \<open>The loop of \<^verbatim>\<open>from_iter\<close>: \<^verbatim>\<open>hashes[0]\<close> panics for an empty list.\<close>

function merkle_root :: "('h \<Rightarrow> 'h \<Rightarrow> 'h) \<Rightarrow> 'h list \<Rightarrow> ('e, 'h) outcome" where
  "merkle_root hash hs =
     (if length hs > 1 then merkle_root hash (merkle_level hash hs)
      else case hs of [] \<Rightarrow> Panic | h # _ \<Rightarrow> Ok h)"
  by pat_completeness auto

termination merkle_root
  by (relation "measure (\<lambda>(_, hs). length hs)") auto

declare merkle_root.simps [simp del]

text \<open>\<^verbatim>\<open>usize::next_power_of_two\<close>, which is 1 for 0.\<close>

fun next_power_of_two_from :: "nat \<Rightarrow> nat \<Rightarrow> nat \<Rightarrow> nat" where
  "next_power_of_two_from 0 p n = p"
| "next_power_of_two_from (Suc fuel) p n = (if n \<le> p then p else next_power_of_two_from fuel (2 * p) n)"

definition next_power_of_two :: "nat \<Rightarrow> nat" where
  "next_power_of_two n = next_power_of_two_from n 1 n"

text \<open>An odd level is unreachable in the source: a panic.\<close>

fun auth_level :: "('h \<Rightarrow> 'h \<Rightarrow> 'h) \<Rightarrow> 'h list \<Rightarrow> ('e, 'h list) outcome" where
  "auth_level hash [] = Ok []"
| "auth_level hash [h1] = Panic"
| "auth_level hash (h1 # h2 # hs) = map_ok (\<lambda>rest. hash h1 h2 # rest) (auth_level hash hs)"

lemma auth_level_length: "auth_level hash hs = Ok rest \<Longrightarrow> 2 * length rest = length hs"
  by (induction hash hs arbitrary: rest rule: auth_level.induct) (auto simp: map_ok_eq_Ok)

function auth_root_loop :: "('h \<Rightarrow> 'h \<Rightarrow> 'h) \<Rightarrow> 'h list \<Rightarrow> ('e, 'h) outcome" where
  "auth_root_loop hash hs =
     (if length hs > 1 then
        (case auth_level hash hs of
           Ok rest \<Rightarrow> auth_root_loop hash rest | Err e \<Rightarrow> Err e | Panic \<Rightarrow> Panic)
      else case hs of [] \<Rightarrow> Panic | h # _ \<Rightarrow> Ok h)"
  by pat_completeness auto

termination auth_root_loop
  by (relation "measure (\<lambda>(_, hs). length hs)") (auto dest: auth_level_length)

declare auth_root_loop.simps [simp del]

definition auth_data_root :: "('h \<Rightarrow> 'h \<Rightarrow> 'h) \<Rightarrow> 'h \<Rightarrow> 'h list \<Rightarrow> ('e, 'h) outcome" where
  "auth_data_root hash null hs =
     (let padded = hs @ replicate (next_power_of_two (length hs) - length hs) null in
      qbind (assert_that (\<exists>k \<le> length padded. length padded = 2 ^ k)) (\<lambda>_. auth_root_loop hash padded))"

section \<open>The nodes of a tree\<close>

fun level_pairs :: "'h list \<Rightarrow> ('h \<times> 'h) list" where
  "level_pairs [] = []"
| "level_pairs [h1] = [(h1, h1)]"
| "level_pairs (h1 # h2 # hs) = (h1, h2) # level_pairs hs"

text \<open>Every pair of nodes that the loop hashes for the list.\<close>

function tree_pairs :: "('h \<Rightarrow> 'h \<Rightarrow> 'h) \<Rightarrow> 'h list \<Rightarrow> ('h \<times> 'h) list" where
  "tree_pairs hash hs =
     (if length hs > 1 then level_pairs hs @ tree_pairs hash (merkle_level hash hs) else [])"
  by pat_completeness auto

termination tree_pairs
  by (relation "measure (\<lambda>(_, hs). length hs)") auto

declare tree_pairs.simps [simp del]

lemma tree_pairs_step:
  "1 < length hs \<Longrightarrow> set (tree_pairs hash hs) = set (level_pairs hs) \<union> set (tree_pairs hash (merkle_level hash hs))"
  by (subst tree_pairs.simps) simp

lemma merkle_level_pairs: "merkle_level hash hs = map (\<lambda>(a, b). hash a b) (level_pairs hs)"
  by (induction hash hs rule: merkle_level.induct) auto

lemma merkle_root_step: "1 < length hs \<Longrightarrow> merkle_root hash hs = merkle_root hash (merkle_level hash hs)"
  by (subst merkle_root.simps) simp

lemma merkle_root_singleton [simp]: "merkle_root hash [x] = Ok x"
  by (subst merkle_root.simps) simp

lemma merkle_root_Nil [simp]: "merkle_root hash [] = Panic"
  by (subst merkle_root.simps) simp

lemma merkle_level_Nil_iff [simp]: "merkle_level hash hs = [] \<longleftrightarrow> hs = []"
  by (cases "(hash, hs)" rule: merkle_level.cases) auto

lemma merkle_root_nonempty: "hs \<noteq> [] \<Longrightarrow> \<exists>r. (merkle_root hash hs :: ('e, 'h) outcome) = Ok r"
proof (induction hash hs rule: merkle_root.induct)
  case (1 hash hs)
  show ?case
  proof (cases "1 < length hs")
    case True
    with 1 show ?thesis by (simp add: merkle_root_step)
  next
    case False
    with 1(2) obtain x where "hs = [x]" by (cases hs) auto
    then show ?thesis by simp
  qed
qed

section \<open>Binding\<close>

text \<open>
  No two of the pairs in \<^term>\<open>P\<close> collide.  The set is that of the pairs of two given trees, so
  that the condition can hold of a hash with finite range.
\<close>

definition collision_free :: "('h \<Rightarrow> 'h \<Rightarrow> 'h) \<Rightarrow> ('h \<times> 'h) set \<Rightarrow> bool" where
  "collision_free hash P \<longleftrightarrow> inj_on (\<lambda>(a, b). hash a b) P"

lemma collision_freeD:
  "collision_free hash P \<Longrightarrow> (a, b) \<in> P \<Longrightarrow> (c, d) \<in> P \<Longrightarrow> hash a b = hash c d \<Longrightarrow> a = c \<and> b = d"
  unfolding collision_free_def inj_on_def by fastforce

text \<open>The height of a node above the identifiers, which are not hashes of pairs of the trees.\<close>

fun at_level :: "('h \<Rightarrow> 'h \<Rightarrow> 'h) \<Rightarrow> ('h \<times> 'h) set \<Rightarrow> nat \<Rightarrow> 'h \<Rightarrow> bool" where
  "at_level hash P 0 x \<longleftrightarrow> (\<forall>(a, b) \<in> P. x \<noteq> hash a b)"
| "at_level hash P (Suc n) x \<longleftrightarrow> (\<exists>(a, b) \<in> P. x = hash a b \<and> at_level hash P n a \<and> at_level hash P n b)"

lemma at_level_unique:
  "collision_free hash P \<Longrightarrow> at_level hash P n x \<Longrightarrow> at_level hash P m x \<Longrightarrow> n = m"
proof (induction n arbitrary: m x)
  case 0
  then show ?case by (cases m) auto
next
  case (Suc n)
  obtain a b where ab: "(a, b) \<in> P" "x = hash a b" "at_level hash P n a"
    using Suc.prems(2) by auto
  then obtain k where k: "m = Suc k" using Suc.prems(3) by (cases m) auto
  then obtain c d where "(c, d) \<in> P" "x = hash c d" "at_level hash P k c"
    using Suc.prems(3) by auto
  then have "n = k"
    using ab Suc.IH [of a k] Suc.prems(1) collision_freeD [OF Suc.prems(1), of a b c d] by simp
  with k show ?case by simp
qed

lemma level_pairs_members: "(a, b) \<in> set (level_pairs hs) \<Longrightarrow> a \<in> set hs \<and> b \<in> set hs"
  by (induction hs rule: level_pairs.induct) auto

lemma at_level_merkle_level:
  assumes "\<forall>x \<in> set hs. at_level hash P n x" "set (level_pairs hs) \<subseteq> P"
  shows "\<forall>x \<in> set (merkle_level hash hs). at_level hash P (Suc n) x"
proof
  fix x assume "x \<in> set (merkle_level hash hs)"
  then obtain a b where ab: "(a, b) \<in> set (level_pairs hs)" "x = hash a b"
    by (auto simp: merkle_level_pairs)
  with assms level_pairs_members [OF ab(1)] show "at_level hash P (Suc n) x"
    by (simp only: at_level.simps) (intro bexI [of _ "(a, b)"], auto)
qed

lemma root_at_level:
  "(merkle_root hash hs :: ('e, 'h) outcome) = Ok r \<Longrightarrow> \<forall>x \<in> set hs. at_level hash P n x \<Longrightarrow>
    set (tree_pairs hash hs) \<subseteq> P \<Longrightarrow> \<exists>d. at_level hash P (n + d) r \<and> (d = 0 \<longrightarrow> length hs = 1)"
proof (induction hash hs arbitrary: n rule: merkle_root.induct)
  case (1 hash hs)
  show ?case
  proof (cases "1 < length hs")
    case True
    then obtain d where "at_level hash P (Suc n + d) r"
      using 1(1) [OF True, of "Suc n"] 1(2,4) at_level_merkle_level [OF 1(3)]
      by (auto simp: merkle_root_step tree_pairs_step simp del: at_level.simps)
    then show ?thesis by (intro exI [of _ "Suc d"]) simp
  next
    case False
    with 1(2) obtain x where "hs = [x]" by (cases hs) auto
    with 1 show ?thesis by (intro exI [of _ 0]) auto
  qed
qed

lemma distinct_level_pairs: "distinct hs \<Longrightarrow> distinct (level_pairs hs)"
  by (induction hs rule: level_pairs.induct) (auto dest: level_pairs_members)

lemma distinct_merkle_level:
  "collision_free hash P \<Longrightarrow> set (level_pairs hs) \<subseteq> P \<Longrightarrow> distinct hs \<Longrightarrow> distinct (merkle_level hash hs)"
  unfolding collision_free_def merkle_level_pairs
  by (simp add: distinct_map distinct_level_pairs inj_on_subset)

lemma level_pairs_eq_distinct:
  "distinct xs \<Longrightarrow> distinct ys \<Longrightarrow> level_pairs xs = level_pairs ys \<Longrightarrow> xs = ys"
proof (induction xs arbitrary: ys rule: level_pairs.induct)
  case 1
  then show ?case by (cases ys rule: level_pairs.cases) auto
next
  case (2 h1)
  then show ?case by (cases ys rule: level_pairs.cases) auto
next
  case (3 h1 h2 hs)
  then show ?case by (cases ys rule: level_pairs.cases) auto
qed

lemma merkle_level_eq_distinct:
  assumes "collision_free hash P" "set (level_pairs xs) \<subseteq> P" "set (level_pairs ys) \<subseteq> P"
    and "distinct xs" "distinct ys" "merkle_level hash xs = merkle_level hash ys"
  shows "xs = ys"
proof -
  have "inj_on (\<lambda>(a, b). hash a b) (set (level_pairs xs) \<union> set (level_pairs ys))"
    using assms(1-3) unfolding collision_free_def by (blast intro: inj_on_subset)
  then have "level_pairs xs = level_pairs ys"
    using assms(6) unfolding merkle_level_pairs by (simp add: inj_on_map_eq_map)
  with assms(4,5) show ?thesis by (rule level_pairs_eq_distinct)
qed

lemma merkle_root_binds_level:
  assumes "collision_free hash P" "\<forall>x \<in> set xs \<union> set ys. at_level hash P n x" "distinct xs" "distinct ys"
    and "(merkle_root hash xs :: ('e, 'h) outcome) = Ok r" "(merkle_root hash ys :: ('e, 'h) outcome) = Ok r"
    and "set (tree_pairs hash xs) \<subseteq> P" "set (tree_pairs hash ys) \<subseteq> P"
  shows "xs = ys"
  using assms
proof (induction hash xs arbitrary: ys n rule: merkle_root.induct)
  case (1 hash xs)
  have lx: "\<forall>x \<in> set xs. at_level hash P n x" and ly: "\<forall>x \<in> set ys. at_level hash P n x"
    using "1.prems"(2) by auto
  have ne: "xs \<noteq> []" "ys \<noteq> []" using "1.prems"(5,6) by auto
  show ?case
  proof (cases "1 < length xs \<and> 1 < length ys")
    case True
    then have sub: "set (level_pairs xs) \<subseteq> P" "set (level_pairs ys) \<subseteq> P"
      using "1.prems"(7,8) by (auto simp: tree_pairs_step)
    have "merkle_level hash xs = merkle_level hash ys"
      using "1.prems" True at_level_merkle_level [OF lx sub(1)] at_level_merkle_level [OF ly sub(2)]
        distinct_merkle_level [OF "1.prems"(1) sub(1)] distinct_merkle_level [OF "1.prems"(1) sub(2)]
      by (intro "1.IH" [of _ "Suc n"]) (auto simp: merkle_root_step tree_pairs_step simp del: at_level.simps)
    then show ?thesis using "1.prems" sub merkle_level_eq_distinct by blast
  next
    case False
    have r: "\<exists>d. at_level hash P (n + d) r \<and> (d = 0 \<longrightarrow> length hs = 1)" if "hs = xs \<or> hs = ys" for hs
      using that root_at_level [OF "1.prems"(5) lx "1.prems"(7)] root_at_level [OF "1.prems"(6) ly "1.prems"(8)]
      by blast
    have "at_level hash P n r"
      using False ne "1.prems"(5,6) lx ly by (cases xs; cases ys; cases "tl xs"; cases "tl ys") auto
    then have "length hs = 1" if "hs = xs \<or> hs = ys" for hs
      using r [OF that] at_level_unique [OF "1.prems"(1)] by (metis add_cancel_right_right)
    then have "length xs = 1" "length ys = 1" by auto
    then obtain x y where "xs = [x]" "ys = [y]" by (auto simp: length_Suc_conv)
    with "1.prems"(5,6) show ?thesis by simp
  qed
qed

section \<open>The tree of authorizing data\<close>

lemma next_power_of_two_from_power:
  "\<exists>k. p = 2 ^ k \<Longrightarrow> \<exists>k. next_power_of_two_from fuel p n = 2 ^ k"
proof (induction fuel arbitrary: p)
  case (Suc fuel)
  then have "\<exists>k. 2 * p = 2 ^ k" by (metis power_Suc)
  with Suc show ?case by simp
qed simp

lemma next_power_of_two_from_ge: "n \<le> p * 2 ^ fuel \<Longrightarrow> n \<le> next_power_of_two_from fuel p n"
  by (induction fuel arbitrary: p) (auto simp: mult.assoc)

lemma next_power_of_two_power: "\<exists>k. next_power_of_two n = 2 ^ k"
  unfolding next_power_of_two_def by (rule next_power_of_two_from_power) (rule exI [of _ 0], simp)

lemma next_power_of_two_ge: "n \<le> next_power_of_two n"
  unfolding next_power_of_two_def by (rule next_power_of_two_from_ge) (simp add: less_imp_le)

lemma auth_level_even: "even (length hs) \<Longrightarrow> auth_level hash hs = Ok (merkle_level hash hs)"
  by (induction hash hs rule: auth_level.induct) auto

lemma auth_root_loop_power:
  "length hs = 2 ^ k \<Longrightarrow> auth_root_loop hash hs = merkle_root hash hs"
proof (induction k arbitrary: hs)
  case 0
  then obtain x where "hs = [x]" by (auto simp: length_Suc_conv)
  then show ?case by (subst auth_root_loop.simps) simp
next
  case (Suc k)
  have "(1::nat) < 2 ^ Suc k" by (rule one_less_power) simp_all
  then have "1 < length hs" using Suc.prems by (simp only:)
  moreover have "even (length hs)" "length (merkle_level hash hs) = 2 ^ k"
    using Suc.prems by simp_all
  ultimately show ?case using Suc.IH [of "merkle_level hash hs"]
    by (subst auth_root_loop.simps) (simp add: auth_level_even merkle_root_step)
qed

section \<open>Properties of the trees\<close>

text \<open>
  C14. The Merkle root binds the list of transactions once duplicates are refused: two lists
  without duplicates that give the same root are equal, whatever their lengths, if no two of the
  pairs hashed for the two trees collide and no transaction identifier is itself the hash of such
  a pair.  Without the duplicate check the claim fails (the last node of an odd level is hashed
  with itself).
\<close>

theorem merkle_root_binds:
  assumes "distinct xs" "distinct ys" "xs \<noteq> []"
    and "(merkle_root hash xs :: ('e, 'h) outcome) = merkle_root hash ys"
    and "collision_free hash (set (tree_pairs hash xs) \<union> set (tree_pairs hash ys))"
    and "\<forall>x \<in> set xs \<union> set ys. \<forall>(a, b) \<in> set (tree_pairs hash xs) \<union> set (tree_pairs hash ys). x \<noteq> hash a b"
  shows "xs = ys"
proof -
  obtain r where r: "(merkle_root hash xs :: ('e, 'h) outcome) = Ok r"
    using merkle_root_nonempty [OF assms(3)] by metis
  with assms(4) have "(merkle_root hash ys :: ('e, 'h) outcome) = Ok r" by simp
  with r assms(1,2,5,6) show ?thesis
    by (intro merkle_root_binds_level [where n = 0 and hash = hash and r = r and xs = xs and ys = ys and
          P = "set (tree_pairs hash xs) \<union> set (tree_pairs hash ys)"]) auto
qed

text \<open>A hash for the examples: the pairing of two numbers, which never gives an odd number.\<close>

definition pair_code :: "nat \<Rightarrow> nat \<Rightarrow> nat" where
  "pair_code a b = 2 * (1000 * a + b)"

lemma pair_code_tree:
  "tree_pairs pair_code [7, 3, 5] = [(7, 3), (5, 5), (14006, 10010)]"
  "merkle_root pair_code [7, 3, 5] = Ok 28032020"
  "merkle_root pair_code [7, 3, 5, 5] = Ok 28032020"
  by (simp_all add: tree_pairs.simps merkle_root.simps pair_code_def)

theorem merkle_root_binds_witness:
  "(merkle_root pair_code [7, 3, 5] :: (unit, nat) outcome) = Ok 28032020 \<and>
    (merkle_root pair_code [7, 3, 5, 5] :: (unit, nat) outcome) = Ok 28032020 \<and> [7, 3, 5 :: nat] = [7, 3, 5]"
proof -
  have "[7, 3, 5 :: nat] = [7, 3, 5]"
    by (rule merkle_root_binds [of _ _ pair_code, where 'e = unit])
      (simp_all add: pair_code_tree collision_free_def inj_on_def pair_code_def)
  then show ?thesis by (simp add: pair_code_tree)
qed

definition auth_leaves :: "'h \<Rightarrow> 'h list \<Rightarrow> 'h list" where
  "auth_leaves null hs = hs @ replicate (next_power_of_two (length hs) - length hs) null"

lemma auth_leaves_length: "\<exists>k. length (auth_leaves null hs) = 2 ^ k"
  using next_power_of_two_ge [of "length hs"] next_power_of_two_power [of "length hs"] by (auto simp: auth_leaves_def)

lemma auth_leaves_root: "auth_data_root hash null hs = merkle_root hash (auth_leaves null hs)"
proof -
  obtain k where len: "length (auth_leaves null hs) = 2 ^ k" using auth_leaves_length [of null hs] by blast
  then have "\<exists>k \<le> length (auth_leaves null hs). length (auth_leaves null hs) = 2 ^ k" by (metis less_exp less_imp_le)
  then show ?thesis
    by (simp add: auth_data_root_def auth_leaves_def [symmetric] auth_root_loop_power [OF len] assert_that_def)
qed

lemma auth_data_root_Ok: "\<exists>r. (auth_data_root hash null hs :: ('e, 'h) outcome) = Ok r"
  unfolding auth_leaves_root using auth_leaves_length [of null hs] by (intro merkle_root_nonempty) auto

text \<open>
  C33. The tree of authorizing data never panics: its leaves are padded with null digests to a
  power of two, so that its assertion holds, no level is odd, and there is at least one leaf even
  for an empty list; its root is the one of the transaction tree over the padded leaves, and the
  padding at most doubles a non-empty list.
\<close>

theorem auth_data_root_total:
  "\<exists>leaves k. auth_data_root hash null hs = merkle_root hash leaves \<and> leaves \<noteq> [] \<and>
     (\<exists>r. (auth_data_root hash null hs :: ('e, 'h) outcome) = Ok r) \<and>
     take (length hs) leaves = hs \<and> set (drop (length hs) leaves) \<subseteq> {null} \<and>
     length leaves = 2 ^ k \<and> length hs \<le> length leaves"
proof -
  obtain k where k: "length (auth_leaves null hs) = 2 ^ k" using auth_leaves_length [of null hs] by blast
  with auth_data_root_Ok [of hash null hs, where 'e = 'e] show ?thesis
    by (intro exI [of _ "auth_leaves null hs"] exI [of _ k]) (auto simp: auth_leaves_root auth_leaves_def)
qed

end
