(* ===== verification/Transaction.thy ===== *)
theory Transaction
  imports Value_Balance Network Transparent
begin

text \<open>
  Transactions, their accessors and the outputs they create, from
  \<^verbatim>\<open>zebra-chain/src/transaction.rs\<close>, \<^verbatim>\<open>transaction/lock_time.rs\<close>, \<^verbatim>\<open>transparent.rs\<close> and
  \<^verbatim>\<open>transparent/utxo.rs\<close>.

  A \<^verbatim>\<open>Transaction\<close> wraps the parsed transaction of a library.  The record \<open>transaction\<close> holds what the
  library's accessors return for it: the transparent inputs and outputs (after the conversion to
  the node's types, which parses the script of a coinbase input), the shielded bundles, the transaction id
  and the authorizing digest, and the library's own answer to the question whether the transparent
  bundle is a coinbase.  \<open>tx_wf\<close> states what the library documents of these values.
\<close>

section \<open>Loops with early return\<close>

text \<open>\<^verbatim>\<open>for x in xs { f(x)?; }\<close> and the collection of the results of a fallible map.\<close>

fun for_each :: "('a \<Rightarrow> ('e, unit) outcome) \<Rightarrow> 'a list \<Rightarrow> ('e, unit) outcome" where
  "for_each f [] = Ok ()"
| "for_each f (x # xs) = qbind (f x) (\<lambda>_. for_each f xs)"

fun collect_ok :: "('a \<Rightarrow> ('e, 'b) outcome) \<Rightarrow> 'a list \<Rightarrow> ('e, 'b list) outcome" where
  "collect_ok f [] = Ok []"
| "collect_ok f (x # xs) = qbind (f x) (\<lambda>y. map_ok (\<lambda>ys. y # ys) (collect_ok f xs))"

lemma for_each_Ok: "for_each f xs = Ok u \<longleftrightarrow> (\<forall>x \<in> set xs. f x = Ok ())"
  by (induction xs) auto

lemma for_each_not_Panic: "(\<And>x. x \<in> set xs \<Longrightarrow> f x \<noteq> Panic) \<Longrightarrow> for_each f xs \<noteq> Panic"
proof (induction xs)
  case (Cons x xs)
  then show ?case by (cases "f x") auto
qed simp

lemma collect_ok_Ok: "collect_ok f xs = Ok ys \<longleftrightarrow> list_all2 (\<lambda>x y. f x = Ok y) xs ys"
proof (induction xs arbitrary: ys)
  case (Cons x xs)
  then show ?case by (cases ys) (auto simp: map_ok_eq_Ok)
qed auto

section \<open>Transparent inputs and outputs\<close>

datatype outpoint = OutPoint (outpoint_hash: bytes) (outpoint_index: nat)

definition outpoint_from_usize :: "bytes \<Rightarrow> nat \<Rightarrow> ('e, outpoint) outcome" where
  "outpoint_from_usize hash index = map_ok (OutPoint hash) (expect (checked_u32 index))"

datatype tx_input = PrevOut outpoint bytes nat | Coinbase height bytes nat

fun input_sequence :: "tx_input \<Rightarrow> nat" where
  "input_sequence (PrevOut op scr sq) = sq"
| "input_sequence (Coinbase h data sq) = sq"

fun input_outpoint :: "tx_input \<Rightarrow> outpoint option" where
  "input_outpoint (PrevOut op scr sq) = Some op"
| "input_outpoint (Coinbase h data sq) = None"

fun miner_data :: "tx_input \<Rightarrow> bytes option" where
  "miner_data (Coinbase h data sq) = Some data"
| "miner_data (PrevOut op scr sq) = None"

text \<open>A missing output is a panic.\<close>

fun value_from_outputs :: "profile \<Rightarrow> (outpoint \<rightharpoonup> tx_output) \<Rightarrow> tx_input \<Rightarrow> ('e, amount) outcome" where
  "value_from_outputs p outs (PrevOut op scr sq) = map_ok output_value (expect (outs op))"
| "value_from_outputs p outs (Coinbase h data sq) = amount_zero p NonNegative"

section \<open>Lock times\<close>

text \<open>Times are Unix timestamps in seconds.\<close>

datatype lock_time = Lock_Height height | Lock_Time int

definition MIN_TIMESTAMP :: int where "MIN_TIMESTAMP = 500000000"

definition lock_time_unlocked :: lock_time where
  "lock_time_unlocked = Lock_Height 0"

fun lock_time_is_time :: "lock_time \<Rightarrow> bool" where
  "lock_time_is_time (Lock_Time t) = True"
| "lock_time_is_time (Lock_Height h) = False"

fun lock_time_serialize :: "lock_time \<Rightarrow> ('e, bytes) outcome" where
  "lock_time_serialize (Lock_Height h) = Ok (le_bytes 4 h)"
| "lock_time_serialize (Lock_Time t) = map_ok (le_bytes 4) (expect (u32_try_from t))"

text \<open>The error is the end of the input.\<close>

definition lock_time_deserialize :: "bytes \<Rightarrow> (unit, lock_time \<times> bytes) outcome" where
  "lock_time_deserialize bs =
     (if length bs < 4 then Err ()
      else
        (let n = le_val (take 4 bs) in
         Ok (if int n < MIN_TIMESTAMP then Lock_Height n else Lock_Time (int n), drop 4 bs)))"

definition u32_to_lock_time :: "nat \<Rightarrow> ('e, lock_time) outcome" where
  "u32_to_lock_time n = map_ok fst (expect_ok (lock_time_deserialize (le_bytes 4 n)))"

definition lock_time_to_u32 :: "lock_time \<Rightarrow> ('e, nat) outcome" where
  "lock_time_to_u32 lt =
     qbind (expect_ok (lock_time_serialize lt :: (unit, bytes) outcome))
       (\<lambda>buf. if length buf = 4 then Ok (le_val buf) else Panic)"

section \<open>The transaction record\<close>

datatype tx_version = Sprout_v nat | V3 | V4 | V5 | V6

record joinsplit =
  vpub_old :: int
  vpub_new :: int
  js_nullifiers :: "bytes list"
  js_commitments :: "bytes list"
  js_anchor :: bytes

record sapling_spend =
  spend_nullifier :: bytes
  spend_anchor :: bytes

record sapling_data =
  shielded_spends :: "sapling_spend list"
  shielded_outputs :: "bytes list"
  sapling_balance :: int

record action =
  action_nullifier :: bytes
  action_cmx :: bytes

text \<open>Orchard and Ironwood bundles have the same library type.\<close>

record action_bundle =
  actions :: "action list"
  spends_enabled :: bool
  outputs_enabled :: bool
  cross_address_enabled :: bool
  is_orchard_v3 :: bool
  bundle_balance :: int
  proof_length :: nat
  bundle_anchor :: bytes

record transaction =
  tx_version :: tx_version
  zp_branch_id :: branch_id
  zp_lock_time :: nat
  zp_expiry_height :: nat
  inputs :: "tx_input list"
  outputs :: "tx_output list"
  bundle_is_coinbase :: bool
  sprout_bundle :: "joinsplit list option"
  sapling_bundle :: "sapling_data option"
  orchard_bundle :: "action_bundle option"
  ironwood_bundle :: "action_bundle option"
  txid :: bytes
  auth_commitment :: bytes

definition version :: "transaction \<Rightarrow> nat" where
  "version tx = (case tx_version tx of Sprout_v v \<Rightarrow> v | V3 \<Rightarrow> 3 | V4 \<Rightarrow> 4 | V5 \<Rightarrow> 5 | V6 \<Rightarrow> 6)"

definition is_overwintered :: "transaction \<Rightarrow> bool" where
  "is_overwintered tx = (case tx_version tx of Sprout_v _ \<Rightarrow> False | _ \<Rightarrow> True)"

text \<open>The library maps a branch id to an upgrade; the map is an argument.\<close>

definition tx_network_upgrade ::
  "(branch_id \<Rightarrow> network_upgrade option) \<Rightarrow> transaction \<Rightarrow> network_upgrade option" where
  "tx_network_upgrade upgrade_of tx =
     (case tx_version tx of
        Sprout_v _ \<Rightarrow> None | V3 \<Rightarrow> None | V4 \<Rightarrow> None
      | _ \<Rightarrow> upgrade_of (zp_branch_id tx))"

definition embedded_consensus_branch_id :: "transaction \<Rightarrow> branch_id option" where
  "embedded_consensus_branch_id tx = (if version tx \<ge> 5 then Some (zp_branch_id tx) else None)"

definition tx_lock_time :: "transaction \<Rightarrow> ('e, lock_time option) outcome" where
  "tx_lock_time tx =
     qbind (u32_to_lock_time (zp_lock_time tx)) (\<lambda>lt.
       if lt = lock_time_unlocked then Ok None
       else
         (let has_sequence_number_enabling_lock_time =
            list_ex (\<lambda>sq. sq \<noteq> u32_max) (map input_sequence (inputs tx)) in
          if has_sequence_number_enabling_lock_time then Ok (Some lt) else Ok None))"

definition tx_lock_time_is_time :: "transaction \<Rightarrow> ('e, bool) outcome" where
  "tx_lock_time_is_time tx =
     map_ok (\<lambda>lt. case lt of Some (Lock_Time _) \<Rightarrow> True | _ \<Rightarrow> False) (tx_lock_time tx)"

definition expiry_height :: "transaction \<Rightarrow> height option" where
  "expiry_height tx =
     (case tx_version tx of
        Sprout_v _ \<Rightarrow> None
      | _ \<Rightarrow> (if zp_expiry_height tx = 0 then None else Some (zp_expiry_height tx)))"

definition has_transparent_inputs :: "transaction \<Rightarrow> bool" where
  "has_transparent_inputs tx \<longleftrightarrow> inputs tx \<noteq> []"

definition has_transparent_outputs :: "transaction \<Rightarrow> bool" where
  "has_transparent_outputs tx \<longleftrightarrow> outputs tx \<noteq> []"

definition has_transparent_inputs_or_outputs :: "transaction \<Rightarrow> bool" where
  "has_transparent_inputs_or_outputs tx \<longleftrightarrow> has_transparent_inputs tx \<or> has_transparent_outputs tx"

definition is_coinbase :: "transaction \<Rightarrow> bool" where
  "is_coinbase tx = bundle_is_coinbase tx"

text \<open>An input has the null prevout exactly when it is converted to \<^verbatim>\<open>Input::Coinbase\<close>.\<close>

definition is_valid_non_coinbase :: "transaction \<Rightarrow> bool" where
  "is_valid_non_coinbase tx = list_all (\<lambda>i. input_outpoint i \<noteq> None) (inputs tx)"

definition spent_outpoints :: "transaction \<Rightarrow> outpoint list" where
  "spent_outpoints tx = List.map_filter input_outpoint (inputs tx)"

definition auth_digest :: "transaction \<Rightarrow> bytes option" where
  "auth_digest tx =
     (case tx_version tx of
        Sprout_v _ \<Rightarrow> None | V3 \<Rightarrow> None | V4 \<Rightarrow> None
      | _ \<Rightarrow> Some (auth_commitment tx))"

datatype unmined_tx_id = Legacy bytes | Witnessed bytes bytes

definition unmined_id :: "transaction \<Rightarrow> unmined_tx_id" where
  "unmined_id tx =
     (case auth_digest tx of Some d \<Rightarrow> Witnessed (txid tx) d | None \<Rightarrow> Legacy (txid tx))"

section \<open>Shielded data\<close>

definition joinsplits :: "transaction \<Rightarrow> joinsplit list" where
  "joinsplits tx = (case sprout_bundle tx of None \<Rightarrow> [] | Some js \<Rightarrow> js)"

definition joinsplit_count :: "transaction \<Rightarrow> nat" where
  "joinsplit_count tx = (case sprout_bundle tx of None \<Rightarrow> 0 | Some js \<Rightarrow> length js)"

definition has_sprout_joinsplit_data :: "transaction \<Rightarrow> bool" where
  "has_sprout_joinsplit_data tx \<longleftrightarrow> sprout_bundle tx \<noteq> None"

definition sprout_nullifiers :: "transaction \<Rightarrow> bytes list" where
  "sprout_nullifiers tx = concat (map js_nullifiers (joinsplits tx))"

definition output_values_to_sprout :: "transaction \<Rightarrow> int list" where
  "output_values_to_sprout tx = map vpub_old (joinsplits tx)"

definition input_values_from_sprout :: "transaction \<Rightarrow> int list" where
  "input_values_from_sprout tx = map vpub_new (joinsplits tx)"

definition has_sapling_shielded_data :: "transaction \<Rightarrow> bool" where
  "has_sapling_shielded_data tx \<longleftrightarrow> sapling_bundle tx \<noteq> None"

definition sapling_spends :: "transaction \<Rightarrow> sapling_spend list" where
  "sapling_spends tx = (case sapling_bundle tx of None \<Rightarrow> [] | Some b \<Rightarrow> shielded_spends b)"

definition sapling_nullifiers :: "transaction \<Rightarrow> bytes list" where
  "sapling_nullifiers tx = map spend_nullifier (sapling_spends tx)"

definition sapling_spends_count :: "transaction \<Rightarrow> nat" where
  "sapling_spends_count tx = (case sapling_bundle tx of None \<Rightarrow> 0 | Some b \<Rightarrow> length (shielded_spends b))"

fun dedup_anchors :: "bytes list \<Rightarrow> sapling_spend list \<Rightarrow> bytes list" where
  "dedup_anchors seen [] = seen"
| "dedup_anchors seen (s # ss) =
     dedup_anchors (if spend_anchor s \<in> set seen then seen else seen @ [spend_anchor s]) ss"

definition sapling_anchors :: "transaction \<Rightarrow> bytes list" where
  "sapling_anchors tx = dedup_anchors [] (sapling_spends tx)"

text \<open>The value balances convert a library integer to an amount; out of range is a panic.\<close>

definition balance_amount :: "profile \<Rightarrow> int option \<Rightarrow> ('e, amount) outcome" where
  "balance_amount p balance =
     expect_ok (amount_try_from_i64 p NegativeAllowed (case balance of None \<Rightarrow> 0 | Some b \<Rightarrow> b))"

definition sapling_value_balance :: "profile \<Rightarrow> transaction \<Rightarrow> ('e, value_balance) outcome" where
  "sapling_value_balance p tx =
     qbind (balance_amount p (map_option sapling_balance (sapling_bundle tx)))
       (from_sapling_amount p NegativeAllowed)"

definition has_orchard_shielded_data :: "transaction \<Rightarrow> bool" where
  "has_orchard_shielded_data tx \<longleftrightarrow> orchard_bundle tx \<noteq> None"

definition bundle_actions :: "action_bundle option \<Rightarrow> action list" where
  "bundle_actions b = (case b of None \<Rightarrow> [] | Some b \<Rightarrow> actions b)"

definition orchard_nullifiers :: "transaction \<Rightarrow> bytes list" where
  "orchard_nullifiers tx = map action_nullifier (bundle_actions (orchard_bundle tx))"

definition orchard_value_balance :: "profile \<Rightarrow> transaction \<Rightarrow> ('e, value_balance) outcome" where
  "orchard_value_balance p tx =
     qbind (balance_amount p (map_option bundle_balance (orchard_bundle tx)))
       (from_orchard_amount p NegativeAllowed)"

definition has_ironwood_shielded_data :: "transaction \<Rightarrow> bool" where
  "has_ironwood_shielded_data tx \<longleftrightarrow> ironwood_bundle tx \<noteq> None"

definition orchard_anchor :: "transaction \<Rightarrow> bytes option" where
  "orchard_anchor tx = map_option bundle_anchor (orchard_bundle tx)"

definition ironwood_anchor :: "transaction \<Rightarrow> bytes option" where
  "ironwood_anchor tx = map_option bundle_anchor (ironwood_bundle tx)"

definition ironwood_actions :: "transaction \<Rightarrow> action list" where
  "ironwood_actions tx = bundle_actions (ironwood_bundle tx)"

definition ironwood_nullifiers :: "transaction \<Rightarrow> bytes list" where
  "ironwood_nullifiers tx = map action_nullifier (ironwood_actions tx)"

definition has_enough_ironwood_flags :: "transaction \<Rightarrow> bool" where
  "has_enough_ironwood_flags tx \<longleftrightarrow>
     (if \<not> has_ironwood_shielded_data tx then True
      else (case ironwood_bundle tx of None \<Rightarrow> False | Some b \<Rightarrow> spends_enabled b \<or> outputs_enabled b))"

definition ironwood_value_balance :: "profile \<Rightarrow> transaction \<Rightarrow> ('e, value_balance) outcome" where
  "ironwood_value_balance p tx =
     qbind (balance_amount p (map_option bundle_balance (ironwood_bundle tx)))
       (from_ironwood_amount p NegativeAllowed)"

text \<open>The proof size of a number of actions is computed by the library.\<close>

definition proof_size_is_canonical :: "(nat \<Rightarrow> nat) \<Rightarrow> action_bundle option \<Rightarrow> bool" where
  "proof_size_is_canonical expected_proof_size b =
     (case b of None \<Rightarrow> True | Some b \<Rightarrow> proof_length b = expected_proof_size (length (actions b)))"

definition has_shielded_inputs :: "transaction \<Rightarrow> bool" where
  "has_shielded_inputs tx \<longleftrightarrow>
     has_sprout_joinsplit_data tx
     \<or> (case sapling_bundle tx of None \<Rightarrow> False | Some b \<Rightarrow> shielded_spends b \<noteq> [])
     \<or> (case orchard_bundle tx of None \<Rightarrow> False | Some b \<Rightarrow> spends_enabled b \<and> actions b \<noteq> [])
     \<or> (case ironwood_bundle tx of None \<Rightarrow> False | Some b \<Rightarrow> spends_enabled b \<and> actions b \<noteq> [])"

definition has_shielded_outputs :: "transaction \<Rightarrow> bool" where
  "has_shielded_outputs tx \<longleftrightarrow>
     has_sprout_joinsplit_data tx
     \<or> (case sapling_bundle tx of None \<Rightarrow> False | Some b \<Rightarrow> shielded_outputs b \<noteq> [])
     \<or> (case orchard_bundle tx of None \<Rightarrow> False | Some b \<Rightarrow> outputs_enabled b \<and> actions b \<noteq> [])
     \<or> (case ironwood_bundle tx of None \<Rightarrow> False | Some b \<Rightarrow> outputs_enabled b \<and> actions b \<noteq> [])"

definition has_transparent_or_shielded_inputs :: "transaction \<Rightarrow> bool" where
  "has_transparent_or_shielded_inputs tx \<longleftrightarrow> has_transparent_inputs tx \<or> has_shielded_inputs tx"

definition has_transparent_or_shielded_outputs :: "transaction \<Rightarrow> bool" where
  "has_transparent_or_shielded_outputs tx \<longleftrightarrow> has_transparent_outputs tx \<or> has_shielded_outputs tx"

definition has_enough_orchard_flags :: "transaction \<Rightarrow> bool" where
  "has_enough_orchard_flags tx =
     (case orchard_bundle tx of Some b \<Rightarrow> spends_enabled b \<or> outputs_enabled b | None \<Rightarrow> True)"

section \<open>Transaction value\<close>

definition transparent_value_balance_from_outputs ::
  "profile \<Rightarrow> (outpoint \<rightharpoonup> tx_output) \<Rightarrow> transaction \<Rightarrow> (value_balance_error, value_balance) outcome" where
  "transparent_value_balance_from_outputs p outs tx =
     qbind (collect_ok (value_from_outputs p outs) (inputs tx)) (\<lambda>input_values.
     qbind (map_err Transparent (amount_sum p NonNegative input_values)) (\<lambda>input_value.
     qbind (expect_ok (constrain p NegativeAllowed input_value)) (\<lambda>input_value.
     qbind (map_err Transparent (amount_sum p NonNegative (map output_value (outputs tx)))) (\<lambda>out_value.
     qbind (expect_ok (constrain p NegativeAllowed out_value)) (\<lambda>out_value.
     qbind (map_err Transparent (amount_sub p NegativeAllowed input_value out_value))
       (from_transparent_amount p NegativeAllowed))))))"

definition add_joinsplit :: "profile \<Rightarrow> amount \<Rightarrow> joinsplit \<Rightarrow> (amount_error, amount) outcome" where
  "add_joinsplit p tot js =
     qbind (expect (checked_i64 (vpub_new js - vpub_old js))) (\<lambda>d.
     qbind (amount_try_from_i64 p NegativeAllowed d) (\<lambda>net. amount_add p NegativeAllowed tot net))"

definition sprout_value_balance :: "profile \<Rightarrow> transaction \<Rightarrow> (value_balance_error, value_balance) outcome" where
  "sprout_value_balance p tx =
     qbind (amount_zero p NegativeAllowed) (\<lambda>z.
     qbind (map_err Sprout (try_fold (add_joinsplit p) z (joinsplits tx)))
       (from_sprout_amount p NegativeAllowed))"

record utxo =
  utxo_output :: tx_output
  utxo_height :: height
  from_coinbase :: bool

text \<open>The outputs that the transaction spends, as the map \<^verbatim>\<open>value_balance\<close> collects.\<close>

definition spent_outputs :: "(outpoint \<rightharpoonup> utxo) \<Rightarrow> transaction \<Rightarrow> outpoint \<rightharpoonup> tx_output" where
  "spent_outputs utxos tx =
     map_of (List.map_filter (\<lambda>op. map_option (\<lambda>u. (op, utxo_output u)) (utxos op)) (spent_outpoints tx))"

definition tx_value_balance ::
  "profile \<Rightarrow> (outpoint \<rightharpoonup> utxo) \<Rightarrow> transaction \<Rightarrow> (value_balance_error, value_balance) outcome" where
  "tx_value_balance p utxos tx =
     (let outs = spent_outputs utxos tx in
      qbind (transparent_value_balance_from_outputs p outs tx) (\<lambda>tr.
      qbind (sprout_value_balance p tx) (\<lambda>sp.
      qbind (sapling_value_balance p tx) (\<lambda>sa.
      qbind (orchard_value_balance p tx) (\<lambda>oc.
      qbind (ironwood_value_balance p tx) (\<lambda>iw.
        vb_result_add p NegativeAllowed
          (vb_result_add p NegativeAllowed
            (vb_result_add p NegativeAllowed
              (vb_add p NegativeAllowed tr sp) sa) oc) iw))))))"

datatype coinbase_spend_restriction = DisallowCoinbaseSpend | CheckCoinbaseMaturity height

definition net_allows_unshielded_coinbase_spends :: "network \<Rightarrow> bool" where
  "net_allows_unshielded_coinbase_spends net =
     (case net of Mainnet \<Rightarrow> False | Testnet params \<Rightarrow> should_allow_unshielded_coinbase_spends params)"

definition coinbase_spend_restriction_of :: "transaction \<Rightarrow> network \<Rightarrow> height \<Rightarrow> coinbase_spend_restriction" where
  "coinbase_spend_restriction_of tx net spend_height =
     (if outputs tx = [] \<or> net_allows_unshielded_coinbase_spends net
      then CheckCoinbaseMaturity spend_height else DisallowCoinbaseSpend)"

section \<open>Unspent outputs\<close>

record ordered_utxo =
  ordered_inner :: utxo
  tx_index_in_block :: nat

definition ordered_utxo_new :: "tx_output \<Rightarrow> height \<Rightarrow> nat \<Rightarrow> ordered_utxo" where
  "ordered_utxo_new out h i =
     \<lparr>ordered_inner = \<lparr>utxo_output = out, utxo_height = h, from_coinbase = (i = 0)\<rparr>, tx_index_in_block = i\<rparr>"

definition utxos_from_ordered_utxos :: "(outpoint \<rightharpoonup> ordered_utxo) \<Rightarrow> outpoint \<rightharpoonup> utxo" where
  "utxos_from_ordered_utxos m = map_option ordered_inner \<circ> m"

text \<open>The loop over the enumerated outputs, from output number \<open>k\<close>.\<close>

fun insert_outputs ::
  "nat \<Rightarrow> bytes \<Rightarrow> nat \<Rightarrow> height \<Rightarrow> tx_output list \<Rightarrow> (outpoint \<rightharpoonup> ordered_utxo) \<Rightarrow> ('e, outpoint \<rightharpoonup> ordered_utxo) outcome" where
  "insert_outputs k hash i h [] m = Ok m"
| "insert_outputs k hash i h (out # outs) m =
     qbind (expect (checked_u32 k))
       (\<lambda>n. insert_outputs (Suc k) hash i h outs (m(OutPoint hash n \<mapsto> ordered_utxo_new out h i)))"

definition new_transaction_ordered_outputs ::
  "transaction \<Rightarrow> bytes \<Rightarrow> nat \<Rightarrow> height \<Rightarrow> ('e, outpoint \<rightharpoonup> ordered_utxo) outcome" where
  "new_transaction_ordered_outputs tx hash i h = insert_outputs 0 hash i h (outputs tx) Map.empty"

fun extend_ordered_outputs ::
  "nat \<Rightarrow> height \<Rightarrow> (transaction \<times> bytes) list \<Rightarrow> (outpoint \<rightharpoonup> ordered_utxo) \<Rightarrow> ('e, outpoint \<rightharpoonup> ordered_utxo) outcome" where
  "extend_ordered_outputs i h [] m = Ok m"
| "extend_ordered_outputs i h ((tx, hash) # txs) m =
     qbind (new_transaction_ordered_outputs tx hash i h) (\<lambda>new. extend_ordered_outputs (Suc i) h txs (m ++ new))"

definition new_ordered_outputs_with_height ::
  "transaction list \<Rightarrow> height \<Rightarrow> bytes list \<Rightarrow> ('e, outpoint \<rightharpoonup> ordered_utxo) outcome" where
  "new_ordered_outputs_with_height txs h hashes = extend_ordered_outputs 0 h (zip txs hashes) Map.empty"

text \<open>\<^verbatim>\<open>Block::coinbase_height\<close>, which reads the first input of the first transaction.\<close>

definition block_coinbase_height :: "transaction list \<Rightarrow> height option" where
  "block_coinbase_height txs =
     (case txs of
        [] \<Rightarrow> None
      | tx # _ \<Rightarrow> (case inputs tx of Coinbase h _ _ # _ \<Rightarrow> Some h | _ \<Rightarrow> None))"

definition new_ordered_outputs ::
  "transaction list \<Rightarrow> bytes list \<Rightarrow> ('e, outpoint \<rightharpoonup> ordered_utxo) outcome" where
  "new_ordered_outputs txs hashes =
     qbind (expect (block_coinbase_height txs)) (\<lambda>h. new_ordered_outputs_with_height txs h hashes)"

section \<open>What the library documents\<close>

text \<open>
  A transparent bundle is a coinbase exactly when it has one input and that input has the null
  prevout; the library keeps values within the money range of a single transaction.
\<close>

definition balance_ok :: "int \<Rightarrow> bool" where
  "balance_ok b \<longleftrightarrow> \<bar>b\<bar> \<le> MAX_SINGLE_TRANSACTION_VALUE"

definition tx_wf :: "transaction \<Rightarrow> bool" where
  "tx_wf tx \<longleftrightarrow>
     (bundle_is_coinbase tx \<longleftrightarrow> length (inputs tx) = 1 \<and> list_all (\<lambda>i. input_outpoint i = None) (inputs tx))
     \<and> zp_lock_time tx \<le> u32_max
     \<and> list_all (\<lambda>out. 0 \<le> zatoshis (output_value out) \<and> balance_ok (zatoshis (output_value out))) (outputs tx)
     \<and> list_all (\<lambda>js. 0 \<le> vpub_old js \<and> balance_ok (vpub_old js) \<and> 0 \<le> vpub_new js \<and> balance_ok (vpub_new js)) (joinsplits tx)
     \<and> (\<forall>b. sapling_bundle tx = Some b \<longrightarrow> balance_ok (sapling_balance b))
     \<and> (\<forall>b. orchard_bundle tx = Some b \<longrightarrow> balance_ok (bundle_balance b))
     \<and> (\<forall>b. ironwood_bundle tx = Some b \<longrightarrow> balance_ok (bundle_balance b))"

section \<open>Facts about values\<close>

definition spend_value :: "(outpoint \<rightharpoonup> utxo) \<Rightarrow> outpoint \<Rightarrow> int" where
  "spend_value utxos op = zatoshis (output_value (utxo_output (the (utxos op))))"

definition input_total :: "(outpoint \<rightharpoonup> utxo) \<Rightarrow> transaction \<Rightarrow> int" where
  "input_total utxos tx = sum_list (map (spend_value utxos) (spent_outpoints tx))"

definition output_total :: "transaction \<Rightarrow> int" where
  "output_total tx = sum_list (map (\<lambda>out. zatoshis (output_value out)) (outputs tx))"

definition sprout_total :: "joinsplit list \<Rightarrow> int" where
  "sprout_total js = sum_list (map (\<lambda>j. vpub_new j - vpub_old j) js)"

definition shielded_balance :: "transaction \<Rightarrow> (int \<times> int \<times> int)" where
  "shielded_balance tx =
     (case sapling_bundle tx of None \<Rightarrow> 0 | Some b \<Rightarrow> sapling_balance b,
      case orchard_bundle tx of None \<Rightarrow> 0 | Some b \<Rightarrow> bundle_balance b,
      case ironwood_bundle tx of None \<Rightarrow> 0 | Some b \<Rightarrow> bundle_balance b)"

definition utxos_cover :: "profile \<Rightarrow> (outpoint \<rightharpoonup> utxo) \<Rightarrow> transaction \<Rightarrow> bool" where
  "utxos_cover p utxos tx \<longleftrightarrow>
     list_all (\<lambda>op. case utxos op of None \<Rightarrow> False | Some u \<Rightarrow> amount_ok p NonNegative (output_value (utxo_output u)))
       (spent_outpoints tx)"

lemma single_transaction_le: "MAX_SINGLE_TRANSACTION_VALUE \<le> MAX_MONEY p"
  by (cases p) (simp_all add: money_defs MAX_SINGLE_TRANSACTION_VALUE_def)

lemma balance_ok_amount: "balance_ok b \<Longrightarrow> amount_ok p NegativeAllowed (Amount b)"
  using single_transaction_le [of p] by (auto simp: balance_ok_def)

lemma amount_sum_nonneg_eq:
  assumes "list_all (amount_ok p NonNegative) xs"
  shows "amount_sum p NonNegative xs = Ok s \<longleftrightarrow>
      sum_list (map zatoshis xs) \<le> MAX_MONEY p \<and> s = Amount (sum_list (map zatoshis xs))"
    and "amount_sum p NonNegative xs \<noteq> Panic"
proof -
  note nn = nonneg_sum_nonneg [OF assms]
  have big: "\<not> sum_list (map zatoshis xs) \<le> MAX_MONEY p"
    if "xs = ys @ y # rest" "\<not> amount_ok p NonNegative (Amount (sum_list (map zatoshis (ys @ [y]))))" for ys y rest
    using that assms nonneg_prefix_sum_le [of p "ys @ [y]" rest] nonneg_sum_nonneg [of p "ys @ [y]"] by auto
  from amount_sum_cases [OF assms]
  show "amount_sum p NonNegative xs = Ok s \<longleftrightarrow>
      sum_list (map zatoshis xs) \<le> MAX_MONEY p \<and> s = Amount (sum_list (map zatoshis xs))"
    using big by (auto simp: amount.expand)
  from amount_sum_cases [OF assms] show "amount_sum p NonNegative xs \<noteq> Panic" by auto
qed

lemma spent_outpoints_Cons:
  "spent_outpoints tx = List.map_filter input_outpoint (inputs tx)"
  "List.map_filter input_outpoint (i # is) =
    (case input_outpoint i of None \<Rightarrow> List.map_filter input_outpoint is
     | Some op \<Rightarrow> op # List.map_filter input_outpoint is)"
  by (simp_all add: spent_outpoints_def List.map_filter_def split: option.splits)

lemma spent_outputs_eq:
  "spent_outputs utxos tx op = (if op \<in> set (spent_outpoints tx) then map_option utxo_output (utxos op) else None)"
proof -
  have "map_of (List.map_filter (\<lambda>op. map_option (\<lambda>u. (op, f u)) (utxos op)) ops) op =
    (if op \<in> set ops then map_option f (utxos op) else None)" for f :: "utxo \<Rightarrow> tx_output" and ops
    by (induction ops) (auto simp: List.map_filter_def split: option.splits)
  then show ?thesis by (simp add: spent_outputs_def)
qed

lemma input_values_eq:
  assumes "\<forall>op \<in> set (List.map_filter input_outpoint ins). outs op = Some (utxo_output (the (utxos op)))"
  shows "\<exists>vs. (collect_ok (value_from_outputs p outs) ins :: ('e, amount list) outcome) = Ok vs
    \<and> set vs \<subseteq> insert (Amount 0) (set (map (\<lambda>op. output_value (utxo_output (the (utxos op)))) (List.map_filter input_outpoint ins)))
    \<and> sum_list (map zatoshis vs) = sum_list (map (spend_value utxos) (List.map_filter input_outpoint ins))"
  using assms
proof (induction ins)
  case Nil
  then show ?case by (simp add: List.map_filter_def)
next
  case (Cons i "is")
  then obtain vs where vs: "(collect_ok (value_from_outputs p outs) is :: ('e, amount list) outcome) = Ok vs"
    "set vs \<subseteq> insert (Amount 0) (set (map (\<lambda>op. output_value (utxo_output (the (utxos op)))) (List.map_filter input_outpoint is)))"
    "sum_list (map zatoshis vs) = sum_list (map (spend_value utxos) (List.map_filter input_outpoint is))"
    by (auto simp: spent_outpoints_Cons(2) split: option.splits)
  show ?case
  proof (cases i)
    case (PrevOut op scr sq)
    with vs Cons.prems show ?thesis
      by (intro exI [of _ "output_value (utxo_output (the (utxos op))) # vs"])
        (auto simp: spent_outpoints_Cons(2) spend_value_def [abs_def])
  next
    case (Coinbase h data sq)
    with vs Cons.prems show ?thesis
      by (intro exI [of _ "Amount 0 # vs"]) (auto simp: spent_outpoints_Cons(2))
  qed
qed

lemma sprout_fold:
  assumes "list_all (\<lambda>js. 0 \<le> vpub_old js \<and> balance_ok (vpub_old js) \<and> 0 \<le> vpub_new js \<and> balance_ok (vpub_new js)) js"
    and "amount_ok p NegativeAllowed a"
  shows "try_fold (add_joinsplit p) a js \<noteq> Panic
    \<and> (try_fold (add_joinsplit p) a js = Ok b \<longrightarrow>
        amount_ok p NegativeAllowed b \<and> zatoshis b = zatoshis a + sprout_total js)"
  using assms
proof (induction js arbitrary: a)
  case (Cons j js)
  have ok: "amount_ok p NegativeAllowed (Amount (vpub_new j - vpub_old j))"
    using Cons.prems(1) balance_ok_amount [of "vpub_new j - vpub_old j" p] by (auto simp: balance_ok_def)
  then have step: "add_joinsplit p a j = amount_try_from_i64 p NegativeAllowed (zatoshis a + (vpub_new j - vpub_old j))"
    using Cons.prems(2) in_i64_if_ok [OF ok] amount_add_eq [OF Cons.prems(2) ok]
    by (simp add: add_joinsplit_def checked_i64_def try_from_i64_eq)
  show ?case
  proof (cases "amount_ok p NegativeAllowed (Amount (zatoshis a + (vpub_new j - vpub_old j)))")
    case True
    with Cons.IH [of "Amount (zatoshis a + (vpub_new j - vpub_old j))"] Cons.prems step show ?thesis
      by (auto simp: try_from_i64_eq sprout_total_def)
  next
    case False
    with step show ?thesis by (auto simp: try_from_i64_eq)
  qed
qed (auto simp: sprout_total_def)

lemma sprout_fold_none: "sprout_bundle tx = None \<Longrightarrow> joinsplits tx = []"
  by (simp add: joinsplits_def)

lemma pool_amounts:
  assumes "tx_wf tx"
  shows "balance_amount p (map_option sapling_balance (sapling_bundle tx)) = Ok (Amount (fst (shielded_balance tx)))"
    and "balance_amount p (map_option bundle_balance (orchard_bundle tx)) = Ok (Amount (fst (snd (shielded_balance tx))))"
    and "balance_amount p (map_option bundle_balance (ironwood_bundle tx)) = Ok (Amount (snd (snd (shielded_balance tx))))"
    and "amount_ok p NegativeAllowed (Amount (fst (shielded_balance tx)))"
    and "amount_ok p NegativeAllowed (Amount (fst (snd (shielded_balance tx))))"
    and "amount_ok p NegativeAllowed (Amount (snd (snd (shielded_balance tx))))"
proof -
  show ok: "amount_ok p NegativeAllowed (Amount (fst (shielded_balance tx)))"
    "amount_ok p NegativeAllowed (Amount (fst (snd (shielded_balance tx))))"
    "amount_ok p NegativeAllowed (Amount (snd (snd (shielded_balance tx))))"
    using assms amount_ok_zero [of p NegativeAllowed]
    by (auto simp: tx_wf_def shielded_balance_def simp del: amount_ok_simps intro!: balance_ok_amount split: option.splits)
  show "balance_amount p (map_option sapling_balance (sapling_bundle tx)) = Ok (Amount (fst (shielded_balance tx)))"
    "balance_amount p (map_option bundle_balance (orchard_bundle tx)) = Ok (Amount (fst (snd (shielded_balance tx))))"
    "balance_amount p (map_option bundle_balance (ironwood_bundle tx)) = Ok (Amount (snd (snd (shielded_balance tx))))"
    using ok
    by (auto simp: balance_amount_def try_from_i64_eq shielded_balance_def simp del: amount_ok_simps split: option.splits)
qed

lemma transparent_balance_eq:
  assumes wf: "tx_wf tx" and cov: "utxos_cover p utxos tx"
  shows "transparent_value_balance_from_outputs p (spent_outputs utxos tx) tx = Ok v \<longleftrightarrow>
      input_total utxos tx \<le> MAX_MONEY p \<and> output_total tx \<le> MAX_MONEY p
      \<and> from_transparent_amount p NegativeAllowed (Amount (input_total utxos tx - output_total tx)) = (Ok v :: (unit, _) outcome)"
    and "transparent_value_balance_from_outputs p (spent_outputs utxos tx) tx \<noteq> Panic"
    and "0 \<le> input_total utxos tx" "0 \<le> output_total tx"
proof -
  define ops where "ops = List.map_filter input_outpoint (inputs tx)"
  have ops: "spent_outpoints tx = ops" by (simp add: spent_outpoints_def ops_def)
  have "\<forall>op \<in> set ops. spent_outputs utxos tx op = Some (utxo_output (the (utxos op)))"
    using cov by (auto simp: utxos_cover_def ops spent_outputs_eq list_all_iff split: option.splits)
  then obtain vs where vs: "(collect_ok (value_from_outputs p (spent_outputs utxos tx)) (inputs tx) :: (value_balance_error, amount list) outcome) = Ok vs"
    "set vs \<subseteq> insert (Amount 0) (set (map (\<lambda>op. output_value (utxo_output (the (utxos op)))) ops))"
    "sum_list (map zatoshis vs) = input_total utxos tx"
    using input_values_eq [of "inputs tx" "spent_outputs utxos tx" utxos p, where 'e = value_balance_error]
    by (auto simp: ops_def [symmetric] input_total_def ops)
  have ok: "list_all (amount_ok p NonNegative) vs"
    using vs(2) cov amount_ok_zero [of p NonNegative]
    by (force simp: list_all_iff utxos_cover_def ops subset_iff simp del: amount_ok_simps split: option.splits)
  have out: "list_all (amount_ok p NonNegative) (map output_value (outputs tx))"
    using wf single_transaction_le [of p] by (auto simp: tx_wf_def list_all_iff balance_ok_def)
  have os: "sum_list (map (zatoshis \<circ> output_value) (outputs tx)) = output_total tx"
    by (simp add: output_total_def comp_def)
  note sums = amount_sum_nonneg_eq(1) [OF ok] amount_sum_nonneg_eq(1) [OF out]
  show nn: "0 \<le> input_total utxos tx" "0 \<le> output_total tx"
    using nonneg_sum_nonneg [OF ok] nonneg_sum_nonneg [OF out] vs(3) os by simp_all
  have sub: "amount_sub p NegativeAllowed (Amount (input_total utxos tx)) (Amount (output_total tx)) =
      Ok (Amount (input_total utxos tx - output_total tx))"
    if "input_total utxos tx \<le> MAX_MONEY p" "output_total tx \<le> MAX_MONEY p"
    using that nn by (simp add: amount_sub_eq try_from_i64_eq)
  show "transparent_value_balance_from_outputs p (spent_outputs utxos tx) tx = Ok v \<longleftrightarrow>
      input_total utxos tx \<le> MAX_MONEY p \<and> output_total tx \<le> MAX_MONEY p
      \<and> from_transparent_amount p NegativeAllowed (Amount (input_total utxos tx - output_total tx)) = (Ok v :: (unit, _) outcome)"
    using nn vs(3) os MAX_MONEY_pos [of p]
    by (auto simp: transparent_value_balance_from_outputs_def vs(1) sums map_err_eq_Ok expect_ok_eq_Ok sub from_transparent_amount_def vb_zero_def)
  show "transparent_value_balance_from_outputs p (spent_outputs utxos tx) tx \<noteq> Panic"
    using nn vs(3) os MAX_MONEY_pos [of p] amount_sum_nonneg_eq(2) [OF ok] amount_sum_nonneg_eq(2) [OF out]
    by (auto simp: transparent_value_balance_from_outputs_def vs(1) sums map_err_eq_Panic expect_ok_eq_Panic qbind_eq_Panic sub
        from_transparent_amount_def vb_zero_def constrain_eq)
qed

lemma amount_add_zero:
  assumes "amount_ok p NegativeAllowed a"
  shows "amount_add p NegativeAllowed a (Amount 0) = Ok a" "amount_add p NegativeAllowed (Amount 0) a = Ok a"
  using assms by (simp_all add: amount_add_eq try_from_i64_eq)

text \<open>The balance of a transaction: every pool has its own amount, so the pools never interfere.\<close>

definition balance_of :: "int \<Rightarrow> int \<Rightarrow> (int \<times> int \<times> int) \<Rightarrow> value_balance" where
  "balance_of t s = (\<lambda>(sa, oc, iw). \<lparr>transparent = Amount t, sprout = Amount s, sapling = Amount sa,
     orchard = Amount oc, deferred = Amount 0, ironwood = Amount iw\<rparr>)"

lemma add_pools:
  assumes "amount_ok p NegativeAllowed (Amount t)" "amount_ok p NegativeAllowed (Amount s)"
    "amount_ok p NegativeAllowed (Amount sa)" "amount_ok p NegativeAllowed (Amount oc)"
    "amount_ok p NegativeAllowed (Amount iw)"
    and "from_transparent_amount p NegativeAllowed (Amount t) = (Ok tr :: (unit, _) outcome)"
    and "from_sprout_amount p NegativeAllowed (Amount s) = (Ok sp :: (unit, _) outcome)"
    and "from_sapling_amount p NegativeAllowed (Amount sa) = (Ok sav :: (unit, _) outcome)"
    and "from_orchard_amount p NegativeAllowed (Amount oc) = (Ok ocv :: (unit, _) outcome)"
    and "from_ironwood_amount p NegativeAllowed (Amount iw) = (Ok iwv :: (unit, _) outcome)"
  shows "vb_result_add p NegativeAllowed (vb_result_add p NegativeAllowed (vb_result_add p NegativeAllowed
      (vb_add p NegativeAllowed tr sp) sav) ocv) iwv = Ok (balance_of t s (sa, oc, iw))"
  using assms amount_add_zero [OF assms(1)] amount_add_zero [OF assms(2)] amount_add_zero [OF assms(3)]
    amount_add_zero [OF assms(4)] amount_add_zero [OF assms(5)] amount_add_zero [OF amount_ok_zero]
  by (auto simp: from_transparent_amount_def from_sprout_amount_def from_sapling_amount_def
      from_orchard_amount_def from_ironwood_amount_def vb_zero_def vb_result_add_def vb_add_def each_pool_def
      balance_of_def simp del: amount_ok_simps)

lemma sprout_balance_cases:
  assumes "tx_wf tx"
  shows "(\<exists>e. sprout_value_balance p tx = Err e \<and> joinsplits tx \<noteq> []) \<or>
    (amount_ok p NegativeAllowed (Amount (sprout_total (joinsplits tx))) \<and>
     sprout_value_balance p tx = from_sprout_amount p NegativeAllowed (Amount (sprout_total (joinsplits tx))))"
proof (cases "try_fold (add_joinsplit p) (Amount 0) (joinsplits tx)")
  case (Ok b)
  from sprout_fold [OF _ amount_ok_zero, of "joinsplits tx" p b] assms Ok
  have "amount_ok p NegativeAllowed b" "b = Amount (sprout_total (joinsplits tx))"
    by (auto simp: tx_wf_def amount.expand)
  with Ok show ?thesis by (simp add: sprout_value_balance_def)
next
  case (Err e)
  then show ?thesis by (cases "joinsplits tx") (simp_all add: sprout_value_balance_def)
next
  case Panic
  with sprout_fold [OF _ amount_ok_zero, of "joinsplits tx" p] assms show ?thesis by (auto simp: tx_wf_def)
qed

lemma tx_value_balance_cases:
  assumes wf: "tx_wf tx" and cov: "utxos_cover p utxos tx"
  shows "(\<exists>e. tx_value_balance p utxos tx = Err e
      \<and> (joinsplits tx = [] \<longrightarrow> MAX_MONEY p < input_total utxos tx \<or> MAX_MONEY p < output_total tx)) \<or>
    (let v = balance_of (input_total utxos tx - output_total tx) (sprout_total (joinsplits tx)) (shielded_balance tx) in
     tx_value_balance p utxos tx = Ok v \<and> vb_ok p NegativeAllowed v
     \<and> input_total utxos tx \<le> MAX_MONEY p \<and> output_total tx \<le> MAX_MONEY p)"
proof -
  note tr = transparent_balance_eq [OF wf cov]
  note pools = pool_amounts [OF wf, of p]
  obtain tv where tv: "from_transparent_amount p NegativeAllowed (Amount (input_total utxos tx - output_total tx)) = (Ok tv :: (unit, _) outcome)"
    by (simp add: from_transparent_amount_def vb_zero_def)
  show ?thesis
  proof (cases "transparent_value_balance_from_outputs p (spent_outputs utxos tx) tx")
    case (Ok v)
    with tr(1) [of v] tv have io: "v = tv" "input_total utxos tx \<le> MAX_MONEY p" "output_total tx \<le> MAX_MONEY p"
      by auto
    with tr(3,4) have tok: "amount_ok p NegativeAllowed (Amount (input_total utxos tx - output_total tx))" by auto
    from sprout_balance_cases [OF wf, of p] show ?thesis
    proof
      assume "\<exists>e. sprout_value_balance p tx = Err e \<and> joinsplits tx \<noteq> []"
      with Ok show ?thesis by (auto simp: tx_value_balance_def Let_def)
    next
      assume sp: "amount_ok p NegativeAllowed (Amount (sprout_total (joinsplits tx))) \<and>
        sprout_value_balance p tx = from_sprout_amount p NegativeAllowed (Amount (sprout_total (joinsplits tx)))"
      obtain sa oc iw where sb: "shielded_balance tx = (sa, oc, iw)" by (cases "shielded_balance tx") auto
      note add = add_pools [OF tok conjunct1 [OF sp] pools(4-6) [unfolded sb fst_conv snd_conv] tv]
      have "tx_value_balance p utxos tx =
          Ok (balance_of (input_total utxos tx - output_total tx) (sprout_total (joinsplits tx)) (shielded_balance tx))"
        using Ok io(1) sp add
        by (simp add: tx_value_balance_def Let_def sapling_value_balance_def orchard_value_balance_def
            ironwood_value_balance_def pools(1-3) [unfolded sb fst_conv snd_conv] sb
            from_sprout_amount_def from_sapling_amount_def from_orchard_amount_def from_ironwood_amount_def vb_zero_def)
      moreover have "vb_ok p NegativeAllowed (balance_of (input_total utxos tx - output_total tx) (sprout_total (joinsplits tx)) (shielded_balance tx))"
        using tok sp pools(4-6) sb by (simp add: vb_ok_def pools_def balance_of_def MAX_MONEY_pos less_imp_le)
      ultimately show ?thesis using io by (simp add: Let_def)
    qed
  qed (use tr(1) [of tv] tr(2) tv in \<open>auto simp: tx_value_balance_def Let_def\<close>)
qed

end
