(* ===== verification/Tx_Check.thy ===== *)
theory Tx_Check
  imports Transaction Subsidy
begin

text \<open>
  The transaction rules of \<^verbatim>\<open>zebra-consensus/src/transaction/check.rs\<close> and their composition in
  \<^verbatim>\<open>zebra-consensus/src/transaction.rs\<close>: the rules common to block and mempool verification
  (\<open>check_common_consensus_rules\<close>), the dispatch on the transaction version, and the block
  transaction verifier (\<open>verify_block_transaction\<close>).

  Scripts, proofs and signatures are verified by libraries: their combined answer, the decryption
  of coinbase outputs and the canonical size of a proof are arguments.
\<close>

section \<open>Errors\<close>

text \<open>The variants that the modelled checks return.\<close>

datatype transaction_error =
    CoinbasePosition
  | CoinbaseAfterFirst
  | CoinbaseHasJoinSplit
  | CoinbaseHasSpend
  | CoinbaseHasEnableSpendsOrchard
  | CoinbaseHasEnableSpendsIronwood
  | CoinbaseHasOrchardActions
  | OrchardHasEnableCrossAddress
  | CoinbaseOutputsNotDecryptable
  | WcashCoinbaseOutputPubliclyRecoverable
  | NonCoinbaseHasCoinbaseInput
  | NotCoinbase
  | LockedUntilAfterBlockHeight height
  | LockedUntilAfterBlockTime int
  | CoinbaseExpiryBlockHeight "height option" height bytes
  | MaximumExpiryHeight height bool height bytes
  | ExpiredTransaction height height bytes
  | Subsidy_error subsidy_error
  | WrongVersion
  | UnsupportedByNetworkUpgrade nat network_upgrade
  | NoInputs
  | NoOutputs
  | Script_error
  | VerificationFailed
  | BothVPubsNonZero
  | DisabledAddToSproutPool
  | NegativeOrchardValueBalance
  | IncorrectFee
  | Dup_Transparent_Spend outpoint
  | Dup_Sprout_Nullifier bytes
  | Dup_Sapling_Nullifier bytes
  | Dup_Orchard_Nullifier bytes
  | Dup_Ironwood_Nullifier bytes
  | NotEnoughOrchardFlags
  | NotEnoughIronwoodFlags
  | TransparentInputNotFound
  | WrongConsensusBranchId
  | WcashRequiresV6 nat
  | WcashSproutPoolDisabled
  | WcashSaplingPoolDisabled
  | WcashOrchardPoolDisabled
  | MissingConsensusBranchId
  | OrchardProofSize
  | IronwoodProofSize
  | Orchard_temporarily_disabled

section \<open>The checks\<close>

text \<open>The time is needed only for a lock time that is a time; its absence is then a panic.\<close>

definition lock_time_has_passed ::
  "transaction \<Rightarrow> height \<Rightarrow> int option \<Rightarrow> (transaction_error, unit) outcome" where
  "lock_time_has_passed tx block_height block_time =
     qbind (tx_lock_time tx) (\<lambda>lt.
       case lt of
         Some (Lock_Height unlock_height) \<Rightarrow>
           if block_height > unlock_height then Ok () else Err (LockedUntilAfterBlockHeight unlock_height)
       | Some (Lock_Time unlock_time) \<Rightarrow>
           qbind (expect block_time) (\<lambda>t.
             if t > unlock_time then Ok () else Err (LockedUntilAfterBlockTime unlock_time))
       | None \<Rightarrow> Ok ())"

definition has_inputs_and_outputs :: "transaction \<Rightarrow> (transaction_error, unit) outcome" where
  "has_inputs_and_outputs tx =
     (if \<not> has_transparent_or_shielded_inputs tx then Err NoInputs
      else if \<not> has_transparent_or_shielded_outputs tx then Err NoOutputs else Ok ())"

definition check_enough_orchard_flags :: "transaction \<Rightarrow> (transaction_error, unit) outcome" where
  "check_enough_orchard_flags tx = fail_if (\<not> has_enough_orchard_flags tx) NotEnoughOrchardFlags"

definition check_enough_ironwood_flags :: "transaction \<Rightarrow> (transaction_error, unit) outcome" where
  "check_enough_ironwood_flags tx = fail_if (\<not> has_enough_ironwood_flags tx) NotEnoughIronwoodFlags"

definition orchard_cross_address_disabled :: "transaction \<Rightarrow> (transaction_error, unit) outcome" where
  "orchard_cross_address_disabled tx =
     fail_if (case orchard_bundle tx of None \<Rightarrow> False | Some b \<Rightarrow> is_orchard_v3 b \<and> cross_address_enabled b)
       OrchardHasEnableCrossAddress"

definition orchard_value_balance_non_negative ::
  "profile \<Rightarrow> transaction \<Rightarrow> network_upgrade \<Rightarrow> (transaction_error, unit) outcome" where
  "orchard_value_balance_non_negative p tx nu =
     (if nu \<ge> Nu6_3 \<and> orchard_bundle tx \<noteq> None then
        qbind (orchard_value_balance p tx) (\<lambda>v.
        qbind (amount_zero p NegativeAllowed) (\<lambda>z.
          fail_if (orchard v < z) NegativeOrchardValueBalance))
      else Ok ())"

definition coinbase_orchard_component_empty ::
  "transaction \<Rightarrow> network_upgrade \<Rightarrow> (transaction_error, unit) outcome" where
  "coinbase_orchard_component_empty tx nu =
     fail_if (nu \<ge> Nu6_3 \<and> is_coinbase tx \<and> has_orchard_shielded_data tx) CoinbaseHasOrchardActions"

definition coinbase_tx_no_prevout_joinsplit_spend :: "transaction \<Rightarrow> (transaction_error, unit) outcome" where
  "coinbase_tx_no_prevout_joinsplit_spend tx =
     (if is_coinbase tx then
        (if joinsplit_count tx > 0 then Err CoinbaseHasJoinSplit
         else if sapling_spends_count tx > 0 then Err CoinbaseHasSpend
         else qbind (fail_if (case orchard_bundle tx of None \<Rightarrow> False | Some b \<Rightarrow> spends_enabled b)
                       CoinbaseHasEnableSpendsOrchard) (\<lambda>_.
              fail_if (case ironwood_bundle tx of None \<Rightarrow> False | Some b \<Rightarrow> spends_enabled b)
                CoinbaseHasEnableSpendsIronwood))
      else Ok ())"

definition joinsplit_has_vpub_zero :: "transaction \<Rightarrow> (transaction_error, unit) outcome" where
  "joinsplit_has_vpub_zero tx =
     for_each (\<lambda>(old, new). fail_if (old \<noteq> 0 \<and> new \<noteq> 0) BothVPubsNonZero)
       (zip (output_values_to_sprout tx) (input_values_from_sprout tx))"

definition disabled_add_to_sprout_pool ::
  "transaction \<Rightarrow> height \<Rightarrow> network \<Rightarrow> (transaction_error, unit) outcome" where
  "disabled_add_to_sprout_pool tx h net =
     qbind (expect (upgrade_activation_height Canopy net)) (\<lambda>canopy.
       if h \<ge> canopy then
         for_each (\<lambda>old. fail_if (old \<noteq> 0) DisabledAddToSproutPool) (output_values_to_sprout tx)
       else Ok ())"

text \<open>\<^verbatim>\<open>HashSet::replace\<close> returns the equal item that was in the set.\<close>

fun check_for_duplicates_from ::
  "'a set \<Rightarrow> ('a \<Rightarrow> transaction_error) \<Rightarrow> 'a list \<Rightarrow> (transaction_error, unit) outcome" where
  "check_for_duplicates_from seen err [] = Ok ()"
| "check_for_duplicates_from seen err (x # xs) =
     (if x \<in> seen then Err (err x) else check_for_duplicates_from (insert x seen) err xs)"

definition check_for_duplicates ::
  "'a list \<Rightarrow> ('a \<Rightarrow> transaction_error) \<Rightarrow> (transaction_error, unit) outcome" where
  "check_for_duplicates items err = check_for_duplicates_from {} err items"

definition spend_conflicts :: "transaction \<Rightarrow> (transaction_error, unit) outcome" where
  "spend_conflicts tx =
     qbind (check_for_duplicates (spent_outpoints tx) Dup_Transparent_Spend) (\<lambda>_.
     qbind (check_for_duplicates (sprout_nullifiers tx) Dup_Sprout_Nullifier) (\<lambda>_.
     qbind (check_for_duplicates (sapling_nullifiers tx) Dup_Sapling_Nullifier) (\<lambda>_.
     qbind (check_for_duplicates (orchard_nullifiers tx) Dup_Orchard_Nullifier) (\<lambda>_.
       check_for_duplicates (ironwood_nullifiers tx) Dup_Ironwood_Nullifier))))"

text \<open>The decryption with the zero viewing key is a library call.\<close>

definition coinbase_outputs_are_decryptable ::
  "(transaction \<Rightarrow> network \<Rightarrow> height \<Rightarrow> bool) \<Rightarrow> transaction \<Rightarrow> network \<Rightarrow> height \<Rightarrow> (transaction_error, unit) outcome" where
  "coinbase_outputs_are_decryptable decrypts_successfully tx net h =
     (if \<not> has_shielded_outputs tx then Ok ()
      else qbind (expect (upgrade_activation_height Heartwood net)) (\<lambda>heartwood.
        if h < heartwood then Ok ()
        else if \<not> is_coinbase tx then Err NotCoinbase
        else if \<not> decrypts_successfully tx net h then Err CoinbaseOutputsNotDecryptable
        else Ok ()))"

definition wcash_coinbase_outputs_are_private ::
  "(transaction \<Rightarrow> network \<Rightarrow> height \<Rightarrow> bool) \<Rightarrow> transaction \<Rightarrow> network \<Rightarrow> height \<Rightarrow> (transaction_error, unit) outcome" where
  "wcash_coinbase_outputs_are_private private_from_zero_ovk tx net h =
     (if \<not> uses_wcash_consensus net then Ok ()
      else if \<not> is_coinbase tx then Err NotCoinbase
      else if \<not> private_from_zero_ovk tx net h then Err WcashCoinbaseOutputPubliclyRecoverable
      else Ok ())"

definition validate_expiry_height_max ::
  "height option \<Rightarrow> bool \<Rightarrow> height \<Rightarrow> transaction \<Rightarrow> (transaction_error, unit) outcome" where
  "validate_expiry_height_max expiry cb block_height tx =
     (case expiry of
        None \<Rightarrow> Ok ()
      | Some e \<Rightarrow> fail_if (e > MAX_EXPIRY_HEIGHT) (MaximumExpiryHeight e cb block_height (txid tx)))"

definition validate_expiry_height_mined ::
  "height option \<Rightarrow> height \<Rightarrow> transaction \<Rightarrow> (transaction_error, unit) outcome" where
  "validate_expiry_height_mined expiry block_height tx =
     (case expiry of
        None \<Rightarrow> Ok ()
      | Some e \<Rightarrow> fail_if (block_height > e) (ExpiredTransaction e block_height (txid tx)))"

definition coinbase_expiry_height ::
  "height \<Rightarrow> transaction \<Rightarrow> network \<Rightarrow> (transaction_error, unit) outcome" where
  "coinbase_expiry_height block_height coinbase net =
     (let expiry = expiry_height coinbase;
          rest = validate_expiry_height_max expiry True block_height coinbase in
      case upgrade_activation_height Nu5 net of
        Some nu5 \<Rightarrow>
          if block_height \<ge> nu5 then
            (if expiry \<noteq> Some block_height
             then Err (CoinbaseExpiryBlockHeight expiry block_height (txid coinbase)) else Ok ())
          else rest
      | None \<Rightarrow> rest)"

definition non_coinbase_expiry_height :: "height \<Rightarrow> transaction \<Rightarrow> (transaction_error, unit) outcome" where
  "non_coinbase_expiry_height block_height tx =
     (if is_overwintered tx then
        qbind (validate_expiry_height_max (expiry_height tx) False block_height tx) (\<lambda>_.
          validate_expiry_height_mined (expiry_height tx) block_height tx)
      else Ok ())"

definition consensus_branch_id :: "transaction \<Rightarrow> height \<Rightarrow> network \<Rightarrow> (transaction_error, unit) outcome" where
  "consensus_branch_id tx h net =
     qbind (current net h) (\<lambda>current_nu.
       if current_nu < Nu5 \<or> version tx < 5 then Ok ()
       else
         (case embedded_consensus_branch_id tx of
            None \<Rightarrow> Err MissingConsensusBranchId
          | Some tx_branch_id \<Rightarrow>
              qbind (current_branch_id net h) (\<lambda>expected.
                case expected of
                  None \<Rightarrow> Err MissingConsensusBranchId
                | Some expected_branch_id \<Rightarrow>
                    if tx_branch_id \<noteq> expected_branch_id then Err WrongConsensusBranchId else Ok ())))"

section \<open>Their composition\<close>

definition check_structure_and_network_rules ::
  "profile \<Rightarrow> (nat \<Rightarrow> nat) \<Rightarrow> transaction \<Rightarrow> height \<Rightarrow> network \<Rightarrow> (transaction_error, unit) outcome" where
  "check_structure_and_network_rules p expected_proof_size tx h net =
     qbind (current net h) (\<lambda>nu.
     qbind (has_inputs_and_outputs tx) (\<lambda>_.
     qbind (check_enough_orchard_flags tx) (\<lambda>_.
     qbind (check_enough_ironwood_flags tx) (\<lambda>_.
     qbind (orchard_cross_address_disabled tx) (\<lambda>_.
     qbind (orchard_value_balance_non_negative p tx nu) (\<lambda>_.
     qbind (coinbase_orchard_component_empty tx nu) (\<lambda>_.
     qbind (consensus_branch_id tx h net) (\<lambda>_.
       if is_orchard_temporarily_disabled net h \<and> has_orchard_shielded_data tx
       then Err Orchard_temporarily_disabled
       else if orchard_canonical_proof_size_rule_active net h
               \<and> \<not> proof_size_is_canonical expected_proof_size (orchard_bundle tx)
       then Err OrchardProofSize
       else if \<not> proof_size_is_canonical expected_proof_size (ironwood_bundle tx)
       then Err IronwoodProofSize
       else Ok ()))))))))"

definition check_transaction_invariants ::
  "transaction \<Rightarrow> height \<Rightarrow> network \<Rightarrow> (transaction_error, unit) outcome" where
  "check_transaction_invariants tx h net =
     qbind (joinsplit_has_vpub_zero tx) (\<lambda>_.
     qbind (disabled_add_to_sprout_pool tx h net) (\<lambda>_.
       spend_conflicts tx))"

definition check_common_consensus_rules ::
  "profile \<Rightarrow> (nat \<Rightarrow> nat) \<Rightarrow> transaction \<Rightarrow> height \<Rightarrow> network \<Rightarrow> (transaction_error, unit) outcome" where
  "check_common_consensus_rules p expected_proof_size tx h net =
     (if uses_wcash_consensus net \<and> h > HEIGHT_MIN \<and> tx_version tx \<noteq> V6 then Err (WcashRequiresV6 (version tx))
      else if uses_wcash_consensus net \<and> has_sprout_joinsplit_data tx then Err WcashSproutPoolDisabled
      else if uses_wcash_consensus net \<and> has_sapling_shielded_data tx then Err WcashSaplingPoolDisabled
      else if uses_wcash_consensus net \<and> has_orchard_shielded_data tx then Err WcashOrchardPoolDisabled
      else
        qbind (check_structure_and_network_rules p expected_proof_size tx h net) (\<lambda>_.
        qbind (if is_coinbase tx then coinbase_tx_no_prevout_joinsplit_spend tx
               else if \<not> is_valid_non_coinbase tx then Err NonCoinbaseHasCoinbaseInput
               else Ok ()) (\<lambda>_.
        qbind (if is_coinbase tx then coinbase_expiry_height h tx net
               else non_coinbase_expiry_height h tx) (\<lambda>_.
          check_transaction_invariants tx h net))))"

definition verify_v4_transaction_network_upgrade ::
  "transaction \<Rightarrow> network_upgrade \<Rightarrow> (transaction_error, unit) outcome" where
  "verify_v4_transaction_network_upgrade tx nu =
     (if nu \<in> {network_upgrade.Sapling, Blossom, Heartwood, Canopy, Nu5, Nu6, Nu6_1, Nu6_2, Nu6_3} then Ok ()
      else Err (UnsupportedByNetworkUpgrade (version tx) nu))"

definition verify_v5_transaction_network_upgrade ::
  "transaction \<Rightarrow> network_upgrade \<Rightarrow> (transaction_error, unit) outcome" where
  "verify_v5_transaction_network_upgrade tx nu =
     (if nu \<in> {Nu5, Nu6, Nu6_1, Nu6_2, Nu6_3, Nu7} then Ok ()
      else Err (UnsupportedByNetworkUpgrade (version tx) nu))"

definition verify_v6_transaction_network_upgrade ::
  "transaction \<Rightarrow> network_upgrade \<Rightarrow> (transaction_error, unit) outcome" where
  "verify_v6_transaction_network_upgrade tx nu =
     (if nu \<in> {Nu6_3, Nu7} then Ok () else Err (UnsupportedByNetworkUpgrade (version tx) nu))"

text \<open>
  What libraries decide: the canonical size of a proof, whether the data for signature hashes can
  be computed under an upgrade, the conjunction of the asynchronous checks of scripts, proofs and
  signatures, and the counts of signature operations (\<^verbatim>\<open>None\<close> is a script error).
\<close>

record tx_library =
  expected_proof_size :: "nat \<Rightarrow> nat"
  sighash_supported :: "transaction \<Rightarrow> network_upgrade \<Rightarrow> bool"
  async_checks :: "transaction \<Rightarrow> network_upgrade \<Rightarrow> bool"
  sigops :: "transaction \<Rightarrow> nat option"
  p2sh_sigops :: "transaction \<Rightarrow> nat"

definition dispatch_version_verification ::
  "tx_library \<Rightarrow> transaction \<Rightarrow> network_upgrade \<Rightarrow> (transaction_error, bool) outcome" where
  "dispatch_version_verification lib tx nu =
     (case tx_version tx of
        Sprout_v _ \<Rightarrow> Err WrongVersion
      | V3 \<Rightarrow> Err WrongVersion
      | V4 \<Rightarrow> map_ok (\<lambda>_. async_checks lib tx nu) (verify_v4_transaction_network_upgrade tx nu)
      | V5 \<Rightarrow> map_ok (\<lambda>_. async_checks lib tx nu) (verify_v5_transaction_network_upgrade tx nu)
      | V6 \<Rightarrow> map_ok (\<lambda>_. async_checks lib tx nu) (verify_v6_transaction_network_upgrade tx nu))"

definition miner_fee ::
  "profile \<Rightarrow> transaction \<Rightarrow> (outpoint \<rightharpoonup> utxo) \<Rightarrow> (transaction_error, amount) outcome" where
  "miner_fee p tx spent_utxos =
     (case tx_value_balance p spent_utxos tx of
        Ok v \<Rightarrow> map_err (\<lambda>_. IncorrectFee) (remaining_transaction_value p v)
      | Err _ \<Rightarrow> Err IncorrectFee
      | Panic \<Rightarrow> Panic)"

text \<open>
  The spent outputs come from earlier transactions of the block or from the state, which answers
  after some time or not at all; its final answer is an argument.
\<close>

fun lookup_spent_utxos ::
  "(outpoint \<rightharpoonup> ordered_utxo) \<Rightarrow> (outpoint \<rightharpoonup> utxo) \<Rightarrow> tx_input list \<Rightarrow> (outpoint \<rightharpoonup> utxo)
    \<Rightarrow> (transaction_error, outpoint \<rightharpoonup> utxo) outcome" where
  "lookup_spent_utxos known state [] m = Ok m"
| "lookup_spent_utxos known state (i # is) m =
     (case input_outpoint i of
        None \<Rightarrow> lookup_spent_utxos known state is m
      | Some op \<Rightarrow>
          qbind (case known op of
                   Some ou \<Rightarrow> Ok (ordered_inner ou)
                 | None \<Rightarrow> ok_or (state op) TransparentInputNotFound)
            (\<lambda>u. lookup_spent_utxos known state is (m(op \<mapsto> u))))"

definition block_spent_utxos ::
  "transaction \<Rightarrow> (outpoint \<rightharpoonup> ordered_utxo) \<Rightarrow> (outpoint \<rightharpoonup> utxo) \<Rightarrow> (transaction_error, outpoint \<rightharpoonup> utxo) outcome" where
  "block_spent_utxos tx known state = lookup_spent_utxos known state (inputs tx) Map.empty"

record block_request =
  req_hash :: bytes
  req_transaction :: transaction
  req_known_utxos :: "outpoint \<rightharpoonup> ordered_utxo"
  req_height :: height
  req_time :: int

record block_response =
  response_id :: unmined_tx_id
  response_fee :: "amount option"
  response_sigops :: nat

definition saturating_add_u32 :: "nat \<Rightarrow> nat \<Rightarrow> nat" where
  "saturating_add_u32 a b = min (a + b) u32_max"

definition verify_block_transaction ::
  "profile \<Rightarrow> tx_library \<Rightarrow> network \<Rightarrow> (outpoint \<rightharpoonup> utxo) \<Rightarrow> block_request
    \<Rightarrow> (transaction_error, block_response) outcome" where
  "verify_block_transaction p lib net state req =
     (let tx = req_transaction req; h = req_height req;
          tx_id = (case auth_digest tx of None \<Rightarrow> Legacy (req_hash req) | Some d \<Rightarrow> Witnessed (req_hash req) d) in
      qbind (current net h) (\<lambda>nu.
      qbind (check_common_consensus_rules p (expected_proof_size lib) tx h net) (\<lambda>_.
      qbind (lock_time_has_passed tx h (Some (req_time req))) (\<lambda>_.
      qbind (block_spent_utxos tx (req_known_utxos req) state) (\<lambda>spent.
      qbind (fail_if (\<not> sighash_supported lib tx nu) (UnsupportedByNetworkUpgrade (version tx) nu)) (\<lambda>_.
      qbind (dispatch_version_verification lib tx nu) (\<lambda>passed.
      qbind (fail_if (\<not> passed) VerificationFailed) (\<lambda>_.
      qbind (if is_coinbase tx then Ok None else map_ok Some (miner_fee p tx spent)) (\<lambda>fee.
      qbind (ok_or (sigops lib tx) Script_error) (\<lambda>n.
        Ok \<lparr>response_id = tx_id, response_fee = fee,
            response_sigops = saturating_add_u32 n (p2sh_sigops lib tx)\<rparr>))))))))))"

section \<open>Facts about the checks\<close>

lemma check_for_duplicates_from_Ok:
  "check_for_duplicates_from seen err xs = Ok u \<longleftrightarrow> distinct xs \<and> set xs \<inter> seen = {}"
  by (induction xs arbitrary: seen) auto

lemma check_for_duplicates_Ok [simp]: "check_for_duplicates xs err = Ok u \<longleftrightarrow> distinct xs"
  by (simp add: check_for_duplicates_def check_for_duplicates_from_Ok)

lemma check_for_duplicates_from_Err:
  "check_for_duplicates_from seen err xs = Err e \<Longrightarrow>
    \<exists>ys x zs. xs = ys @ x # zs \<and> e = err x \<and> x \<in> set ys \<union> seen \<and> distinct ys \<and> set ys \<inter> seen = {}"
proof (induction xs arbitrary: seen)
  case (Cons x xs)
  show ?case
  proof (cases "x \<in> seen")
    case True
    with Cons.prems show ?thesis by (intro exI [of _ "[]"]) auto
  next
    case False
    with Cons.prems obtain ys y zs where "xs = ys @ y # zs" "e = err y" "y \<in> set ys \<union> insert x seen"
      "distinct ys" "set ys \<inter> insert x seen = {}"
      using Cons.IH [of "insert x seen"] by auto
    with False show ?thesis by (intro exI [of _ "x # ys"] exI [of _ y] exI [of _ zs]) auto
  qed
qed simp

lemma check_for_duplicates_Err:
  "check_for_duplicates xs err = Err e \<Longrightarrow> \<exists>ys x zs. xs = ys @ x # zs \<and> e = err x \<and> x \<in> set ys \<and> distinct ys"
  using check_for_duplicates_from_Err [of "{}" err xs e] by (auto simp: check_for_duplicates_def)

lemma check_for_duplicates_not_Panic [simp]: "check_for_duplicates xs err \<noteq> Panic"
proof -
  have "check_for_duplicates_from seen err xs \<noteq> Panic" for seen
    by (induction xs arbitrary: seen) auto
  then show ?thesis by (simp add: check_for_duplicates_def)
qed

lemma spend_conflicts_Ok: "spend_conflicts tx = Ok u \<longleftrightarrow>
    distinct (spent_outpoints tx) \<and> distinct (sprout_nullifiers tx) \<and> distinct (sapling_nullifiers tx)
    \<and> distinct (orchard_nullifiers tx) \<and> distinct (ironwood_nullifiers tx)"
  by (auto simp: spend_conflicts_def)

lemma u32_to_lock_time_eq:
  "n \<le> u32_max \<Longrightarrow> u32_to_lock_time n = Ok (if n < 500000000 then Lock_Height n else Lock_Time (int n))"
  by (auto simp: u32_to_lock_time_def lock_time_deserialize_def le_val_le_bytes u32_max_def MIN_TIMESTAMP_def)

lemma lock_time_has_passed_eq:
  assumes "tx_wf tx"
  shows "lock_time_has_passed tx h (Some t) =
    (if zp_lock_time tx = 0 \<or> list_all (\<lambda>i. input_sequence i = u32_max) (inputs tx) then Ok ()
     else if zp_lock_time tx < 500000000
     then (if h > zp_lock_time tx then Ok () else Err (LockedUntilAfterBlockHeight (zp_lock_time tx)))
     else (if t > int (zp_lock_time tx) then Ok () else Err (LockedUntilAfterBlockTime (int (zp_lock_time tx)))))"
proof -
  have "zp_lock_time tx \<le> u32_max" using assms by (simp add: tx_wf_def)
  then show ?thesis
    by (auto simp: lock_time_has_passed_def tx_lock_time_def u32_to_lock_time_eq lock_time_unlocked_def
        list_all_iff list_ex_iff)
qed

lemma miner_fee_cases:
  assumes "tx_wf tx" "utxos_cover p utxos tx"
  shows "miner_fee p tx utxos \<noteq> Panic"
    and "miner_fee p tx utxos = Ok fee \<Longrightarrow>
      zatoshis fee = input_total utxos tx - output_total tx + sprout_total (joinsplits tx)
        + fst (shielded_balance tx) + fst (snd (shielded_balance tx)) + snd (snd (shielded_balance tx))
      \<and> 0 \<le> zatoshis fee \<and> zatoshis fee \<le> MAX_MONEY p"
    and "sprout_bundle tx = None \<Longrightarrow> sapling_bundle tx = None \<Longrightarrow> orchard_bundle tx = None \<Longrightarrow>
      miner_fee p tx utxos = Ok fee \<longleftrightarrow>
        input_total utxos tx \<le> MAX_MONEY p \<and> output_total tx \<le> MAX_MONEY p
        \<and> fee = Amount (input_total utxos tx - output_total tx + snd (snd (shielded_balance tx)))
        \<and> 0 \<le> zatoshis fee \<and> zatoshis fee \<le> MAX_MONEY p"
proof -
  define v where "v = balance_of (input_total utxos tx - output_total tx) (sprout_total (joinsplits tx)) (shielded_balance tx)"
  obtain sa oc iw where sb: "shielded_balance tx = (sa, oc, iw)" by (cases "shielded_balance tx") auto
  note cases = tx_value_balance_cases [OF assms, folded v_def, unfolded Let_def]
  have rem: "remaining_transaction_value p v \<noteq> Panic \<and> (remaining_transaction_value p v = Ok fee \<longrightarrow>
      fee = Amount (last (transaction_prefix_sums v)) \<and> 0 \<le> last (transaction_prefix_sums v)
      \<and> last (transaction_prefix_sums v) \<le> MAX_MONEY p)" if "vb_ok p NegativeAllowed v" for fee
    using remaining_value_eq [OF that]
    by (auto simp: find_None_iff transaction_prefix_sums_def Let_def split: option.splits if_splits)
  from cases rem show "miner_fee p tx utxos \<noteq> Panic"
    by (auto simp: miner_fee_def map_err_eq_Panic split: outcome.splits)
  show "miner_fee p tx utxos = Ok fee \<Longrightarrow>
      zatoshis fee = input_total utxos tx - output_total tx + sprout_total (joinsplits tx)
        + fst (shielded_balance tx) + fst (snd (shielded_balance tx)) + snd (snd (shielded_balance tx))
      \<and> 0 \<le> zatoshis fee \<and> zatoshis fee \<le> MAX_MONEY p"
    using cases rem [of fee]
    by (auto simp: miner_fee_def map_err_eq_Ok transaction_prefix_sums_def v_def balance_of_def sb Let_def)
  assume none: "sprout_bundle tx = None" "sapling_bundle tx = None" "orchard_bundle tx = None"
  note io = transparent_balance_eq(3,4) [OF assms]
  have s0: "sa = 0" "oc = 0" "sprout_total (joinsplits tx) = 0" "joinsplits tx = []"
    using sb none by (auto simp: shielded_balance_def joinsplits_def sprout_total_def)
  define t where "t = input_total utxos tx - output_total tx"
  have pre: "transaction_prefix_sums v = [t, t, t, t + iw]"
    using s0 by (simp add: transaction_prefix_sums_def v_def balance_of_def sb t_def Let_def)
  have "remaining_transaction_value p v = Ok fee \<longleftrightarrow>
      fee = Amount (input_total utxos tx - output_total tx + iw) \<and> 0 \<le> zatoshis fee \<and> zatoshis fee \<le> MAX_MONEY p"
    if "vb_ok p NegativeAllowed v" "input_total utxos tx \<le> MAX_MONEY p" "output_total tx \<le> MAX_MONEY p"
    using that(2,3) io unfolding remaining_value_eq [OF that(1)] pre t_def [symmetric]
    by (auto simp: t_def Let_def split: if_splits)
  with cases s0(4) sb show "miner_fee p tx utxos = Ok fee \<longleftrightarrow>
        input_total utxos tx \<le> MAX_MONEY p \<and> output_total tx \<le> MAX_MONEY p
        \<and> fee = Amount (input_total utxos tx - output_total tx + snd (snd (shielded_balance tx)))
        \<and> 0 \<le> zatoshis fee \<and> zatoshis fee \<le> MAX_MONEY p"
    by (auto simp: miner_fee_def map_err_eq_Ok)
qed

lemma lookup_spent_utxos_Ok:
  "lookup_spent_utxos known state ins m = Ok spent \<Longrightarrow>
    (\<forall>op \<in> set (List.map_filter input_outpoint ins).
       \<exists>u. spent op = Some u \<and> (known op = None \<longrightarrow> state op = Some u) \<and> (\<forall>ou. known op = Some ou \<longrightarrow> u = ordered_inner ou))
    \<and> (\<forall>op. op \<notin> set (List.map_filter input_outpoint ins) \<longrightarrow> spent op = m op)"
proof (induction ins arbitrary: m)
  case Nil
  then show ?case by (simp add: List.map_filter_def)
next
  case (Cons i "is")
  show ?case
  proof (cases "input_outpoint i")
    case None
    with Cons show ?thesis by (auto simp: spent_outpoints_Cons(2))
  next
    case (Some op)
    with Cons.prems obtain u where u: "lookup_spent_utxos known state is (m(op \<mapsto> u)) = Ok spent"
      "known op = None \<longrightarrow> state op = Some u" "\<forall>ou. known op = Some ou \<longrightarrow> u = ordered_inner ou"
      by (auto split: option.splits)
    with Cons.IH [OF u(1)] Some show ?thesis
      by (cases "op \<in> set (List.map_filter input_outpoint is)") (auto simp: spent_outpoints_Cons(2))
  qed
qed

lemma spent_cover:
  assumes "block_spent_utxos tx known state = Ok spent"
    and "\<And>op u. state op = Some u \<Longrightarrow> amount_ok p NonNegative (output_value (utxo_output u))"
    and "\<And>op ou. known op = Some ou \<Longrightarrow> amount_ok p NonNegative (output_value (utxo_output (ordered_inner ou)))"
  shows "utxos_cover p spent tx"
proof -
  note lk = lookup_spent_utxos_Ok [OF assms(1) [unfolded block_spent_utxos_def], THEN conjunct1]
  have "case spent op of None \<Rightarrow> False | Some u \<Rightarrow> amount_ok p NonNegative (output_value (utxo_output u))"
    if "op \<in> set (spent_outpoints tx)" for op
  proof -
    have "op \<in> set (List.map_filter input_outpoint (inputs tx))"
      using that by (simp only: spent_outpoints_def)
    from bspec [OF lk this] obtain u where u: "spent op = Some u" "known op = None \<longrightarrow> state op = Some u"
      "\<forall>ou. known op = Some ou \<longrightarrow> u = ordered_inner ou"
      by (elim exE conjE)
    have "amount_ok p NonNegative (output_value (utxo_output u))"
    proof (cases "known op")
      case None
      with u(2) have "state op = Some u" by simp
      from assms(2) [OF this] show ?thesis .
    next
      case (Some ou)
      with u(3) have "u = ordered_inner ou" by simp
      with assms(3) [OF Some] show ?thesis by (simp only:)
    qed
    with u(1) show ?thesis by simp
  qed
  then show ?thesis unfolding utxos_cover_def list_all_iff by (rule ballI)
qed

lemma common_rules_wcash:
  assumes "check_common_consensus_rules p psize tx h net = Ok u" "uses_wcash_consensus net" "0 < h"
  shows "tx_version tx = V6 \<and> sprout_bundle tx = None \<and> sapling_bundle tx = None \<and> orchard_bundle tx = None"
    and "consensus_branch_id tx h net = Ok ()" "spend_conflicts tx = Ok ()"
    and "\<not> is_coinbase tx \<Longrightarrow> is_valid_non_coinbase tx \<and> non_coinbase_expiry_height h tx = Ok ()"
    and "is_coinbase tx \<Longrightarrow> coinbase_expiry_height h tx net = Ok ()"
  using assms
  by (auto simp: check_common_consensus_rules_def check_structure_and_network_rules_def check_transaction_invariants_def
      has_sprout_joinsplit_data_def has_sapling_shielded_data_def has_orchard_shielded_data_def HEIGHT_MIN_def
      split: if_splits)

lemma branch_id_v6:
  assumes "consensus_branch_id tx h net = Ok ()" "tx_version tx = V6" "current net h = (Ok nu :: (transaction_error, _) outcome)" "nu \<ge> Nu5"
  shows "for_network_upgrade net nu = Some (zp_branch_id tx)"
proof -
  have "version tx = 6" using assms(2) by (simp add: version_def)
  moreover have "(current_branch_id net h :: (transaction_error, _) outcome) = Ok (for_network_upgrade net nu)"
    using assms(3) by (simp add: current_branch_id_def)
  ultimately show ?thesis
    using assms by (auto simp: consensus_branch_id_def embedded_consensus_branch_id_def split: option.splits if_splits)
qed

section \<open>Properties\<close>

text \<open>
  C12. For a well-formed transaction whose spent outputs are all known and have valid values, the fee never panics, and
  a fee that is returned is exactly what the transaction takes in minus what it pays out, over all pools: transparent inputs
  less transparent outputs, plus the net value that leaves each shielded pool.  It is never negative.  For a transaction
  without Sprout, Sapling and Orchard bundles a fee is returned exactly when the input total, the output total and the fee
  itself are in the money range.
\<close>

theorem miner_fee_exact:
  assumes "tx_wf tx" "utxos_cover p utxos tx"
  shows "miner_fee p tx utxos \<noteq> Panic
    \<and> (miner_fee p tx utxos = Ok fee \<longrightarrow>
        zatoshis fee = input_total utxos tx - output_total tx + sprout_total (joinsplits tx)
          + fst (shielded_balance tx) + fst (snd (shielded_balance tx)) + snd (snd (shielded_balance tx))
        \<and> 0 \<le> zatoshis fee \<and> zatoshis fee \<le> MAX_MONEY p)
    \<and> (sprout_bundle tx = None \<and> sapling_bundle tx = None \<and> orchard_bundle tx = None \<longrightarrow>
        (miner_fee p tx utxos = Ok fee \<longleftrightarrow>
          input_total utxos tx \<le> MAX_MONEY p \<and> output_total tx \<le> MAX_MONEY p
          \<and> fee = Amount (input_total utxos tx - output_total tx + snd (snd (shielded_balance tx)))
          \<and> 0 \<le> zatoshis fee \<and> zatoshis fee \<le> MAX_MONEY p))"
  using miner_fee_cases [OF assms] by blast

text \<open>
  C31. The lock-time rule: a transaction is final exactly when its lock time is zero, or all its
  sequence numbers are maximal, or the lock height (below 500,000,000) is strictly less than the height of the block, or
  the lock time strictly less than its time; a final transaction stays final at every later height and time.
\<close>

theorem lock_time_rule:
  assumes "tx_wf tx"
  shows "(lock_time_has_passed tx h (Some t) = Ok () \<longleftrightarrow>
      zp_lock_time tx = 0 \<or> list_all (\<lambda>i. input_sequence i = u32_max) (inputs tx)
      \<or> zp_lock_time tx < 500000000 \<and> zp_lock_time tx < h
      \<or> 500000000 \<le> zp_lock_time tx \<and> int (zp_lock_time tx) < t)
    \<and> lock_time_has_passed tx h (Some t) \<noteq> Panic
    \<and> (lock_time_has_passed tx h (Some t) = Ok () \<and> h \<le> h' \<and> t \<le> t' \<longrightarrow> lock_time_has_passed tx h' (Some t') = Ok ())"
  unfolding lock_time_has_passed_eq [OF assms] by (auto split: if_splits)

text \<open>
  C30. The check for conflicting spends passes exactly the transactions that spend no output twice
  and reveal no nullifier twice in a pool; an outpoint it reports is one that is spent twice.
\<close>

theorem spend_conflicts_exact:
  "(spend_conflicts tx = Ok () \<longleftrightarrow>
      distinct (spent_outpoints tx) \<and> distinct (sprout_nullifiers tx) \<and> distinct (sapling_nullifiers tx)
      \<and> distinct (orchard_nullifiers tx) \<and> distinct (ironwood_nullifiers tx))
    \<and> (spend_conflicts tx = Err (Dup_Transparent_Spend op) \<longrightarrow> 2 \<le> count_list (spent_outpoints tx) op)
    \<and> spend_conflicts tx \<noteq> Panic"
proof -
  have "2 \<le> count_list (spent_outpoints tx) op" if "spend_conflicts tx = Err (Dup_Transparent_Spend op)"
  proof -
    have other: "check_for_duplicates xs err \<noteq> Err (Dup_Transparent_Spend op)"
      if "\<And>x. err x \<noteq> Dup_Transparent_Spend op" for xs :: "bytes list" and err
      using that check_for_duplicates_Err [of xs err "Dup_Transparent_Spend op"] by metis
    have "check_for_duplicates (spent_outpoints tx) Dup_Transparent_Spend = Err (Dup_Transparent_Spend op)"
      using that by (auto simp: spend_conflicts_def qbind_eq_Err other)
    then obtain ys zs where "spent_outpoints tx = ys @ op # zs" "op \<in> set ys"
      using check_for_duplicates_Err by fastforce
    moreover from this(2) have "1 \<le> count_list ys op"
      using count_list_0_iff [of ys op] by (cases "count_list ys op") auto
    ultimately show ?thesis by simp
  qed
  then show ?thesis by (auto simp: spend_conflicts_Ok spend_conflicts_def qbind_eq_Panic)
qed

text \<open>
  C10. What the block transaction verifier guarantees on a Wcash network above genesis: an accepted
  transaction has version 6, uses no Sprout, Sapling or Orchard data, carries the branch id of the
  very network and upgrade, spends no output and reveals no Ironwood nullifier twice, is final and
  passed the script and proof checks; a non-coinbase one has only real inputs whose outputs were
  all found, has not expired, and its fee is the value its inputs and the Ironwood pool give minus
  its outputs; a coinbase has no fee and, from NU5, an expiry height equal to the block height.
\<close>

theorem wcash_transaction_accepted:
  assumes acc: "verify_block_transaction p lib net state req = Ok resp"
    and tx: "tx = req_transaction req" and h: "h = req_height req"
    and net: "uses_wcash_consensus net" "0 < h" and wf: "tx_wf tx"
    and st: "\<And>op u. state op = Some u \<Longrightarrow> amount_ok p NonNegative (output_value (utxo_output u))"
    and kn: "\<And>op ou. req_known_utxos req op = Some ou \<Longrightarrow>
      amount_ok p NonNegative (output_value (utxo_output (ordered_inner ou)))"
  shows "tx_version tx = V6 \<and> sprout_bundle tx = None \<and> sapling_bundle tx = None \<and> orchard_bundle tx = None
    \<and> (\<exists>nu. current net h = (Ok nu :: (transaction_error, _) outcome) \<and> Nu6_3 \<le> nu
         \<and> for_network_upgrade net nu = Some (zp_branch_id tx) \<and> async_checks lib tx nu)
    \<and> distinct (spent_outpoints tx) \<and> distinct (ironwood_nullifiers tx)
    \<and> lock_time_has_passed tx h (Some (req_time req)) = Ok ()
    \<and> (\<not> is_coinbase tx \<longrightarrow> is_valid_non_coinbase tx \<and> (\<forall>e. expiry_height tx = Some e \<longrightarrow> h \<le> e)
        \<and> (\<exists>spent fee. block_spent_utxos tx (req_known_utxos req) state = Ok spent
             \<and> response_fee resp = Some fee \<and> 0 \<le> zatoshis fee
             \<and> zatoshis fee = input_total spent tx - output_total tx + snd (snd (shielded_balance tx))))
    \<and> (is_coinbase tx \<longrightarrow> response_fee resp = None
        \<and> (\<forall>nu5. upgrade_activation_height Nu5 net = Some nu5 \<and> nu5 \<le> h \<longrightarrow> expiry_height tx = Some h))"
proof -
  from acc obtain nu spent where steps: "current net h = (Ok nu :: (transaction_error, _) outcome)"
    "check_common_consensus_rules p (expected_proof_size lib) tx h net = Ok ()"
    "lock_time_has_passed tx h (Some (req_time req)) = Ok ()"
    "block_spent_utxos tx (req_known_utxos req) state = Ok spent"
    "dispatch_version_verification lib tx nu = Ok True"
    "(if is_coinbase tx then Ok None else map_ok Some (miner_fee p tx spent)) = Ok (response_fee resp)"
    unfolding tx h by (auto simp: verify_block_transaction_def Let_def)
  note rules = common_rules_wcash [OF steps(2) net]
  have v6: "tx_version tx = V6" using rules(1) by simp
  then have nu: "Nu6_3 \<le> nu \<and> async_checks lib tx nu"
    using steps(5)
    by (auto simp: dispatch_version_verification_def verify_v6_transaction_network_upgrade_def map_ok_eq_Ok
        less_eq_network_upgrade_def split: if_splits)
  then have "Nu5 \<le> nu" by (auto simp: less_eq_network_upgrade_def)
  from branch_id_v6 [OF rules(2) v6 steps(1) this]
  have branch: "for_network_upgrade net nu = Some (zp_branch_id tx)" .
  have cover: "utxos_cover p spent tx" using spent_cover [OF steps(4) st kn] .
  have fee: "\<exists>fee. response_fee resp = Some fee \<and> 0 \<le> zatoshis fee
      \<and> zatoshis fee = input_total spent tx - output_total tx + snd (snd (shielded_balance tx))" if nc: "\<not> is_coinbase tx"
  proof -
    obtain fee where f: "response_fee resp = Some fee" "miner_fee p tx spent = Ok fee"
      using steps(6) nc by (auto simp: map_ok_eq_Ok)
    with miner_fee_cases(3) [OF wf cover, of fee] rules(1) show ?thesis by auto
  qed
  have mined: "h \<le> e" if "\<not> is_coinbase tx" "expiry_height tx = Some e" for e
    using rules(4) [OF that(1)] that(2) v6
    by (auto simp: non_coinbase_expiry_height_def is_overwintered_def validate_expiry_height_mined_def)
  have cb: "expiry_height tx = Some h" if "is_coinbase tx" "upgrade_activation_height Nu5 net = Some nu5" "nu5 \<le> h" for nu5
    using rules(5) [OF that(1)] that(2,3) by (auto simp: coinbase_expiry_height_def Let_def split: if_splits)
  show ?thesis
    using rules(1,3,4) nu branch steps(1,3,4,6) fee mined cb by (auto simp: spend_conflicts_Ok)
qed

section \<open>An example\<close>

definition live_wcash_mainnet :: network where
  "live_wcash_mainnet = Testnet ((finish sample_builder)\<lparr>consensus_flavor := Wcash Wcash_Mainnet,
     activation_heights := wcash_schedule\<rparr>)"

definition sample_payment :: transaction where
  "sample_payment = \<lparr>tx_version = V6, zp_branch_id = 0xd9c6a7ee, zp_lock_time = 7, zp_expiry_height = 90,
     inputs = [PrevOut (OutPoint [1] 0) [] 5], outputs = [\<lparr>output_value = Amount 300, lock_script = []\<rparr>],
     bundle_is_coinbase = False, sprout_bundle = None, sapling_bundle = None, orchard_bundle = None,
     ironwood_bundle = None, txid = [2], auth_commitment = [3]\<rparr>"

definition sample_utxos :: "outpoint \<rightharpoonup> utxo" where
  "sample_utxos = [OutPoint [1] 0 \<mapsto>
     \<lparr>utxo_output = \<lparr>output_value = Amount 1000, lock_script = []\<rparr>, utxo_height = 2, from_coinbase = False\<rparr>]"

definition sample_library :: tx_library where
  "sample_library = \<lparr>expected_proof_size = (\<lambda>n. n), sighash_supported = (\<lambda>_ _. True),
     async_checks = (\<lambda>_ _. True), sigops = (\<lambda>_. Some 1), p2sh_sigops = (\<lambda>_. 0)\<rparr>"

definition sample_request :: block_request where
  "sample_request = \<lparr>req_hash = [2], req_transaction = sample_payment, req_known_utxos = Map.empty,
     req_height = 80, req_time = 0\<rparr>"

lemmas sample_tx_defs = sample_payment_def sample_utxos_def sample_library_def sample_request_def

lemma live_wcash_mainnet: "uses_wcash_consensus live_wcash_mainnet"
  "wcash_network live_wcash_mainnet = Some Wcash_Mainnet"
  "current live_wcash_mainnet h = Ok (if h = 0 then Genesis else Nu6_3)"
  "activation_list_of live_wcash_mainnet = wcash_schedule"
  by (simp_all add: live_wcash_mainnet_def uses_wcash_consensus_def wcash_network_def current_def
      activation_list_of_def wcash_current)

lemma live_activation: "upgrade_activation_height nu live_wcash_mainnet =
    (if nu = Genesis then Some 0 else if nu = Nu7 then None else Some 1)"
proof -
  have "sorted_wrt (<) (map snd wcash_schedule)" using schedule_ok_wcash by (simp add: schedule_ok_def)
  from activation_height_eq [OF this] show ?thesis
    by (cases nu) (simp_all add: upgrade_activation_height_def live_wcash_mainnet(4) wcash_schedule_def
        less_eq_network_upgrade_def)
qed

lemmas accessor_defs = version_def is_coinbase_def has_sprout_joinsplit_data_def has_sapling_shielded_data_def
  has_orchard_shielded_data_def has_ironwood_shielded_data_def has_transparent_or_shielded_inputs_def
  has_transparent_or_shielded_outputs_def has_transparent_inputs_def has_transparent_outputs_def
  has_enough_orchard_flags_def has_enough_ironwood_flags_def embedded_consensus_branch_id_def
  proof_size_is_canonical_def is_overwintered_def expiry_height_def is_valid_non_coinbase_def
  output_values_to_sprout_def input_values_from_sprout_def joinsplits_def sprout_nullifiers_def
  sapling_nullifiers_def sapling_spends_def orchard_nullifiers_def ironwood_nullifiers_def
  ironwood_actions_def bundle_actions_def auth_digest_def

lemma sample_payment_wf: "tx_wf sample_payment" "spent_outpoints sample_payment = [OutPoint [1] 0]"
  by (simp_all add: tx_wf_def sample_payment_def u32_max_def balance_ok_def MAX_SINGLE_TRANSACTION_VALUE_def
      COIN_def joinsplits_def spent_outpoints_def List.map_filter_def)

lemma sample_checks:
  "has_inputs_and_outputs sample_payment = Ok ()"
  "check_enough_orchard_flags sample_payment = Ok ()"
  "check_enough_ironwood_flags sample_payment = Ok ()"
  "orchard_cross_address_disabled sample_payment = Ok ()"
  "orchard_value_balance_non_negative Wcash_profile sample_payment Nu6_3 = Ok ()"
  "coinbase_orchard_component_empty sample_payment Nu6_3 = Ok ()"
  "non_coinbase_expiry_height 80 sample_payment = Ok ()"
  "joinsplit_has_vpub_zero sample_payment = Ok ()"
  "disabled_add_to_sprout_pool sample_payment 80 live_wcash_mainnet = Ok ()"
  "spend_conflicts sample_payment = Ok ()"
  by (simp_all add: has_inputs_and_outputs_def check_enough_orchard_flags_def check_enough_ironwood_flags_def
      orchard_cross_address_disabled_def orchard_value_balance_non_negative_def coinbase_orchard_component_empty_def
      non_coinbase_expiry_height_def validate_expiry_height_max_def validate_expiry_height_mined_def
      joinsplit_has_vpub_zero_def disabled_add_to_sprout_pool_def live_activation fail_if_def
      spend_conflicts_Ok sample_payment_wf(2))
    (simp_all add: accessor_defs sample_payment_def MAX_EXPIRY_HEIGHT_def)

lemma sample_branch: "consensus_branch_id sample_payment 80 live_wcash_mainnet = Ok ()"
proof -
  have "version sample_payment = 6" "embedded_consensus_branch_id sample_payment = Some WCASH_MAINNET_V1_BRANCH_ID"
    by (simp_all add: embedded_consensus_branch_id_def version_def sample_payment_def WCASH_MAINNET_V1_BRANCH_ID_def)
  then show ?thesis
    by (simp add: consensus_branch_id_def live_wcash_mainnet current_branch_id_def for_network_upgrade_def
        less_network_upgrade_def)
qed

lemma sample_common: "check_common_consensus_rules Wcash_profile psize sample_payment 80 live_wcash_mainnet = Ok ()"
proof -
  have "tx_version sample_payment = V6" "\<not> has_sprout_joinsplit_data sample_payment" "\<not> has_sapling_shielded_data sample_payment"
    "\<not> has_orchard_shielded_data sample_payment" "\<not> is_coinbase sample_payment" "is_valid_non_coinbase sample_payment"
    "proof_size_is_canonical psize (orchard_bundle sample_payment)" "proof_size_is_canonical psize (ironwood_bundle sample_payment)"
    by (simp_all add: accessor_defs sample_payment_def)
  then show ?thesis
    by (simp add: check_common_consensus_rules_def check_structure_and_network_rules_def check_transaction_invariants_def
        live_wcash_mainnet sample_checks sample_branch)
qed

lemma sample_fee: "miner_fee Wcash_profile sample_payment sample_utxos = Ok (Amount 700)"
proof -
  have cov: "utxos_cover Wcash_profile sample_utxos sample_payment"
    by (simp add: utxos_cover_def sample_payment_wf sample_utxos_def money_defs)
  have "input_total sample_utxos sample_payment = 1000"
    by (simp add: input_total_def sample_payment_wf(2) spend_value_def sample_utxos_def)
  moreover have "output_total sample_payment = 300" "snd (snd (shielded_balance sample_payment)) = 0"
    by (simp_all add: output_total_def shielded_balance_def sample_payment_def)
  ultimately show ?thesis using miner_fee_cases(3) [OF sample_payment_wf(1) cov, of "Amount 700"]
    by (simp add: money_defs) (simp add: sample_payment_def)
qed

lemma sample_spent: "block_spent_utxos sample_payment Map.empty sample_utxos = Ok sample_utxos"
  by (simp add: block_spent_utxos_def sample_payment_def sample_utxos_def)

lemma sample_accepted:
  "verify_block_transaction Wcash_profile sample_library live_wcash_mainnet sample_utxos sample_request =
    Ok \<lparr>response_id = Witnessed [2] [3], response_fee = Some (Amount 700), response_sigops = 1\<rparr>"
proof -
  have "lock_time_has_passed sample_payment 80 (Some 0) = Ok ()"
    unfolding lock_time_has_passed_eq [OF sample_payment_wf(1)] by (simp add: sample_payment_def)
  moreover have "dispatch_version_verification sample_library sample_payment Nu6_3 = Ok True"
    by (simp add: dispatch_version_verification_def verify_v6_transaction_network_upgrade_def sample_tx_defs)
  moreover have "\<not> is_coinbase sample_payment" "auth_digest sample_payment = Some [3]"
    by (simp_all add: is_coinbase_def auth_digest_def sample_payment_def)
  moreover have "req_transaction sample_request = sample_payment" "req_height sample_request = 80"
    "req_known_utxos sample_request = Map.empty" "req_time sample_request = 0" "req_hash sample_request = [2]"
    "sighash_supported sample_library sample_payment Nu6_3" "sigops sample_library sample_payment = Some 1"
    "p2sh_sigops sample_library sample_payment = 0"
    by (simp_all add: sample_request_def sample_library_def)
  ultimately show ?thesis
    by (simp add: verify_block_transaction_def live_wcash_mainnet sample_common sample_spent sample_fee
        fail_if_def saturating_add_u32_def u32_max_def)
qed

theorem miner_fee_exact_witness:
  "tx_wf sample_payment \<and> utxos_cover Wcash_profile sample_utxos sample_payment
    \<and> miner_fee Wcash_profile sample_payment sample_utxos = Ok (Amount 700)"
proof -
  have cov: "utxos_cover Wcash_profile sample_utxos sample_payment"
    by (simp add: utxos_cover_def sample_payment_wf sample_utxos_def money_defs)
  from miner_fee_exact [OF sample_payment_wf(1) cov, of "Amount 700"] cov show ?thesis
    by (simp add: sample_payment_wf(1) sample_fee)
qed

theorem lock_time_rule_witness:
  "tx_wf sample_payment \<and> lock_time_has_passed sample_payment 7 (Some 0) \<noteq> Ok ()
    \<and> lock_time_has_passed sample_payment 8 (Some 0) = Ok ()"
  using lock_time_rule [OF sample_payment_wf(1), of 7 0] lock_time_rule [OF sample_payment_wf(1), of 8 0]
    sample_payment_wf(1)
  by (simp add: sample_payment_def u32_max_def)

theorem spend_conflicts_exact_witness:
  "spend_conflicts (sample_payment\<lparr>inputs := [PrevOut (OutPoint [1] 0) [] 5, PrevOut (OutPoint [1] 0) [] 6]\<rparr>)
    = Err (Dup_Transparent_Spend (OutPoint [1] 0))
    \<and> spend_conflicts sample_payment = Ok ()"
  using spend_conflicts_exact [of sample_payment]
  by (simp add: sample_payment_wf)
    (simp add: spend_conflicts_def check_for_duplicates_def spent_outpoints_def List.map_filter_def accessor_defs sample_payment_def)

theorem wcash_transaction_accepted_witness:
  "tx_version sample_payment = V6 \<and> distinct (spent_outpoints sample_payment)
    \<and> is_valid_non_coinbase sample_payment
    \<and> for_network_upgrade live_wcash_mainnet Nu6_3 = Some (zp_branch_id sample_payment)"
proof -
  have pre: "sample_payment = req_transaction sample_request" "80 = req_height sample_request"
    "uses_wcash_consensus live_wcash_mainnet" "(0 :: nat) < 80"
    "\<And>op u. sample_utxos op = Some u \<Longrightarrow> amount_ok Wcash_profile NonNegative (output_value (utxo_output u))"
    "\<And>op ou. req_known_utxos sample_request op = Some ou \<Longrightarrow>
      amount_ok Wcash_profile NonNegative (output_value (utxo_output (ordered_inner ou)))"
    by (auto simp: live_wcash_mainnet sample_request_def sample_utxos_def money_defs split: if_splits)
  have "\<not> is_coinbase sample_payment" by (simp add: is_coinbase_def sample_payment_def)
  with wcash_transaction_accepted [OF sample_accepted pre(1-4) sample_payment_wf(1) pre(5,6)] show ?thesis
    by (simp add: live_wcash_mainnet)
qed

end
