(* ===== verification/Note_Tree.thy ===== *)
theory Note_Tree
  imports Transaction
begin

text \<open>
  Note commitment trees, from \<^verbatim>\<open>zebra-chain/src/sapling/tree.rs\<close> (the Orchard and Ironwood trees have
  the same functions in \<^verbatim>\<open>zebra-chain/src/orchard/tree.rs\<close>), \<^verbatim>\<open>zebra-chain/src/sprout/tree.rs\<close>,
  \<^verbatim>\<open>zebra-chain/src/subtree.rs\<close> and the parallel update of all trees by a block from
  \<^verbatim>\<open>zebra-chain/src/parallel/tree.rs\<close>.

  The Merkle frontier and its addresses belong to a library; \<open>frontier_lib\<close> holds the functions of it
  that are called and \<open>frontier_ok\<close> states what its documentation says of them.  A tree is a frontier
  with a cached root.

  The properties: the cached root always is the root of the frontier, the comparison of two trees
  finds a new subtree exactly when the number of notes crosses a multiple of 65536, and the subtree
  that is recorded while the notes of a block are appended is the one this comparison finds.
\<close>

section \<open>The frontier library\<close>

record 'f frontier_lib =
  fr_empty :: 'f
  fr_append :: "bytes \<Rightarrow> 'f \<Rightarrow> 'f option"
  fr_position :: "'f \<Rightarrow> nat option"
  fr_root :: "'f \<Rightarrow> bytes"
  fr_subtree_root :: "nat \<Rightarrow> 'f \<Rightarrow> bytes"
  position_complete :: "nat \<Rightarrow> nat \<Rightarrow> bool"
  above_index :: "nat \<Rightarrow> nat \<Rightarrow> nat"
  above_max_position :: "nat \<Rightarrow> nat \<Rightarrow> nat"
  above_range_start :: "nat \<Rightarrow> nat \<Rightarrow> nat"
  above_range_end :: "nat \<Rightarrow> nat \<Rightarrow> nat"

definition frontier_ok :: "'f frontier_lib \<Rightarrow> bool" where
  "frontier_ok lib \<longleftrightarrow>
     fr_position lib (fr_empty lib) = None
     \<and> (\<forall>cm f f'. fr_append lib cm f = Some f' \<longrightarrow>
          fr_position lib f' = Some (case fr_position lib f of None \<Rightarrow> 0 | Some p \<Rightarrow> Suc p))
     \<and> (\<forall>f p. fr_position lib f = Some p \<longrightarrow> p < 2 ^ 32)
     \<and> (\<forall>l p. position_complete lib l p \<longleftrightarrow> Suc p mod 2 ^ l = 0)
     \<and> (\<forall>l p. above_index lib l p = p div 2 ^ l)
     \<and> (\<forall>l p. above_max_position lib l p = (p div 2 ^ l + 1) * 2 ^ l - 1)
     \<and> (\<forall>l p. above_range_start lib l p = (p div 2 ^ l) * 2 ^ l)
     \<and> (\<forall>l p. above_range_end lib l p = (p div 2 ^ l + 1) * 2 ^ l)"

section \<open>The tree\<close>

definition TRACKED_SUBTREE_HEIGHT :: nat where "TRACKED_SUBTREE_HEIGHT = 16"

record 'f note_commitment_tree =
  inner :: 'f
  cached_root :: "bytes option"

datatype tree_error = FullTree

text \<open>The error of the trees of a block names the pool.\<close>

datatype note_tree_error = Sprout_tree tree_error | Sapling_tree tree_error | Orchard_tree tree_error | Ironwood_tree tree_error

definition tree_default :: "'f frontier_lib \<Rightarrow> 'f note_commitment_tree" where
  "tree_default lib = \<lparr>inner = fr_empty lib, cached_root = None\<rparr>"

definition append_note :: "'f frontier_lib \<Rightarrow> bytes \<Rightarrow> 'f note_commitment_tree \<Rightarrow> (tree_error, 'f note_commitment_tree) outcome" where
  "append_note lib cm t =
     (case fr_append lib cm (inner t) of
        Some f \<Rightarrow> Ok (t\<lparr>inner := f, cached_root := None\<rparr>)
      | None \<Rightarrow> Err FullTree)"

definition tree_position :: "'f frontier_lib \<Rightarrow> 'f note_commitment_tree \<Rightarrow> nat option" where
  "tree_position lib t = fr_position lib (inner t)"

definition tree_count :: "'f frontier_lib \<Rightarrow> 'f note_commitment_tree \<Rightarrow> nat" where
  "tree_count lib t = (case fr_position lib (inner t) of None \<Rightarrow> 0 | Some p \<Rightarrow> p + 1)"

definition is_complete_subtree :: "'f frontier_lib \<Rightarrow> 'f note_commitment_tree \<Rightarrow> bool" where
  "is_complete_subtree lib t =
     (case fr_position lib (inner t) of None \<Rightarrow> False | Some p \<Rightarrow> position_complete lib TRACKED_SUBTREE_HEIGHT p)"

definition subtree_index_from_u64 :: "nat \<Rightarrow> nat option" where
  "subtree_index_from_u64 n = (if n < 2 ^ 16 then Some n else None)"

definition subtree_index :: "'f frontier_lib \<Rightarrow> 'f note_commitment_tree \<Rightarrow> ('e, nat option) outcome" where
  "subtree_index lib t =
     (case fr_position lib (inner t) of
        None \<Rightarrow> Ok None
      | Some p \<Rightarrow> map_ok Some (expect (subtree_index_from_u64 (above_index lib TRACKED_SUBTREE_HEIGHT p))))"

definition contains_new_subtree ::
  "'f frontier_lib \<Rightarrow> 'f note_commitment_tree \<Rightarrow> 'f note_commitment_tree \<Rightarrow> ('e, bool) outcome" where
  "contains_new_subtree lib t prev_tree =
     qbind (subtree_index lib t) (\<lambda>i.
     qbind (subtree_index lib prev_tree) (\<lambda>j.
       let index = (case i of None \<Rightarrow> -1 | Some n \<Rightarrow> int n);
           prev_index = (case j of None \<Rightarrow> -1 | Some n \<Rightarrow> int n);
           index_difference = index - prev_index in
       Ok (if index < prev_index then False
           else if index_difference > 1 then True
           else if index = prev_index then is_complete_subtree lib t
           else if is_complete_subtree lib t then True
           else if is_complete_subtree lib prev_tree \<or> prev_index = -1 then False
           else True)))"

definition remaining_subtree_leaf_nodes :: "'f frontier_lib \<Rightarrow> 'f note_commitment_tree \<Rightarrow> ('e, nat) outcome" where
  "remaining_subtree_leaf_nodes lib t =
     (case fr_position lib (inner t) of
        Some p \<Rightarrow> Ok (above_max_position lib TRACKED_SUBTREE_HEIGHT p - p)
      | None \<Rightarrow>
          qbind (assert_that (above_range_start lib TRACKED_SUBTREE_HEIGHT 0 = 0)) (\<lambda>_.
            Ok (above_range_end lib TRACKED_SUBTREE_HEIGHT 0)))"

definition completed_subtree_index_and_root ::
  "'f frontier_lib \<Rightarrow> 'f note_commitment_tree \<Rightarrow> ('e, (nat \<times> bytes) option) outcome" where
  "completed_subtree_index_and_root lib t =
     (if \<not> is_complete_subtree lib t then Ok None
      else map_ok (map_option (\<lambda>index. (index, fr_subtree_root lib TRACKED_SUBTREE_HEIGHT (inner t)))) (subtree_index lib t))"

text \<open>The root, with the tree in which it is cached, and the comparison of two trees.\<close>

definition tree_root :: "'f frontier_lib \<Rightarrow> 'f note_commitment_tree \<Rightarrow> bytes \<times> 'f note_commitment_tree" where
  "tree_root lib t =
     (case cached_root t of
        Some root \<Rightarrow> (root, t)
      | None \<Rightarrow> (fr_root lib (inner t), t\<lparr>cached_root := Some (fr_root lib (inner t))\<rparr>))"

definition tree_eq :: "'f note_commitment_tree \<Rightarrow> 'f note_commitment_tree \<Rightarrow> bool" where
  "tree_eq t other =
     (case (cached_root t, cached_root other) of
        (Some root, Some other_root) \<Rightarrow> root = other_root
      | _ \<Rightarrow> inner t = inner other)"

section \<open>The notes of a block\<close>

fun append_notes :: "'f frontier_lib \<Rightarrow> bytes list \<Rightarrow> 'f note_commitment_tree \<Rightarrow> (tree_error, 'f note_commitment_tree) outcome" where
  "append_notes lib [] t = Ok t"
| "append_notes lib (cm # cms) t = qbind (append_note lib cm t) (append_notes lib cms)"

definition update_sprout_note_commitment_tree ::
  "'f frontier_lib \<Rightarrow> 'f note_commitment_tree \<Rightarrow> bytes list \<Rightarrow> (tree_error, 'f note_commitment_tree) outcome" where
  "update_sprout_note_commitment_tree lib t cms = map_ok (\<lambda>t'. snd (tree_root lib t')) (append_notes lib cms t)"

fun append_notes_with_subtrees ::
  "'f frontier_lib \<Rightarrow> bytes list \<Rightarrow> 'f note_commitment_tree \<Rightarrow> (nat \<times> bytes) option
    \<Rightarrow> (tree_error, 'f note_commitment_tree \<times> (nat \<times> bytes) option) outcome" where
  "append_notes_with_subtrees lib [] t subtree_root = Ok (t, subtree_root)"
| "append_notes_with_subtrees lib (cm # cms) t subtree_root =
     qbind (append_note lib cm t) (\<lambda>t'.
     qbind (completed_subtree_index_and_root lib t') (\<lambda>completed.
       append_notes_with_subtrees lib cms t' (case completed of Some c \<Rightarrow> Some c | None \<Rightarrow> subtree_root)))"

definition update_note_commitment_tree ::
  "'f frontier_lib \<Rightarrow> 'f note_commitment_tree \<Rightarrow> bytes list
    \<Rightarrow> (tree_error, 'f note_commitment_tree \<times> (nat \<times> bytes) option) outcome" where
  "update_note_commitment_tree lib t cms =
     map_ok (\<lambda>(t', subtree_root). (snd (tree_root lib t'), subtree_root)) (append_notes_with_subtrees lib cms t None)"

section \<open>Facts\<close>

definition cache_ok :: "'f frontier_lib \<Rightarrow> 'f note_commitment_tree \<Rightarrow> bool" where
  "cache_ok lib t \<longleftrightarrow> cached_root t \<in> {None, Some (fr_root lib (inner t))}"

lemma frontier_okD:
  assumes "frontier_ok lib"
  shows "fr_append lib cm f = Some f' \<Longrightarrow> fr_position lib f' = Some (case fr_position lib f of None \<Rightarrow> 0 | Some p \<Rightarrow> Suc p)"
    and "fr_position lib f = Some p \<Longrightarrow> p < 2 ^ 32"
    and "position_complete lib l p \<longleftrightarrow> Suc p mod 2 ^ l = 0" and "above_index lib l p = p div 2 ^ l"
  using assms unfolding frontier_ok_def by auto

lemma append_count:
  assumes "frontier_ok lib" "append_note lib cm t = Ok t'"
  shows "tree_count lib t' = Suc (tree_count lib t)"
  using assms(2) frontier_okD(1) [OF assms(1), of cm "inner t"]
  by (auto simp: append_note_def tree_count_def split: option.splits)

lemma complete_count:
  assumes "frontier_ok lib"
  shows "is_complete_subtree lib t \<longleftrightarrow> 0 < tree_count lib t \<and> tree_count lib t mod 2 ^ 16 = 0"
  by (simp add: is_complete_subtree_def tree_count_def TRACKED_SUBTREE_HEIGHT_def frontier_okD(3) [OF assms] split: option.splits)

definition subtree_of_count :: "nat \<Rightarrow> nat option" where
  "subtree_of_count c = (if c = 0 then None else Some ((c - 1) div 2 ^ 16))"

lemma subtree_index_count:
  assumes "frontier_ok lib"
  shows "subtree_index lib t = Ok (subtree_of_count (tree_count lib t))"
proof (cases "fr_position lib (inner t)")
  case (Some p)
  have "p div 2 ^ 16 < 2 ^ 16" using frontier_okD(2) [OF assms Some] by (simp add: less_mult_imp_div_less)
  with Some show ?thesis
    by (simp add: subtree_index_def tree_count_def subtree_of_count_def TRACKED_SUBTREE_HEIGHT_def
        frontier_okD(4) [OF assms] subtree_index_from_u64_def)
qed (simp add: subtree_index_def tree_count_def subtree_of_count_def)

text \<open>The number of subtrees that are complete.\<close>

definition complete_subtrees :: "'f frontier_lib \<Rightarrow> 'f note_commitment_tree \<Rightarrow> nat" where
  "complete_subtrees lib t = tree_count lib t div 2 ^ 16"

text \<open>The index that the comparison uses: the complete subtrees, less one if the last note completed one.\<close>

lemma index_of_count:
  "(case subtree_of_count c of None \<Rightarrow> -1 | Some n \<Rightarrow> int n) = int (c div 2 ^ 16) - (if c mod 2 ^ 16 = 0 then 1 else 0)"
proof (cases c)
  case (Suc n)
  then show ?thesis by (auto simp: subtree_of_count_def div_Suc)
qed (simp add: subtree_of_count_def)

lemma contains_new_subtree_count:
  assumes "frontier_ok lib" "c = tree_count lib t" "d = tree_count lib prev_tree"
  shows "contains_new_subtree lib t prev_tree =
    Ok (if c = d then 0 < c \<and> c mod 2 ^ 16 = 0 else d div 2 ^ 16 < c div 2 ^ 16)"
proof -
  define qc rc qd rd where q: "qc = c div 2 ^ 16" "rc = c mod 2 ^ 16" "qd = d div 2 ^ 16" "rd = d mod 2 ^ 16"
  have c: "c = 2 ^ 16 * qc + rc" and d: "d = 2 ^ 16 * qd + rd" unfolding q by (simp_all only: mult_div_mod_eq)
  have eq: "c = d \<longleftrightarrow> qc = qd \<and> rc = rd"
  proof
    assume "c = d"
    then show "qc = qd \<and> rc = rd" by (simp only: q)
  qed (simp only: c d)
  have zero: "0 < c \<longleftrightarrow> 0 < qc \<or> 0 < rc" "0 < d \<longleftrightarrow> 0 < qd \<or> 0 < rd"
    by (simp_all only: c d add_gr_0 nat_0_less_mult_iff zero_less_power zero_less_numeral simp_thms)
  let ?i = "int qc - (if rc = 0 then 1 else 0)" and ?j = "int qd - (if rd = 0 then 1 else 0)"
  have "contains_new_subtree lib t prev_tree = Ok (if ?i < ?j then False else if ?i - ?j > 1 then True
      else if ?i = ?j then 0 < c \<and> rc = 0 else if 0 < c \<and> rc = 0 then True
      else if 0 < d \<and> rd = 0 \<or> ?j = -1 then False else True)"
    by (simp only: contains_new_subtree_def subtree_index_count [OF assms(1)] complete_count [OF assms(1)]
        assms(2,3) [symmetric] index_of_count q [symmetric] qbind.simps Let_def)
  also have "\<dots> = Ok (if c = d then 0 < c \<and> rc = 0 else qd < qc)"
    unfolding eq zero by (cases "rc = 0"; cases "rd = 0") auto
  finally show ?thesis unfolding q .
qed

lemma completed_count:
  assumes "frontier_ok lib" "tree_count lib t' = Suc c"
  shows "(completed_subtree_index_and_root lib t' :: (tree_error, _) outcome) =
    Ok (if c div 2 ^ 16 < Suc c div 2 ^ 16 then Some (c div 2 ^ 16, fr_subtree_root lib TRACKED_SUBTREE_HEIGHT (inner t')) else None)"
  by (simp add: completed_subtree_index_and_root_def complete_count [OF assms(1)] subtree_index_count [OF assms(1)] assms(2)
      subtree_of_count_def div_Suc)

lemma append_notes_with_subtrees_count:
  assumes "frontier_ok lib"
  shows "append_notes_with_subtrees lib cms t s = Ok (t', s') \<Longrightarrow>
    tree_count lib t' = tree_count lib t + length cms
    \<and> (if complete_subtrees lib t = complete_subtrees lib t' then s' = s
       else \<exists>root. s' = Some (complete_subtrees lib t' - 1, root))"
proof (induction cms arbitrary: t s)
  case (Cons cm cms)
  from Cons.prems obtain u where u: "append_note lib cm t = Ok u" by auto
  note count = append_count [OF assms u]
  note completed = completed_count [OF assms count]
  let ?new = "tree_count lib t div 2 ^ 16 < Suc (tree_count lib t) div 2 ^ 16"
  from Cons.prems u completed have rest: "append_notes_with_subtrees lib cms u
      (if ?new then Some (tree_count lib t div 2 ^ 16, fr_subtree_root lib TRACKED_SUBTREE_HEIGHT (inner u)) else s) = Ok (t', s')"
    by (auto split: if_splits)
  from Cons.IH [OF rest] have IH: "tree_count lib t' = tree_count lib u + length cms"
    "if complete_subtrees lib u = complete_subtrees lib t'
     then s' = (if ?new then Some (tree_count lib t div 2 ^ 16, fr_subtree_root lib TRACKED_SUBTREE_HEIGHT (inner u)) else s)
     else \<exists>root. s' = Some (complete_subtrees lib t' - 1, root)" by auto
  have u_count: "complete_subtrees lib u = (if ?new then Suc (complete_subtrees lib t) else complete_subtrees lib t)"
    by (simp add: complete_subtrees_def count div_Suc)
  moreover have "complete_subtrees lib u \<le> complete_subtrees lib t'"
    unfolding complete_subtrees_def IH(1) by (simp add: div_le_mono)
  ultimately show ?case
    using IH count by (auto simp: complete_subtrees_def split: if_splits)
qed (simp add: complete_subtrees_def)

lemma append_notes_cache:
  "append_notes_with_subtrees lib cms t s = Ok (t', s') \<Longrightarrow> cache_ok lib t \<Longrightarrow> cache_ok lib t'"
proof (induction cms arbitrary: t s)
  case (Cons cm cms)
  from Cons.prems(1) obtain u s1 where u: "append_note lib cm t = Ok u" "append_notes_with_subtrees lib cms u s1 = Ok (t', s')"
    by auto
  from u(1) have "cache_ok lib u" by (auto simp: append_note_def cache_ok_def split: option.splits)
  with Cons.IH u(2) show ?case by blast
qed simp

lemma tree_root_cache: "cache_ok lib t \<Longrightarrow> tree_root lib t = (fr_root lib (inner t), t\<lparr>cached_root := Some (fr_root lib (inner t))\<rparr>)"
  by (cases t) (auto simp: cache_ok_def tree_root_def)

section \<open>Properties\<close>

text \<open>
  C29. What the notes of a block do to a tree.  The number of notes grows by the number of the
  commitments, the root of the new tree is cached and is the root of its frontier, and the subtree that is
  recorded on the way is the last one the notes completed: there is one exactly when the number of complete
  subtrees grew, and its index is the number of complete subtrees less one.  The comparison
  of the new tree with the old one finds a new subtree in exactly the same case, so the subtrees found block
  by block and those found by comparing stored trees agree.  A block of fewer than 65536 notes
  completes at most one subtree.
\<close>

theorem block_subtree_exact:
  assumes "frontier_ok lib" "cache_ok lib t" "cms \<noteq> []"
    and "update_note_commitment_tree lib t cms = Ok (t', subtree)"
  shows "tree_count lib t' = tree_count lib t + length cms
    \<and> cached_root t' = Some (fr_root lib (inner t'))
    \<and> (subtree \<noteq> None \<longleftrightarrow> complete_subtrees lib t < complete_subtrees lib t')
    \<and> (\<forall>index root. subtree = Some (index, root) \<longrightarrow> Suc index = complete_subtrees lib t')
    \<and> (contains_new_subtree lib t' t :: ('e, bool) outcome) = Ok (subtree \<noteq> None)
    \<and> (length cms < 2 ^ 16 \<longrightarrow> complete_subtrees lib t' \<le> Suc (complete_subtrees lib t))"
proof -
  from assms(4) obtain u where u: "append_notes_with_subtrees lib cms t None = Ok (u, subtree)" "t' = snd (tree_root lib u)"
    by (auto simp: update_note_commitment_tree_def)
  note count = append_notes_with_subtrees_count [OF assms(1) u(1)]
  have t': "t' = u\<lparr>cached_root := Some (fr_root lib (inner u))\<rparr>"
    using u(2) tree_root_cache [OF append_notes_cache [OF u(1) assms(2)]] by simp
  then have same: "tree_count lib t' = tree_count lib u" "complete_subtrees lib t' = complete_subtrees lib u"
    by (simp_all add: tree_count_def complete_subtrees_def)
  have le: "complete_subtrees lib t \<le> complete_subtrees lib t'"
    unfolding same complete_subtrees_def by (simp add: count div_le_mono)
  have diff: "tree_count lib t' \<noteq> tree_count lib t" using count same assms(3) by auto
  have sub: "if complete_subtrees lib t = complete_subtrees lib t' then subtree = None
      else \<exists>root. subtree = Some (complete_subtrees lib t' - 1, root)"
    using count unfolding same by blast
  then have some: "subtree \<noteq> None \<longleftrightarrow> complete_subtrees lib t < complete_subtrees lib t'" using le by (auto split: if_splits)
  have "(contains_new_subtree lib t' t :: ('e, bool) outcome) = Ok (complete_subtrees lib t < complete_subtrees lib t')"
    using contains_new_subtree_count [OF assms(1) refl refl, of t' t] diff by (simp add: complete_subtrees_def)
  moreover have "complete_subtrees lib t' \<le> Suc (complete_subtrees lib t)" if "length cms < 2 ^ 16"
  proof -
    have "tree_count lib t' \<le> tree_count lib t + 2 ^ 16" using that count same by simp
    then have "tree_count lib t' div 2 ^ 16 \<le> (tree_count lib t + 2 ^ 16) div 2 ^ 16" by (rule div_le_mono)
    then show ?thesis by (simp add: complete_subtrees_def)
  qed
  ultimately show ?thesis using count same some sub le t' by (auto split: if_splits)
qed

text \<open>
  The comparison reports a new subtree where there is none: of two trees with the same notes,
  whose last note completed a subtree, each contains a new subtree compared with the other.
\<close>

lemma unchanged_tree_contains_new_subtree:
  assumes "frontier_ok lib" "tree_count lib t = 2 ^ 16"
  shows "contains_new_subtree lib t t = Ok True"
  using contains_new_subtree_count [OF assms(1) refl refl, of t t] assms(2) by simp

text \<open>A frontier that keeps all the leaves, and a tree with one note less than a whole subtree.\<close>

definition leaf_frontier :: "bytes list frontier_lib" where
  "leaf_frontier = \<lparr>fr_empty = [],
     fr_append = (\<lambda>cm f. if length f < 2 ^ 32 then Some (f @ [cm]) else None),
     fr_position = (\<lambda>f. if f = [] then None else Some (min (length f - 1) (2 ^ 32 - 1))),
     fr_root = concat, fr_subtree_root = (\<lambda>l f. concat (take (2 ^ l) f)),
     position_complete = (\<lambda>l p. Suc p mod 2 ^ l = 0), above_index = (\<lambda>l p. p div 2 ^ l),
     above_max_position = (\<lambda>l p. (p div 2 ^ l + 1) * 2 ^ l - 1), above_range_start = (\<lambda>l p. (p div 2 ^ l) * 2 ^ l),
     above_range_end = (\<lambda>l p. (p div 2 ^ l + 1) * 2 ^ l)\<rparr>"

lemma leaf_frontier_ok: "frontier_ok leaf_frontier"
  by (auto simp: frontier_ok_def leaf_frontier_def min_def)

definition almost_full :: "bytes list note_commitment_tree" where
  "almost_full = \<lparr>inner = replicate 65535 [1], cached_root = None\<rparr>"

theorem block_subtree_exact_witness:
  "\<exists>t'. update_note_commitment_tree leaf_frontier almost_full [[2], [3]] = Ok (t', Some (0, concat (replicate 65535 [1]) @ [2]))
    \<and> tree_count leaf_frontier t' = 65537
    \<and> (contains_new_subtree leaf_frontier t' almost_full :: (unit, bool) outcome) = Ok True"
proof -
  obtain t' where t': "update_note_commitment_tree leaf_frontier almost_full [[2], [3]] = Ok (t', Some (0, concat (replicate 65535 [1]) @ [2]))"
    by (simp add: update_note_commitment_tree_def append_note_def almost_full_def leaf_frontier_def
        completed_subtree_index_and_root_def is_complete_subtree_def subtree_index_def TRACKED_SUBTREE_HEIGHT_def
        subtree_index_from_u64_def min_def)
  have "cache_ok leaf_frontier almost_full" by (simp add: cache_ok_def almost_full_def)
  moreover have "tree_count leaf_frontier almost_full = 65535"
    by (simp add: tree_count_def leaf_frontier_def almost_full_def min_def)
  ultimately show ?thesis
    using block_subtree_exact [OF leaf_frontier_ok _ _ t', where 'e = unit] t' by simp
qed

end
