(* ===== verification/Utxo_Check.thy ===== *)
theory Utxo_Check
  imports Tx_Check Note_Tree
begin

text \<open>
  The spends of a block in the context of its chain, from
  \<^verbatim>\<open>zebra-state/src/service/check/utxo.rs\<close>, and the nullifier indexes of a chain, from
  \<^verbatim>\<open>zebra-state/src/service/check/nullifier.rs\<close>.

  \<open>transparent_spend\<close> looks up every transparent input of a block: in the outputs of earlier
  transactions of the block, in the unspent outputs of the non-finalized chain, in the database.
  The database is an argument (its \<^verbatim>\<open>utxo\<close> and \<^verbatim>\<open>contains_nullifier\<close> answers).
\<close>

section \<open>Errors\<close>

text \<open>
  The variants of \<^verbatim>\<open>ValidateContextError\<close> that the checks of spends and the chain updates return.
  The errors of the history tree library are kept without their details.
\<close>

datatype history_error = InnerError | IOError

datatype commitment_error =
    InvalidChainHistoryActivationReserved bytes
  | InvalidChainHistoryRoot bytes bytes
  | InvalidChainHistoryBlockTxAuthCommitment bytes bytes
  | MissingBlockHeight bytes
  | InvalidSapingRootBytes

datatype spend_error =
    BlockPreviouslyInvalidated bytes
  | NotReadyToBeCommitted
  | DuplicateTransparentSpend outpoint string
  | MissingTransparentOutput outpoint string
  | EarlyTransparentSpend outpoint
  | UnshieldedTransparentCoinbaseSpend outpoint
  | ImmatureTransparentCoinbaseSpend outpoint height height height
  | DuplicateSproutNullifier bytes bool
  | DuplicateSaplingNullifier bytes bool
  | DuplicateOrchardNullifier bytes bool
  | DuplicateIronwoodNullifier bytes bool
  | NegativeRemainingTransactionValue amount_error height nat bytes
  | CalculateRemainingTransactionValue amount_error height nat bytes
  | CalculateTransactionValueBalances value_balance_error height nat bytes
  | CalculateBlockChainValueChange value_balance_error height bytes nat nat
  | AddValuePool value_balance_error value_balance value_balance "height option"
  | NoteCommitmentTreeError note_tree_error
  | HistoryTreeError history_error
  | InvalidBlockCommitment commitment_error
  | UnknownSproutAnchor bytes "height option" "nat option" bytes
  | UnknownSaplingAnchor bytes "height option" "nat option" bytes
  | UnknownOrchardAnchor bytes "height option" "nat option" bytes
  | UnknownIronwoodAnchor bytes "height option" "nat option" bytes

section \<open>Transparent spends\<close>

definition MIN_TRANSPARENT_COINBASE_MATURITY :: nat where
  "MIN_TRANSPARENT_COINBASE_MATURITY = 100"

text \<open>A semantically verified block, with the fields of the block and its header that the state reads.\<close>

record semantic_block =
  sv_transactions :: "transaction list"
  sv_hash :: bytes
  sv_height :: height
  sv_new_outputs :: "outpoint \<rightharpoonup> ordered_utxo"
  sv_transaction_hashes :: "bytes list"
  sv_previous_block_hash :: bytes
  sv_difficulty_threshold :: compact_difficulty
  sv_serialized_size :: nat
  sv_time :: int
  sv_commitment_bytes :: bytes

definition transparent_spend_chain_order ::
  "outpoint \<Rightarrow> nat \<Rightarrow> (outpoint \<rightharpoonup> ordered_utxo) \<Rightarrow> (outpoint \<rightharpoonup> ordered_utxo) \<Rightarrow> (outpoint \<rightharpoonup> bytes)
    \<Rightarrow> (outpoint \<rightharpoonup> ordered_utxo) \<Rightarrow> (spend_error, ordered_utxo) outcome" where
  "transparent_spend_chain_order spend i block_new_outputs chain_unspent chain_spent finalized =
     (case block_new_outputs spend of
        Some out \<Rightarrow>
          if tx_index_in_block out \<ge> i then Err (EarlyTransparentSpend spend) else Ok out
      | None \<Rightarrow>
          if chain_spent spend \<noteq> None
          then Err (DuplicateTransparentSpend spend ''the non-finalized chain'')
          else ok_or (case chain_unspent spend of Some out \<Rightarrow> Some out | None \<Rightarrow> finalized spend)
                 (MissingTransparentOutput spend ''the non-finalized and finalized chain''))"

definition transparent_coinbase_spend ::
  "outpoint \<Rightarrow> coinbase_spend_restriction \<Rightarrow> utxo \<Rightarrow> (spend_error, unit) outcome" where
  "transparent_coinbase_spend op restriction u =
     (if \<not> from_coinbase u then Ok ()
      else
        (case restriction of
           CheckCoinbaseMaturity spend_height \<Rightarrow>
             qbind (expect (height_add (utxo_height u) (int MIN_TRANSPARENT_COINBASE_MATURITY))) (\<lambda>min_spend_height.
               if spend_height \<ge> min_spend_height then Ok ()
               else Err (ImmatureTransparentCoinbaseSpend op spend_height min_spend_height (utxo_height u)))
         | DisallowCoinbaseSpend \<Rightarrow> Err (UnshieldedTransparentCoinbaseSpend op)))"

record spend_context =
  ctx_network :: network
  ctx_unspent :: "outpoint \<rightharpoonup> ordered_utxo"
  ctx_spent :: "outpoint \<rightharpoonup> bytes"
  ctx_finalized :: "outpoint \<rightharpoonup> ordered_utxo"

text \<open>The inner loop over the spends of transaction number \<open>i\<close>, and the outer loop.\<close>

fun spend_inputs ::
  "semantic_block \<Rightarrow> spend_context \<Rightarrow> nat \<Rightarrow> transaction \<Rightarrow> outpoint list \<Rightarrow> (outpoint \<rightharpoonup> ordered_utxo)
    \<Rightarrow> (spend_error, outpoint \<rightharpoonup> ordered_utxo) outcome" where
  "spend_inputs b ctx i tx [] block_spends = Ok block_spends"
| "spend_inputs b ctx i tx (spend # spends) block_spends =
     qbind (transparent_spend_chain_order spend i (sv_new_outputs b) (ctx_unspent ctx) (ctx_spent ctx)
              (ctx_finalized ctx)) (\<lambda>out.
     qbind (transparent_coinbase_spend spend
              (coinbase_spend_restriction_of tx (ctx_network ctx) (sv_height b)) (ordered_inner out)) (\<lambda>_.
       if block_spends spend \<noteq> None then Err (DuplicateTransparentSpend spend ''the same block'')
       else spend_inputs b ctx i tx spends (block_spends(spend \<mapsto> out))))"

fun spend_transactions ::
  "semantic_block \<Rightarrow> spend_context \<Rightarrow> nat \<Rightarrow> transaction list \<Rightarrow> (outpoint \<rightharpoonup> ordered_utxo)
    \<Rightarrow> (spend_error, outpoint \<rightharpoonup> ordered_utxo) outcome" where
  "spend_transactions b ctx i [] block_spends = Ok block_spends"
| "spend_transactions b ctx i (tx # txs) block_spends =
     qbind (spend_inputs b ctx i tx (spent_outpoints tx) block_spends)
       (\<lambda>m. spend_transactions b ctx (Suc i) txs m)"

definition remaining_value_of ::
  "profile \<Rightarrow> semantic_block \<Rightarrow> (outpoint \<rightharpoonup> utxo) \<Rightarrow> nat \<Rightarrow> transaction \<Rightarrow> (spend_error, unit) outcome" where
  "remaining_value_of p b utxos i tx =
     (if is_coinbase tx then Ok ()
      else
        (case tx_value_balance p utxos tx of
           Ok v \<Rightarrow>
             (case remaining_transaction_value p v of
                Ok _ \<Rightarrow> Ok ()
              | Err e \<Rightarrow>
                  qbind (expect (if i < length (sv_transaction_hashes b) then Some (sv_transaction_hashes b ! i) else None)) (\<lambda>hash.
                    Err (if (case e of Constraint _ _ \<Rightarrow> invalid_value e < 0 | _ \<Rightarrow> False)
                         then NegativeRemainingTransactionValue e (sv_height b) i hash
                         else CalculateRemainingTransactionValue e (sv_height b) i hash))
              | Panic \<Rightarrow> Panic)
         | Err e \<Rightarrow>
             qbind (expect (if i < length (sv_transaction_hashes b) then Some (sv_transaction_hashes b ! i) else None)) (\<lambda>hash.
               Err (CalculateTransactionValueBalances e (sv_height b) i hash))
         | Panic \<Rightarrow> Panic))"

definition block_remaining_transaction_value ::
  "profile \<Rightarrow> semantic_block \<Rightarrow> (outpoint \<rightharpoonup> ordered_utxo) \<Rightarrow> (spend_error, unit) outcome" where
  "block_remaining_transaction_value p b spends =
     (let utxos = utxos_from_ordered_utxos spends in
      for_each (\<lambda>(i, tx). remaining_value_of p b utxos i tx)
        (zip [0 ..< length (sv_transactions b)] (sv_transactions b)))"

definition transparent_spend ::
  "profile \<Rightarrow> semantic_block \<Rightarrow> spend_context \<Rightarrow> (spend_error, outpoint \<rightharpoonup> ordered_utxo) outcome" where
  "transparent_spend p b ctx =
     qbind (spend_transactions b ctx 0 (sv_transactions b) Map.empty) (\<lambda>block_spends.
     qbind (block_remaining_transaction_value p b block_spends) (\<lambda>_. Ok block_spends))"

section \<open>Nullifiers\<close>

text \<open>
  An index maps a nullifier to the transaction that revealed it.  Adding a nullifier twice is an
  error, removing a missing one is a panic.
\<close>

type_synonym nullifier_index = "bytes \<rightharpoonup> bytes"

fun add_to_non_finalized_chain_unique ::
  "(bytes \<Rightarrow> bool \<Rightarrow> spend_error) \<Rightarrow> nullifier_index \<Rightarrow> bytes list \<Rightarrow> bytes \<Rightarrow> (spend_error, nullifier_index) outcome" where
  "add_to_non_finalized_chain_unique dup idx [] tx_id = Ok idx"
| "add_to_non_finalized_chain_unique dup idx (nf # nfs) tx_id =
     (if idx nf \<noteq> None then Err (dup nf False)
      else add_to_non_finalized_chain_unique dup (idx(nf \<mapsto> tx_id)) nfs tx_id)"

fun remove_from_non_finalized_chain ::
  "nullifier_index \<Rightarrow> bytes list \<Rightarrow> ('e, nullifier_index) outcome" where
  "remove_from_non_finalized_chain idx [] = Ok idx"
| "remove_from_non_finalized_chain idx (nf # nfs) =
     qbind (assert_that (idx nf \<noteq> None)) (\<lambda>_. remove_from_non_finalized_chain (idx(nf := None)) nfs)"

record nullifier_database =
  contains_sprout :: "bytes \<Rightarrow> bool"
  contains_sapling :: "bytes \<Rightarrow> bool"
  contains_orchard :: "bytes \<Rightarrow> bool"
  contains_ironwood :: "bytes \<Rightarrow> bool"

definition no_duplicates_in_finalized_chain ::
  "nullifier_database \<Rightarrow> transaction list \<Rightarrow> (spend_error, unit) outcome" where
  "no_duplicates_in_finalized_chain db txs =
     qbind (for_each (\<lambda>nf. fail_if (contains_sprout db nf) (DuplicateSproutNullifier nf True))
              (concat (map sprout_nullifiers txs))) (\<lambda>_.
     qbind (for_each (\<lambda>nf. fail_if (contains_sapling db nf) (DuplicateSaplingNullifier nf True))
              (concat (map sapling_nullifiers txs))) (\<lambda>_.
     qbind (for_each (\<lambda>nf. fail_if (contains_orchard db nf) (DuplicateOrchardNullifier nf True))
              (concat (map orchard_nullifiers txs))) (\<lambda>_.
       for_each (\<lambda>nf. fail_if (contains_ironwood db nf) (DuplicateIronwoodNullifier nf True))
         (concat (map ironwood_nullifiers txs)))))"

definition find_duplicate_nullifier ::
  "(bytes \<Rightarrow> bool \<Rightarrow> spend_error) \<Rightarrow> bytes list \<Rightarrow> (bytes \<Rightarrow> bool) \<Rightarrow> (bytes \<Rightarrow> bool) option \<Rightarrow> (spend_error, unit) outcome" where
  "find_duplicate_nullifier dup revealed finalized_contains non_finalized_contains =
     for_each (\<lambda>nf.
       if map_option (\<lambda>f. f nf) non_finalized_contains = Some True then Err (dup nf False)
       else if finalized_contains nf then Err (dup nf True) else Ok ()) revealed"

record nullifier_sets =
  sprout_index :: nullifier_index
  sapling_index :: nullifier_index
  orchard_index :: nullifier_index
  ironwood_index :: nullifier_index

definition tx_no_duplicates_in_chain ::
  "nullifier_database \<Rightarrow> nullifier_sets option \<Rightarrow> transaction \<Rightarrow> (spend_error, unit) outcome" where
  "tx_no_duplicates_in_chain db chain tx =
     qbind (find_duplicate_nullifier DuplicateSproutNullifier (sprout_nullifiers tx) (contains_sprout db)
              (map_option (\<lambda>c nf. sprout_index c nf \<noteq> None) chain)) (\<lambda>_.
     qbind (find_duplicate_nullifier DuplicateSaplingNullifier (sapling_nullifiers tx) (contains_sapling db)
              (map_option (\<lambda>c nf. sapling_index c nf \<noteq> None) chain)) (\<lambda>_.
     qbind (find_duplicate_nullifier DuplicateOrchardNullifier (orchard_nullifiers tx) (contains_orchard db)
              (map_option (\<lambda>c nf. orchard_index c nf \<noteq> None) chain)) (\<lambda>_.
       find_duplicate_nullifier DuplicateIronwoodNullifier (ironwood_nullifiers tx) (contains_ironwood db)
         (map_option (\<lambda>c nf. ironwood_index c nf \<noteq> None) chain))))"

section \<open>Facts about spends\<close>

text \<open>One spend of a transaction, as the inner loop checks it.\<close>

definition valid_spend :: "semantic_block \<Rightarrow> spend_context \<Rightarrow> nat \<Rightarrow> transaction \<Rightarrow> outpoint \<Rightarrow> ordered_utxo \<Rightarrow> bool" where
  "valid_spend b ctx i tx op out \<longleftrightarrow>
     transparent_spend_chain_order op i (sv_new_outputs b) (ctx_unspent ctx) (ctx_spent ctx) (ctx_finalized ctx) = Ok out
     \<and> transparent_coinbase_spend op (coinbase_spend_restriction_of tx (ctx_network ctx) (sv_height b)) (ordered_inner out) = Ok ()"

lemma spend_inputs_Ok:
  "spend_inputs b ctx i tx ops m = Ok m' \<longleftrightarrow>
    distinct ops \<and> set ops \<inter> dom m = {}
    \<and> (\<forall>op \<in> set ops. \<exists>out. m' op = Some out \<and> valid_spend b ctx i tx op out)
    \<and> (\<forall>op. op \<notin> set ops \<longrightarrow> m' op = m op)"
proof (induction ops arbitrary: m)
  case Nil
  show ?case by (auto simp: fun_eq_iff)
next
  case (Cons op ops)
  show ?case (is "?L \<longleftrightarrow> ?R")
  proof
    assume ?L
    then obtain out where out: "valid_spend b ctx i tx op out" "m op = None"
      and rest: "spend_inputs b ctx i tx ops (m(op \<mapsto> out)) = Ok m'"
      by (auto simp: valid_spend_def split: if_splits)
    from rest [unfolded Cons.IH] out show ?R by (auto simp: domIff split: if_splits)
  next
    assume R: ?R
    then obtain out where out: "m' op = Some out" "valid_spend b ctx i tx op out" by auto
    have "spend_inputs b ctx i tx ops (m(op \<mapsto> out)) = Ok m'"
      unfolding Cons.IH using R out by (auto split: if_splits)
    with R out(2) show ?L by (auto simp: valid_spend_def domIff)
  qed
qed

text \<open>The spends of the transactions from number \<open>i\<close> on, with the outputs that were found.\<close>

fun all_spends :: "semantic_block \<Rightarrow> spend_context \<Rightarrow> nat \<Rightarrow> transaction list \<Rightarrow> (outpoint \<rightharpoonup> ordered_utxo) \<Rightarrow> bool" where
  "all_spends b ctx i [] m \<longleftrightarrow> True"
| "all_spends b ctx i (tx # txs) m \<longleftrightarrow>
     (\<forall>op \<in> set (spent_outpoints tx). \<exists>out. m op = Some out \<and> valid_spend b ctx i tx op out)
     \<and> all_spends b ctx (Suc i) txs m"

lemma all_spends_nth:
  "all_spends b ctx i txs m \<longleftrightarrow>
    (\<forall>j < length txs. \<forall>op \<in> set (spent_outpoints (txs ! j)). \<exists>out. m op = Some out \<and> valid_spend b ctx (i + j) (txs ! j) op out)"
proof (induction txs arbitrary: i)
  case (Cons tx txs)
  have "(\<forall>j < length (tx # txs). P j) \<longleftrightarrow> P 0 \<and> (\<forall>j < length txs. P (Suc j))" for P
    by (simp add: All_less_Suc2)
  then show ?case by (simp add: Cons)
qed simp

lemma spend_transactions_Ok:
  "spend_transactions b ctx i txs m = Ok m' \<longleftrightarrow>
    distinct (concat (map spent_outpoints txs)) \<and> set (concat (map spent_outpoints txs)) \<inter> dom m = {}
    \<and> all_spends b ctx i txs m' \<and> (\<forall>op. op \<notin> set (concat (map spent_outpoints txs)) \<longrightarrow> m' op = m op)"
proof (induction txs arbitrary: i m)
  case Nil
  show ?case by (auto simp: fun_eq_iff)
next
  case (Cons tx txs)
  define A where "A = set (spent_outpoints tx)"
  define B where "B = set (concat (map spent_outpoints txs))"
  define V where "V m' \<longleftrightarrow> (\<forall>op \<in> A. \<exists>out. m' op = Some out \<and> valid_spend b ctx i tx op out)" for m'
  have V: "V m1 \<longleftrightarrow> V m2" if "\<forall>op \<in> A. m1 op = m2 op" for m1 m2 using that by (simp add: V_def)
  have VD: "op \<in> A \<Longrightarrow> V m1 \<Longrightarrow> m1 op \<noteq> None" for op m1 unfolding V_def by blast
  note inp = spend_inputs_Ok [of b ctx i tx "spent_outpoints tx", folded A_def, folded V_def]
  note rest = Cons.IH [folded B_def]
  have goal: "spend_transactions b ctx i (tx # txs) m = Ok m' \<longleftrightarrow>
      (\<exists>m1. spend_inputs b ctx i tx (spent_outpoints tx) m = Ok m1 \<and> spend_transactions b ctx (Suc i) txs m1 = Ok m')"
    by auto
  have "\<dots> \<longleftrightarrow> (distinct (spent_outpoints tx) \<and> distinct (concat (map spent_outpoints txs)) \<and> A \<inter> B = {})
      \<and> (A \<union> B) \<inter> dom m = {} \<and> (V m' \<and> all_spends b ctx (Suc i) txs m') \<and> (\<forall>op. op \<notin> A \<union> B \<longrightarrow> m' op = m op)"
    (is "?L \<longleftrightarrow> ?R")
  proof
    assume ?L
    then obtain m1 where a: "distinct (spent_outpoints tx)" "A \<inter> dom m = {}" "V m1" "\<And>op. op \<notin> A \<Longrightarrow> m1 op = m op"
      and c: "distinct (concat (map spent_outpoints txs))" "B \<inter> dom m1 = {}" "all_spends b ctx (Suc i) txs m'"
        "\<And>op. op \<notin> B \<Longrightarrow> m' op = m1 op"
      unfolding inp rest by blast
    have AB: "A \<inter> B = {}" using VD [OF _ a(3)] c(2) by blast
    then have "\<forall>op \<in> A. m' op = m1 op" using c(4) by blast
    with a(3) V have "V m'" by blast
    moreover have "B \<inter> dom m = {}" using AB a(4) c(2) by (fastforce simp: domIff)
    moreover have "m' op = m op" if "op \<notin> A \<union> B" for op using that a(4) c(4) by simp
    ultimately show ?R using a(1,2) c(1,3) AB by blast
  next
    assume R: ?R
    define m1 where "m1 = (\<lambda>op. if op \<in> A then m' op else m op)"
    have v: "V m1" using R V [of m' m1] by (simp add: m1_def)
    have "m1 op = None" if "op \<in> B" for op
    proof -
      have "op \<notin> A" "m op = None" using that R by blast+
      then show ?thesis by (simp add: m1_def)
    qed
    then have b: "B \<inter> dom m1 = {}" by (auto simp: domIff)
    have c: "\<forall>op. op \<notin> B \<longrightarrow> m' op = m1 op" using R by (simp add: m1_def)
    have d: "\<forall>op. op \<notin> A \<longrightarrow> m1 op = m op" by (simp add: m1_def)
    have "spend_inputs b ctx i tx (spent_outpoints tx) m = Ok m1" unfolding inp using R v d by blast
    moreover have "spend_transactions b ctx (Suc i) txs m1 = Ok m'" unfolding rest using R b c by blast
    ultimately show ?L by blast
  qed
  moreover have "distinct (concat (map spent_outpoints (tx # txs))) \<longleftrightarrow>
      distinct (spent_outpoints tx) \<and> distinct (concat (map spent_outpoints txs)) \<and> A \<inter> B = {}"
    by (simp add: A_def B_def)
  moreover have "set (concat (map spent_outpoints (tx # txs))) = A \<union> B" by (simp add: A_def B_def)
  moreover have "all_spends b ctx i (tx # txs) m' \<longleftrightarrow> V m' \<and> all_spends b ctx (Suc i) txs m'"
    by (simp add: V_def A_def)
  ultimately show ?case unfolding goal by simp
qed

lemma height_add_maturity:
  "h + 100 \<le> HEIGHT_MAX \<Longrightarrow> height_add h (int MIN_TRANSPARENT_COINBASE_MATURITY) = Some (h + 100)"
  by (simp add: height_add_eq MIN_TRANSPARENT_COINBASE_MATURITY_def nat_add_distrib)

text \<open>What a valid spend is, in the terms of the protocol.\<close>

definition spend_rule :: "semantic_block \<Rightarrow> spend_context \<Rightarrow> nat \<Rightarrow> transaction \<Rightarrow> outpoint \<Rightarrow> ordered_utxo \<Rightarrow> bool" where
  "spend_rule b ctx i tx op out \<longleftrightarrow>
     (sv_new_outputs b op = Some out \<and> tx_index_in_block out < i
      \<or> sv_new_outputs b op = None \<and> ctx_spent ctx op = None
        \<and> (ctx_unspent ctx op = Some out \<or> ctx_unspent ctx op = None \<and> ctx_finalized ctx op = Some out))
     \<and> (from_coinbase (ordered_inner out) \<longrightarrow>
          (outputs tx = [] \<or> net_allows_unshielded_coinbase_spends (ctx_network ctx))
          \<and> utxo_height (ordered_inner out) + 100 \<le> sv_height b)"

lemma valid_spend_iff:
  assumes "utxo_height (ordered_inner out) + 100 \<le> HEIGHT_MAX"
  shows "valid_spend b ctx i tx op out \<longleftrightarrow> spend_rule b ctx i tx op out"
proof -
  have "transparent_coinbase_spend op (coinbase_spend_restriction_of tx (ctx_network ctx) (sv_height b)) (ordered_inner out) = Ok ()
    \<longleftrightarrow> (from_coinbase (ordered_inner out) \<longrightarrow>
          (outputs tx = [] \<or> net_allows_unshielded_coinbase_spends (ctx_network ctx))
          \<and> utxo_height (ordered_inner out) + 100 \<le> sv_height b)"
    using height_add_maturity [OF assms]
    by (auto simp: transparent_coinbase_spend_def coinbase_spend_restriction_of_def)
  moreover have "transparent_spend_chain_order op i (sv_new_outputs b) (ctx_unspent ctx) (ctx_spent ctx) (ctx_finalized ctx) = Ok out
    \<longleftrightarrow> (sv_new_outputs b op = Some out \<and> tx_index_in_block out < i
      \<or> sv_new_outputs b op = None \<and> ctx_spent ctx op = None
        \<and> (ctx_unspent ctx op = Some out \<or> ctx_unspent ctx op = None \<and> ctx_finalized ctx op = Some out))"
    by (auto simp: transparent_spend_chain_order_def split: option.splits)
  ultimately show ?thesis by (simp add: valid_spend_def spend_rule_def)
qed

lemma remaining_value_of_Ok:
  assumes "i < length (sv_transaction_hashes b)"
  shows "remaining_value_of p b utxos i tx = Ok () \<longleftrightarrow> (is_coinbase tx \<or> (\<exists>fee. miner_fee p tx utxos = Ok fee))"
  using assms by (auto simp: remaining_value_of_def miner_fee_def map_err_eq_Ok split: outcome.splits)

lemma ball_enumerate: "(\<forall>x \<in> set (zip [0 ..< length xs] xs). P x) \<longleftrightarrow> (\<forall>i < length xs. P (i, xs ! i))"
proof -
  have "set (zip [0 ..< length xs] xs) = (\<lambda>i. (i, xs ! i)) ` {..< length xs}"
    by (force simp: set_zip image_def)
  then show ?thesis by auto
qed

lemma block_remaining_Ok:
  assumes "length (sv_transaction_hashes b) = length (sv_transactions b)"
  shows "block_remaining_transaction_value p b m = Ok () \<longleftrightarrow>
    (\<forall>tx \<in> set (sv_transactions b). is_coinbase tx \<or> (\<exists>fee. miner_fee p tx (utxos_from_ordered_utxos m) = Ok fee))"
proof -
  have "block_remaining_transaction_value p b m = Ok () \<longleftrightarrow>
      (\<forall>i < length (sv_transactions b).
        remaining_value_of p b (utxos_from_ordered_utxos m) i (sv_transactions b ! i) = Ok ())"
    unfolding block_remaining_transaction_value_def Let_def for_each_Ok by (simp add: ball_enumerate)
  also have "\<dots> \<longleftrightarrow> (\<forall>i < length (sv_transactions b). is_coinbase (sv_transactions b ! i)
      \<or> (\<exists>fee. miner_fee p (sv_transactions b ! i) (utxos_from_ordered_utxos m) = Ok fee))"
    using assms by (simp add: remaining_value_of_Ok)
  finally show ?thesis by (simp only: all_set_conv_all_nth)
qed

text \<open>Every output the check can find was created far below the last height.\<close>

definition outputs_mature_in_time :: "semantic_block \<Rightarrow> spend_context \<Rightarrow> bool" where
  "outputs_mature_in_time b ctx \<longleftrightarrow>
     (\<forall>m \<in> {sv_new_outputs b, ctx_unspent ctx, ctx_finalized ctx}. \<forall>out \<in> ran m.
        utxo_height (ordered_inner out) + 100 \<le> HEIGHT_MAX)"

lemma valid_spend_rule:
  assumes "outputs_mature_in_time b ctx"
  shows "valid_spend b ctx i tx op out \<longleftrightarrow> spend_rule b ctx i tx op out"
proof -
  have found: "out \<in> ran (sv_new_outputs b) \<or> out \<in> ran (ctx_unspent ctx) \<or> out \<in> ran (ctx_finalized ctx)"
    if "valid_spend b ctx i tx op out \<or> spend_rule b ctx i tx op out"
    using that by (auto simp: valid_spend_def spend_rule_def transparent_spend_chain_order_def
        intro: ranI split: option.splits if_splits)
  show ?thesis
  proof (cases "utxo_height (ordered_inner out) + 100 \<le> HEIGHT_MAX")
    case False
    with found assms show ?thesis unfolding outputs_mature_in_time_def by blast
  qed (rule valid_spend_iff)
qed

section \<open>Properties\<close>

text \<open>
  C4. The contextual check of the transparent spends of a block accepts exactly the blocks whose
  spends are pairwise distinct, each of an output that an earlier transaction of the block, the
  unspent set of its chain or the database holds and the chain has not spent, each mature and
  shielded if the output is from a coinbase, and in which every transaction but the coinbase has a
  valid fee; the result is the map of exactly the outputs that are spent.
\<close>

theorem transparent_spend_exact:
  assumes "length (sv_transaction_hashes b) = length (sv_transactions b)" "outputs_mature_in_time b ctx"
  shows "transparent_spend p b ctx = Ok m \<longleftrightarrow>
    (let txs = sv_transactions b; spends = concat (map spent_outpoints txs) in
     distinct spends \<and> dom m = set spends
     \<and> (\<forall>j < length txs. \<forall>op \<in> set (spent_outpoints (txs ! j)). spend_rule b ctx j (txs ! j) op (the (m op)))
     \<and> (\<forall>tx \<in> set txs. is_coinbase tx \<or> (\<exists>fee. miner_fee p tx (utxos_from_ordered_utxos m) = Ok fee)))"
proof -
  define txs where "txs = sv_transactions b"
  define spends where "spends = concat (map spent_outpoints txs)"
  have "transparent_spend p b ctx = Ok m \<longleftrightarrow>
      spend_transactions b ctx 0 txs Map.empty = Ok m \<and> block_remaining_transaction_value p b m = Ok ()"
    by (auto simp: transparent_spend_def txs_def)
  moreover have "spend_transactions b ctx 0 txs Map.empty = Ok m \<longleftrightarrow>
      distinct spends \<and> all_spends b ctx 0 txs m \<and> (\<forall>op. op \<notin> set spends \<longrightarrow> m op = None)"
    by (simp add: spend_transactions_Ok spends_def)
  moreover have "all_spends b ctx 0 txs m \<and> (\<forall>op. op \<notin> set spends \<longrightarrow> m op = None) \<longleftrightarrow>
      dom m = set spends
      \<and> (\<forall>j < length txs. \<forall>op \<in> set (spent_outpoints (txs ! j)). spend_rule b ctx j (txs ! j) op (the (m op)))"
    (is "?A \<and> ?B \<longleftrightarrow> ?C \<and> ?D")
  proof -
    have mem: "op \<in> set spends \<longleftrightarrow> (\<exists>j < length txs. op \<in> set (spent_outpoints (txs ! j)))" for op
      by (simp add: spends_def) (metis in_set_conv_nth nth_mem)
    have A: "?A \<longleftrightarrow> (\<forall>j < length txs. \<forall>op \<in> set (spent_outpoints (txs ! j)).
        \<exists>out. m op = Some out \<and> spend_rule b ctx j (txs ! j) op out)"
      by (simp add: all_spends_nth valid_spend_rule [OF assms(2)])
    show ?thesis
    proof
      assume AB: "?A \<and> ?B"
      then have "dom m \<subseteq> set spends" by (auto simp: domIff)
      moreover have "set spends \<subseteq> dom m" using AB unfolding A by (fastforce simp: mem)
      ultimately show "?C \<and> ?D" using AB unfolding A by fastforce
    next
      assume CD: "?C \<and> ?D"
      have "\<exists>out. m op = Some out" if "j < length txs" "op \<in> set (spent_outpoints (txs ! j))" for j op
        using CD that by (metis mem domD)
      then show "?A \<and> ?B" using CD unfolding A by fastforce
    qed
  qed
  ultimately show ?thesis
    using block_remaining_Ok [OF assms(1), of p m] by (simp add: Let_def spends_def txs_def)
qed

section \<open>An example\<close>

definition sample_block :: semantic_block where
  "sample_block = \<lparr>sv_transactions = [sample_payment], sv_hash = [9], sv_height = 80,
     sv_new_outputs = Map.empty, sv_transaction_hashes = [[2]], sv_previous_block_hash = [8],
     sv_difficulty_threshold = 0x1f07ffff, sv_serialized_size = 300,
     sv_time = 1000, sv_commitment_bytes = []\<rparr>"

definition sample_output :: ordered_utxo where
  "sample_output = \<lparr>ordered_inner = the (sample_utxos (OutPoint [1] 0)), tx_index_in_block = 3\<rparr>"

definition sample_context :: spend_context where
  "sample_context = \<lparr>ctx_network = live_wcash_mainnet, ctx_unspent = [OutPoint [1] 0 \<mapsto> sample_output],
     ctx_spent = Map.empty, ctx_finalized = Map.empty\<rparr>"

theorem transparent_spend_exact_witness:
  "outputs_mature_in_time sample_block sample_context
    \<and> transparent_spend Wcash_profile sample_block sample_context = Ok [OutPoint [1] 0 \<mapsto> sample_output]"
proof -
  have low: "outputs_mature_in_time sample_block sample_context"
    by (simp add: outputs_mature_in_time_def sample_block_def sample_context_def sample_output_def
        sample_utxos_def HEIGHT_MAX_def u32_max_def)
  have "utxos_from_ordered_utxos [OutPoint [1] 0 \<mapsto> sample_output] = sample_utxos"
    by (auto simp: utxos_from_ordered_utxos_def sample_output_def sample_utxos_def)
  then have "\<exists>fee. miner_fee Wcash_profile sample_payment (utxos_from_ordered_utxos [OutPoint [1] 0 \<mapsto> sample_output]) = Ok fee"
    using sample_fee by simp
  moreover have "spend_rule sample_block sample_context 0 sample_payment (OutPoint [1] 0) sample_output"
    by (simp add: spend_rule_def sample_block_def sample_context_def sample_output_def sample_utxos_def)
  ultimately show ?thesis
    using transparent_spend_exact [of sample_block sample_context Wcash_profile "[OutPoint [1] 0 \<mapsto> sample_output]"] low
    by (simp add: sample_block_def sample_payment_wf(2))
qed

end
