(* ===== verification/History_Node.thy ===== *)
theory History_Node
  imports Utxo_Check
begin

text \<open>
  The nodes of the history tree and the wrapper of the library's mountain range, from
  \<^verbatim>\<open>zebra-chain/src/primitives/zcash_history.rs\<close>.

  The data of a leaf is computed here from the block, with every conversion that can panic; what the
  crate \<^verbatim>\<open>zcash_history\<close> does with nodes (encode them, build a range from its peaks, append a leaf) is
  the argument \<open>history_lib\<close>.  An entry that cannot be written or resolved is \<open>None\<close> there.  Counts of
  transactions are numbers of 64 bits, as \<^verbatim>\<open>usize\<close> is on the supported platforms.
\<close>

section \<open>The data of a leaf\<close>

datatype history_version = PreOrchard | OrchardOnward | IronwoodOnward

record tree_roots =
  sapling_root :: bytes
  orchard_root :: bytes
  ironwood_root :: bytes

record history_node =
  hn_consensus_branch_id :: branch_id
  hn_subtree_commitment :: bytes
  hn_start_time :: nat
  hn_end_time :: nat
  hn_start_target :: compact_difficulty
  hn_end_target :: compact_difficulty
  hn_start_sapling_root :: bytes
  hn_end_sapling_root :: bytes
  hn_subtree_total_work :: work
  hn_start_height :: nat
  hn_end_height :: nat
  hn_sapling_tx :: nat

datatype node_data =
    NodeV1 history_node
  | NodeV2 history_node bytes bytes nat
  | NodeV3 history_node bytes bytes nat bytes bytes nat

definition sapling_transactions_count :: "transaction list \<Rightarrow> nat" where
  "sapling_transactions_count txs = length (filter has_sapling_shielded_data txs)"

definition orchard_transactions_count :: "transaction list \<Rightarrow> nat" where
  "orchard_transactions_count txs = length (filter has_orchard_shielded_data txs)"

definition ironwood_transactions_count :: "transaction list \<Rightarrow> nat" where
  "ironwood_transactions_count txs = length (filter has_ironwood_shielded_data txs)"

definition time_u32 :: "int \<Rightarrow> nat option" where
  "time_u32 t = (if 0 \<le> t \<and> t \<le> int u32_max then Some (nat t) else None)"

definition block_to_history_node_v1 ::
  "semantic_block \<Rightarrow> network \<Rightarrow> tree_roots \<Rightarrow> (history_error, history_node) outcome" where
  "block_to_history_node_v1 b net roots =
     qbind (expect (block_coinbase_height (sv_transactions b))) (\<lambda>h.
     qbind (current net h) (\<lambda>nu.
     qbind (expect (for_network_upgrade net nu)) (\<lambda>branch_id.
     qbind (expect (time_u32 (sv_time b))) (\<lambda>time.
     qbind (qbind (to_work (sv_difficulty_threshold b)) expect) (\<lambda>work.
     qbind (assert_that (nu \<notin> set [Genesis, BeforeOverwinter, Overwinter, Sapling, Blossom])) (\<lambda>_.
       Ok \<lparr>hn_consensus_branch_id = branch_id, hn_subtree_commitment = sv_hash b,
           hn_start_time = time, hn_end_time = time,
           hn_start_target = sv_difficulty_threshold b, hn_end_target = sv_difficulty_threshold b,
           hn_start_sapling_root = sapling_root roots, hn_end_sapling_root = sapling_root roots,
           hn_subtree_total_work = work, hn_start_height = h, hn_end_height = h,
           hn_sapling_tx = sapling_transactions_count (sv_transactions b)\<rparr>))))))"

definition block_to_history_node ::
  "history_version \<Rightarrow> semantic_block \<Rightarrow> network \<Rightarrow> tree_roots \<Rightarrow> (history_error, node_data) outcome" where
  "block_to_history_node v b net roots =
     (let orchard_tx = orchard_transactions_count (sv_transactions b);
          ironwood_tx = ironwood_transactions_count (sv_transactions b) in
      map_ok (\<lambda>v1. case v of
          PreOrchard \<Rightarrow> NodeV1 v1
        | OrchardOnward \<Rightarrow> NodeV2 v1 (orchard_root roots) (orchard_root roots) orchard_tx
        | IronwoodOnward \<Rightarrow>
            NodeV3 v1 (orchard_root roots) (orchard_root roots) orchard_tx (ironwood_root roots) (ironwood_root roots) ironwood_tx)
        (block_to_history_node_v1 b net roots))"

section \<open>The mountain range\<close>

record ('i, 'n) history_lib =
  hl_new_leaf :: "history_version \<Rightarrow> node_data \<Rightarrow> 'n option"
  hl_from_bytes :: "history_version \<Rightarrow> branch_id \<Rightarrow> 'n \<Rightarrow> 'n option"
  hl_tree_new :: "history_version \<Rightarrow> nat \<Rightarrow> (nat \<times> 'n) list \<Rightarrow> 'i"
  hl_append_leaf :: "history_version \<Rightarrow> 'i \<Rightarrow> node_data \<Rightarrow> ('i \<times> 'n option list) option"
  hl_hash :: "history_version \<Rightarrow> 'i \<Rightarrow> bytes"

record 'i mmr_tree =
  mt_network :: network
  mt_upgrade :: network_upgrade
  mt_inner :: 'i

fun decode_entries ::
  "('i, 'n) history_lib \<Rightarrow> history_version \<Rightarrow> branch_id \<Rightarrow> (nat, 'n) btree_map \<Rightarrow> (history_error, (nat \<times> 'n) list) outcome" where
  "decode_entries lib v branch_id [] = Ok []"
| "decode_entries lib v branch_id ((i, entry) # entries) =
     qbind (ok_or (hl_from_bytes lib v branch_id entry) IOError) (\<lambda>inner_entry.
       map_ok (Cons (i, inner_entry)) (decode_entries lib v branch_id entries))"

text \<open>The library's constructor panics without peaks; the node never passes extra nodes.\<close>

definition mmr_new_from_cache ::
  "('i, 'n) history_lib \<Rightarrow> history_version \<Rightarrow> network \<Rightarrow> network_upgrade \<Rightarrow> nat \<Rightarrow> (nat, 'n) btree_map
    \<Rightarrow> (history_error, 'i mmr_tree) outcome" where
  "mmr_new_from_cache lib v net nu len peaks =
     qbind (expect (for_network_upgrade net nu)) (\<lambda>branch_id.
     qbind (decode_entries lib v branch_id peaks) (\<lambda>peaks_vec.
     qbind (assert_that (peaks_vec \<noteq> [])) (\<lambda>_.
       Ok \<lparr>mt_network = net, mt_upgrade = nu, mt_inner = hl_tree_new lib v len peaks_vec\<rparr>)))"

definition mmr_new_from_block ::
  "('i, 'n) history_lib \<Rightarrow> history_version \<Rightarrow> network \<Rightarrow> semantic_block \<Rightarrow> tree_roots
    \<Rightarrow> (history_error, 'i mmr_tree \<times> 'n) outcome" where
  "mmr_new_from_block lib v net b roots =
     qbind (expect (block_coinbase_height (sv_transactions b))) (\<lambda>h.
     qbind (current net h) (\<lambda>nu.
     qbind (block_to_history_node v b net roots) (\<lambda>node_data.
     qbind (expect (hl_new_leaf lib v node_data)) (\<lambda>entry0.
       map_ok (\<lambda>tree. (tree, entry0)) (mmr_new_from_cache lib v net nu 1 [(0, entry0)])))))"

fun resolve_entries :: "'n option list \<Rightarrow> (history_error, 'n list) outcome" where
  "resolve_entries [] = Ok []"
| "resolve_entries (link # links) = qbind (expect link) (\<lambda>entry. map_ok (Cons entry) (resolve_entries links))"

definition mmr_append_leaf ::
  "('i, 'n) history_lib \<Rightarrow> history_version \<Rightarrow> 'i mmr_tree \<Rightarrow> semantic_block \<Rightarrow> tree_roots
    \<Rightarrow> (history_error, 'i mmr_tree \<times> 'n list) outcome" where
  "mmr_append_leaf lib v t b roots =
     qbind (expect (block_coinbase_height (sv_transactions b))) (\<lambda>h.
     qbind (current (mt_network t) h) (\<lambda>nu.
     qbind (assert_that (nu = mt_upgrade t)) (\<lambda>_.
     qbind (block_to_history_node v b (mt_network t) roots) (\<lambda>node_data.
     qbind (ok_or (hl_append_leaf lib v (mt_inner t) node_data) InnerError) (\<lambda>(inner, appended).
       map_ok (\<lambda>entries. (t\<lparr>mt_inner := inner\<rparr>, entries)) (resolve_entries appended))))))"

section \<open>Facts\<close>

text \<open>
  A block can be a leaf: its upgrade has a branch id, its time is a number of 32 bits and its difficulty
  threshold is valid.
\<close>

definition leaf_ok :: "network \<Rightarrow> semantic_block \<Rightarrow> bool" where
  "leaf_ok net b \<longleftrightarrow> (case block_coinbase_height (sv_transactions b) of None \<Rightarrow> False
     | Some h \<Rightarrow> (case current net h :: (history_error, network_upgrade) outcome of
         Ok nu \<Rightarrow> Heartwood \<le> nu \<and> for_network_upgrade net nu \<noteq> None | _ \<Rightarrow> False))
     \<and> time_u32 (sv_time b) \<noteq> None \<and> (\<exists>w. to_work (sv_difficulty_threshold b) = (Ok (Some w) :: (history_error, _) outcome))"

lemma leaf_okD:
  assumes "leaf_ok net b" "block_coinbase_height (sv_transactions b) = Some h" "current net h = (Ok nu :: (history_error, network_upgrade) outcome)"
  shows "Heartwood \<le> nu" "\<exists>branch_id. for_network_upgrade net nu = Some branch_id"
    "\<exists>node. block_to_history_node v b net roots = Ok node"
proof -
  from assms show hw: "Heartwood \<le> nu" and br: "\<exists>branch_id. for_network_upgrade net nu = Some branch_id" by (auto simp: leaf_ok_def)
  have "nu \<notin> set [Genesis, BeforeOverwinter, Overwinter, Sapling, Blossom]" using hw by (auto simp: less_eq_network_upgrade_def)
  with assms br show "\<exists>node. block_to_history_node v b net roots = Ok node"
    by (auto simp: leaf_ok_def block_to_history_node_def block_to_history_node_v1_def assert_that_def Let_def)
qed

lemma decode_entries_keys: "decode_entries lib v branch_id m = Ok m' \<Longrightarrow> map fst m' = map fst m"
  by (induction lib v branch_id m arbitrary: m' rule: decode_entries.induct) auto

lemma map_ok_eq_Err: "map_ok h m = Err e \<longleftrightarrow> m = Err e"
  by (cases m) auto

lemma decode_entries_not_Panic: "decode_entries lib v branch_id m \<noteq> Panic" "decode_entries lib v branch_id m = Err e \<Longrightarrow> e = IOError"
  by (induction lib v branch_id m rule: decode_entries.induct) (auto simp: qbind_eq_Panic qbind_eq_Err ok_or_eq_Err map_ok_eq_Err)

lemma resolve_entries_Ok: "None \<notin> set links \<Longrightarrow> resolve_entries links = Ok (map the links)"
  by (induction links) auto

lemma new_from_cache_cases:
  assumes "for_network_upgrade net nu = Some branch_id" "peaks \<noteq> []"
  shows "case mmr_new_from_cache lib v net nu len peaks of
    Ok t \<Rightarrow> mt_network t = net \<and> mt_upgrade t = nu \<and> (\<exists>ps. ps \<noteq> [] \<and> mt_inner t = hl_tree_new lib v len ps)
  | Err e \<Rightarrow> e = IOError | Panic \<Rightarrow> False"
proof (cases "decode_entries lib v branch_id peaks")
  case (Ok ps)
  then have "ps \<noteq> []" using decode_entries_keys [OF Ok] assms(2) by auto
  with Ok assms(1) show ?thesis by (auto simp: mmr_new_from_cache_def assert_that_def)
next
  case (Err e)
  with assms(1) decode_entries_not_Panic(2) [OF Err] show ?thesis by (simp add: mmr_new_from_cache_def)
next
  case Panic
  with decode_entries_not_Panic(1) show ?thesis by blast
qed

text \<open>Without a branch id of the upgrade no leaf can be made: the node panics on the first block of NU7.\<close>

lemma no_branch_id_panics:
  assumes "block_coinbase_height (sv_transactions b) = Some h" "current net h = (Ok nu :: (history_error, network_upgrade) outcome)"
    "for_network_upgrade net nu = None"
  shows "mmr_new_from_block lib v net b roots = Panic"
  using assms by (simp add: mmr_new_from_block_def block_to_history_node_def block_to_history_node_v1_def Let_def)

lemma nu7_has_no_branch_id: "for_network_upgrade net Nu7 = None"
  by (simp add: for_network_upgrade_def upgrade_branch_id_def CONSENSUS_BRANCH_IDS_def)

end
