(* ===== verification/History_Tree.thy ===== *)
theory History_Tree
  imports History_Node
begin

text \<open>
  The history tree of the chain (a Merkle mountain range over the blocks of a network upgrade), from
  \<^verbatim>\<open>zebra-chain/src/history_tree.rs\<close>.

  Only the peaks of the mountain range are kept, by their position in the array of all its nodes;
  after every block the new nodes are added and \<open>prune\<close> works out which positions are peaks.  The
  nodes are those of theory \<open>History_Node\<close>; \<open>history_lib_ok\<close> states what the documentation of the library
  of mountain ranges says.

  The specification \<open>mmr_peaks n\<close> is the list of the positions of the peaks over \<open>n\<close> leaves, read off
  the binary representation of \<open>n\<close>.  The lemmas show that the loop of \<open>prune\<close> ends, without
  overflow, with exactly these positions, and that a tree that has seen the blocks of its network
  upgrade up to its height keeps that state under every further block.
\<close>

section \<open>The peaks of a mountain range\<close>

fun bit_length :: "nat \<Rightarrow> nat" where
  "bit_length n = (if n = 0 then 0 else Suc (bit_length (n div 2)))"

declare bit_length.simps [simp del]

definition leading_zeros32 :: "nat \<Rightarrow> nat" where
  "leading_zeros32 n = 32 - bit_length n"

function peak_loop :: "nat \<Rightarrow> nat \<Rightarrow> nat \<Rightarrow> nat list \<Rightarrow> (history_error, nat list) outcome" where
  "peak_loop tree_size alt peak_pos peak_pos_set =
     (if tree_size \<le> peak_pos \<and> (alt = 0 \<or> peak_pos < 2 ^ alt) then Panic
      else
        (let (alt', pos) = (if tree_size \<le> peak_pos then (alt - 1, peak_pos - 2 ^ alt) else (alt, peak_pos)) in
         if pos < tree_size then
           (if pos + 2 ^ (alt' + 1) > u32_max then Panic
            else if alt' = 0 then Ok (peak_pos_set @ [pos])
            else peak_loop tree_size alt' (pos + 2 ^ (alt' + 1) - 1) (peak_pos_set @ [pos]))
         else if alt' = 0 then Ok peak_pos_set
         else peak_loop tree_size alt' pos peak_pos_set))"
  by auto
termination
proof (relation "measures [\<lambda>(tree_size, alt, pos, s). alt, \<lambda>(tree_size, alt, pos, s). tree_size - pos]", goal_cases)
  case (2 tree_size alt peak_pos s x alt' pos)
  moreover have "(1 :: nat) < 2 ^ (alt' + 1)" by (rule one_less_power) simp_all
  ultimately show ?case by (auto split: if_splits)
next
  case (3 tree_size alt peak_pos s x alt' pos)
  then show ?case by (auto split: if_splits)
qed simp

declare peak_loop.simps [simp del]

definition peak_positions :: "nat \<Rightarrow> (history_error, nat list) outcome" where
  "peak_positions tree_size =
     qbind (expect (checked_u32 (tree_size + 1))) (\<lambda>s.
     qbind (assert_that (leading_zeros32 s + 2 \<le> 32)) (\<lambda>_.
       let alt = (32 - leading_zeros32 s - 1) - 1 in
       peak_loop tree_size alt (2 ^ (alt + 1) - 2) []))"

section \<open>The tree\<close>

record ('i, 'n) nonempty_history_tree =
  ht_network :: network
  ht_upgrade :: network_upgrade
  ht_version :: history_version
  ht_inner :: "'i mmr_tree"
  ht_size :: nat
  ht_peaks :: "(nat, 'n) btree_map"
  ht_current_height :: height

definition history_version_of :: "network_upgrade \<Rightarrow> (history_error, history_version) outcome" where
  "history_version_of nu =
     (if nu \<in> set [Genesis, BeforeOverwinter, Overwinter, Sapling, Blossom] then Panic
      else if nu \<in> set [Heartwood, Canopy] then Ok PreOrchard
      else if nu \<in> set [Nu5, Nu6, Nu6_1, Nu6_2] then Ok OrchardOnward
      else Ok IronwoodOnward)"

definition history_from_cache ::
  "('i, 'n) history_lib \<Rightarrow> network \<Rightarrow> nat \<Rightarrow> (nat, 'n) btree_map \<Rightarrow> height
    \<Rightarrow> (history_error, ('i, 'n) nonempty_history_tree) outcome" where
  "history_from_cache lib net tree_size peaks h =
     qbind (current net h) (\<lambda>nu.
     qbind (history_version_of nu) (\<lambda>v.
     qbind (mmr_new_from_cache lib v net nu tree_size peaks) (\<lambda>tree.
       Ok \<lparr>ht_network = net, ht_upgrade = nu, ht_version = v, ht_inner = tree, ht_size = tree_size, ht_peaks = peaks,
           ht_current_height = h\<rparr>)))"

definition nonempty_from_block ::
  "('i, 'n) history_lib \<Rightarrow> network \<Rightarrow> semantic_block \<Rightarrow> tree_roots \<Rightarrow> (history_error, ('i, 'n) nonempty_history_tree) outcome" where
  "nonempty_from_block lib net b roots =
     qbind (expect (block_coinbase_height (sv_transactions b))) (\<lambda>h.
     qbind (current net h) (\<lambda>nu.
     qbind (history_version_of nu) (\<lambda>v.
     qbind (mmr_new_from_block lib v net b roots) (\<lambda>(tree, entry).
       Ok \<lparr>ht_network = net, ht_upgrade = nu, ht_version = v, ht_inner = tree, ht_size = 1,
           ht_peaks = [(0, entry)], ht_current_height = h\<rparr>))))"

fun insert_entries :: "nat \<Rightarrow> (nat, 'n) btree_map \<Rightarrow> 'n list \<Rightarrow> (history_error, nat \<times> (nat, 'n) btree_map) outcome" where
  "insert_entries tree_size peaks [] = Ok (tree_size, peaks)"
| "insert_entries tree_size peaks (entry # entries) =
     qbind (expect (checked_u32 (tree_size + 1))) (\<lambda>tree_size'. insert_entries tree_size' (bt_insert tree_size entry peaks) entries)"

definition rebuilt_inner ::
  "('i, 'n) history_lib \<Rightarrow> ('i, 'n) nonempty_history_tree \<Rightarrow> (history_error, 'i mmr_tree) outcome" where
  "rebuilt_inner lib t = mmr_new_from_cache lib (ht_version t) (ht_network t) (ht_upgrade t) (ht_size t) (ht_peaks t)"

definition prune_tree ::
  "('i, 'n) history_lib \<Rightarrow> ('i, 'n) nonempty_history_tree \<Rightarrow> (history_error, ('i, 'n) nonempty_history_tree) outcome" where
  "prune_tree lib t =
     qbind (peak_positions (ht_size t)) (\<lambda>peak_pos_set.
       let t = t\<lparr>ht_peaks := filter (\<lambda>(k, _). k \<in> set peak_pos_set) (ht_peaks t)\<rparr> in
       map_ok (\<lambda>tree. t\<lparr>ht_inner := tree\<rparr>) (rebuilt_inner lib t))"

definition nonempty_push ::
  "('i, 'n) history_lib \<Rightarrow> semantic_block \<Rightarrow> tree_roots \<Rightarrow> ('i, 'n) nonempty_history_tree
    \<Rightarrow> (history_error, ('i, 'n) nonempty_history_tree) outcome" where
  "nonempty_push lib b roots t =
     qbind (expect (block_coinbase_height (sv_transactions b))) (\<lambda>h.
     qbind (assert_that (Some h = height_add (ht_current_height t) 1)) (\<lambda>_.
     qbind (current (ht_network t) h) (\<lambda>nu.
       if nu \<noteq> ht_upgrade t then
         qbind (nonempty_from_block lib (ht_network t) b roots) (\<lambda>t'.
           map_ok (\<lambda>_. t') (assert_that (ht_upgrade t' = nu)))
       else
         qbind (mmr_append_leaf lib (ht_version t) (ht_inner t) b roots) (\<lambda>(tree, new_entries).
         qbind (insert_entries (ht_size t) (ht_peaks t) new_entries) (\<lambda>(tree_size, peaks).
           map_ok (\<lambda>t. t\<lparr>ht_current_height := h\<rparr>)
             (prune_tree lib (t\<lparr>ht_inner := tree, ht_size := tree_size, ht_peaks := peaks\<rparr>)))))))"

text \<open>The tree before Heartwood is empty.\<close>

type_synonym ('i, 'n) history_tree = "('i, 'n) nonempty_history_tree option"

definition history_from_block ::
  "('i, 'n) history_lib \<Rightarrow> network \<Rightarrow> semantic_block \<Rightarrow> tree_roots \<Rightarrow> (history_error, ('i, 'n) history_tree) outcome" where
  "history_from_block lib net b roots =
     (case upgrade_activation_height Heartwood net of
        None \<Rightarrow> Ok None
      | Some heartwood \<Rightarrow>
          qbind (expect (block_coinbase_height (sv_transactions b))) (\<lambda>h.
            if h < heartwood then Ok None else map_ok Some (nonempty_from_block lib net b roots)))"

definition history_push ::
  "('i, 'n) history_lib \<Rightarrow> network \<Rightarrow> semantic_block \<Rightarrow> tree_roots \<Rightarrow> ('i, 'n) history_tree
    \<Rightarrow> (history_error, ('i, 'n) history_tree) outcome" where
  "history_push lib net b roots t =
     (case upgrade_activation_height Heartwood net of
        None \<Rightarrow> map_ok (\<lambda>_. t) (assert_that (t = None))
      | Some heartwood \<Rightarrow>
          qbind (expect (block_coinbase_height (sv_transactions b))) (\<lambda>h.
            if h < heartwood then map_ok (\<lambda>_. t) (assert_that (t = None))
            else if h = heartwood then map_ok Some (nonempty_from_block lib net b roots)
            else qbind (expect t) (\<lambda>t'. map_ok Some (nonempty_push lib b roots t'))))"

definition history_hash :: "('i, 'n) history_lib \<Rightarrow> ('i, 'n) history_tree \<Rightarrow> bytes option" where
  "history_hash lib t = map_option (\<lambda>t. hl_hash lib (ht_version t) (mt_inner (ht_inner t))) t"

section \<open>The specification\<close>

text \<open>
  The peaks over \<open>n\<close> leaves, of altitudes below \<open>k\<close> and with the first node at position \<open>off\<close>, and the
  number of their nodes.
\<close>

fun peaks_below :: "nat \<Rightarrow> nat \<Rightarrow> nat \<Rightarrow> nat list" where
  "peaks_below 0 n off = []"
| "peaks_below (Suc k) n off =
     (if 2 ^ k \<le> n then (off + 2 ^ (k + 1) - 2) # peaks_below k (n - 2 ^ k) (off + 2 ^ (k + 1) - 1)
      else peaks_below k n off)"

fun size_below :: "nat \<Rightarrow> nat \<Rightarrow> nat" where
  "size_below 0 n = 0"
| "size_below (Suc k) n = (if 2 ^ k \<le> n then 2 ^ (k + 1) - 1 + size_below k (n - 2 ^ k) else size_below k n)"

definition mmr_peaks :: "nat \<Rightarrow> nat list" where
  "mmr_peaks n = peaks_below (bit_length n) n 0"

definition mmr_size :: "nat \<Rightarrow> nat" where
  "mmr_size n = size_below (bit_length n) n"

section \<open>The loop finds the peaks\<close>

lemma size_below_bound: "n < 2 ^ k \<Longrightarrow> size_below k n + 1 \<le> 2 ^ (k + 1) - 1 \<or> k = 0 \<and> size_below k n = 0"
proof (induction k arbitrary: n)
  case (Suc k)
  have "n - 2 ^ k < 2 ^ k" if "2 ^ k \<le> n" using that Suc.prems by simp
  with Suc.IH [of n] Suc.IH [of "n - 2 ^ k"] show ?case by (cases "2 ^ k \<le> n") auto
qed simp

lemma size_below_less: "n < 2 ^ k \<Longrightarrow> size_below k n < 2 ^ (k + 1) - 1"
  using size_below_bound [of n k] by auto

lemma size_below_taken:
  assumes "2 ^ k \<le> n"
  shows "size_below (Suc k) n + 1 = 2 ^ (k + 1) + size_below k (n - 2 ^ k)"
proof -
  have "(1 :: nat) \<le> 2 ^ (k + 1)" by simp
  moreover have "size_below (Suc k) n = 2 ^ (k + 1) - 1 + size_below k (n - 2 ^ k)" using assms by (simp only: size_below.simps if_True)
  ultimately show ?thesis by linarith
qed

lemma size_below_le_twice: "size_below k n \<le> 2 * n"
proof (induction k arbitrary: n)
  case (Suc k)
  have "size_below k (n - 2 ^ k) \<le> 2 * (n - 2 ^ k)" by (rule Suc.IH)
  then show ?case using Suc.IH [of n] by auto
qed simp

text \<open>Below a peak of altitude \<open>a\<close> the loop goes through the altitudes and takes the peaks of the rest.\<close>

lemma peak_loop_down:
  assumes "nodes \<le> q" "2 ^ Suc a \<le> q" "r = q - 2 ^ Suc a"
  shows "peak_loop nodes (Suc a) q acc =
    (if r < nodes then
       (if r + 2 ^ (a + 1) > u32_max then Panic
        else if a = 0 then Ok (acc @ [r]) else peak_loop nodes a (r + 2 ^ (a + 1) - 1) (acc @ [r]))
     else if a = 0 then Ok acc else peak_loop nodes a r acc)"
proof -
  have "\<not> (nodes \<le> q \<and> (Suc a = 0 \<or> q < 2 ^ Suc a))" using assms(2) by (simp add: not_less)
  with assms(1,3) show ?thesis by (subst peak_loop.simps) (simp only: if_False if_True Let_def prod.case diff_Suc_1 simp_thms)
qed

lemma peak_loop_step:
  assumes "n < 2 ^ Suc a" "nodes = off + size_below (Suc a) n" "off + 2 ^ (a + 2) \<le> 2 ^ 32"
  shows "peak_loop nodes (Suc a) (off + 2 ^ (a + 2) - 2) acc =
    (if 2 ^ a \<le> n then
       (if a = 0 then Ok (acc @ [off + 2 ^ (a + 1) - 2])
        else peak_loop nodes a (off + 2 ^ (a + 1) - 1 + 2 ^ (a + 1) - 2) (acc @ [off + 2 ^ (a + 1) - 2]))
     else if a = 0 then Ok acc else peak_loop nodes a (off + 2 ^ (a + 1) - 2) acc)"
proof -
  define P where "P = (2 :: nat) ^ (a + 1)"
  have P: "2 ^ Suc a = P" "2 ^ (a + 2) = 2 * P" "2 ^ (a + 1) = P" "2 \<le> P" "(2 :: nat) ^ 32 = 4294967296" by (simp_all add: P_def)
  have less: "size_below (Suc a) n < 2 * P - 1" using size_below_less [OF assms(1)] by (simp add: P_def)
  have taken: "off + P - 2 < nodes \<longleftrightarrow> 2 ^ a \<le> n"
  proof (cases "2 ^ a \<le> n")
    case True
    from size_below_taken [OF this] have "nodes + 1 = off + P + size_below a (n - 2 ^ a)" unfolding assms(2) P by linarith
    with True P(4) show ?thesis by linarith
  next
    case False
    then have "size_below a n < P - 1" "nodes = off + size_below a n"
      using size_below_less [of n a] assms(2) by (simp_all add: P_def)
    with False show ?thesis by linarith
  qed
  have q: "nodes \<le> off + 2 * P - 2" "P \<le> off + 2 * P - 2" "off + P - 2 = off + 2 * P - 2 - P"
    using less P(4) assms(2) by linarith+
  have fits: "\<not> off + P - 2 + P > u32_max" using assms(3) unfolding P u32_max_def by linarith
  have next_pos: "off + P - 2 + P - 1 = off + P - 1 + P - 2" using P(4) by linarith
  show ?thesis
    unfolding P peak_loop_down [of nodes "off + 2 * P - 2" a, unfolded P, OF q] taken by (simp only: fits next_pos if_False)
qed

lemma peak_loop_rest:
  "n < 2 ^ a \<Longrightarrow> 0 < a \<Longrightarrow> nodes = off + size_below a n \<Longrightarrow> off + 2 ^ (a + 1) \<le> 2 ^ 32 \<Longrightarrow>
    peak_loop nodes a (off + 2 ^ (a + 1) - 2) acc = Ok (acc @ peaks_below a n off)"
proof (induction a arbitrary: n off acc)
  case (Suc a)
  note step = peak_loop_step [OF Suc.prems(1,3), of acc]
  show ?case
  proof (cases "2 ^ a \<le> n")
    case True
    have rest: "n - 2 ^ a < 2 ^ a" using Suc.prems(1) True by simp
    have pow: "(2 :: nat) ^ (Suc a + 1) = 2 * 2 ^ (a + 1)" "(1 :: nat) \<le> 2 ^ (a + 1)" by simp_all
    have nodes: "nodes = off + 2 ^ (a + 1) - 1 + size_below a (n - 2 ^ a)" 
      using Suc.prems(3) size_below_taken [OF True] pow(2) by linarith
    have "off + 2 ^ (a + 1) - 1 + 2 ^ (a + 1) \<le> 2 ^ 32" using Suc.prems(4) pow by linarith
    from Suc.IH [OF rest _ nodes this, of "acc @ [off + 2 ^ (a + 1) - 2]"] True step Suc.prems(4) show ?thesis
      by (cases "a = 0") simp_all
  next
    case False
    with step Suc.prems Suc.IH [of n off acc] show ?thesis by (cases "a = 0") auto
  qed
qed simp

lemma bit_length_eq: "2 ^ k \<le> n \<Longrightarrow> n < 2 ^ Suc k \<Longrightarrow> bit_length n = Suc k"
proof (induction k arbitrary: n)
  case 0
  then have "n = 1" by simp
  then show ?case by (simp add: bit_length.simps)
next
  case (Suc k)
  then have "bit_length (n div 2) = Suc k" by (intro Suc.IH) (simp_all add: less_mult_imp_div_less mult.commute)
  moreover have "n \<noteq> 0" using Suc.prems(1) by (metis not_one_le_zero one_le_numeral one_le_power order_trans)
  ultimately show ?case by (subst bit_length.simps) simp
qed

lemma bit_length_exists:
  assumes "0 < n"
  obtains k where "bit_length n = Suc k" "2 ^ k \<le> n" "n < 2 ^ Suc k"
proof -
  have "\<exists>k. 2 ^ k \<le> n \<and> n < 2 ^ Suc k" using assms
    by (metis ex_power_ivl1 less_eq_Suc_le One_nat_def Suc_eq_plus1 le_refl one_less_numeral_iff semiring_norm(76) numeral_le_iff numeral_2_eq_2 Suc_leI lessI)
  then show thesis using that bit_length_eq by blast
qed

lemma peak_positions_mmr:
  assumes "0 < n" "n < 2 ^ 31"
  shows "peak_positions (mmr_size n) = Ok (mmr_peaks n)"
proof -
  obtain k where k: "bit_length n = Suc k" "2 ^ k \<le> n" "n < 2 ^ Suc k" using assms(1) by (rule bit_length_exists)
  define P where "P = (2 :: nat) ^ (k + 1)"
  define m where "m = n - 2 ^ k"
  have m: "m < 2 ^ k" using k(3) by (simp add: m_def)
  have "(2 :: nat) ^ k < 2 ^ 31" using k(2) assms(2) by linarith
  then have k30: "k \<le> 30" using power_less_imp_less_exp [of "2 :: nat" k 31] by simp
  then have P: "2 \<le> P" "2 * P \<le> 2 ^ 32" using power_increasing [of "k + 2" 32 "2 :: nat"] by (simp_all add: P_def)
  have size_n: "mmr_size n + 1 = P + size_below k m" using size_below_taken [OF k(2)] by (simp add: mmr_size_def k(1) P_def m_def)
  have less: "size_below k m < P - 1" using size_below_less [OF m] by (simp add: P_def)
  have range: "2 ^ Suc k \<le> mmr_size n + 1" "mmr_size n + 1 < 2 ^ Suc (Suc k)" using size_n less by (simp_all add: P_def)
  have len: "bit_length (mmr_size n + 1) = Suc (Suc k)" using bit_length_eq [OF range] .
  have "(2 :: nat) ^ Suc (Suc k) \<le> 2 ^ 32" using P by (simp add: P_def)
  then have fits: "mmr_size n + 1 \<le> u32_max" using range(2) by (simp add: u32_max_def)
  have lz: "leading_zeros32 (mmr_size n + 1) = 30 - k" using k30 unfolding leading_zeros32_def len by simp
  have alt: "(32 - (30 - k) - 1) - 1 = k" using k30 by simp
  have "peak_positions (mmr_size n) = peak_loop (mmr_size n) k (P - 2) []"
    using fits k30 lz by (simp add: peak_positions_def checked_u32_def assert_that_def alt P_def)
  also have "\<dots> = (if k = 0 then Ok [P - 2] else peak_loop (mmr_size n) k (P - 2 + P - 1) [P - 2])"
  proof -
    have "P - 2 < mmr_size n" "\<not> P - 2 + P > u32_max" using size_n P by (simp_all add: u32_max_def)
    then show ?thesis by (subst peak_loop.simps) (simp add: P_def [unfolded Suc_eq_plus1 [symmetric], symmetric] del: power_Suc)
  qed
  also have "\<dots> = Ok ((P - 2) # peaks_below k m (P - 1))"
  proof (cases "k = 0")
    case False
    have "mmr_size n = (P - 1) + size_below k m" "P - 1 + 2 ^ (k + 1) \<le> 2 ^ 32" "P - 2 + P - 1 = P - 1 + 2 ^ (k + 1) - 2"
      unfolding P_def [symmetric] using size_n P by linarith+
    with peak_loop_rest [OF m _ this(1,2)] False show ?thesis by simp
  qed simp
  also have "(P - 2) # peaks_below k m (P - 1) = mmr_peaks n" using k by (simp add: mmr_peaks_def P_def m_def)
  finally show ?thesis .
qed

section \<open>Appending a leaf\<close>

lemma peaks_below_range: "n < 2 ^ k \<Longrightarrow> p \<in> set (peaks_below k n off) \<Longrightarrow> off \<le> p \<and> p < off + size_below k n"
proof (induction k arbitrary: n off)
  case (Suc k)
  show ?case
  proof (cases "2 ^ k \<le> n")
    case True
    have less: "n - 2 ^ k < 2 ^ k" using Suc.prems(1) True by simp
    have P: "2 \<le> (2 :: nat) ^ (k + 1)" using one_le_power [of "2 :: nat" k] by simp
    from Suc.prems(2) True consider "p = off + 2 ^ (k + 1) - 2" | "p \<in> set (peaks_below k (n - 2 ^ k) (off + 2 ^ (k + 1) - 1))"
      by auto
    then show ?thesis
    proof cases
      case 1
      then show ?thesis using size_below_taken [OF True] P by linarith
    next
      case 2
      from Suc.IH [OF less this] show ?thesis using size_below_taken [OF True] P by linarith
    qed
  next
    case False
    with Suc.IH [of n off] Suc.prems(2) show ?thesis by simp
  qed
qed simp

lemma peaks_below_sorted: "n < 2 ^ k \<Longrightarrow> sorted_wrt (<) (peaks_below k n off)"
proof (induction k arbitrary: n off)
  case (Suc k)
  show ?case
  proof (cases "2 ^ k \<le> n")
    case True
    have less: "n - 2 ^ k < 2 ^ k" using Suc.prems(1) True by simp
    have P: "2 \<le> (2 :: nat) ^ (k + 1)" using one_le_power [of "2 :: nat" k] by simp
    have "off + 2 ^ (k + 1) - 2 < p" if "p \<in> set (peaks_below k (n - 2 ^ k) (off + 2 ^ (k + 1) - 1))" for p
      using peaks_below_range [OF less that] P by linarith
    with Suc.IH [OF less] True show ?thesis by simp
  next
    case False
    with Suc.IH [of n off] show ?thesis by simp
  qed
qed simp

lemma below_more: "n < 2 ^ k \<Longrightarrow> peaks_below (k + d) n off = peaks_below k n off \<and> size_below (k + d) n = size_below k n"
proof (induction d)
  case (Suc d)
  have "(2 :: nat) ^ k \<le> 2 ^ (k + d)" by (simp add: power_increasing)
  then have "\<not> 2 ^ (k + d) \<le> n" using Suc.prems by linarith
  with Suc show ?case by simp
qed simp

lemma peaks_below_Suc:
  "Suc n < 2 ^ k \<Longrightarrow> size_below k n < size_below k (Suc n)
    \<and> set (peaks_below k (Suc n) off) \<subseteq> set (peaks_below k n off) \<union> {off + size_below k n ..< off + size_below k (Suc n)}"
proof (induction k arbitrary: n off)
  case (Suc k)
  have P: "2 \<le> (2 :: nat) ^ (k + 1)" using one_le_power [of "2 :: nat" k] by simp
  consider "2 ^ k \<le> n" | "Suc n = 2 ^ k" | "Suc n < 2 ^ k" by linarith
  then show ?case
  proof cases
    case 1
    have eq: "Suc n - 2 ^ k = Suc (n - 2 ^ k)" using 1 by simp
    have "Suc (n - 2 ^ k) < 2 ^ k" using 1 Suc.prems by simp
    note IH = Suc.IH [OF this, of "off + 2 ^ (k + 1) - 1"]
    have sizes: "off + size_below (Suc k) n = (off + 2 ^ (k + 1) - 1) + size_below k (n - 2 ^ k)"
      "off + size_below (Suc k) (Suc n) = (off + 2 ^ (k + 1) - 1) + size_below k (Suc (n - 2 ^ k))"
      using size_below_taken [OF 1] size_below_taken [of k "Suc n"] 1 P unfolding eq by linarith+
    have "size_below (Suc k) n < size_below (Suc k) (Suc n)" using IH sizes by linarith
    moreover have "set (peaks_below (Suc k) (Suc n) off) \<subseteq> set (peaks_below (Suc k) n off)
        \<union> {(off + 2 ^ (k + 1) - 1) + size_below k (n - 2 ^ k) ..< (off + 2 ^ (k + 1) - 1) + size_below k (Suc (n - 2 ^ k))}"
      using IH 1 eq by auto
    ultimately show ?thesis unfolding sizes by blast
  next
    case 2
    have "size_below k n < 2 ^ (k + 1) - 1" using 2 by (intro size_below_less) simp
    moreover have "size_below (Suc k) n = size_below k n" using 2 by simp
    moreover have "size_below (Suc k) (Suc n) + 1 = 2 ^ (k + 1)" using size_below_taken [of k "Suc n"] 2 size_below_le_twice [of k 0] by simp
    moreover have "peaks_below (Suc k) (Suc n) off = (off + 2 ^ (k + 1) - 2) # peaks_below k 0 (off + 2 ^ (k + 1) - 1)"
      using 2 by simp
    moreover have "peaks_below k 0 x = []" for x by (induction k) simp_all
    ultimately show ?thesis using P by auto
  next
    case 3
    with Suc.IH [of n off] show ?thesis by simp
  qed
qed simp

lemma mmr_bits:
  assumes "n < 2 ^ k"
  shows "mmr_size n = size_below k n" "mmr_peaks n = peaks_below k n 0"
proof -
  have "bit_length n \<le> k \<and> n < 2 ^ bit_length n"
  proof (cases "n = 0")
    case False
    then obtain j where j: "bit_length n = Suc j" "2 ^ j \<le> n" "n < 2 ^ Suc j" using bit_length_exists by blast
    have "(2 :: nat) ^ j < 2 ^ k" using j(2) assms by linarith
    then have "j < k" using power_less_imp_less_exp [of "2 :: nat" j k] by simp
    with j show ?thesis by simp
  qed (simp add: bit_length.simps)
  with below_more [of n "bit_length n" "k - bit_length n" 0] show "mmr_size n = size_below k n" "mmr_peaks n = peaks_below k n 0"
    by (simp_all add: mmr_size_def mmr_peaks_def)
qed

lemma mmr_Suc:
  "mmr_size n < mmr_size (Suc n)" "set (mmr_peaks (Suc n)) \<subseteq> set (mmr_peaks n) \<union> {mmr_size n ..< mmr_size (Suc n)}"
  "sorted_wrt (<) (mmr_peaks n)" "p \<in> set (mmr_peaks n) \<Longrightarrow> p < mmr_size n"
proof -
  have n: "n < 2 ^ Suc n" "Suc n < 2 ^ Suc n" using less_exp [of "Suc n"] by linarith+
  show "mmr_size n < mmr_size (Suc n)" "set (mmr_peaks (Suc n)) \<subseteq> set (mmr_peaks n) \<union> {mmr_size n ..< mmr_size (Suc n)}"
    using peaks_below_Suc [OF n(2), of 0] by (simp_all add: mmr_bits [OF n(1)] mmr_bits [OF n(2)])
  show "sorted_wrt (<) (mmr_peaks n)" using peaks_below_sorted [OF n(1)] by (simp add: mmr_bits [OF n(1)])
  show "p \<in> set (mmr_peaks n) \<Longrightarrow> p < mmr_size n"
    using peaks_below_range [OF n(1), of p 0] by (simp add: mmr_bits [OF n(1)])
qed

section \<open>The tree follows the blocks of its network upgrade\<close>

text \<open>What the documentation of the library says; \<open>leaves\<close> is the number of leaves of its tree.\<close>

definition history_lib_ok :: "('i, 'n) history_lib \<Rightarrow> ('i \<Rightarrow> nat) \<Rightarrow> bool" where
  "history_lib_ok lib leaves \<longleftrightarrow>
     (\<forall>v node. hl_new_leaf lib v node \<noteq> None)
     \<and> (\<forall>v tree node tree' entries. hl_append_leaf lib v tree node = Some (tree', entries) \<longrightarrow>
          length entries = mmr_size (Suc (leaves tree)) - mmr_size (leaves tree) \<and> None \<notin> set entries)
     \<and> (\<forall>v n peaks. peaks \<noteq> [] \<longrightarrow> leaves (hl_tree_new lib v (mmr_size n) peaks) = n)"

text \<open>A tree over the \<open>n\<close> blocks from the activation of its upgrade up to its height.\<close>

definition tree_over :: "('i \<Rightarrow> nat) \<Rightarrow> nat \<Rightarrow> ('i, 'n) nonempty_history_tree \<Rightarrow> bool" where
  "tree_over leaves n t \<longleftrightarrow> ht_size t = mmr_size n \<and> map fst (ht_peaks t) = mmr_peaks n \<and> leaves (mt_inner (ht_inner t)) = n
     \<and> mt_network (ht_inner t) = ht_network t \<and> mt_upgrade (ht_inner t) = ht_upgrade t"

definition nonempty_ok :: "('i \<Rightarrow> nat) \<Rightarrow> network \<Rightarrow> height \<Rightarrow> ('i, 'n) nonempty_history_tree \<Rightarrow> bool" where
  "nonempty_ok leaves net h t \<longleftrightarrow> ht_network t = net \<and> ht_current_height t = h
     \<and> current net h = (Ok (ht_upgrade t) :: (history_error, network_upgrade) outcome) \<and> Heartwood \<le> ht_upgrade t
     \<and> (\<exists>act. upgrade_activation_height (ht_upgrade t) net = Some act \<and> act \<le> h \<and> tree_over leaves (Suc (h - act)) t)"

definition history_ok :: "('i \<Rightarrow> nat) \<Rightarrow> network \<Rightarrow> height \<Rightarrow> ('i, 'n) history_tree \<Rightarrow> bool" where
  "history_ok leaves net h t \<longleftrightarrow>
     (if \<exists>hw. upgrade_activation_height Heartwood net = Some hw \<and> hw \<le> h
      then \<exists>t'. t = Some t' \<and> nonempty_ok leaves net h t' else t = None)"

lemma insert_entries_append:
  "sorted_keys m \<Longrightarrow> \<forall>k \<in> fst ` set m. k < s \<Longrightarrow> s + length es \<le> u32_max \<Longrightarrow>
    insert_entries s m es = Ok (s + length es, m @ zip [s ..< s + length es] es)"
proof (induction es arbitrary: s m)
  case (Cons e es)
  have "insert_entries (Suc s) (m @ [(s, e)]) es = Ok (Suc s + length es, (m @ [(s, e)]) @ zip [Suc s ..< Suc s + length es] es)"
    using Cons.prems by (intro Cons.IH) (auto simp: sorted_keys_append less_Suc_eq)
  moreover have "[s ..< s + length (e # es)] = s # [Suc s ..< Suc s + length es]" by (simp add: upt_conv_Cons del: upt_Suc)
  ultimately show ?case using Cons.prems bt_insert_last [OF Cons.prems(1,2)] by (simp add: checked_u32_def)
qed simp

lemma filter_new_peaks:
  "filter (\<lambda>k. k \<in> set (mmr_peaks (Suc n))) (mmr_peaks n @ [mmr_size n ..< mmr_size (Suc n)]) = mmr_peaks (Suc n)"
proof (rule strict_sorted_equal)
  show "sorted_wrt (<) (filter (\<lambda>k. k \<in> set (mmr_peaks (Suc n))) (mmr_peaks n @ [mmr_size n ..< mmr_size (Suc n)]))"
    using mmr_Suc(3) [of n] less_le_trans [OF mmr_Suc(4) [of _ n]] by (intro sorted_wrt_filter) (auto simp: sorted_wrt_append)
  show "sorted_wrt (<) (mmr_peaks (Suc n))" by (rule mmr_Suc(3))
  show "set (filter (\<lambda>k. k \<in> set (mmr_peaks (Suc n))) (mmr_peaks n @ [mmr_size n ..< mmr_size (Suc n)])) = set (mmr_peaks (Suc n))"
    using mmr_Suc(2) [of n] by auto
qed

lemma mmr_size_bound: "n < 2 ^ 31 \<Longrightarrow> mmr_size n < 2 ^ 32"
  using size_below_le_twice [of "bit_length n" n] by (simp add: mmr_size_def)

lemma filter_keys: "map fst (filter (\<lambda>(k, _). k \<in> S) m) = filter (\<lambda>k. k \<in> S) (map fst m)"
  by (induction m) auto

lemma mmr_peaks_nonempty: "mmr_peaks (Suc n) \<noteq> []"
proof
  assume "mmr_peaks (Suc n) = []"
  obtain k where "bit_length (Suc n) = Suc k" "2 ^ k \<le> Suc n" using bit_length_exists [of "Suc n"] by blast
  with \<open>mmr_peaks (Suc n) = []\<close> show False by (simp add: mmr_peaks_def)
qed

lemma prune_tree_over:
  assumes lib: "history_lib_ok lib leaves" and n: "Suc n < 2 ^ 31" and br: "for_network_upgrade (ht_network t) (ht_upgrade t) = Some branch_id"
    and t: "ht_size t = mmr_size (Suc n)" "map fst (ht_peaks t) = mmr_peaks n @ [mmr_size n ..< mmr_size (Suc n)]"
  shows "case prune_tree lib t of
    Ok t' \<Rightarrow> tree_over leaves (Suc n) t' \<and> ht_network t' = ht_network t \<and> ht_upgrade t' = ht_upgrade t | Err e \<Rightarrow> e = IOError | Panic \<Rightarrow> False"
proof -
  let ?p = "filter (\<lambda>(k, _). k \<in> set (mmr_peaks (Suc n))) (ht_peaks t)"
  have p: "map fst ?p = mmr_peaks (Suc n)" unfolding filter_keys t(2) by (rule filter_new_peaks)
  then have "?p \<noteq> []" using mmr_peaks_nonempty [of n] by auto
  note cache = new_from_cache_cases [OF br this, of lib "ht_version t" "mmr_size (Suc n)"]
  have "leaves (hl_tree_new lib v (mmr_size (Suc n)) ps) = Suc n" if "ps \<noteq> []" for v ps
    using lib that by (simp add: history_lib_ok_def)
  with cache p t(1) show ?thesis
    by (auto simp: prune_tree_def peak_positions_mmr [OF _ n] Let_def rebuilt_inner_def tree_over_def split: outcome.splits)
qed

lemma append_leaf_over:
  assumes lib: "history_lib_ok lib leaves" and t: "tree_over leaves n t" and n: "Suc n < 2 ^ 31"
    and br: "for_network_upgrade (ht_network t) (ht_upgrade t) = Some branch_id"
    and leaf: "hl_append_leaf lib v (mt_inner (ht_inner t)) node = Some (tree, links)"
  shows "\<exists>entries peaks. resolve_entries links = Ok entries
    \<and> insert_entries (ht_size t) (ht_peaks t) entries = Ok (mmr_size (Suc n), peaks)
    \<and> (case prune_tree lib (t\<lparr>ht_inner := i, ht_size := mmr_size (Suc n), ht_peaks := peaks\<rparr>) of
         Ok t' \<Rightarrow> tree_over leaves (Suc n) t' \<and> ht_network t' = ht_network t \<and> ht_upgrade t' = ht_upgrade t
       | Err e \<Rightarrow> e = IOError | Panic \<Rightarrow> False)"
proof -
  from t have keys: "map fst (ht_peaks t) = mmr_peaks n" "ht_size t = mmr_size n" "leaves (mt_inner (ht_inner t)) = n"
    by (simp_all add: tree_over_def)
  have links: "length links = mmr_size (Suc n) - mmr_size n" "None \<notin> set links"
    using lib leaf keys(3) unfolding history_lib_ok_def by metis+
  define entries where "entries = map the links"
  have len: "length entries = mmr_size (Suc n) - mmr_size n" using links by (simp add: entries_def)
  have less: "mmr_size n < mmr_size (Suc n)" by (rule mmr_Suc(1))
  define peaks where "peaks = ht_peaks t @ zip [mmr_size n ..< mmr_size (Suc n)] entries"
  have "insert_entries (mmr_size n) (ht_peaks t) entries = Ok (mmr_size n + length entries, ht_peaks t @ zip [mmr_size n ..< mmr_size n + length entries] entries)"
  proof (rule insert_entries_append)
    show "sorted_keys (ht_peaks t)" using mmr_Suc(3) by (simp add: sorted_keys_def keys)
    show "\<forall>k \<in> fst ` set (ht_peaks t). k < mmr_size n"
      using mmr_Suc(4) keys(1) by (metis list.set_map)
    show "mmr_size n + length entries \<le> u32_max" using mmr_size_bound [OF n] len less by (simp add: u32_max_def)
  qed
  then have ins: "insert_entries (ht_size t) (ht_peaks t) entries = Ok (mmr_size (Suc n), peaks)"
    using len less by (simp add: keys peaks_def)
  have p: "map fst peaks = mmr_peaks n @ [mmr_size n ..< mmr_size (Suc n)]" using len by (simp add: peaks_def keys)
  from prune_tree_over [OF lib n, of "t\<lparr>ht_inner := i, ht_size := mmr_size (Suc n), ht_peaks := peaks\<rparr>" branch_id] br p
  have "case prune_tree lib (t\<lparr>ht_inner := i, ht_size := mmr_size (Suc n), ht_peaks := peaks\<rparr>) of
      Ok t' \<Rightarrow> tree_over leaves (Suc n) t' \<and> ht_network t' = ht_network t \<and> ht_upgrade t' = ht_upgrade t
    | Err e \<Rightarrow> e = IOError | Panic \<Rightarrow> False" by (simp split: outcome.splits)
  with ins resolve_entries_Ok [OF links(2)] show ?thesis unfolding entries_def by blast
qed

text \<open>The upgrades at a height and at the next one.\<close>

lemma current_activation:
  assumes "schedule_ok (activation_list_of net)"
  obtains nu where "current net h = (Ok nu :: ('e, network_upgrade) outcome)"
    "\<And>nu'. nu' \<le> nu \<longleftrightarrow> (\<exists>a. upgrade_activation_height nu' net = Some a \<and> a \<le> h)"
  using schedule_current_iff [OF assms, of h, where 'e = 'e] unfolding current_def upgrade_activation_height_def by blast

lemma upgrade_at_next_height:
  assumes ok: "schedule_ok (activation_list_of net)"
    and "current net h = (Ok nu :: ('e, network_upgrade) outcome)" "current net (Suc h) = (Ok nu' :: ('e, network_upgrade) outcome)"
  shows "nu \<le> nu'" "nu \<noteq> nu' \<Longrightarrow> upgrade_activation_height nu' net = Some (Suc h)"
proof -
  from current_activation [OF ok, of h, where 'e = 'e] assms(2)
  have at_h: "n \<le> nu \<longleftrightarrow> (\<exists>a. upgrade_activation_height n net = Some a \<and> a \<le> h)" for n by auto
  from current_activation [OF ok, of "Suc h", where 'e = 'e] assms(3)
  have next_h: "n \<le> nu' \<longleftrightarrow> (\<exists>a. upgrade_activation_height n net = Some a \<and> a \<le> Suc h)" for n by auto
  show le: "nu \<le> nu'" using at_h [of nu] next_h [of nu] by (auto intro: le_SucI)
  assume "nu \<noteq> nu'"
  with le have "\<not> nu' \<le> nu" by auto
  with at_h [of nu'] next_h [of nu'] show "upgrade_activation_height nu' net = Some (Suc h)" by (auto simp: le_Suc_eq)
qed

lemma history_version_total: "Heartwood \<le> nu \<Longrightarrow> \<exists>v. history_version_of nu = Ok v"
  by (cases nu) (simp_all add: history_version_of_def less_eq_network_upgrade_def)

lemma mmr_one: "mmr_size 1 = 1" "mmr_peaks 1 = [0]"
  by (simp_all add: mmr_size_def mmr_peaks_def bit_length_eq [of 0])

text \<open>The first block of an upgrade starts a new tree.\<close>

lemma from_block_ok:
  assumes lib: "history_lib_ok lib leaves" and nu: "current net h = (Ok nu :: (history_error, network_upgrade) outcome)"
    and hw: "Heartwood \<le> nu" "upgrade_activation_height nu net = Some h" and h: "block_coinbase_height (sv_transactions b) = Some h"
    and leaf: "leaf_ok net b"
  shows "case nonempty_from_block lib net b roots of
      Ok t \<Rightarrow> nonempty_ok leaves net h t \<and> ht_upgrade t = nu | Err e \<Rightarrow> e = IOError | Panic \<Rightarrow> False"
proof -
  from history_version_total [OF hw(1)] obtain v where v: "history_version_of nu = Ok v" ..
  from leaf_okD(2,3) [OF leaf h nu] obtain br node where br: "for_network_upgrade net nu = Some br"
    and node: "block_to_history_node v b net roots = Ok node" by metis
  have "hl_new_leaf lib v node \<noteq> None" using lib unfolding history_lib_ok_def by blast
  then obtain entry where entry: "hl_new_leaf lib v node = Some entry" by blast
  have "leaves (hl_tree_new lib v 1 ps) = 1" if "ps \<noteq> []" for ps
    using lib that mmr_one(1) unfolding history_lib_ok_def by metis
  with new_from_cache_cases [OF br, of "[(0, entry)]" lib v 1] v nu hw h node entry show ?thesis
    by (auto simp: nonempty_from_block_def mmr_new_from_block_def nonempty_ok_def tree_over_def mmr_one [unfolded One_nat_def] split: outcome.splits)
qed

lemma nonempty_push_ok:
  assumes lib: "history_lib_ok lib leaves" and sch: "schedule_ok (activation_list_of net)"
    and t: "nonempty_ok leaves net h t" and h: "block_coinbase_height (sv_transactions b) = Some (Suc h)" "Suc h < HEIGHT_MAX"
    and leaf: "leaf_ok net b"
  shows "case nonempty_push lib b roots t of Ok t' \<Rightarrow> nonempty_ok leaves net (Suc h) t' | Err e \<Rightarrow> True | Panic \<Rightarrow> False"
proof -
  from t obtain act where act: "ht_network t = net" "ht_current_height t = h" "Heartwood \<le> ht_upgrade t"
    "current net h = (Ok (ht_upgrade t) :: (history_error, network_upgrade) outcome)"
    "upgrade_activation_height (ht_upgrade t) net = Some act" "act \<le> h" "tree_over leaves (Suc (h - act)) t"
    by (auto simp: nonempty_ok_def)
  from current_activation [OF sch, of "Suc h"] obtain nu where nu: "current net (Suc h) = (Ok nu :: (history_error, network_upgrade) outcome)" by blast
  note step = upgrade_at_next_height [OF sch act(4) nu]
  have hw: "Heartwood \<le> nu" using act(3) step(1) by (rule order_trans)
  have height: "height_add h 1 = Some (Suc h)" using h(2) by (simp add: height_add_eq)
  show ?thesis
  proof (cases "nu = ht_upgrade t")
    case False
    with from_block_ok [OF lib nu hw _ h(1) leaf, of roots] step(2) act height h nu show ?thesis
      by (cases "nonempty_from_block lib net b roots") (auto simp: nonempty_push_def assert_that_def)
  next
    case True
    have n: "Suc (Suc (h - act)) < 2 ^ 31" using h(2) by (simp add: HEIGHT_MAX_def u32_max_def)
    from leaf_okD(2,3) [OF leaf h(1) nu] obtain br node where br: "for_network_upgrade net nu = Some br"
      and node: "block_to_history_node (ht_version t) b net roots = Ok node" by metis
    have inner: "mt_network (ht_inner t) = net" "mt_upgrade (ht_inner t) = nu" using act True by (simp_all add: tree_over_def)
    show ?thesis
    proof (cases "hl_append_leaf lib (ht_version t) (mt_inner (ht_inner t)) node")
      case None
      with True act height h nu inner node show ?thesis by (simp add: nonempty_push_def mmr_append_leaf_def assert_that_def)
    next
      case (Some x)
      obtain tree links where x: "x = (tree, links)" by fastforce
      from append_leaf_over [OF lib act(7) n _ Some [unfolded x], of br "(ht_inner t)\<lparr>mt_inner := tree\<rparr>"] br True act(1) obtain entries peaks where
        ins: "resolve_entries links = Ok entries" "insert_entries (ht_size t) (ht_peaks t) entries = Ok (mmr_size (Suc (Suc (h - act))), peaks)"
        and pr: "case prune_tree lib (t\<lparr>ht_inner := (ht_inner t)\<lparr>mt_inner := tree\<rparr>, ht_size := mmr_size (Suc (Suc (h - act))), ht_peaks := peaks\<rparr>) of
          Ok t' \<Rightarrow> tree_over leaves (Suc (Suc (h - act))) t' \<and> ht_network t' = ht_network t \<and> ht_upgrade t' = ht_upgrade t
        | Err e \<Rightarrow> e = IOError | Panic \<Rightarrow> False" by blast
      have "Suc h - act = Suc (h - act)" using act(6) by simp
      with pr True act height h nu Some x ins inner node show ?thesis
        by (auto simp: nonempty_push_def mmr_append_leaf_def nonempty_ok_def assert_that_def tree_over_def split: outcome.splits)
    qed
  qed
qed

section \<open>Properties\<close>

text \<open>
  C13. The history tree follows the blocks of the current network upgrade.  If the tree has seen
  the blocks up to a height, and the block of the next height can be a leaf (from Heartwood on its upgrade has a
  branch id, its time is a number of 32 bits, its threshold is valid), then pushing it never panics, and if it succeeds the new
  tree has seen the blocks up to that height: before Heartwood it is empty; from then on its upgrade is the one of its
  height, its size is that of a mountain range over the blocks since the activation of this
  upgrade, the library's tree has that many leaves, and the positions kept are exactly the peaks of this range.  The
  tree is started afresh at every upgrade.
\<close>

theorem history_push_follows_upgrade:
  assumes "history_lib_ok lib leaves" "schedule_ok (activation_list_of net)" "history_ok leaves net h t"
    and "block_coinbase_height (sv_transactions b) = Some (Suc h)" "Suc h < HEIGHT_MAX"
    and leaf: "\<And>hw. upgrade_activation_height Heartwood net = Some hw \<Longrightarrow> hw \<le> Suc h \<Longrightarrow> leaf_ok net b"
  shows "history_push lib net b roots t \<noteq> Panic
    \<and> (\<forall>t'. history_push lib net b roots t = Ok t' \<longrightarrow> history_ok leaves net (Suc h) t')"
proof (cases "\<exists>hw. upgrade_activation_height Heartwood net = Some hw \<and> hw \<le> Suc h")
  case False
  then have "\<not> (\<exists>hw. upgrade_activation_height Heartwood net = Some hw \<and> hw \<le> h)" by (meson le_SucI)
  with assms(3) have "t = None" by (simp add: history_ok_def)
  with False assms(4) show ?thesis
    by (auto simp: history_push_def history_ok_def assert_that_def not_le split: option.splits)
next
  case True
  then obtain hw where hw: "upgrade_activation_height Heartwood net = Some hw" "hw \<le> Suc h" by blast
  note leaf = leaf [OF hw]
  obtain nu where nu: "current net (Suc h) = (Ok nu :: (history_error, network_upgrade) outcome)" "Heartwood \<le> nu"
    using current_activation [OF assms(2), of "Suc h"] hw by metis
  show ?thesis
  proof (cases "hw = Suc h")
    case eq: True
    obtain nu0 where nu0: "current net h = (Ok nu0 :: (history_error, network_upgrade) outcome)" "\<not> Heartwood \<le> nu0"
      using current_activation [OF assms(2), of h] hw eq by (metis not_less_eq_eq option.inject order_refl)
    have "upgrade_activation_height nu net = Some (Suc h)"
      using upgrade_at_next_height(2) [OF assms(2) nu0(1) nu(1)] nu(2) nu0(2) by blast
    with from_block_ok [OF assms(1) nu this assms(4) leaf, of roots] hw eq assms(4) show ?thesis
      by (auto simp: history_push_def history_ok_def split: outcome.splits)
  next
    case False
    with hw assms(3) obtain u where u: "t = Some u" "nonempty_ok leaves net h u" by (auto simp: history_ok_def)
    with nonempty_push_ok [OF assms(1,2) u(2) assms(4,5) leaf, of roots] hw False assms(4) show ?thesis
      by (auto simp: history_push_def history_ok_def split: outcome.splits)
  qed
qed

text \<open>A library that only counts leaves, and the first two blocks of a network.\<close>

definition counting_lib :: "(nat, unit) history_lib" where
  "counting_lib = \<lparr>hl_new_leaf = (\<lambda>_ _. Some ()), hl_from_bytes = (\<lambda>_ _. Some),
     hl_tree_new = (\<lambda>_ s _. the (find (\<lambda>n. mmr_size n = s) [0 ..< Suc s])),
     hl_append_leaf = (\<lambda>_ n _. Some (Suc n, replicate (mmr_size (Suc n) - mmr_size n) (Some ()))),
     hl_hash = (\<lambda>_ n. [of_nat n])\<rparr>"

lemma counting_lib_ok: "history_lib_ok counting_lib id"
proof -
  have mono: "strict_mono mmr_size" using mmr_Suc(1) by (simp add: strict_mono_Suc_iff)
  then have inj: "mmr_size m = mmr_size n \<Longrightarrow> m = n" for m n by (simp add: strict_mono_eq)
  have "n \<le> mmr_size n" for n using mono by (rule strict_mono_imp_increasing)
  then have found: "find (\<lambda>m. mmr_size m = mmr_size n) [0 ..< Suc (mmr_size n)] \<noteq> None" for n
    by (auto simp: find_None_iff less_Suc_eq_le simp del: upt_Suc)
  have unique: "find (\<lambda>m. mmr_size m = mmr_size n) ms = Some m \<Longrightarrow> m = n" for n m ms
    by (rule inj) (auto simp: find_Some_iff)
  have "the (find (\<lambda>m. mmr_size m = mmr_size n) [0 ..< Suc (mmr_size n)]) = n" for n
    by (rule unique) (rule option.collapse [OF found, symmetric])
  then show ?thesis unfolding history_lib_ok_def counting_lib_def by (simp del: upt_Suc)
qed

definition history_block :: "height \<Rightarrow> semantic_block" where
  "history_block h = sample_block\<lparr>sv_transactions := [sample_payment\<lparr>inputs := [Coinbase h [] 0]\<rparr>], sv_height := h,
     sv_time := 1789819200, sv_difficulty_threshold := 0x1f07ffff\<rparr>"

lemma history_block_fields:
  "block_coinbase_height (sv_transactions (history_block h)) = Some h" "sv_time (history_block h) = 1789819200"
  "sv_difficulty_threshold (history_block h) = 0x1f07ffff"
  by (simp_all add: history_block_def block_coinbase_height_def)

lemma live_branch_id: "for_network_upgrade live_wcash_mainnet Nu6_3 = Some WCASH_MAINNET_V1_BRANCH_ID"
  by (simp add: for_network_upgrade_def live_wcash_mainnet)

lemma history_block_leaf: "0 < h \<Longrightarrow> leaf_ok live_wcash_mainnet (history_block h)"
proof -
  have "target_value 0x1f07ffff = Some (0x07ffff * 256 ^ 28)" by (simp add: target_value_def u256_limit_def)
  then have "to_work 0x1f07ffff = (Ok (Some 8192) :: (history_error, _) outcome)"
    by (simp add: work_value_def u256_limit_def u128_max_def)
  then show "0 < h \<Longrightarrow> leaf_ok live_wcash_mainnet (history_block h)"
    by (simp add: leaf_ok_def history_block_fields live_wcash_mainnet live_branch_id time_u32_def u32_max_def less_eq_network_upgrade_def)
qed

definition no_roots :: tree_roots where
  "no_roots = \<lparr>sapling_root = [], orchard_root = [], ironwood_root = []\<rparr>"

lemma history_first_push: "\<exists>t. history_push counting_lib live_wcash_mainnet (history_block 1) no_roots None = Ok (Some t)"
proof -
  have nu: "current live_wcash_mainnet 1 = (Ok Nu6_3 :: (history_error, network_upgrade) outcome)" by (simp add: live_wcash_mainnet)
  from leaf_okD(3) [OF history_block_leaf history_block_fields(1) nu, of IronwoodOnward no_roots]
  obtain node where "block_to_history_node IronwoodOnward (history_block 1) live_wcash_mainnet no_roots = Ok node" by auto
  then show ?thesis
    by (simp add: history_push_def nonempty_from_block_def mmr_new_from_block_def mmr_new_from_cache_def history_block_fields nu live_activation
        history_version_of_def live_branch_id counting_lib_def assert_that_def del: One_nat_def)
qed

theorem history_push_follows_upgrade_witness:
  "\<exists>t1. history_push counting_lib live_wcash_mainnet (history_block 1) no_roots None = Ok (Some t1)
    \<and> history_ok id live_wcash_mainnet 1 (Some t1)
    \<and> history_push counting_lib live_wcash_mainnet (history_block 2) no_roots (Some t1) \<noteq> Panic"
proof -
  have sch: "schedule_ok (activation_list_of live_wcash_mainnet)" by (simp add: live_wcash_mainnet schedule_ok_wcash)
  note push = history_push_follows_upgrade [OF counting_lib_ok sch _ history_block_fields(1), where roots = no_roots]
  have max: "Suc 1 < HEIGHT_MAX" "Suc 0 < HEIGHT_MAX" by (simp_all add: HEIGHT_MAX_def u32_max_def)
  have start: "history_ok id live_wcash_mainnet 0 (None :: (nat, unit) history_tree)" by (simp add: history_ok_def live_activation)
  obtain t1 where t1: "history_push counting_lib live_wcash_mainnet (history_block 1) no_roots None = Ok (Some t1)"
    using history_first_push by blast
  with push [OF start max(2) history_block_leaf] have ok: "history_ok id live_wcash_mainnet 1 (Some t1)" by simp
  from push [OF this max(1) history_block_leaf]
  have "history_push counting_lib live_wcash_mainnet (history_block 2) no_roots (Some t1) \<noteq> Panic" by (simp add: numeral_2_eq_2)
  with t1 ok show ?thesis by blast
qed

end
