(* ===== verification/Tree_Index.thy ===== *)
theory Tree_Index
  imports Upgrades "HOL-Library.Multiset"
begin

text \<open>
  The note commitment tree indexes of a non-finalized chain, from
  \<^verbatim>\<open>zebra-state/src/service/non_finalized_state/chain.rs\<close>.

  A chain keeps the tree after each of its blocks, but stores a tree only at the first height of a
  run of equal trees; a lookup takes the last entry at or below a height.  Removing the root block
  must therefore move the tree of the removed height up to the next one.  The anchors (the roots of
  the trees) are kept for every height and counted in a multiset.  The tree type and its root are
  the library's and stay abstract.

  \<open>dense_index\<close> is the specification: the list of the trees of all heights.  The lemmas show that
  the code's index always is the sparse form of that list.
\<close>

datatype revert_position = Root | Tip

section \<open>The index of one pool\<close>

record 't tree_index =
  trees_by_height :: "(height, 't) btree_map"
  anchors_by_height :: "(height, bytes) btree_map"
  anchors :: "bytes multiset"

definition tree_index_default :: "'t tree_index" where
  "tree_index_default = \<lparr>trees_by_height = [], anchors_by_height = [], anchors = {#}\<rparr>"

definition tree_at :: "('t, 'z) tree_index_scheme \<Rightarrow> height \<Rightarrow> 't option" where
  "tree_at idx h = map_option snd (bt_last (bt_range_to h (trees_by_height idx)))"

definition tree_for_tip :: "('t, 'z) tree_index_scheme \<Rightarrow> ('e, 't) outcome" where
  "tree_for_tip idx = expect (map_option snd (bt_last (trees_by_height idx)))"

definition add_tree_and_anchor ::
  "('t \<Rightarrow> bytes) \<Rightarrow> height \<Rightarrow> 't \<Rightarrow> ('t, 'z) tree_index_scheme \<Rightarrow> ('e, ('t, 'z) tree_index_scheme) outcome" where
  "add_tree_and_anchor root h tree idx =
     qbind (if height_is_min h then Ok None
            else map_ok (tree_at idx) (expect_ok (height_previous h))) (\<lambda>prev_tree.
     qbind (if height_is_min h \<or> prev_tree \<noteq> Some tree
            then map_ok (\<lambda>_. bt_insert h tree (trees_by_height idx))
                   (assert_that (map_of (trees_by_height idx) h = None))
            else Ok (trees_by_height idx)) (\<lambda>trees.
     qbind (assert_that (map_of (anchors_by_height idx) h = None)) (\<lambda>_.
       Ok (idx\<lparr>trees_by_height := trees,
             anchors_by_height := bt_insert h (root tree) (anchors_by_height idx),
             anchors := add_mset (root tree) (anchors idx)\<rparr>))))"

fun remove_anchors ::
  "height list \<Rightarrow> ('t, 'z) tree_index_scheme \<Rightarrow> ('e, ('t, 'z) tree_index_scheme) outcome" where
  "remove_anchors [] idx = Ok idx"
| "remove_anchors (h # hs) idx =
     qbind (expect (map_of (anchors_by_height idx) h)) (\<lambda>anchor.
     qbind (assert_that (anchor \<in># anchors idx)) (\<lambda>_.
       remove_anchors hs
         (idx\<lparr>trees_by_height := bt_remove h (trees_by_height idx),
            anchors_by_height := bt_remove h (anchors_by_height idx),
            anchors := anchors idx - {#anchor#}\<rparr>)))"

text \<open>The heights a revert removes, and the tree it puts back above them.\<close>

definition removed_heights :: "revert_position \<Rightarrow> height \<Rightarrow> ('t, 'z) tree_index_scheme \<Rightarrow> height list" where
  "removed_heights position h idx =
     (if position = Root then filter (\<lambda>h'. h' \<le> h) (map fst (anchors_by_height idx)) else [h])"

definition restore_next_tree ::
  "height \<Rightarrow> 't option \<Rightarrow> height option \<Rightarrow> ('t, 'z) tree_index_scheme \<Rightarrow> ('e, ('t, 'z) tree_index_scheme) outcome" where
  "restore_next_tree h highest_removed_tree tip_height idx =
     (case tip_height of
        None \<Rightarrow> Ok idx
      | Some tip \<Rightarrow>
          if h < tip then
            qbind (expect_ok (height_next h)) (\<lambda>next_height.
              if map_of (trees_by_height idx) next_height \<noteq> None then Ok idx
              else map_ok (\<lambda>tree. idx\<lparr>trees_by_height := bt_insert next_height tree (trees_by_height idx)\<rparr>)
                     (expect highest_removed_tree))
          else Ok idx)"

definition remove_tree_and_anchor ::
  "revert_position \<Rightarrow> height \<Rightarrow> height option \<Rightarrow> ('t, 'z) tree_index_scheme \<Rightarrow> ('e, ('t, 'z) tree_index_scheme) outcome" where
  "remove_tree_and_anchor position h tip_height idx =
     (let highest_removed_tree = (if position = Root then tree_at idx h else None) in
      qbind (remove_anchors (removed_heights position h idx) idx)
        (restore_next_tree h highest_removed_tree tip_height))"

section \<open>The Sprout index\<close>

text \<open>Sprout transactions may refer to any earlier tree, so the trees are also kept by anchor.\<close>

record 't sprout_tree_index = "'t tree_index" +
  trees_by_anchor :: "bytes \<rightharpoonup> 't"

definition sprout_tree_index_default :: "'t sprout_tree_index" where
  "sprout_tree_index_default =
     \<lparr>trees_by_height = [], anchors_by_height = [], anchors = {#}, trees_by_anchor = Map.empty\<rparr>"

definition add_sprout_tree_and_anchor ::
  "('t \<Rightarrow> bytes) \<Rightarrow> height \<Rightarrow> 't \<Rightarrow> 't sprout_tree_index \<Rightarrow> ('e, 't sprout_tree_index) outcome" where
  "add_sprout_tree_and_anchor root h tree idx =
     map_ok (\<lambda>idx'. idx'\<lparr>trees_by_anchor := (trees_by_anchor idx')(root tree \<mapsto> tree)\<rparr>)
       (add_tree_and_anchor root h tree idx)"

fun remove_sprout_anchors :: "height list \<Rightarrow> 't sprout_tree_index \<Rightarrow> ('e, 't sprout_tree_index) outcome" where
  "remove_sprout_anchors [] idx = Ok idx"
| "remove_sprout_anchors (h # hs) idx =
     qbind (expect (map_of (anchors_by_height idx) h)) (\<lambda>anchor.
     qbind (assert_that (anchor \<in># anchors idx)) (\<lambda>_.
       let rest = anchors idx - {#anchor#} in
       remove_sprout_anchors hs
         (idx\<lparr>trees_by_height := bt_remove h (trees_by_height idx),
            anchors_by_height := bt_remove h (anchors_by_height idx),
            anchors := rest,
            trees_by_anchor := (if anchor \<in># rest then trees_by_anchor idx else (trees_by_anchor idx)(anchor := None))\<rparr>)))"

definition remove_sprout_tree_and_anchor ::
  "revert_position \<Rightarrow> height \<Rightarrow> height option \<Rightarrow> 't sprout_tree_index \<Rightarrow> ('e, 't sprout_tree_index) outcome" where
  "remove_sprout_tree_and_anchor position h tip_height idx =
     (let highest_removed_tree = (if position = Root then tree_at idx h else None) in
      qbind (remove_sprout_anchors (removed_heights position h idx) idx)
        (restore_next_tree h highest_removed_tree tip_height))"

section \<open>The specification: one tree for every height\<close>

text \<open>
  \<open>sparse prev h ts\<close> keeps the trees \<open>ts\<close> of the heights from \<open>h\<close> on that differ from the tree
  before them.
\<close>

fun sparse :: "'t option \<Rightarrow> height \<Rightarrow> 't list \<Rightarrow> (height, 't) btree_map" where
  "sparse prev h [] = []"
| "sparse prev h (t # ts) = (if prev = Some t then [] else [(h, t)]) @ sparse (Some t) (Suc h) ts"

text \<open>\<open>with_dense\<close> sets the three fields of an index to those of the trees \<open>ts\<close> from height \<open>h\<close> on.\<close>

definition with_dense ::
  "('t \<Rightarrow> bytes) \<Rightarrow> 't option \<Rightarrow> height \<Rightarrow> 't list \<Rightarrow> ('t, 'z) tree_index_scheme \<Rightarrow> ('t, 'z) tree_index_scheme" where
  "with_dense root prev h ts idx =
     idx\<lparr>trees_by_height := sparse prev h ts,
       anchors_by_height := zip [h ..< h + length ts] (map root ts),
       anchors := mset (map root ts)\<rparr>"

definition dense_index :: "('t \<Rightarrow> bytes) \<Rightarrow> height \<Rightarrow> 't list \<Rightarrow> 't tree_index" where
  "dense_index root h ts = with_dense root None h ts tree_index_default"

definition dense_sprout_index :: "('t \<Rightarrow> bytes) \<Rightarrow> height \<Rightarrow> 't list \<Rightarrow> 't sprout_tree_index" where
  "dense_sprout_index root h ts =
     with_dense root None h ts
       (sprout_tree_index_default\<lparr>trees_by_anchor := map_of (map (\<lambda>t. (root t, t)) ts)\<rparr>)"

subsection \<open>Facts about the sparse form\<close>

lemma sparse_key_range: "(k, t') \<in> set (sparse prev h ts) \<Longrightarrow> h \<le> k \<and> k < h + length ts"
proof (induction prev h ts rule: sparse.induct)
  case (2 prev h t ts)
  show ?case
  proof (cases "(k, t') \<in> set (sparse (Some t) (Suc h) ts)")
    case True
    from 2(1) [OF this] show ?thesis by simp
  next
    case False
    with 2(2) show ?thesis by (simp split: if_splits)
  qed
qed simp

lemma sparse_keys: "fst ` set (sparse prev h ts) \<subseteq> {h ..< h + length ts}"
  using sparse_key_range by fastforce

lemma sorted_keys_sparse: "sorted_keys (sparse prev h ts)"
proof (induction prev h ts rule: sparse.induct)
  case (2 prev h t ts)
  then show ?case using sparse_keys [of "Some t" "Suc h" ts] by (auto simp: Suc_le_eq)
qed simp

lemma sparse_append:
  "sparse prev h (ts @ us) = sparse prev h ts @ sparse (if ts = [] then prev else Some (last ts)) (h + length ts) us"
  by (induction prev h ts rule: sparse.induct) auto

lemma sparse_remove_last: "bt_remove (h + length ts) (sparse prev h (ts @ [t])) = sparse prev h ts"
proof -
  have "h + length ts \<notin> fst ` set (sparse prev h ts)" using sparse_keys [of prev h ts] by auto
  then show ?thesis by (auto simp: sparse_append bt_remove_absent)
qed

lemma sparse_remove_first: "bt_remove h (sparse prev h (t # ts)) = sparse (Some t) (Suc h) ts"
proof -
  have "h \<notin> fst ` set (sparse (Some t) (Suc h) ts)" using sparse_keys [of "Some t" "Suc h" ts] by auto
  then show ?thesis by (simp add: bt_remove_absent)
qed

lemma bt_range_to_all: "(\<And>k v. (k, v) \<in> set m \<Longrightarrow> k \<le> h) \<Longrightarrow> bt_range_to h m = m"
  by (auto simp: bt_range_to_def filter_id_conv)

lemma sparse_lookup:
  assumes "i < length ts"
  shows "map_option snd (bt_last (bt_range_to (h + i) (sparse None h ts))) = Some (ts ! i)"
  using assms
proof (induction ts arbitrary: i rule: rev_induct)
  case (snoc t ts)
  let ?p = "if ts = [] then None else Some (last ts)"
  have all: "bt_range_to k (sparse None h ts) = sparse None h ts" if "h + length ts \<le> Suc k" for k
    using that by (intro bt_range_to_all) (auto dest: sparse_key_range)
  show ?case
  proof (cases "i < length ts")
    case True
    then have "bt_range_to (h + i) (sparse None h (ts @ [t])) = bt_range_to (h + i) (sparse None h ts)"
      by (simp add: sparse_append bt_range_to_def)
    with True snoc.IH show ?thesis by (simp add: nth_append)
  next
    case False
    with snoc.prems have i: "i = length ts" by simp
    show ?thesis
    proof (cases "?p = Some t")
      case True
      then have "ts \<noteq> []" "last ts = t" by (auto split: if_splits)
      moreover from this have "map_option snd (bt_last (bt_range_to (h + (length ts - 1)) (sparse None h ts))) = Some t"
        using snoc.IH [of "length ts - 1"] by (simp add: last_conv_nth)
      moreover have "bt_range_to (h + (length ts - 1)) (sparse None h ts) = sparse None h ts"
        "bt_range_to (h + i) (sparse None h ts) = sparse None h ts"
        using all [of "h + (length ts - 1)"] all [of "h + i"] \<open>ts \<noteq> []\<close> i by simp_all
      ultimately show ?thesis using i by (simp add: sparse_append)
    next
      case False
      then have "sparse ?p (h + length ts) [t] = [(h + length ts, t)]" by simp
      then show ?thesis using i by (simp add: sparse_append bt_range_to_def bt_last_def)
    qed
  qed
qed simp

lemma with_dense_sel [simp]:
  "trees_by_height (with_dense root prev h ts idx) = sparse prev h ts"
  "anchors_by_height (with_dense root prev h ts idx) = zip [h ..< h + length ts] (map root ts)"
  "anchors (with_dense root prev h ts idx) = mset (map root ts)"
  "with_dense root prev h ts (with_dense root prev' h' ts' idx) = with_dense root prev h ts idx"
  by (simp_all add: with_dense_def)

lemma with_dense_sprout [simp]:
  "trees_by_anchor (with_dense root prev h ts idx) = trees_by_anchor idx"
  "(with_dense root prev h ts idx)\<lparr>trees_by_anchor := m\<rparr> = with_dense root prev h ts (idx\<lparr>trees_by_anchor := m\<rparr>)"
  by (simp_all add: with_dense_def)

lemma with_dense_eq:
  "idx\<lparr>trees_by_height := sparse prev h ts, anchors_by_height := zip [h ..< h + length ts] (map root ts),
     anchors := mset (map root ts)\<rparr> = with_dense root prev h ts idx"
  by (simp add: with_dense_def)

lemma tree_at_dense: "i < length ts \<Longrightarrow> tree_at (with_dense root None h ts idx) (h + i) = Some (ts ! i)"
  using sparse_lookup [of i ts h] by (simp add: tree_at_def)

lemma tree_for_tip_dense:
  assumes "ts \<noteq> []"
  shows "tree_for_tip (with_dense root None h ts idx) = Ok (last ts)"
proof -
  have "bt_range_to (h + (length ts - 1)) (sparse None h ts) = sparse None h ts"
    using assms by (intro bt_range_to_all) (auto dest!: sparse_key_range)
  with sparse_lookup [of "length ts - 1" ts h] assms
  have "map_option snd (bt_last (sparse None h ts)) = Some (last ts)" by (simp add: last_conv_nth)
  then show ?thesis by (simp add: tree_for_tip_def)
qed

subsection \<open>The operations keep the sparse form\<close>

lemma sparse_absent: "k < h \<or> h + length ts \<le> k \<Longrightarrow> map_of (sparse prev h ts) k = None"
  using sparse_key_range by (fastforce simp: map_of_eq_None_iff)

lemma anchors_absent: "k < h \<or> h + length ts \<le> k \<Longrightarrow> map_of (zip [h ..< h + length ts] (map root ts)) k = None"
  by (auto simp: map_of_eq_None_iff dest!: set_zip_leftD)

lemma upt_snoc_zip:
  "zip [h ..< h + length (ts @ [t])] (map root (ts @ [t])) = zip [h ..< h + length ts] (map root ts) @ [(h + length ts, root t)]"
  by (simp add: zip_append)

lemma sorted_keys_anchors: "sorted_keys (zip [a ..< b] xs)"
  by (simp add: sorted_keys_def map_fst_zip_take)

lemma add_dense:
  assumes h: "h = h0 + length ts" "h \<le> HEIGHT_MAX"
  shows "add_tree_and_anchor root h t (with_dense root None h0 ts idx) = Ok (with_dense root None h0 (ts @ [t]) idx)"
proof -
  let ?idx = "with_dense root None h0 ts idx"
  have prev: "tree_at ?idx (h - 1) = (if ts = [] then None else Some (last ts))" if "h \<noteq> 0"
    using tree_at_dense [of "length ts - 1" ts root h0 idx] h that
    by (cases "ts = []") (simp_all add: last_conv_nth tree_at_def bt_range_to_def bt_last_def Nat.add_diff_assoc Suc_le_eq)
  have "\<forall>k \<in> fst ` set (sparse None h0 ts). k < h" using sparse_keys [of None h0 ts] h by auto
  then have ins: "bt_insert h t (sparse None h0 ts) = sparse None h0 ts @ [(h, t)]"
    by (intro bt_insert_last sorted_keys_sparse)
  have "\<forall>k \<in> fst ` set (zip [h0 ..< h0 + length ts] (map root ts)). k < h"
    using h by (auto dest!: set_zip_leftD)
  then have anc: "bt_insert h (root t) (zip [h0 ..< h0 + length ts] (map root ts)) =
      zip [h0 ..< h0 + length (ts @ [t])] (map root (ts @ [t]))"
    unfolding upt_snoc_zip h(1) [symmetric] by (intro bt_insert_last sorted_keys_anchors)
  have abs: "map_of (sparse None h0 ts) h = None" "map_of (zip [h0 ..< h0 + length ts] (map root ts)) h = None"
    using h by (simp_all add: sparse_absent anchors_absent del: map_of_zip_map)
  have step: "sparse None h0 (ts @ [t]) =
      (if (if ts = [] then None else Some (last ts)) = Some t then sparse None h0 ts else sparse None h0 ts @ [(h, t)])"
    by (auto simp: sparse_append h)
  show ?thesis
  proof (cases "h = 0")
    case True
    with h have "ts = []" by simp
    with True h show ?thesis
      by (simp add: add_tree_and_anchor_def height_is_min_def HEIGHT_MIN_def with_dense_def)
  next
    case False
    then have "height_previous h = Ok (h - 1)" using h by (simp add: height_previous_eq)
    with False prev ins anc abs step show ?thesis
      by (auto simp: add_tree_and_anchor_def height_is_min_def HEIGHT_MIN_def with_dense_def)
  qed
qed

lemma restore_nothing: "(\<And>tip. tip_height = Some tip \<Longrightarrow> tip \<le> h) \<Longrightarrow> restore_next_tree h t tip_height idx = Ok idx"
  by (cases tip_height) (auto simp: restore_next_tree_def not_less)

lemma remove_tip_dense:
  assumes "h = h0 + length ts" "\<And>tip. tip_height = Some tip \<Longrightarrow> tip \<le> h"
  shows "remove_tree_and_anchor Tip h tip_height (with_dense root None h0 (ts @ [t]) idx) = Ok (with_dense root None h0 ts idx)"
proof -
  note restore = restore_nothing [OF assms(2)]
  have "map_of (zip [h0 ..< h0 + length (ts @ [t])] (map root (ts @ [t]))) h = Some (root t)"
    unfolding upt_snoc_zip using assms(1) by (simp add: map_add_def anchors_absent)
  moreover have "bt_remove h (zip [h0 ..< h0 + length (ts @ [t])] (map root (ts @ [t]))) = zip [h0 ..< h0 + length ts] (map root ts)"
  proof -
    have "h \<notin> fst ` set (zip [h0 ..< h0 + length ts] (map root ts))" using assms(1) by (auto dest!: set_zip_leftD)
    then show ?thesis unfolding upt_snoc_zip using assms(1) by (simp add: bt_remove_absent)
  qed
  moreover have "bt_remove h (sparse None h0 (ts @ [t])) = sparse None h0 ts"
    using sparse_remove_last assms(1) by simp
  ultimately show ?thesis
    by (simp add: remove_tree_and_anchor_def removed_heights_def restore assert_that_def del: upt_Suc)
      (simp add: with_dense_def)
qed

lemma anchors_Cons: "zip [h ..< h + length (t # ts)] (map root (t # ts)) = (h, root t) # zip [Suc h ..< Suc h + length ts] (map root ts)"
  by (simp add: upt_conv_Cons del: upt_Suc)

lemma remove_anchors_first:
  "remove_anchors (h # hs) (with_dense root prev h (t # ts) idx) = remove_anchors hs (with_dense root (Some t) (Suc h) ts idx)"
proof -
  have "h \<notin> fst ` set (zip [Suc h ..< Suc h + length ts] (map root ts))" by (auto dest!: set_zip_leftD)
  then have "bt_remove h (zip [h ..< h + length (t # ts)] (map root (t # ts))) = zip [Suc h ..< Suc h + length ts] (map root ts)"
    unfolding anchors_Cons by (simp add: bt_remove_absent)
  moreover have "map_of (zip [h ..< h + length (t # ts)] (map root (t # ts))) h = Some (root t)"
    unfolding anchors_Cons by simp
  ultimately show ?thesis
    using sparse_remove_first [of h prev t ts] by (simp add: with_dense_def assert_that_def del: upt_Suc)
qed

lemma remove_anchors_prefix:
  assumes "us \<noteq> []"
  shows "remove_anchors [h ..< h + length us] (with_dense root prev h (us @ ts) idx)
    = Ok (with_dense root (Some (last us)) (h + length us) ts idx)"
  using assms
proof (induction us arbitrary: prev h)
  case (Cons u us)
  have "[h ..< h + length (u # us)] = h # [Suc h ..< Suc h + length us]"
    by (simp add: upt_conv_Cons del: upt_Suc)
  with Cons.IH [of "Suc h" "Some u"] show ?case
    by (cases "us = []") (simp_all only: append_Cons append_Nil remove_anchors_first, simp_all del: upt_Suc)
qed simp

lemma filter_le_upt: "h0 \<le> h \<Longrightarrow> h < h0 + n \<Longrightarrow> filter (\<lambda>h'. h' \<le> h) [h0 ..< h0 + n] = [h0 ..< Suc h]"
proof -
  assume "h0 \<le> h" "h < h0 + n"
  then have "[h0 ..< h0 + n] = [h0 ..< Suc h] @ [Suc h ..< h0 + n]"
    using upt_add_eq_append [of h0 "Suc h" "h0 + n - Suc h"] by simp
  then show ?thesis by (auto simp: filter_id_conv filter_empty_conv)
qed

lemma removed_heights_root:
  assumes "us \<noteq> []"
  shows "removed_heights Root (h0 + length us - 1) (with_dense root None h0 (us @ ts) idx) = [h0 ..< h0 + length us]"
proof -
  have "Suc (h0 + length us - 1) = h0 + length us" using assms by (cases us) simp_all
  with filter_le_upt [of h0 "h0 + length us - 1" "length (us @ ts)"] assms show ?thesis
    by (cases us) (simp_all add: removed_heights_def)
qed

lemma restore_dense:
  assumes "h < HEIGHT_MAX" "tip_height = (if ts = [] then None else Some (h + length ts))"
  shows "restore_next_tree h (Some t) tip_height (with_dense root (Some t) (Suc h) ts idx) = Ok (with_dense root None (Suc h) ts idx)"
proof (cases ts)
  case Nil
  with assms show ?thesis by (simp add: restore_next_tree_def with_dense_def)
next
  case (Cons u us)
  have none: "map_of (sparse (Some u) (Suc (Suc h)) us) (Suc h) = None" by (simp add: sparse_absent)
  have ins: "bt_insert (Suc h) u (sparse (Some u) (Suc (Suc h)) us) = (Suc h, u) # sparse (Some u) (Suc (Suc h)) us"
  proof (cases "sparse (Some u) (Suc (Suc h)) us")
    case (Cons x xs)
    then have "(fst x, snd x) \<in> set (sparse (Some u) (Suc (Suc h)) us)" by simp
    from sparse_key_range [OF this] have "Suc h < fst x" by simp
    with Cons show ?thesis by (cases x) simp
  qed simp
  show ?thesis
    using assms Cons none ins
    by (cases "t = u") (simp_all add: restore_next_tree_def height_next_eq, simp_all add: with_dense_def)
qed

lemma tree_at_prefix:
  assumes "us \<noteq> []" "h = h0 + length us - 1"
  shows "tree_at (with_dense root None h0 (us @ ts) idx) h = Some (last us)"
  using tree_at_dense [of "length us - 1" "us @ ts" root h0 idx] assms
  by (cases us) (simp_all add: nth_append last_conv_nth)

lemma remove_root_dense:
  assumes "us \<noteq> []" "h = h0 + length us - 1" "h < HEIGHT_MAX"
    and "tip_height = (if ts = [] then None else Some (h + length ts))"
  shows "remove_tree_and_anchor Root h tip_height (with_dense root None h0 (us @ ts) idx) = Ok (with_dense root None (Suc h) ts idx)"
proof -
  have sh: "Suc h = h0 + length us" using assms by (cases us) simp_all
  note tree_at_prefix [OF assms(1,2), of root ts idx]
  then show ?thesis
    using removed_heights_root [OF assms(1), of h0 root ts idx, folded assms(2)]
    by (simp add: remove_tree_and_anchor_def remove_anchors_prefix [OF assms(1)]
        restore_dense [OF assms(3,4), unfolded sh] sh del: upt_Suc)
qed

subsection \<open>The Sprout index\<close>

text \<open>
  The trees by anchor are those of the anchors in use, as long as different trees have different
  roots.
\<close>

lemma map_of_roots:
  assumes "inj_on root (set ts)"
  shows "map_of (map (\<lambda>t. (root t, t)) ts) a = Some t \<longleftrightarrow> t \<in> set ts \<and> root t = a"
  using assms by (induction ts) (auto simp: inj_on_def)

lemma map_of_roots_None: "map_of (map (\<lambda>t. (root t, t)) ts) a = None \<longleftrightarrow> a \<notin> root ` set ts"
  by (auto simp: map_of_eq_None_iff image_image)

lemma roots_snoc:
  assumes "inj_on root (set (ts @ [t]))"
  shows "(map_of (map (\<lambda>t. (root t, t)) ts))(root t \<mapsto> t) = map_of (map (\<lambda>t. (root t, t)) (ts @ [t]))"
proof
  fix a
  show "((map_of (map (\<lambda>t. (root t, t)) ts))(root t \<mapsto> t)) a = map_of (map (\<lambda>t. (root t, t)) (ts @ [t])) a"
  proof (cases "map_of (map (\<lambda>t. (root t, t)) ts) a")
    case (Some u)
    have "inj_on root (set ts)" using assms by (auto intro: inj_on_subset)
    with Some have "u \<in> set ts" "root u = a" by (auto simp: map_of_roots)
    with Some assms show ?thesis by (auto simp: map_add_def inj_on_def)
  qed (auto simp: map_add_def)
qed

text \<open>Removing one tree from either end drops its anchor unless another tree has it.\<close>

lemma roots_remove:
  assumes "inj_on root (set ts)" "mset ts = add_mset t (mset us)"
  shows "(if root t \<in># mset (map root us) then map_of (map (\<lambda>t. (root t, t)) ts)
      else (map_of (map (\<lambda>t. (root t, t)) ts))(root t := None)) = map_of (map (\<lambda>t. (root t, t)) us)"
proof
  fix a
  have ts: "set ts = insert t (set us)" using assms(2) by (metis set_mset_add_mset_insert set_mset_mset)
  have inj: "inj_on root (set us)" using assms(1) ts by (auto intro: inj_on_subset)
  show "(if root t \<in># mset (map root us) then map_of (map (\<lambda>t. (root t, t)) ts)
      else (map_of (map (\<lambda>t. (root t, t)) ts))(root t := None)) a = map_of (map (\<lambda>t. (root t, t)) us) a"
  proof (cases "map_of (map (\<lambda>t. (root t, t)) us) a")
    case None
    then have a: "a \<notin> root ` set us" by (simp add: map_of_roots_None)
    then have "a = root t \<or> map_of (map (\<lambda>t. (root t, t)) ts) a = None" using ts by (auto simp: map_of_roots_None)
    with None a show ?thesis by auto
  next
    case (Some u)
    then have u: "u \<in> set us" "root u = a" using inj by (auto simp: map_of_roots)
    with ts assms(1) have "map_of (map (\<lambda>t. (root t, t)) ts) a = Some u" by (simp add: map_of_roots)
    with u Some show ?thesis by (auto intro: rev_image_eqI)
  qed
qed

lemma dense_sprout_eq: "dense_sprout_index root h ts =
    with_dense root None h ts (sprout_tree_index_default\<lparr>trees_by_anchor := map_of (map (\<lambda>t. (root t, t)) ts)\<rparr>)"
  by (simp add: dense_sprout_index_def)

lemma add_sprout_dense:
  assumes "h = h0 + length ts" "h \<le> HEIGHT_MAX" "inj_on root (set (ts @ [t]))"
  shows "add_sprout_tree_and_anchor root h t (dense_sprout_index root h0 ts) = Ok (dense_sprout_index root h0 (ts @ [t]))"
  using roots_snoc [OF assms(3)]
  by (simp add: add_sprout_tree_and_anchor_def dense_sprout_index_def add_dense [OF assms(1,2)])

text \<open>Removing the anchors of the Sprout index, from either end.\<close>

definition with_roots :: "('t \<Rightarrow> bytes) \<Rightarrow> 't option \<Rightarrow> height \<Rightarrow> 't list \<Rightarrow> 't sprout_tree_index" where
  "with_roots root prev h ts =
     with_dense root prev h ts (sprout_tree_index_default\<lparr>trees_by_anchor := map_of (map (\<lambda>t. (root t, t)) ts)\<rparr>)"

lemma with_roots_None: "with_roots root None h ts = dense_sprout_index root h ts"
  by (simp add: with_roots_def dense_sprout_index_def)

lemma with_roots_eq: "with_roots root prev h ts =
    \<lparr>trees_by_height = sparse prev h ts, anchors_by_height = zip [h ..< h + length ts] (map root ts),
     anchors = mset (map root ts), trees_by_anchor = map_of (map (\<lambda>t. (root t, t)) ts)\<rparr>"
  by (simp add: with_roots_def with_dense_def sprout_tree_index_default_def)

lemma remove_sprout_step:
  "map_of abh h = Some a \<Longrightarrow> a \<in># an \<Longrightarrow>
    remove_sprout_anchors (h # hs) \<lparr>trees_by_height = tbh, anchors_by_height = abh, anchors = an, trees_by_anchor = tba\<rparr>
    = remove_sprout_anchors hs \<lparr>trees_by_height = bt_remove h tbh, anchors_by_height = bt_remove h abh,
        anchors = an - {#a#}, trees_by_anchor = (if a \<in># an - {#a#} then tba else tba(a := None))\<rparr>"
  by (simp add: Let_def assert_that_def)

lemma remove_sprout_first:
  assumes "inj_on root (set (t # ts))"
  shows "remove_sprout_anchors (h # hs) (with_roots root prev h (t # ts)) = remove_sprout_anchors hs (with_roots root (Some t) (Suc h) ts)"
proof -
  have "h \<notin> fst ` set (zip [Suc h ..< Suc h + length ts] (map root ts))" by (auto dest!: set_zip_leftD)
  then have "bt_remove h (zip [h ..< h + length (t # ts)] (map root (t # ts))) = zip [Suc h ..< Suc h + length ts] (map root ts)"
    unfolding anchors_Cons by (simp add: bt_remove_absent)
  moreover have "map_of (zip [h ..< h + length (t # ts)] (map root (t # ts))) h = Some (root t)"
    unfolding anchors_Cons by simp
  moreover have "mset (map root (t # ts)) - {#root t#} = mset (map root ts)" by simp
  moreover have "root t \<in># mset (map root (t # ts))" by simp
  ultimately show ?thesis
    using roots_remove [OF assms, of t ts]
    unfolding with_roots_eq by (simp only: remove_sprout_step sparse_remove_first mset.simps refl simp_thms)
qed

lemma remove_sprout_prefix:
  assumes "us \<noteq> []" "inj_on root (set (us @ ts))"
  shows "remove_sprout_anchors [h ..< h + length us] (with_roots root prev h (us @ ts))
    = Ok (with_roots root (Some (last us)) (h + length us) ts)"
  using assms
proof (induction us arbitrary: prev h)
  case (Cons u us)
  have "inj_on root (set (us @ ts))" using Cons.prems(2) by (auto intro: inj_on_subset)
  moreover have "[h ..< h + length (u # us)] = h # [Suc h ..< Suc h + length us]"
    by (simp add: upt_conv_Cons del: upt_Suc)
  ultimately show ?case
    using Cons.IH [of "Suc h" "Some u"] Cons.prems(2)
    by (cases "us = []") (simp_all only: append_Cons append_Nil remove_sprout_first, simp_all del: upt_Suc)
qed simp

lemma remove_sprout_tip:
  assumes "inj_on root (set (ts @ [t]))"
  shows "remove_sprout_anchors [h + length ts] (with_roots root None h (ts @ [t])) = Ok (with_roots root None h ts)"
proof -
  have "map_of (zip [h ..< h + length (ts @ [t])] (map root (ts @ [t]))) (h + length ts) = Some (root t)"
    unfolding upt_snoc_zip by (simp add: map_add_def anchors_absent)
  moreover have "bt_remove (h + length ts) (zip [h ..< h + length (ts @ [t])] (map root (ts @ [t]))) = zip [h ..< h + length ts] (map root ts)"
  proof -
    have "h + length ts \<notin> fst ` set (zip [h ..< h + length ts] (map root ts))" by (auto dest!: set_zip_leftD)
    then show ?thesis unfolding upt_snoc_zip by (simp add: bt_remove_absent)
  qed
  moreover have "mset (map root (ts @ [t])) - {#root t#} = mset (map root ts)" by simp
  moreover have "root t \<in># mset (map root (ts @ [t]))" by simp
  moreover have "mset (ts @ [t]) = add_mset t (mset ts)" by simp
  ultimately show ?thesis
    using roots_remove [OF assms, of t ts]
    unfolding with_roots_eq by (simp only: remove_sprout_step sparse_remove_last remove_sprout_anchors.simps(1) simp_thms)
qed

lemma remove_sprout_tip_dense:
  assumes "h = h0 + length ts" "\<And>tip. tip_height = Some tip \<Longrightarrow> tip \<le> h" "inj_on root (set (ts @ [t]))"
  shows "remove_sprout_tree_and_anchor Tip h tip_height (dense_sprout_index root h0 (ts @ [t])) = Ok (dense_sprout_index root h0 ts)"
  by (simp add: remove_sprout_tree_and_anchor_def removed_heights_def with_roots_None [symmetric] assms(1)
      remove_sprout_tip [OF assms(3)] restore_nothing [OF assms(2), unfolded assms(1)] del: remove_sprout_anchors.simps)

lemma remove_sprout_root_dense:
  assumes "us \<noteq> []" "h = h0 + length us - 1" "h < HEIGHT_MAX" "inj_on root (set (us @ ts))"
    and "tip_height = (if ts = [] then None else Some (h + length ts))"
  shows "remove_sprout_tree_and_anchor Root h tip_height (dense_sprout_index root h0 (us @ ts)) = Ok (dense_sprout_index root (Suc h) ts)"
proof -
  have sh: "Suc h = h0 + length us" using assms by (cases us) simp_all
  have "tree_at (dense_sprout_index root h0 (us @ ts)) h = Some (last us)"
    unfolding dense_sprout_index_def by (rule tree_at_prefix [OF assms(1,2)])
  moreover have "removed_heights Root h (dense_sprout_index root h0 (us @ ts)) = [h0 ..< h0 + length us]"
    using removed_heights_root [OF assms(1), of h0 root ts, folded assms(2)] by (simp add: dense_sprout_index_def)
  ultimately show ?thesis
    by (simp add: remove_sprout_tree_and_anchor_def remove_sprout_prefix [OF assms(1,4)]
        with_roots_None [symmetric] del: upt_Suc)
      (simp add: with_roots_def restore_dense [OF assms(3,5), unfolded sh] sh)
qed

section \<open>Properties\<close>

text \<open>
  C16. The sparse index refines the list of the trees of all heights.  A lookup at any height of the
  chain gives the tree of that height, and adding a block at the tip, removing the tip block and
  removing the root block do to the index what they do to the list, without a panic.  In particular
  removing the root keeps the tree of the next height, also when it was stored only at the root.
\<close>

theorem tree_index_refines_list:
  assumes "h0 + length ts < HEIGHT_MAX"
  shows "(\<forall>i < length ts. tree_at (dense_index root h0 ts) (h0 + i) = Some (ts ! i))
    \<and> add_tree_and_anchor root (h0 + length ts) t (dense_index root h0 ts)
        = (Ok (dense_index root h0 (ts @ [t])) :: ('e, _) outcome)
    \<and> remove_tree_and_anchor Tip (h0 + length ts) (Some (h0 + length ts)) (dense_index root h0 (ts @ [t]))
        = (Ok (dense_index root h0 ts) :: ('e, _) outcome)
    \<and> remove_tree_and_anchor Root h0 (if ts = [] then None else Some (h0 + length ts)) (dense_index root h0 (t # ts))
        = (Ok (dense_index root (Suc h0) ts) :: ('e, _) outcome)"
proof (intro conjI)
  show "\<forall>i < length ts. tree_at (dense_index root h0 ts) (h0 + i) = Some (ts ! i)"
    by (simp add: dense_index_def tree_at_dense)
  show "add_tree_and_anchor root (h0 + length ts) t (dense_index root h0 ts) = (Ok (dense_index root h0 (ts @ [t])) :: ('e, _) outcome)"
    using assms by (simp add: dense_index_def add_dense)
  show "remove_tree_and_anchor Tip (h0 + length ts) (Some (h0 + length ts)) (dense_index root h0 (ts @ [t]))
      = (Ok (dense_index root h0 ts) :: ('e, _) outcome)"
    unfolding dense_index_def by (rule remove_tip_dense) auto
  show "remove_tree_and_anchor Root h0 (if ts = [] then None else Some (h0 + length ts)) (dense_index root h0 (t # ts))
      = (Ok (dense_index root (Suc h0) ts) :: ('e, _) outcome)"
    unfolding dense_index_def
    using remove_root_dense [of "[t]" h0 h0 "if ts = [] then None else Some (h0 + length ts)" ts root tree_index_default] assms
    by simp
qed

text \<open>Three heights with the same tree, then another: the tree of the root moves up.\<close>

definition sample_root :: "nat \<Rightarrow> bytes" where
  "sample_root t = [of_nat t]"

theorem tree_index_refines_list_witness:
  "tree_at (dense_index sample_root 10 [7, 7, 8]) 11 = Some 7
    \<and> trees_by_height (dense_index sample_root 10 [7, 7, 8]) = [(10, 7), (12, 8)]
    \<and> add_tree_and_anchor sample_root 13 8 (dense_index sample_root 10 [7, 7, 8])
        = (Ok (dense_index sample_root 10 [7, 7, 8, 8]) :: (unit, _) outcome)
    \<and> remove_tree_and_anchor Root 10 (Some 13) (dense_index sample_root 10 [7, 7, 7, 8])
        = (Ok (dense_index sample_root 11 [7, 7, 8]) :: (unit, _) outcome)"
proof -
  have "trees_by_height (dense_index sample_root 10 [7, 7, 8]) = [(10, 7), (12, 8)]"
    by (simp add: dense_index_def with_dense_def)
  moreover have fit: "10 + length [7, 7, 8 :: nat] < HEIGHT_MAX" by (simp add: HEIGHT_MAX_def u32_max_def)
  note add = tree_index_refines_list [OF fit, of sample_root 8, where 'e = unit]
  have "tree_at (dense_index sample_root 10 [7, 7, 8]) (10 + 1) = Some ([7, 7, 8] ! 1)"
    using add by (auto dest: spec [of _ 1])
  ultimately show ?thesis
    using add tree_index_refines_list [OF fit, of sample_root 7, where 'e = unit] by simp
qed

end
