(* ===== verification/Chain_Trees.thy ===== *)
theory Chain_Trees
  imports Tree_Index History_Tree
begin

text \<open>
  The trees of a non-finalized chain, from \<^verbatim>\<open>zebra-chain/src/parallel/tree.rs\<close> and
  \<^verbatim>\<open>zebra-state/src/service/non_finalized_state/chain.rs\<close>: the update of the four note commitment
  trees by a block, the completed subtrees, the history tree of every height, and the treestate that is
  handed out with a finalized block.

  The chain only uses the operations of the trees collected in \<open>tree_ops\<close>; \<open>note_tree_ops\<close> fills
  them with the trees and the history tree of the theories \<open>Note_Tree\<close> and \<open>History_Tree\<close>.  The equality of
  trees in the model is the equality of the code.

  The specification is a list of entries, the trees and completed subtrees of each height;
  \<open>trees_of\<close> is the state that such a list determines.  The lemmas show that a new block appends an
  entry, that removing the tip or the root removes one at that end, and that nothing panics.
\<close>

section \<open>The trees of a block\<close>

record ('t, 'h) tree_ops =
  sprout_root_of :: "'t \<Rightarrow> bytes"
  sapling_root_of :: "'t \<Rightarrow> bytes"
  orchard_root_of :: "'t \<Rightarrow> bytes"
  update_sprout :: "'t \<Rightarrow> bytes list \<Rightarrow> (tree_error, 't) outcome"
  update_sapling :: "'t \<Rightarrow> bytes list \<Rightarrow> (tree_error, 't \<times> (nat \<times> bytes) option) outcome"
  update_orchard :: "'t \<Rightarrow> bytes list \<Rightarrow> (tree_error, 't \<times> (nat \<times> bytes) option) outcome"
  push_history :: "network \<Rightarrow> semantic_block \<Rightarrow> tree_roots \<Rightarrow> 'h \<Rightarrow> (history_error, 'h) outcome"
  history_root :: "'h \<Rightarrow> bytes option"

text \<open>A subtree with its index, the height of the block that completed it and its root.\<close>

type_synonym subtree = "nat \<times> height \<times> bytes"

record 't note_commitment_trees =
  nct_sprout :: 't
  nct_sapling :: 't
  nct_sapling_subtree :: "subtree option"
  nct_orchard :: 't
  nct_orchard_subtree :: "subtree option"
  nct_ironwood :: 't
  nct_ironwood_subtree :: "subtree option"

definition sprout_note_commitments :: "transaction list \<Rightarrow> bytes list" where
  "sprout_note_commitments txs = concat (map (\<lambda>tx. concat (map js_commitments (joinsplits tx))) txs)"

definition sapling_note_commitments :: "transaction list \<Rightarrow> bytes list" where
  "sapling_note_commitments txs =
     concat (map (\<lambda>tx. case sapling_bundle tx of None \<Rightarrow> [] | Some b \<Rightarrow> shielded_outputs b) txs)"

definition orchard_note_commitments :: "transaction list \<Rightarrow> bytes list" where
  "orchard_note_commitments txs = concat (map (\<lambda>tx. map action_cmx (bundle_actions (orchard_bundle tx))) txs)"

definition ironwood_note_commitments :: "transaction list \<Rightarrow> bytes list" where
  "ironwood_note_commitments txs = concat (map (\<lambda>tx. map action_cmx (bundle_actions (ironwood_bundle tx))) txs)"

text \<open>
  A task of the pool runs only if there are notes.  A panic of any task is a panic of the whole
  scope; otherwise the errors are returned in the order of the pools.
\<close>

definition run_task :: "('e \<Rightarrow> 'f) \<Rightarrow> ('t \<Rightarrow> bytes list \<Rightarrow> ('e, 'r) outcome) \<Rightarrow> 't \<Rightarrow> bytes list \<Rightarrow> ('f, 'r) outcome option" where
  "run_task err f t cms = (if cms = [] then None else Some (map_err err (f t cms)))"

definition with_end_height :: "height \<Rightarrow> (nat \<times> bytes) option \<Rightarrow> subtree option" where
  "with_end_height h subtree_root = map_option (\<lambda>(index, node). (index, h, node)) subtree_root"

definition task_result ::
  "height \<Rightarrow> 't \<Rightarrow> subtree option \<Rightarrow> (note_tree_error, 't \<times> (nat \<times> bytes) option) outcome option
    \<Rightarrow> (note_tree_error, 't \<times> subtree option) outcome" where
  "task_result h t subtree r =
     (case r of None \<Rightarrow> Ok (t, subtree)
      | Some r' \<Rightarrow> map_ok (\<lambda>(t', subtree_root). (t', with_end_height h subtree_root)) r')"

definition update_trees_parallel ::
  "('t, 'h) tree_ops \<Rightarrow> transaction list \<Rightarrow> 't note_commitment_trees \<Rightarrow> (note_tree_error, 't note_commitment_trees) outcome" where
  "update_trees_parallel ops txs nct =
     qbind (expect (block_coinbase_height txs)) (\<lambda>h.
     let sprout_result = run_task Sprout_tree (update_sprout ops) (nct_sprout nct) (sprout_note_commitments txs);
         sapling_result = run_task Sapling_tree (update_sapling ops) (nct_sapling nct) (sapling_note_commitments txs);
         orchard_result = run_task Orchard_tree (update_orchard ops) (nct_orchard nct) (orchard_note_commitments txs);
         ironwood_result = run_task Ironwood_tree (update_orchard ops) (nct_ironwood nct) (ironwood_note_commitments txs) in
     if sprout_result = Some Panic \<or> sapling_result = Some Panic \<or> orchard_result = Some Panic \<or> ironwood_result = Some Panic
     then Panic
     else
       qbind (case sprout_result of None \<Rightarrow> Ok (nct_sprout nct) | Some r \<Rightarrow> r) (\<lambda>sprout.
       qbind (task_result h (nct_sapling nct) (nct_sapling_subtree nct) sapling_result) (\<lambda>(sapling, sapling_subtree).
       qbind (task_result h (nct_orchard nct) (nct_orchard_subtree nct) orchard_result) (\<lambda>(orchard, orchard_subtree).
       qbind (task_result h (nct_ironwood nct) (nct_ironwood_subtree nct) ironwood_result) (\<lambda>(ironwood, ironwood_subtree).
         Ok \<lparr>nct_sprout = sprout, nct_sapling = sapling, nct_sapling_subtree = sapling_subtree,
             nct_orchard = orchard, nct_orchard_subtree = orchard_subtree,
             nct_ironwood = ironwood, nct_ironwood_subtree = ironwood_subtree\<rparr>)))))"

section \<open>The trees of a chain\<close>

record ('t, 'h) tree_state =
  sprout_trees :: "'t sprout_tree_index"
  sapling_trees :: "'t tree_index"
  orchard_trees :: "'t tree_index"
  ironwood_trees :: "'t tree_index"
  sapling_subtrees :: "(nat, height \<times> bytes) btree_map"
  orchard_subtrees :: "(nat, height \<times> bytes) btree_map"
  ironwood_subtrees :: "(nat, height \<times> bytes) btree_map"
  history_trees :: "(height, 'h) btree_map"

definition tree_state_default :: "('t, 'h) tree_state" where
  "tree_state_default = \<lparr>sprout_trees = sprout_tree_index_default, sapling_trees = tree_index_default,
     orchard_trees = tree_index_default, ironwood_trees = tree_index_default, sapling_subtrees = [],
     orchard_subtrees = [], ironwood_subtrees = [], history_trees = []\<rparr>"

definition subtree_at :: "(nat, height \<times> bytes) btree_map \<Rightarrow> height \<Rightarrow> subtree option" where
  "subtree_at m h = map_option (\<lambda>(index, end_height, node). (index, end_height, node)) (find (\<lambda>(_, end_height, _). end_height = h) m)"

definition insert_subtree :: "subtree option \<Rightarrow> (nat, height \<times> bytes) btree_map \<Rightarrow> (nat, height \<times> bytes) btree_map" where
  "insert_subtree s m = (case s of None \<Rightarrow> m | Some (index, data) \<Rightarrow> bt_insert index data m)"

definition history_block_commitment_tree :: "('t, 'h) tree_state \<Rightarrow> ('e, 'h) outcome" where
  "history_block_commitment_tree ts = expect (map_option snd (bt_last (history_trees ts)))"

definition add_history_tree :: "height \<Rightarrow> 'h \<Rightarrow> ('t, 'h) tree_state \<Rightarrow> ('e, ('t, 'h) tree_state) outcome" where
  "add_history_tree h tree ts =
     map_ok (\<lambda>_. ts\<lparr>history_trees := bt_insert h tree (history_trees ts)\<rparr>)
       (assert_that (map_of (history_trees ts) h = None))"

definition remove_history_tree :: "revert_position \<Rightarrow> height \<Rightarrow> ('t, 'h) tree_state \<Rightarrow> ('e, ('t, 'h) tree_state) outcome" where
  "remove_history_tree pos h ts =
     (if pos = Root then Ok (ts\<lparr>history_trees := filter (\<lambda>(h', _). h' > h) (history_trees ts)\<rparr>)
      else map_ok (\<lambda>_. ts\<lparr>history_trees := bt_remove h (history_trees ts)\<rparr>)
             (expect (map_of (history_trees ts) h)))"

text \<open>The trees at the tip, that the next block starts from; \<open>tip\<close> is the height of the tip block, if there is one.\<close>

definition trees_for_tip :: "height option \<Rightarrow> ('t, 'h) tree_state \<Rightarrow> ('e, 't note_commitment_trees) outcome" where
  "trees_for_tip tip ts =
     qbind (tree_for_tip (sprout_trees ts)) (\<lambda>sprout.
     qbind (tree_for_tip (sapling_trees ts)) (\<lambda>sapling.
     qbind (tree_for_tip (orchard_trees ts)) (\<lambda>orchard.
     qbind (tree_for_tip (ironwood_trees ts)) (\<lambda>ironwood.
       Ok \<lparr>nct_sprout = sprout,
           nct_sapling = sapling, nct_sapling_subtree = Option.bind tip (subtree_at (sapling_subtrees ts)),
           nct_orchard = orchard, nct_orchard_subtree = Option.bind tip (subtree_at (orchard_subtrees ts)),
           nct_ironwood = ironwood, nct_ironwood_subtree = Option.bind tip (subtree_at (ironwood_subtrees ts))\<rparr>))))"

definition add_note_trees ::
  "('t, 'h) tree_ops \<Rightarrow> height \<Rightarrow> 't \<Rightarrow> 't \<Rightarrow> 't \<Rightarrow> 't \<Rightarrow> ('t, 'h) tree_state \<Rightarrow> ('e, ('t, 'h) tree_state) outcome" where
  "add_note_trees ops h sprout_tree sapling_tree orchard_tree ironwood_tree ts =
     qbind (add_sprout_tree_and_anchor (sprout_root_of ops) h sprout_tree (sprout_trees ts)) (\<lambda>sp.
     qbind (add_tree_and_anchor (sapling_root_of ops) h sapling_tree (sapling_trees ts)) (\<lambda>sa.
     qbind (add_tree_and_anchor (orchard_root_of ops) h orchard_tree (orchard_trees ts)) (\<lambda>ord.
     qbind (add_tree_and_anchor (orchard_root_of ops) h ironwood_tree (ironwood_trees ts)) (\<lambda>ir.
       Ok (ts\<lparr>sprout_trees := sp, sapling_trees := sa, orchard_trees := ord, ironwood_trees := ir\<rparr>)))))"

definition new_tree_state ::
  "('t, 'h) tree_ops \<Rightarrow> height \<Rightarrow> 't note_commitment_trees \<Rightarrow> 'h \<Rightarrow> ('e, ('t, 'h) tree_state) outcome" where
  "new_tree_state ops h nct history =
     qbind (add_note_trees ops h (nct_sprout nct) (nct_sapling nct) (nct_orchard nct) (nct_ironwood nct) tree_state_default)
       (add_history_tree h history)"

text \<open>The second half of the update with a block: the new trees enter the state and the history tree follows.\<close>

definition update_trees_with ::
  "('t, 'h) tree_ops \<Rightarrow> network \<Rightarrow> semantic_block \<Rightarrow> 't note_commitment_trees \<Rightarrow> ('t, 'h) tree_state
    \<Rightarrow> (spend_error, ('t, 'h) tree_state) outcome" where
  "update_trees_with ops net b nct ts =
     qbind (add_note_trees ops (sv_height b) (nct_sprout nct) (nct_sapling nct) (nct_orchard nct) (nct_ironwood nct) ts) (\<lambda>ts.
     let ts = ts\<lparr>sapling_subtrees := insert_subtree (nct_sapling_subtree nct) (sapling_subtrees ts),
                 orchard_subtrees := insert_subtree (nct_orchard_subtree nct) (orchard_subtrees ts),
                 ironwood_subtrees := insert_subtree (nct_ironwood_subtree nct) (ironwood_subtrees ts)\<rparr> in
     qbind (tree_for_tip (sapling_trees ts)) (\<lambda>sapling.
     qbind (tree_for_tip (orchard_trees ts)) (\<lambda>orchard.
     qbind (tree_for_tip (ironwood_trees ts)) (\<lambda>ironwood.
     qbind (history_block_commitment_tree ts) (\<lambda>history_tree.
     qbind (map_err HistoryTreeError (push_history ops net b
              \<lparr>sapling_root = sapling_root_of ops sapling, orchard_root = orchard_root_of ops orchard,
               ironwood_root = orchard_root_of ops ironwood\<rparr> history_tree)) (\<lambda>history_tree.
       add_history_tree (sv_height b) history_tree ts))))))"

text \<open>Removing the trees of a height; \<open>tip\<close> is the height of the tip block that remains, if any.\<close>

definition remove_trees ::
  "revert_position \<Rightarrow> height \<Rightarrow> height option \<Rightarrow> ('t, 'h) tree_state \<Rightarrow> ('e, ('t, 'h) tree_state) outcome" where
  "remove_trees pos h tip ts =
     qbind (remove_sprout_tree_and_anchor pos h tip (sprout_trees ts)) (\<lambda>sp.
     qbind (remove_tree_and_anchor pos h tip (sapling_trees ts)) (\<lambda>sa.
     qbind (remove_tree_and_anchor pos h tip (orchard_trees ts)) (\<lambda>ord.
     qbind (remove_tree_and_anchor pos h tip (ironwood_trees ts)) (\<lambda>ir.
       remove_history_tree pos h
         (ts\<lparr>sprout_trees := sp, sapling_trees := sa, orchard_trees := ord, ironwood_trees := ir\<rparr>)))))"

definition pop_last_subtree :: "height \<Rightarrow> (nat, height \<times> bytes) btree_map \<Rightarrow> (nat, height \<times> bytes) btree_map" where
  "pop_last_subtree h m = (case bt_last m of Some (_, end_height, _) \<Rightarrow> if end_height = h then butlast m else m | None \<Rightarrow> m)"

definition pop_last_subtrees :: "height \<Rightarrow> ('t, 'h) tree_state \<Rightarrow> ('t, 'h) tree_state" where
  "pop_last_subtrees h ts = ts\<lparr>sapling_subtrees := pop_last_subtree h (sapling_subtrees ts),
     orchard_subtrees := pop_last_subtree h (orchard_subtrees ts),
     ironwood_subtrees := pop_last_subtree h (ironwood_subtrees ts)\<rparr>"

record ('t, 'h) treestate =
  ts_trees :: "'t note_commitment_trees"
  ts_history :: 'h

definition treestate_at :: "height \<Rightarrow> ('t, 'h) tree_state \<Rightarrow> ('t, 'h) treestate option" where
  "treestate_at h ts =
     Option.bind (tree_at (sprout_trees ts) h) (\<lambda>sprout.
     Option.bind (tree_at (sapling_trees ts) h) (\<lambda>sapling.
     Option.bind (tree_at (orchard_trees ts) h) (\<lambda>orchard.
     Option.bind (tree_at (ironwood_trees ts) h) (\<lambda>ironwood.
     Option.bind (map_of (history_trees ts) h) (\<lambda>history.
       Some \<lparr>ts_trees = \<lparr>nct_sprout = sprout, nct_sapling = sapling, nct_sapling_subtree = subtree_at (sapling_subtrees ts) h,
               nct_orchard = orchard, nct_orchard_subtree = subtree_at (orchard_subtrees ts) h,
               nct_ironwood = ironwood, nct_ironwood_subtree = subtree_at (ironwood_subtrees ts) h\<rparr>,
             ts_history = history\<rparr>)))))"

definition pop_first_subtrees :: "'t note_commitment_trees \<Rightarrow> ('t, 'h) tree_state \<Rightarrow> ('t, 'h) tree_state" where
  "pop_first_subtrees nct ts = ts\<lparr>
     sapling_subtrees := (if nct_sapling_subtree nct \<noteq> None then tl (sapling_subtrees ts) else sapling_subtrees ts),
     orchard_subtrees := (if nct_orchard_subtree nct \<noteq> None then tl (orchard_subtrees ts) else orchard_subtrees ts),
     ironwood_subtrees := (if nct_ironwood_subtree nct \<noteq> None then tl (ironwood_subtrees ts) else ironwood_subtrees ts)\<rparr>"

section \<open>The operations of the note commitment and history trees\<close>

definition note_tree_ops ::
  "'f frontier_lib \<Rightarrow> 'f frontier_lib \<Rightarrow> 'f frontier_lib \<Rightarrow> ('i, 'n) history_lib
    \<Rightarrow> ('f note_commitment_tree, ('i, 'n) history_tree) tree_ops" where
  "note_tree_ops sprout_lib sapling_lib orchard_lib hist =
     \<lparr>sprout_root_of = (\<lambda>t. fst (tree_root sprout_lib t)), sapling_root_of = (\<lambda>t. fst (tree_root sapling_lib t)),
      orchard_root_of = (\<lambda>t. fst (tree_root orchard_lib t)),
      update_sprout = update_sprout_note_commitment_tree sprout_lib,
      update_sapling = update_note_commitment_tree sapling_lib,
      update_orchard = update_note_commitment_tree orchard_lib,
      push_history = history_push hist,
      history_root = history_hash hist\<rparr>"

section \<open>The specification: one entry per height\<close>

record ('t, 'h) tree_entry =
  te_sprout :: 't
  te_sapling :: 't
  te_orchard :: 't
  te_ironwood :: 't
  te_history :: 'h
  te_sapling_sub :: "(nat \<times> bytes) option"
  te_orchard_sub :: "(nat \<times> bytes) option"
  te_ironwood_sub :: "(nat \<times> bytes) option"

fun subtree_list :: "height \<Rightarrow> (nat \<times> bytes) option list \<Rightarrow> (nat, height \<times> bytes) btree_map" where
  "subtree_list h [] = []"
| "subtree_list h (s # ss) = (case s of None \<Rightarrow> [] | Some (i, node) \<Rightarrow> [(i, h, node)]) @ subtree_list (Suc h) ss"

definition trees_of :: "('t, 'h) tree_ops \<Rightarrow> height \<Rightarrow> ('t, 'h) tree_entry list \<Rightarrow> ('t, 'h) tree_state" where
  "trees_of ops h es = \<lparr>sprout_trees = dense_sprout_index (sprout_root_of ops) h (map te_sprout es),
     sapling_trees = dense_index (sapling_root_of ops) h (map te_sapling es),
     orchard_trees = dense_index (orchard_root_of ops) h (map te_orchard es),
     ironwood_trees = dense_index (orchard_root_of ops) h (map te_ironwood es),
     sapling_subtrees = subtree_list h (map te_sapling_sub es),
     orchard_subtrees = subtree_list h (map te_orchard_sub es),
     ironwood_subtrees = subtree_list h (map te_ironwood_sub es),
     history_trees = zip [h ..< h + length es] (map te_history es)\<rparr>"

text \<open>
  \<open>counted\<close> states that the completed subtrees of a pool are numbered by a counter that never falls;
  \<open>ops_ok\<close> is what the chain relies on: the update of a tree returns the number of the subtree it
  completed, and Sprout trees that have equal roots are equal.  The Sprout trees are taken from a set that is
  closed under the update, such as the trees whose root is cached.
\<close>

fun counted :: "('t \<Rightarrow> nat) \<Rightarrow> nat \<Rightarrow> ('t \<times> (nat \<times> bytes) option) list \<Rightarrow> bool" where
  "counted cnt n [] \<longleftrightarrow> True"
| "counted cnt n ((t, s) # xs) \<longleftrightarrow>
     n \<le> cnt t \<and> (case s of None \<Rightarrow> True | Some (i, _) \<Rightarrow> n \<le> i \<and> cnt t = Suc i) \<and> counted cnt (cnt t) xs"

definition update_counts ::
  "('t \<Rightarrow> nat) \<Rightarrow> ('t \<Rightarrow> bytes list \<Rightarrow> (tree_error, 't \<times> (nat \<times> bytes) option) outcome) \<Rightarrow> bool" where
  "update_counts cnt f \<longleftrightarrow> (\<forall>t cms t' s. f t cms = Ok (t', s) \<longrightarrow> counted cnt (cnt t) [(t', s)])"

record 't counters =
  sapling_count :: "'t \<Rightarrow> nat"
  orchard_count :: "'t \<Rightarrow> nat"
  sprout_domain :: "'t set"

definition ops_ok :: "('t, 'h) tree_ops \<Rightarrow> 't counters \<Rightarrow> bool" where
  "ops_ok ops cs \<longleftrightarrow> inj_on (sprout_root_of ops) (sprout_domain cs)
     \<and> (\<forall>t cms t'. t \<in> sprout_domain cs \<longrightarrow> update_sprout ops t cms = Ok t' \<longrightarrow> t' \<in> sprout_domain cs)
     \<and> update_counts (sapling_count cs) (update_sapling ops)
     \<and> update_counts (orchard_count cs) (update_orchard ops)"

definition sapling_pairs :: "('t, 'h) tree_entry list \<Rightarrow> ('t \<times> (nat \<times> bytes) option) list" where
  "sapling_pairs es = map (\<lambda>e. (te_sapling e, te_sapling_sub e)) es"

definition orchard_pairs :: "('t, 'h) tree_entry list \<Rightarrow> ('t \<times> (nat \<times> bytes) option) list" where
  "orchard_pairs es = map (\<lambda>e. (te_orchard e, te_orchard_sub e)) es"

definition ironwood_pairs :: "('t, 'h) tree_entry list \<Rightarrow> ('t \<times> (nat \<times> bytes) option) list" where
  "ironwood_pairs es = map (\<lambda>e. (te_ironwood e, te_ironwood_sub e)) es"

definition entries_ok :: "'t counters \<Rightarrow> ('t, 'h) tree_entry list \<Rightarrow> bool" where
  "entries_ok cs es \<longleftrightarrow> counted (sapling_count cs) 0 (sapling_pairs es) \<and> counted (orchard_count cs) 0 (orchard_pairs es)
     \<and> counted (orchard_count cs) 0 (ironwood_pairs es) \<and> te_sprout ` set es \<subseteq> sprout_domain cs"

subsection \<open>Subtrees\<close>

lemma counted_weaken: "counted cnt n xs \<Longrightarrow> m \<le> n \<Longrightarrow> counted cnt m xs"
  by (cases xs) (auto split: option.splits)

lemma counted_append: "counted cnt n (xs @ ys) \<longleftrightarrow> counted cnt n xs \<and> counted cnt (if xs = [] then n else cnt (fst (last xs))) ys"
  by (induction cnt n xs rule: counted.induct) auto

lemma subtree_list_append: "subtree_list h (xs @ ys) = subtree_list h xs @ subtree_list (h + length xs) ys"
  by (induction h xs rule: subtree_list.induct) auto

lemma subtree_list_heights: "(i, e, node) \<in> set (subtree_list h ss) \<Longrightarrow> h \<le> e \<and> e < h + length ss"
proof (induction h ss rule: subtree_list.induct)
  case (2 h s ss)
  from 2(2) consider "e = h" | "(i, e, node) \<in> set (subtree_list (Suc h) ss)" by (auto split: option.splits)
  then show ?case
  proof cases
    case 2
    from "2.IH" [OF this] show ?thesis by simp
  qed simp
qed simp

lemma counted_keys:
  "counted cnt n xs \<Longrightarrow> (i, d) \<in> set (subtree_list h (map snd xs)) \<Longrightarrow> n \<le> i \<and> i < cnt (fst (last xs))"
proof (induction cnt n xs arbitrary: h rule: counted.induct)
  case (2 cnt n t s xs)
  have mono: "cnt t \<le> cnt (fst (last xs))" if "xs \<noteq> []" using 2(2) that
  proof -
    have "counted cnt m ys \<Longrightarrow> ys \<noteq> [] \<Longrightarrow> m \<le> cnt (fst (last ys))" for m ys
    proof (induction cnt m ys rule: counted.induct)
      case (2 cnt m t s ys)
      then show ?case by (cases "ys = []") auto
    qed simp
    with 2(2) that show ?thesis by auto
  qed
  from 2(3) consider "s = Some (i, snd d)" | "(i, d) \<in> set (subtree_list (Suc h) (map snd xs))" by (auto split: option.splits)
  then show ?case
  proof cases
    case 1
    with 2(2) mono show ?thesis by (cases "xs = []") auto
  next
    case 2
    then have "xs \<noteq> []" by auto
    with "2.IH" [of "Suc h"] 2 "2.prems"(1) mono show ?thesis by fastforce
  qed
qed simp

lemma counted_sorted: "counted cnt n xs \<Longrightarrow> sorted_keys (subtree_list h (map snd xs))"
proof (induction cnt n xs arbitrary: h rule: counted.induct)
  case (2 cnt n t s xs)
  then have ge: "(k, d) \<in> set (subtree_list (Suc h) (map snd xs)) \<Longrightarrow> cnt t \<le> k" for k d
    using counted_keys [of cnt "cnt t" xs k d "Suc h"] by simp
  with 2 show ?case by (cases s) (auto dest!: ge Suc_le_lessD)
qed simp

text \<open>The subtree completed at a height, and the ends of the list.\<close>

lemma find_append: "find P (xs @ ys) = (case find P xs of None \<Rightarrow> find P ys | Some x \<Rightarrow> Some x)"
  by (induction xs) auto

lemma subtree_at_nth:
  "subtree_at (subtree_list h (xs @ s # ys)) (h + length xs) = with_end_height (h + length xs) s"
proof -
  have "find (\<lambda>(_, e, _). e = h + length xs) (subtree_list h xs) = None"
    using subtree_list_heights [of _ _ _ h xs] by (fastforce simp: find_None_iff)
  moreover have "find (\<lambda>(_, e, _). e = h + length xs) (subtree_list (Suc (h + length xs)) ys) = None"
    using subtree_list_heights [of _ _ _ "Suc (h + length xs)" ys] by (fastforce simp: find_None_iff)
  ultimately show ?thesis
    by (cases s) (auto simp: subtree_at_def subtree_list_append with_end_height_def find_append)
qed

lemma bt_insert_last_same:
  assumes "sorted_keys (m @ [(k, v)])"
  shows "bt_insert k v (m @ [(k, v)]) = m @ [(k, v)]"
  using assms by (induction m) auto

lemma pop_last_subtree_snoc: "pop_last_subtree (h + length xs) (subtree_list h (xs @ [s])) = subtree_list h xs"
proof (cases s)
  case None
  have "e \<noteq> h + length xs" if "bt_last (subtree_list h xs) = Some (i, e, node)" for i e node
  proof -
    from that have "(i, e, node) \<in> set (subtree_list h xs)"
      by (auto simp: bt_last_def split: if_splits) (metis last_in_set)
    from subtree_list_heights [OF this] show ?thesis by simp
  qed
  with None show ?thesis by (auto simp: pop_last_subtree_def subtree_list_append split: option.splits)
next
  case (Some x)
  then show ?thesis by (cases x) (simp add: pop_last_subtree_def subtree_list_append bt_last_def)
qed

text \<open>What a block does to the trees and subtrees of one pool.\<close>

lemma pool_step:
  assumes c: "counted cnt 0 (xs @ [(t, s)])" and f: "update_counts cnt f"
    and r: "task_result (h + Suc (length xs)) t (with_end_height (h + length xs) s) (run_task err f t cms) = Ok (t', sub)"
  shows "\<exists>s'. counted cnt 0 (xs @ [(t, s), (t', s')])
    \<and> insert_subtree sub (subtree_list h (map snd xs @ [s])) = subtree_list h (map snd xs @ [s, s'])"
proof (cases "cms = []")
  case True
  with r have t': "t' = t" "sub = with_end_height (h + length xs) s" by (auto simp: task_result_def run_task_def)
  have sorted: "sorted_keys (subtree_list h (map snd xs @ [s]))" using counted_sorted [OF c, of h] by simp
  have "insert_subtree sub (subtree_list h (map snd xs @ [s])) = subtree_list h (map snd xs @ [s])"
  proof (cases s)
    case (Some x)
    with sorted bt_insert_last_same show ?thesis
      by (cases x) (simp add: t' insert_subtree_def with_end_height_def subtree_list_append)
  qed (simp add: t' insert_subtree_def with_end_height_def)
  moreover have "counted cnt 0 (xs @ [(t, s), (t', None)])"
    using c by (auto simp: counted_append t' split: option.splits)
  ultimately show ?thesis by (intro exI [of _ None]) (simp add: subtree_list_append)
next
  case False
  with r obtain s' where s': "f t cms = Ok (t', s')" "sub = with_end_height (h + Suc (length xs)) s'"
    by (auto simp: task_result_def run_task_def)
  with f have new: "counted cnt (cnt t) [(t', s')]" unfolding update_counts_def by blast
  have c': "counted cnt 0 (xs @ [(t, s), (t', s')])" using c new by (auto simp: counted_append)
  have "insert_subtree sub (subtree_list h (map snd xs @ [s])) = subtree_list h (map snd xs @ [s, s'])"
  proof (cases s')
    case (Some x)
    obtain i node where x: "x = (i, node)" by fastforce
    have "k < i" if "(k, d) \<in> set (subtree_list h (map snd xs @ [s]))" for k d
      using counted_keys [OF c, of k d h] that new by (simp add: Some x)
    then have "\<forall>k \<in> fst ` set (subtree_list h (map snd xs @ [s])). k < i" by fastforce
    moreover have "sorted_keys (subtree_list h (map snd xs @ [s]))" using counted_sorted [OF c, of h] by simp
    ultimately show ?thesis
      using subtree_list_append [of h "map snd xs @ [s]" "[s']"]
      by (simp add: s'(2) insert_subtree_def with_end_height_def Some x bt_insert_last)
  qed (use subtree_list_append [of h "map snd xs @ [s]" "[s']"] in \<open>simp add: s'(2) insert_subtree_def with_end_height_def\<close>)
  with c' show ?thesis by blast
qed

subsection \<open>Adding a block\<close>

lemma inj_on_sprout: "ops_ok ops cs \<Longrightarrow> A \<subseteq> sprout_domain cs \<Longrightarrow> inj_on (sprout_root_of ops) A"
  by (auto simp: ops_ok_def intro: inj_on_subset)

lemma add_note_trees_snoc:
  assumes "ops_ok ops cs" "h = h0 + length es" "h \<le> HEIGHT_MAX" "te_sprout ` set (es @ [e]) \<subseteq> sprout_domain cs"
  shows "add_note_trees ops h (te_sprout e) (te_sapling e) (te_orchard e) (te_ironwood e) (trees_of ops h0 es) =
    (Ok ((trees_of ops h0 (es @ [e]))\<lparr>sapling_subtrees := subtree_list h0 (map te_sapling_sub es),
      orchard_subtrees := subtree_list h0 (map te_orchard_sub es), ironwood_subtrees := subtree_list h0 (map te_ironwood_sub es),
      history_trees := zip [h0 ..< h0 + length es] (map te_history es)\<rparr>) :: ('e, _) outcome)"
proof -
  have "inj_on (sprout_root_of ops) (set (map te_sprout es @ [te_sprout e]))" using assms(4) by (intro inj_on_sprout [OF assms(1)]) auto
  then show ?thesis using assms(2,3) by (simp add: add_note_trees_def trees_of_def dense_index_def add_dense add_sprout_dense)
qed

lemma new_tree_state_eq:
  assumes "ops_ok ops cs" "h \<le> HEIGHT_MAX" "nct_sprout nct \<in> sprout_domain cs"
  shows "new_tree_state ops h nct history = (Ok (trees_of ops h [\<lparr>te_sprout = nct_sprout nct, te_sapling = nct_sapling nct,
    te_orchard = nct_orchard nct, te_ironwood = nct_ironwood nct, te_history = history, te_sapling_sub = None,
    te_orchard_sub = None, te_ironwood_sub = None\<rparr>]) :: ('e, _) outcome)"
proof -
  have "tree_state_default = trees_of ops h []"
    by (simp add: tree_state_default_def trees_of_def dense_sprout_index_def dense_index_def with_dense_def
        sprout_tree_index_default_def tree_index_default_def)
  then show ?thesis
    using add_note_trees_snoc [OF assms(1), of h h "[]" "\<lparr>te_sprout = nct_sprout nct, te_sapling = nct_sapling nct,
      te_orchard = nct_orchard nct, te_ironwood = nct_ironwood nct, te_history = history, te_sapling_sub = None,
      te_orchard_sub = None, te_ironwood_sub = None\<rparr>", where 'e = 'e] assms(2,3)
    by (simp add: new_tree_state_def add_history_tree_def assert_that_def trees_of_def)
qed

text \<open>The trees the next block starts from are those of the last entry.\<close>

definition entry_trees :: "height \<Rightarrow> ('t, 'h) tree_entry \<Rightarrow> 't note_commitment_trees" where
  "entry_trees h e = \<lparr>nct_sprout = te_sprout e, nct_sapling = te_sapling e, nct_sapling_subtree = with_end_height h (te_sapling_sub e),
     nct_orchard = te_orchard e, nct_orchard_subtree = with_end_height h (te_orchard_sub e),
     nct_ironwood = te_ironwood e, nct_ironwood_subtree = with_end_height h (te_ironwood_sub e)\<rparr>"

definition no_subtrees :: "('t, 'h) tree_entry \<Rightarrow> bool" where
  "no_subtrees e \<longleftrightarrow> te_sapling_sub e = None \<and> te_orchard_sub e = None \<and> te_ironwood_sub e = None"

lemma trees_for_tip_snoc:
  assumes "tip = Some (h0 + length es) \<or> tip = None \<and> no_subtrees e"
  shows "trees_for_tip tip (trees_of ops h0 (es @ [e])) = Ok (entry_trees (h0 + length es) e)"
proof -
  have "Option.bind tip (subtree_at (subtree_list h0 (map f es @ [s]))) = with_end_height (h0 + length es) s"
    if "tip = None \<Longrightarrow> s = None" for f :: "('a, 'b) tree_entry \<Rightarrow> _" and s
    using subtree_at_nth [of h0 "map f es" s "[]"] assms that by (auto simp: with_end_height_def)
  note subs = this [of "te_sapling_sub e" te_sapling_sub] this [of "te_orchard_sub e" te_orchard_sub] this [of "te_ironwood_sub e" te_ironwood_sub]
  show ?thesis
    using subs assms
    by (auto simp: trees_for_tip_def trees_of_def dense_index_def dense_sprout_index_def tree_for_tip_dense entry_trees_def
        no_subtrees_def with_end_height_def)
qed

lemma update_trees_parallel_Ok:
  assumes "update_trees_parallel ops txs nct = Ok nct'" "block_coinbase_height txs = Some h"
  shows "task_result h (nct_sapling nct) (nct_sapling_subtree nct) (run_task Sapling_tree (update_sapling ops) (nct_sapling nct) (sapling_note_commitments txs))
      = Ok (nct_sapling nct', nct_sapling_subtree nct')"
    and "task_result h (nct_orchard nct) (nct_orchard_subtree nct) (run_task Orchard_tree (update_orchard ops) (nct_orchard nct) (orchard_note_commitments txs))
      = Ok (nct_orchard nct', nct_orchard_subtree nct')"
    and "task_result h (nct_ironwood nct) (nct_ironwood_subtree nct) (run_task Ironwood_tree (update_orchard ops) (nct_ironwood nct) (ironwood_note_commitments txs))
      = Ok (nct_ironwood nct', nct_ironwood_subtree nct')"
  using assms by (auto simp: update_trees_parallel_def Let_def split: if_splits prod.splits)

lemma update_trees_parallel_sprout:
  assumes "update_trees_parallel ops txs nct = Ok nct'"
  shows "nct_sprout nct' = nct_sprout nct \<or> update_sprout ops (nct_sprout nct) (sprout_note_commitments txs) = Ok (nct_sprout nct')"
  using assms
  by (cases "update_sprout ops (nct_sprout nct) (sprout_note_commitments txs)"; cases "sprout_note_commitments txs = []")
    (auto simp: update_trees_parallel_def Let_def run_task_def [of Sprout_tree] split: if_splits prod.splits)

lemma upt_zip_snoc: "length xs = n \<Longrightarrow> zip [h ..< h + Suc n] (xs @ [x]) = zip [h ..< h + n] xs @ [(h + n, x)]"
  by simp

lemma history_snoc:
  fixes hs :: "'h list"
  shows "bt_insert (h + length hs) x (zip [h ..< h + length hs] hs) = zip [h ..< h + Suc (length hs)] (hs @ [x])"
    and "map_of (zip [h ..< h + length hs] hs) (h + length hs) = None"
proof -
  have keys: "\<forall>k \<in> fst ` set (zip [h ..< h + length hs] hs). k < h + length hs" by (auto dest!: set_zip_leftD)
  have "sorted_keys (zip [h ..< h + length hs] hs)" by (simp add: sorted_keys_def)
  from bt_insert_last [OF this keys] show "bt_insert (h + length hs) x (zip [h ..< h + length hs] hs) = zip [h ..< h + Suc (length hs)] (hs @ [x])"
    by simp
  show "map_of (zip [h ..< h + length hs] hs) (h + length hs) = None" using keys by (force simp: map_of_eq_None_iff)
qed

lemma update_trees_append:
  fixes ops :: "('t, 'h) tree_ops"
  assumes ok: "ops_ok ops cs" "entries_ok cs (es @ [e])" and h: "h = h0 + Suc (length es)" "h \<le> HEIGHT_MAX"
    and b: "sv_height b = h" "block_coinbase_height (sv_transactions b) = Some h"
    and nct: "update_trees_parallel ops (sv_transactions b) (entry_trees (h0 + length es) e) = Ok nct"
    and upd: "update_trees_with ops net b nct (trees_of ops h0 (es @ [e])) = Ok ts'"
  shows "\<exists>e'. ts' = trees_of ops h0 (es @ [e, e']) \<and> entries_ok cs (es @ [e, e'])"
proof -
  note tasks = update_trees_parallel_Ok [OF nct b(2), unfolded h(1) entry_trees_def note_commitment_trees.simps]
  from ok have counts: "update_counts (sapling_count cs) (update_sapling ops)" "update_counts (orchard_count cs) (update_orchard ops)"
    by (simp_all add: ops_ok_def)
  have pairs: "counted (sapling_count cs) 0 (sapling_pairs es @ [(te_sapling e, te_sapling_sub e)])"
    "counted (orchard_count cs) 0 (orchard_pairs es @ [(te_orchard e, te_orchard_sub e)])"
    "counted (orchard_count cs) 0 (ironwood_pairs es @ [(te_ironwood e, te_ironwood_sub e)])"
    using ok(2) by (simp_all add: entries_ok_def sapling_pairs_def orchard_pairs_def ironwood_pairs_def)
  have len: "length (sapling_pairs es) = length es" "length (orchard_pairs es) = length es" "length (ironwood_pairs es) = length es"
    by (simp_all add: sapling_pairs_def orchard_pairs_def ironwood_pairs_def)
  obtain s1 where s1: "counted (sapling_count cs) 0 (sapling_pairs es @ [(te_sapling e, te_sapling_sub e), (nct_sapling nct, s1)])"
    "insert_subtree (nct_sapling_subtree nct) (subtree_list h0 (map snd (sapling_pairs es) @ [te_sapling_sub e]))
      = subtree_list h0 (map snd (sapling_pairs es) @ [te_sapling_sub e, s1])"
    using pool_step [OF pairs(1) counts(1), unfolded len, OF tasks(1)] by blast
  obtain s2 where s2: "counted (orchard_count cs) 0 (orchard_pairs es @ [(te_orchard e, te_orchard_sub e), (nct_orchard nct, s2)])"
    "insert_subtree (nct_orchard_subtree nct) (subtree_list h0 (map snd (orchard_pairs es) @ [te_orchard_sub e]))
      = subtree_list h0 (map snd (orchard_pairs es) @ [te_orchard_sub e, s2])"
    using pool_step [OF pairs(2) counts(2), unfolded len, OF tasks(2)] by blast
  obtain s3 where s3: "counted (orchard_count cs) 0 (ironwood_pairs es @ [(te_ironwood e, te_ironwood_sub e), (nct_ironwood nct, s3)])"
    "insert_subtree (nct_ironwood_subtree nct) (subtree_list h0 (map snd (ironwood_pairs es) @ [te_ironwood_sub e]))
      = subtree_list h0 (map snd (ironwood_pairs es) @ [te_ironwood_sub e, s3])"
    using pool_step [OF pairs(3) counts(2), unfolded len, OF tasks(3)] by blast
  have snds: "map snd (sapling_pairs es) = map te_sapling_sub es" "map snd (orchard_pairs es) = map te_orchard_sub es"
    "map snd (ironwood_pairs es) = map te_ironwood_sub es"
    by (simp_all add: sapling_pairs_def orchard_pairs_def ironwood_pairs_def)
  define E where "E hist = \<lparr>te_sprout = nct_sprout nct, te_sapling = nct_sapling nct, te_orchard = nct_orchard nct,
    te_ironwood = nct_ironwood nct, te_history = hist, te_sapling_sub = s1, te_orchard_sub = s2, te_ironwood_sub = s3\<rparr>" for hist :: 'h
  have len': "h = h0 + length (es @ [e])" using h(1) by simp
  have "nct_sprout nct \<in> sprout_domain cs" using update_trees_parallel_sprout [OF nct] ok by (auto simp: ops_ok_def entries_ok_def entry_trees_def)
  then have sprout: "te_sprout ` set ((es @ [e]) @ [E hist]) \<subseteq> sprout_domain cs" for hist using ok(2) by (auto simp: entries_ok_def E_def)
  note added = add_note_trees_snoc [OF ok(1) len' h(2) sprout, of hist for hist, unfolded E_def tree_entry.simps]
  have hist: "bt_insert h x (zip [h0 ..< h0 + length (es @ [e])] (map te_history (es @ [e]))) = zip [h0 ..< h0 + length (es @ [e, y])] (map te_history (es @ [e]) @ [x])"
    for x and y :: "('t, 'h) tree_entry"
    using history_snoc(1) [of h0 "map te_history (es @ [e])"] by (simp add: h(1))
  from upd [unfolded update_trees_with_def b(1) added [of "te_history e"] qbind.simps Let_def]
  obtain x where "ts' = (trees_of ops h0 (es @ [e, E (te_history e)]))\<lparr>
      sapling_subtrees := insert_subtree (nct_sapling_subtree nct) (subtree_list h0 (map te_sapling_sub (es @ [e]))),
      orchard_subtrees := insert_subtree (nct_orchard_subtree nct) (subtree_list h0 (map te_orchard_sub (es @ [e]))),
      ironwood_subtrees := insert_subtree (nct_ironwood_subtree nct) (subtree_list h0 (map te_ironwood_sub (es @ [e]))),
      history_trees := bt_insert h x (zip [h0 ..< h0 + length (es @ [e])] (map te_history (es @ [e])))\<rparr>"
    by (auto simp: add_history_tree_def E_def trees_of_def)
  then have "ts' = trees_of ops h0 (es @ [e, E x])"
    using s1(2) s2(2) s3(2) unfolding snds hist [of x "E x"] by (simp add: trees_of_def E_def)
  moreover have "entries_ok cs (es @ [e, E hist])" for hist
    using s1(1) s2(1) s3(1) sprout [of hist] by (simp add: entries_ok_def sapling_pairs_def orchard_pairs_def ironwood_pairs_def E_def)
  ultimately show ?thesis by blast
qed

subsection \<open>Removing a block\<close>

lemma history_remove_tip:
  fixes hs :: "'h list"
  shows "map_of (zip [h ..< h + length hs] hs @ [(h + length hs, x)]) (h + length hs) = Some x"
    and "bt_remove (h + length hs) (zip [h ..< h + length hs] hs @ [(h + length hs, x)]) = zip [h ..< h + length hs] hs"
proof -
  show "map_of (zip [h ..< h + length hs] hs @ [(h + length hs, x)]) (h + length hs) = Some x"
    unfolding map_of_append map_add_def history_snoc(2) by simp
  have "bt_remove (h + length hs) (zip [h ..< h + length hs] hs) = zip [h ..< h + length hs] hs"
    by (intro bt_remove_absent) (auto dest!: set_zip_leftD)
  then show "bt_remove (h + length hs) (zip [h ..< h + length hs] hs @ [(h + length hs, x)]) = zip [h ..< h + length hs] hs" by simp
qed

lemma remove_trees_tip:
  fixes es :: "('t, 'h) tree_entry list"
  assumes "ops_ok ops cs" "entries_ok cs (es @ [e])" and tip: "\<And>t. tip = Some t \<Longrightarrow> t \<le> h0 + length es"
  shows "remove_trees Tip (h0 + length es) tip (pop_last_subtrees (h0 + length es) (trees_of ops h0 (es @ [e])))
    = (Ok (trees_of ops h0 es) :: ('e, _) outcome)"
proof -
  have pops: "pop_last_subtree (h0 + length es) (subtree_list h0 (map f es @ [f e])) = subtree_list h0 (map f es)"
    for f :: "('t, 'h) tree_entry \<Rightarrow> _" using pop_last_subtree_snoc [of h0 "map f es" "f e"] by simp
  have trees: "remove_tree_and_anchor Tip (h0 + length es) tip (with_dense root None h0 (map f es @ [f e]) idx)
      = (Ok (with_dense root None h0 (map f es) idx) :: ('e, 't tree_index) outcome)" for root idx and f :: "('t, 'h) tree_entry \<Rightarrow> 't"
    by (rule remove_tip_dense) (use tip in auto)
  have sprout: "remove_sprout_tree_and_anchor Tip (h0 + length es) tip (dense_sprout_index (sprout_root_of ops) h0 (map te_sprout es @ [te_sprout e]))
      = (Ok (dense_sprout_index (sprout_root_of ops) h0 (map te_sprout es)) :: ('e, _) outcome)"
    by (rule remove_sprout_tip_dense)
      (use tip assms(2) inj_on_sprout [OF assms(1), of "te_sprout ` set (es @ [e])"] in \<open>auto simp: entries_ok_def\<close>)
  show ?thesis
    using pops [of te_sapling_sub] pops [of te_orchard_sub] pops [of te_ironwood_sub] history_remove_tip [of h0 "map te_history es" "te_history e"]
    by (simp add: remove_trees_def pop_last_subtrees_def trees_of_def dense_index_def trees sprout remove_history_tree_def
        del: map_of_append bt_remove_simps) blast
qed

lemma subtree_list_drop:
  assumes "\<forall>s \<in> set xs. s = None"
  shows "subtree_list h (xs @ ys) = subtree_list (h + length xs) ys"
proof -
  have "subtree_list h xs = []" using assms by (induction h xs rule: subtree_list.induct) auto
  then show ?thesis by (simp add: subtree_list_append)
qed

lemma pop_first_subtree:
  assumes "\<forall>s \<in> set xs. s = None"
  shows "(if with_end_height h s \<noteq> None then tl (subtree_list h0 (xs @ s # ys)) else subtree_list h0 (xs @ s # ys))
    = subtree_list (Suc (h0 + length xs)) ys"
  using subtree_list_drop [OF assms, of h0 "s # ys"] by (cases s) (auto simp: with_end_height_def)

lemma treestate_nth:
  fixes es :: "('t, 'h) tree_entry list"
  shows "treestate_at (h0 + length us) (trees_of ops h0 (us @ e # es))
    = Some \<lparr>ts_trees = entry_trees (h0 + length us) e, ts_history = te_history e\<rparr>"
proof -
  have at: "tree_at (with_dense root None h0 (map f us @ f e # map f es) idx) (h0 + length us) = Some (f e)"
    for root and f :: "('t, 'h) tree_entry \<Rightarrow> 't" and idx :: "('t, 'd) tree_index_scheme"
    using tree_at_dense [of "length us" "map f (us @ e # es)" root h0 idx] by (simp add: nth_append)
  have hist: "map_of (zip [h0 ..< h0 + length (us @ e # es)] (map te_history (us @ e # es))) (h0 + length us) = Some (te_history e)"
    using map_of_zip_nth [of "[h0 ..< h0 + length (us @ e # es)]" "map te_history (us @ e # es)" "length us"]
    by (simp add: nth_append del: upt_Suc)
  show ?thesis
    unfolding treestate_at_def trees_of_def dense_sprout_index_def dense_index_def entry_trees_def tree_state.simps hist
    using subtree_at_nth [of h0 "map te_sapling_sub us"] subtree_at_nth [of h0 "map te_orchard_sub us"]
      subtree_at_nth [of h0 "map te_ironwood_sub us"]
    by (simp add: at)
qed

lemma history_remove_root:
  fixes us :: "'h list"
  assumes "us \<noteq> []" "h = h0 + length us - 1"
  shows "filter (\<lambda>(h', _). h < h') (zip [h0 ..< h0 + length (us @ hs)] (us @ hs)) = zip [Suc h ..< Suc h + length hs] hs"
proof -
  have sh: "Suc h = h0 + length us" using assms by (cases us) simp_all
  have "[h0 ..< h0 + length (us @ hs)] = [h0 ..< h0 + length us] @ [Suc h ..< Suc h + length hs]"
    unfolding sh length_append add.assoc [symmetric] by (rule upt_add_eq_append) simp
  then have "zip [h0 ..< h0 + length (us @ hs)] (us @ hs) = zip [h0 ..< h0 + length us] us @ zip [Suc h ..< Suc h + length hs] hs"
    by (simp only: zip_append length_upt add_diff_cancel_left')
  moreover have "filter (\<lambda>(h', _). h < h') (zip [h0 ..< h0 + length us] us) = []"
    using sh by (auto simp: filter_empty_conv dest!: set_zip_leftD)
  moreover have "filter (\<lambda>(h', _). h < h') (zip [Suc h ..< Suc h + length hs] hs) = zip [Suc h ..< Suc h + length hs] hs"
    by (auto simp: filter_id_conv dest!: set_zip_leftD)
  ultimately show ?thesis by simp
qed

lemma remove_trees_root:
  fixes es :: "('t, 'h) tree_entry list"
  assumes "ops_ok ops cs" "entries_ok cs (us @ e # es)" "\<forall>u \<in> set us. no_subtrees u" and h: "h = h0 + length us" "h < HEIGHT_MAX"
  shows "remove_trees Root h (if es = [] then None else Some (h + length es))
      (pop_first_subtrees (entry_trees h e) (trees_of ops h0 (us @ e # es)))
    = (Ok (trees_of ops (Suc h) es) :: ('e, _) outcome)"
proof -
  let ?us = "us @ [e]" and ?tip = "if es = [] then None else Some (h + length es)"
  have us: "?us \<noteq> []" "h = h0 + length ?us - 1" using h by simp_all
  have pops: "(if with_end_height h (f e) \<noteq> None then tl (subtree_list h0 (map f us @ f e # map f es)) else subtree_list h0 (map f us @ f e # map f es))
      = subtree_list (Suc h) (map f es)" if "\<forall>u \<in> set us. f u = None" for f :: "('t, 'h) tree_entry \<Rightarrow> _"
    using pop_first_subtree [of "map f us" h "f e" h0 "map f es"] that h(1) by simp
  have none: "\<forall>u \<in> set us. te_sapling_sub u = None" "\<forall>u \<in> set us. te_orchard_sub u = None" "\<forall>u \<in> set us. te_ironwood_sub u = None"
    using assms(3) by (simp_all add: no_subtrees_def)
  have eq: "map f us @ f e # map f es = map f ?us @ map f es" for f :: "('t, 'h) tree_entry \<Rightarrow> 't" by simp
  have trees: "remove_tree_and_anchor Root h ?tip (with_dense root None h0 (map f us @ f e # map f es) idx)
      = (Ok (with_dense root None (Suc h) (map f es) idx) :: ('e, 't tree_index) outcome)" for root idx and f :: "('t, 'h) tree_entry \<Rightarrow> 't"
    unfolding eq by (rule remove_root_dense) (use us h in auto)
  have sprout: "remove_sprout_tree_and_anchor Root h ?tip (dense_sprout_index (sprout_root_of ops) h0 (map te_sprout us @ te_sprout e # map te_sprout es))
      = (Ok (dense_sprout_index (sprout_root_of ops) (Suc h) (map te_sprout es)) :: ('e, _) outcome)"
    unfolding eq by (rule remove_sprout_root_dense) (use us h assms(2) inj_on_sprout [OF assms(1), of "te_sprout ` set (us @ e # es)"] in \<open>auto simp: entries_ok_def image_Un\<close>)
  have hist: "filter (\<lambda>(h', _). h < h') (zip [h0 ..< h0 + length (us @ e # es)] (map te_history (us @ e # es)))
      = zip [Suc h ..< Suc h + length es] (map te_history es)"
    using history_remove_root [of "map te_history ?us" h h0 "map te_history es"] us by simp
  have pop: "pop_first_subtrees (entry_trees h e) (trees_of ops h0 (us @ e # es)) = (trees_of ops h0 (us @ e # es))\<lparr>
      sapling_subtrees := subtree_list (Suc h) (map te_sapling_sub es), orchard_subtrees := subtree_list (Suc h) (map te_orchard_sub es),
      ironwood_subtrees := subtree_list (Suc h) (map te_ironwood_sub es)\<rparr>"
    by (simp only: pop_first_subtrees_def entry_trees_def note_commitment_trees.simps trees_of_def tree_state.simps map_append
        list.map pops [OF none(1)] pops [OF none(2)] pops [OF none(3)])
  show ?thesis
    unfolding pop using hist
    by (simp add: remove_trees_def trees_of_def dense_index_def trees sprout remove_history_tree_def del: upt_Suc)
qed

subsection \<open>The note commitment trees keep the contract\<close>

lemma note_trees_count:
  assumes "frontier_ok lib"
  shows "update_counts (complete_subtrees lib) (update_note_commitment_tree lib)"
  unfolding update_counts_def
proof (intro allI impI)
  fix t cms t' s
  assume "update_note_commitment_tree lib t cms = Ok (t', s)"
  then obtain u where u: "append_notes_with_subtrees lib cms t None = Ok (u, s)" "t' = snd (tree_root lib u)"
    by (auto simp: update_note_commitment_tree_def)
  note count = append_notes_with_subtrees_count [OF assms u(1)]
  have same: "complete_subtrees lib t' = complete_subtrees lib u"
    unfolding u(2) complete_subtrees_def tree_count_def tree_root_def by (auto split: option.splits)
  have le: "complete_subtrees lib t \<le> complete_subtrees lib u"
    unfolding complete_subtrees_def by (simp add: count div_le_mono)
  with count same show "counted (complete_subtrees lib) (complete_subtrees lib t) [(t', s)]"
    by (cases "complete_subtrees lib t = complete_subtrees lib u") auto
qed

lemma append_notes_domain:
  assumes "\<forall>cm f f'. f \<in> S \<longrightarrow> fr_append lib cm f = Some f' \<longrightarrow> f' \<in> S"
  shows "append_notes lib cms t = Ok t' \<Longrightarrow> inner t \<in> S \<Longrightarrow> cache_ok lib t \<Longrightarrow> inner t' \<in> S \<and> cache_ok lib t'"
proof (induction cms arbitrary: t)
  case (Cons cm cms)
  then obtain f where f: "fr_append lib cm (inner t) = Some f" "append_notes lib cms (t\<lparr>inner := f, cached_root := None\<rparr>) = Ok t'"
    by (auto simp: append_note_def split: option.splits)
  with Cons.IH [OF f(2)] assms Cons.prems(2) show ?case by (simp add: cache_ok_def)
qed simp

text \<open>
  The trees of the code keep the contract when the frontier library does and the roots of the Sprout
  frontiers that occur do not collide.
\<close>

lemma note_tree_ops_ok:
  assumes "frontier_ok sapling_lib" "frontier_ok orchard_lib" and inj: "inj_on (fr_root sprout_lib) S"
    and closed: "\<forall>cm f f'. f \<in> S \<longrightarrow> fr_append sprout_lib cm f = Some f' \<longrightarrow> f' \<in> S"
  shows "ops_ok (note_tree_ops sprout_lib sapling_lib orchard_lib hist)
    \<lparr>sapling_count = complete_subtrees sapling_lib, orchard_count = complete_subtrees orchard_lib,
     sprout_domain = {t. inner t \<in> S \<and> cached_root t = Some (fr_root sprout_lib (inner t))}\<rparr>"
proof -
  let ?D = "{t. inner t \<in> S \<and> cached_root t = Some (fr_root sprout_lib (inner t))}"
  have "inj_on (\<lambda>t. fst (tree_root sprout_lib t)) ?D"
  proof (rule inj_onI)
    fix t u :: "'a note_commitment_tree"
    assume "t \<in> ?D" "u \<in> ?D" "fst (tree_root sprout_lib t) = fst (tree_root sprout_lib u)"
    then show "t = u" using inj_onD [OF inj, of "inner t" "inner u"] by (cases t; cases u) (auto simp: tree_root_def)
  qed
  moreover have "t' \<in> ?D" if "t \<in> ?D" "update_sprout_note_commitment_tree sprout_lib t cms = Ok t'" for t cms t'
  proof -
    from that(2) obtain u where u: "append_notes sprout_lib cms t = Ok u" "t' = snd (tree_root sprout_lib u)"
      by (auto simp: update_sprout_note_commitment_tree_def)
    have "inner u \<in> S \<and> cache_ok sprout_lib u" using append_notes_domain [OF closed u(1)] that(1) by (simp add: cache_ok_def)
    then show ?thesis unfolding u(2) by (cases "cached_root u") (simp_all add: cache_ok_def tree_root_def)
  qed
  ultimately show ?thesis
    unfolding ops_ok_def note_tree_ops_def tree_ops.simps counters.simps
    using note_trees_count [OF assms(1)] note_trees_count [OF assms(2)] by blast
qed

end
