(* ===== verification/Reversible.thy ===== *)
theory Reversible
  imports Checked_Sum "HOL-Library.Multiset"
begin

text \<open>
  The interface of a reversible index.  The state of a chain consists of indexes that are updated
  with the items of a new block and reverted when a block is removed.  The locale \<open>reversible\<close> is
  what such an index promises: its state is determined by the multiset of the items it holds,
  an update adds one item, a revert removes one and cannot fail on an item that is held.  It follows
  that the items of a block can be reverted in any order, at either end of the chain, and that
  reverting what was just applied restores the very state.
\<close>

section \<open>The interface\<close>

locale reversible =
  fixes rep :: "'s \<Rightarrow> 'x multiset \<Rightarrow> bool"
    and update :: "'s \<Rightarrow> 'x \<Rightarrow> ('e, 's) outcome"
    and revert :: "'s \<Rightarrow> 'x \<Rightarrow> ('e, 's) outcome"
    and revertible :: "'x multiset \<Rightarrow> 'x \<Rightarrow> bool"
  assumes update_rep: "rep s M \<Longrightarrow> update s x = Ok s' \<Longrightarrow> rep s' (add_mset x M)"
    and revert_rep: "rep s (add_mset x M) \<Longrightarrow> revertible M x \<Longrightarrow> \<exists>s'. revert s x = Ok s' \<and> rep s' M"
    and rep_unique: "rep s M \<Longrightarrow> rep s' M \<Longrightarrow> s = s'"
begin

text \<open>The items \<open>xs\<close> can be reverted one after the other, down to \<open>M\<close>.\<close>

fun revertible_all :: "'x multiset \<Rightarrow> 'x list \<Rightarrow> bool" where
  "revertible_all M [] \<longleftrightarrow> True"
| "revertible_all M (x # xs) \<longleftrightarrow> revertible (M + mset xs) x \<and> revertible_all M xs"

lemma update_all: "rep s M \<Longrightarrow> try_fold update s xs = Ok s' \<Longrightarrow> rep s' (M + mset xs)"
proof (induction xs arbitrary: s M)
  case (Cons x xs)
  from Cons.prems(2) obtain s1 where s1: "update s x = Ok s1" "try_fold update s1 xs = Ok s'" by auto
  from Cons.IH [OF update_rep [OF Cons.prems(1) s1(1)] s1(2)] show ?case by simp
qed simp

lemma revert_all:
  "rep s (M + mset xs) \<Longrightarrow> revertible_all M xs \<Longrightarrow> \<exists>s'. try_fold revert s xs = Ok s' \<and> rep s' M"
proof (induction xs arbitrary: s)
  case (Cons x xs)
  from Cons.prems revert_rep [of s x "M + mset xs"] obtain s1 where s1: "revert s x = Ok s1" "rep s1 (M + mset xs)"
    by auto
  with Cons.IH [OF s1(2)] Cons.prems(2) show ?case by auto
qed simp

lemma roundtrip:
  "rep s M \<Longrightarrow> try_fold update s xs = Ok s' \<Longrightarrow> revertible_all M xs \<Longrightarrow> try_fold revert s' xs = Ok s"
  using revert_all [OF update_all] rep_unique by blast

end

section \<open>Maps with unique keys\<close>

text \<open>
  \<^verbatim>\<open>insert\<close> with the assertion that the key was new, and \<^verbatim>\<open>remove\<close> with the assertion that the key
  was there.
\<close>

definition map_insert_unique :: "('k \<rightharpoonup> 'v) \<Rightarrow> 'k \<times> 'v \<Rightarrow> ('e, 'k \<rightharpoonup> 'v) outcome" where
  "map_insert_unique m e = map_ok (\<lambda>_. m(fst e \<mapsto> snd e)) (assert_that (m (fst e) = None))"

definition map_remove_present :: "('k \<rightharpoonup> 'v) \<Rightarrow> 'k \<times> 'v \<Rightarrow> ('e, 'k \<rightharpoonup> 'v) outcome" where
  "map_remove_present m e = map_ok (\<lambda>_. m(fst e := None)) (assert_that (m (fst e) \<noteq> None))"

definition map_rep :: "('k \<rightharpoonup> 'v) \<Rightarrow> ('k \<times> 'v) multiset \<Rightarrow> bool" where
  "map_rep m M \<longleftrightarrow> (\<forall>k v. m k = Some v \<longleftrightarrow> (k, v) \<in># M) \<and> (\<forall>k. count (image_mset fst M) k \<le> 1)"

lemma map_repD:
  assumes "map_rep m M"
  shows "m k = Some v \<longleftrightarrow> (k, v) \<in># M" and "count (image_mset fst M) k \<le> 1"
  using assms unfolding map_rep_def by blast+

lemma map_rep_empty: "map_rep Map.empty {#}"
  by (simp add: map_rep_def)

lemma key_in_image: "k \<in># image_mset fst M \<longleftrightarrow> (\<exists>v. (k, v) \<in># M)"
  by (auto simp: image_iff) (metis fst_conv)

lemma map_rep_None: "map_rep m M \<Longrightarrow> m k = None \<longleftrightarrow> k \<notin># image_mset fst M"
  unfolding key_in_image by (simp add: map_repD(1) [symmetric])

lemma map_rep_add:
  assumes "map_rep m M" "m k = None"
  shows "map_rep (m(k \<mapsto> v)) (add_mset (k, v) M)"
proof -
  have k: "k \<notin># image_mset fst M" using map_rep_None [OF assms(1), of k] assms(2) by blast
  have "(m(k \<mapsto> v)) k' = Some v' \<longleftrightarrow> (k', v') \<in># add_mset (k, v) M" for k' v'
    using map_repD(1) [OF assms(1), of k' v'] k [unfolded key_in_image] by (cases "k' = k") auto
  moreover have "count (image_mset fst (add_mset (k, v) M)) k' \<le> 1" for k'
    using map_repD(2) [OF assms(1), of k'] k [unfolded not_in_iff] by auto
  ultimately show ?thesis unfolding map_rep_def by blast
qed

lemma map_rep_remove:
  assumes "map_rep m (add_mset (k, v) M)"
  shows "m k = Some v" "map_rep (m(k := None)) M"
proof -
  show "m k = Some v" using map_repD(1) [OF assms, of k v] by simp
  have "count (image_mset fst M) k = 0" using map_repD(2) [OF assms, of k] by simp
  then have "k \<notin># image_mset fst M" unfolding not_in_iff .
  then have k: "(k, v') \<notin># M" for v' unfolding key_in_image by blast
  have "(m(k := None)) k' = Some v' \<longleftrightarrow> (k', v') \<in># M" for k' v'
    using map_repD(1) [OF assms, of k' v'] k by (cases "k' = k") auto
  moreover have "count (image_mset fst M) k' \<le> 1" for k'
    using map_repD(2) [OF assms, of k'] by (auto split: if_splits)
  ultimately show "map_rep (m(k := None)) M" unfolding map_rep_def by blast
qed

lemma map_rep_unique:
  assumes "map_rep m M" "map_rep m' M"
  shows "m = m'"
proof
  fix k
  show "m k = m' k"
    using map_repD(1) [OF assms(1), of k] map_repD(1) [OF assms(2), of k]
    by (cases "m k"; cases "m' k") auto
qed

interpretation unique_map: reversible map_rep map_insert_unique map_remove_present "\<lambda>_ _. True"
proof unfold_locales
  fix m :: "'a \<rightharpoonup> 'b" and M x m'
  assume "map_rep m M" "map_insert_unique m x = Ok m'"
  then show "map_rep m' (add_mset x M)" using map_rep_add [of m M "fst x" "snd x"] by (auto simp: map_insert_unique_def)
next
  fix m :: "'a \<rightharpoonup> 'b" and M x
  assume "map_rep m (add_mset x M)"
  with map_rep_remove [of m "fst x" "snd x" M] show "\<exists>m'. map_remove_present m x = Ok m' \<and> map_rep m' M"
    by (auto simp: map_remove_present_def)
qed (rule map_rep_unique)

lemma unique_map_revertible [simp]: "unique_map.revertible_all M xs"
  by (induction xs) simp_all

text \<open>A map that holds items with distinct keys is the map of any list of them.\<close>

lemma map_rep_map_of: "map_rep m (mset xs) \<longleftrightarrow> distinct (map fst xs) \<and> m = map_of xs"
proof
  assume m: "map_rep m (mset xs)"
  have "count (mset (map fst xs)) k \<le> 1" for k using map_repD(2) [OF m, of k] by simp
  then have d: "distinct (map fst xs)" 
    unfolding distinct_count_atmost_1 by (metis count_eq_zero_iff le_antisym less_one not_le set_mset_mset)
  moreover have "m = map_of xs"
  proof
    fix k
    show "m k = map_of xs k"
      using map_repD(1) [OF m, of k] d by (cases "m k"; cases "map_of xs k") (auto dest: map_of_SomeD)
  qed
  ultimately show "distinct (map fst xs) \<and> m = map_of xs" ..
next
  assume R: "distinct (map fst xs) \<and> m = map_of xs"
  then have "count (mset (map fst xs)) k \<le> 1" for k by (simp add: distinct_count_atmost_1)
  with R show "map_rep m (mset xs)" by (auto simp: map_rep_def)
qed

end
