(* ===== verification/Address_Index.thy ===== *)
theory Address_Index
  imports Utxo_Check Reversible "HOL-Library.Product_Lexorder"
begin

text \<open>
  The transparent address index of a non-finalized chain, from
  \<^verbatim>\<open>zebra-state/src/service/non_finalized_state/chain/index.rs\<close>, with the locations of
  \<^verbatim>\<open>finalized_state/disk_format/block.rs\<close> and \<^verbatim>\<open>disk_format/transparent.rs\<close>.

  For every address the index has the balance change, the ids of the transactions, the outputs
  received and the outputs spent by the blocks of the chain.  The specification of an index is the
  multiset of the transfers it was updated with: \<open>index_rep\<close>.  Updating adds a transfer to the
  multiset; reverting removes one, in whatever order.  The code of the chain reverts the transfers
  of a block in the order in which it applied them, so the balances in between are not those it
  went through before: \<open>transfers_fit\<close> is what keeps them in range.
\<close>

section \<open>Locations\<close>

type_synonym transaction_location = "height \<times> nat"
type_synonym output_location = "transaction_location \<times> nat"

definition u16_max :: nat where "u16_max = 65535"

definition transaction_location_from_usize :: "height \<Rightarrow> nat \<Rightarrow> ('e, transaction_location) outcome" where
  "transaction_location_from_usize h i = expect (if i \<le> u16_max then Some (h, i) else None)"

definition output_location_from_outpoint :: "transaction_location \<Rightarrow> outpoint \<Rightarrow> output_location" where
  "output_location_from_outpoint loc op = (loc, outpoint_index op)"

definition transaction_location :: "ordered_utxo \<Rightarrow> ('e, transaction_location) outcome" where
  "transaction_location u =
     transaction_location_from_usize (utxo_height (ordered_inner u)) (tx_index_in_block u)"

section \<open>The address of an output\<close>

text \<open>The recipient in a locking script is read by the library.\<close>

datatype output_recipient = PublicKeyHash bytes | ScriptHash bytes

definition output_address :: "(tx_output \<Rightarrow> output_recipient option) \<Rightarrow> network \<Rightarrow> tx_output \<Rightarrow> address option" where
  "output_address recipient_address net out =
     (let network_kind = (if uses_wcash_consensus net then kind net else t_addr_kind net) in
      map_option
        (\<lambda>r. case r of
           PublicKeyHash pkh \<Rightarrow> PayToPublicKeyHash network_kind pkh
         | ScriptHash sh \<Rightarrow> PayToScriptHash network_kind sh)
        (recipient_address out))"

section \<open>The transfers of one address\<close>

record transparent_transfers =
  tr_balance :: amount
  tr_tx_ids :: "bytes multiset"
  tr_created :: "(output_location, tx_output) btree_map"
  tr_spent :: "output_location set"

definition transfers_default :: transparent_transfers where
  "transfers_default = \<lparr>tr_balance = Amount 0, tr_tx_ids = {#}, tr_created = [], tr_spent = {}\<rparr>"

definition transfers_is_empty :: "transparent_transfers \<Rightarrow> bool" where
  "transfers_is_empty t \<longleftrightarrow>
     tr_balance t = Amount 0 \<and> tr_tx_ids t = {#} \<and> tr_created t = [] \<and> tr_spent t = {}"

definition update_created ::
  "profile \<Rightarrow> outpoint \<Rightarrow> ordered_utxo \<Rightarrow> transparent_transfers \<Rightarrow> (spend_error, transparent_transfers) outcome" where
  "update_created p op u t =
     (let out = utxo_output (ordered_inner u) in
      qbind (expect_ok (constrain p NegativeAllowed (output_value out))) (\<lambda>v.
      qbind (expect_ok (amount_add p NegativeAllowed (tr_balance t) v)) (\<lambda>balance.
      qbind (transaction_location u) (\<lambda>tx_location.
        let location = output_location_from_outpoint tx_location op in
        qbind (assert_that (map_of (tr_created t) location = None)) (\<lambda>_.
          Ok (t\<lparr>tr_balance := balance, tr_created := bt_insert location out (tr_created t),
                tr_tx_ids := add_mset (outpoint_hash op) (tr_tx_ids t)\<rparr>))))))"

definition revert_created ::
  "profile \<Rightarrow> outpoint \<Rightarrow> ordered_utxo \<Rightarrow> transparent_transfers \<Rightarrow> (spend_error, transparent_transfers) outcome" where
  "revert_created p op u t =
     (let out = utxo_output (ordered_inner u) in
      qbind (expect_ok (constrain p NegativeAllowed (output_value out))) (\<lambda>v.
      qbind (expect_ok (amount_sub p NegativeAllowed (tr_balance t) v)) (\<lambda>balance.
      qbind (transaction_location u) (\<lambda>tx_location.
        let location = output_location_from_outpoint tx_location op in
        qbind (assert_that (map_of (tr_created t) location \<noteq> None)) (\<lambda>_.
        qbind (assert_that (outpoint_hash op \<in># tr_tx_ids t)) (\<lambda>_.
          Ok (t\<lparr>tr_balance := balance, tr_created := bt_remove location (tr_created t),
                tr_tx_ids := tr_tx_ids t - {#outpoint_hash op#}\<rparr>)))))))"

definition update_spent ::
  "profile \<Rightarrow> tx_input \<Rightarrow> bytes \<Rightarrow> ordered_utxo \<Rightarrow> transparent_transfers \<Rightarrow> (spend_error, transparent_transfers) outcome" where
  "update_spent p input spending_tx u t =
     qbind (expect_ok (constrain p NegativeAllowed (output_value (utxo_output (ordered_inner u))))) (\<lambda>v.
     qbind (expect_ok (amount_sub p NegativeAllowed (tr_balance t) v)) (\<lambda>balance.
     qbind (expect (input_outpoint input)) (\<lambda>op.
     qbind (transaction_location u) (\<lambda>tx_location.
       let location = output_location_from_outpoint tx_location op in
       qbind (assert_that (location \<notin> tr_spent t)) (\<lambda>_.
         Ok (t\<lparr>tr_balance := balance, tr_spent := insert location (tr_spent t),
               tr_tx_ids := add_mset spending_tx (tr_tx_ids t)\<rparr>))))))"

definition revert_spent ::
  "profile \<Rightarrow> tx_input \<Rightarrow> bytes \<Rightarrow> ordered_utxo \<Rightarrow> transparent_transfers \<Rightarrow> (spend_error, transparent_transfers) outcome" where
  "revert_spent p input spending_tx u t =
     qbind (expect_ok (constrain p NegativeAllowed (output_value (utxo_output (ordered_inner u))))) (\<lambda>v.
     qbind (expect_ok (amount_add p NegativeAllowed (tr_balance t) v)) (\<lambda>balance.
     qbind (expect (input_outpoint input)) (\<lambda>op.
     qbind (transaction_location u) (\<lambda>tx_location.
       let location = output_location_from_outpoint tx_location op in
       qbind (assert_that (location \<in> tr_spent t)) (\<lambda>_.
       qbind (assert_that (spending_tx \<in># tr_tx_ids t)) (\<lambda>_.
         Ok (t\<lparr>tr_balance := balance, tr_spent := tr_spent t - {location},
               tr_tx_ids := tr_tx_ids t - {#spending_tx#}\<rparr>)))))))"

definition received :: "transparent_transfers \<Rightarrow> int" where
  "received t = sum_list (map (\<lambda>(_, out). zatoshis (output_value out)) (tr_created t))"

section \<open>The index of all addresses\<close>

type_synonym address_index = "address \<rightharpoonup> transparent_transfers"

text \<open>
  \<^verbatim>\<open>entry(address).or_default()\<close> before an update; \<^verbatim>\<open>get_mut(address).expect(..)\<close> before a revert,
  which removes an entry that has become empty.
\<close>

definition index_update ::
  "(transparent_transfers \<Rightarrow> (spend_error, transparent_transfers) outcome) \<Rightarrow> address \<Rightarrow> address_index
    \<Rightarrow> (spend_error, address_index) outcome" where
  "index_update f a idx =
     map_ok (\<lambda>t. idx(a \<mapsto> t)) (f (case idx a of None \<Rightarrow> transfers_default | Some t \<Rightarrow> t))"

definition index_revert ::
  "(transparent_transfers \<Rightarrow> (spend_error, transparent_transfers) outcome) \<Rightarrow> address \<Rightarrow> address_index
    \<Rightarrow> (spend_error, address_index) outcome" where
  "index_revert f a idx =
     qbind (expect (idx a)) (\<lambda>t.
       map_ok (\<lambda>t'. if transfers_is_empty t' then idx(a := None) else idx(a \<mapsto> t')) (f t))"

section \<open>The specification\<close>

datatype transfer =
    Received (transfer_location: output_location) (transfer_output: tx_output) (transfer_tx: bytes)
  | Sent (transfer_location: output_location) (transfer_output: tx_output) (transfer_tx: bytes)

definition transfer_value :: "transfer \<Rightarrow> int" where
  "transfer_value e =
     (case e of
        Received _ out _ \<Rightarrow> zatoshis (output_value out)
      | Sent _ out _ \<Rightarrow> - zatoshis (output_value out))"

definition transfer_balance :: "transfer multiset \<Rightarrow> int" where
  "transfer_balance M = \<Sum>\<^sub># (image_mset transfer_value M)"

text \<open>Two transfers of the same kind never have the same location.\<close>

definition same_slot :: "transfer \<Rightarrow> transfer \<Rightarrow> bool" where
  "same_slot e f \<longleftrightarrow> transfer_location e = transfer_location f
     \<and> (case (e, f) of (Received _ _ _, Received _ _ _) \<Rightarrow> True | (Sent _ _ _, Sent _ _ _) \<Rightarrow> True | _ \<Rightarrow> False)"

definition slots_unique :: "transfer multiset \<Rightarrow> bool" where
  "slots_unique M \<longleftrightarrow> (\<forall>e \<in># M. \<forall>f \<in># M - {#e#}. \<not> same_slot e f)"

definition transfers_rep :: "transparent_transfers \<Rightarrow> transfer multiset \<Rightarrow> bool" where
  "transfers_rep t M \<longleftrightarrow>
     tr_balance t = Amount (transfer_balance M)
     \<and> tr_tx_ids t = image_mset transfer_tx M
     \<and> sorted_keys (tr_created t)
     \<and> (\<forall>l out. map_of (tr_created t) l = Some out \<longleftrightarrow> (\<exists>tx. Received l out tx \<in># M))
     \<and> tr_spent t = {l. \<exists>out tx. Sent l out tx \<in># M}
     \<and> slots_unique M"

definition transfers_at :: "address \<Rightarrow> (address \<times> transfer) multiset \<Rightarrow> transfer multiset" where
  "transfers_at a M = image_mset snd (filter_mset (\<lambda>x. fst x = a) M)"

definition index_rep :: "address_index \<Rightarrow> (address \<times> transfer) multiset \<Rightarrow> bool" where
  "index_rep idx M \<longleftrightarrow>
     (\<forall>a. case idx a of
            None \<Rightarrow> transfers_at a M = {#}
          | Some t \<Rightarrow> transfers_at a M \<noteq> {#} \<and> transfers_rep t (transfers_at a M))"

text \<open>
  The movements \<open>N\<close> of a block fit on top of \<open>M\<close> when no order of applying or reverting them can
  take a balance out of range.
\<close>

definition transfers_fit ::
  "profile \<Rightarrow> (address \<times> transfer) multiset \<Rightarrow> (address \<times> transfer) multiset \<Rightarrow> bool" where
  "transfers_fit p M N \<longleftrightarrow>
     (\<forall>a. \<bar>transfer_balance (transfers_at a M)\<bar>
        + \<Sum>\<^sub># (image_mset (\<lambda>e. \<bar>transfer_value e\<bar>) (transfers_at a N)) \<le> MAX_MONEY p)"

definition transfer_ok :: "profile \<Rightarrow> transfer \<Rightarrow> bool" where
  "transfer_ok p e \<longleftrightarrow> amount_ok p NonNegative (output_value (transfer_output e))"

text \<open>The transfer of a created output and of a spend, when the location fits in its type.\<close>

definition created_transfer :: "outpoint \<Rightarrow> ordered_utxo \<Rightarrow> transfer" where
  "created_transfer op u =
     Received ((utxo_height (ordered_inner u), tx_index_in_block u), outpoint_index op)
       (utxo_output (ordered_inner u)) (outpoint_hash op)"

definition spent_transfer :: "outpoint \<Rightarrow> bytes \<Rightarrow> ordered_utxo \<Rightarrow> transfer" where
  "spent_transfer op tx u =
     Sent ((utxo_height (ordered_inner u), tx_index_in_block u), outpoint_index op)
       (utxo_output (ordered_inner u)) tx"

lemma slots_unique_add: "slots_unique (add_mset e M) \<longleftrightarrow> slots_unique M \<and> (\<forall>f \<in># M. \<not> same_slot e f)"
proof -
  have sym: "same_slot e f \<longleftrightarrow> same_slot f e" for e f by (cases e; cases f) (auto simp: same_slot_def)
  show ?thesis
  proof
    assume L: "slots_unique (add_mset e M)"
    have "\<not> same_slot e f" if "f \<in># M" for f
      using L that by (auto simp: slots_unique_def)
    moreover have "\<not> same_slot f g" if "f \<in># M" "g \<in># M - {#f#}" for f g
    proof -
      have "g \<in># add_mset e M - {#f#}" using that by (cases "e = f") (auto dest: in_diffD)
      with L that show ?thesis by (auto simp: slots_unique_def)
    qed
    ultimately show "slots_unique M \<and> (\<forall>f \<in># M. \<not> same_slot e f)" by (auto simp: slots_unique_def)
  next
    assume R: "slots_unique M \<and> (\<forall>f \<in># M. \<not> same_slot e f)"
    have "\<not> same_slot f g" if "f \<in># add_mset e M" "g \<in># add_mset e M - {#f#}" for f g
    proof (cases "f = e")
      case True
      with R that show ?thesis by auto
    next
      case False
      with that have "f \<in># M" "g = e \<or> g \<in># M - {#f#}" by (auto simp: add_mset_diff_bothsides split: if_splits)
      with R sym show ?thesis by (auto simp: slots_unique_def)
    qed
    then show "slots_unique (add_mset e M)" by (auto simp: slots_unique_def)
  qed
qed

lemma transfers_rep_default: "transfers_rep transfers_default {#}"
  by (simp add: transfers_rep_def transfers_default_def transfer_balance_def slots_unique_def)

lemma option_eqI: "(\<And>x. a = Some x \<longleftrightarrow> b = Some x) \<Longrightarrow> a = b"
  by (cases a; cases b) auto

lemma transfers_repD:
  assumes "transfers_rep t M"
  shows "map_of (tr_created t) l = Some out \<longleftrightarrow> (\<exists>tx. Received l out tx \<in># M)"
    and "tr_balance t = Amount (transfer_balance M)" "tr_tx_ids t = image_mset transfer_tx M"
    and "sorted_keys (tr_created t)" "tr_spent t = {l. \<exists>out tx. Sent l out tx \<in># M}" "slots_unique M"
  using assms unfolding transfers_rep_def by blast+

lemma transfers_rep_empty:
  assumes "transfers_rep t M"
  shows "transfers_is_empty t \<longleftrightarrow> M = {#}"
proof
  assume "M = {#}"
  then have "map_of (tr_created t) l = None" for l
    using transfers_repD(1) [OF assms, of l] by (cases "map_of (tr_created t) l") auto
  then have "map_of (tr_created t) = Map.empty" by (rule ext)
  then have "tr_created t = []" by simp
  with \<open>M = {#}\<close> show "transfers_is_empty t"
    using transfers_repD(2,3,5) [OF assms] by (simp add: transfers_is_empty_def transfer_balance_def)
qed (use transfers_repD(3) [OF assms] in \<open>simp add: transfers_is_empty_def\<close>)

lemma transfers_rep_unique:
  assumes "transfers_rep t M" "transfers_rep t' M"
  shows "t = t'"
proof -
  have "map_of (tr_created t) l = map_of (tr_created t') l" for l
    by (rule option_eqI) (simp only: transfers_repD(1) [OF assms(1)] transfers_repD(1) [OF assms(2)])
  then have "tr_created t = tr_created t'"
    using transfers_repD(4) [OF assms(1)] transfers_repD(4) [OF assms(2)] by (intro bt_eqI) auto
  moreover note transfers_repD(2,3,5) [OF assms(1)] transfers_repD(2,3,5) [OF assms(2)]
  ultimately show ?thesis by simp
qed

lemma index_rep_unique: "index_rep idx M \<Longrightarrow> index_rep idx' M \<Longrightarrow> idx = idx'"
proof
  fix a
  assume "index_rep idx M" "index_rep idx' M"
  then have "case idx a of None \<Rightarrow> transfers_at a M = {#} | Some t \<Rightarrow> transfers_at a M \<noteq> {#} \<and> transfers_rep t (transfers_at a M)"
    "case idx' a of None \<Rightarrow> transfers_at a M = {#} | Some t \<Rightarrow> transfers_at a M \<noteq> {#} \<and> transfers_rep t (transfers_at a M)"
    by (simp_all add: index_rep_def)
  then show "idx a = idx' a" by (auto split: option.splits dest: transfers_rep_unique)
qed

lemma index_rep_empty: "index_rep Map.empty {#}"
  by (simp add: index_rep_def transfers_at_def)

section \<open>One transfer\<close>

lemma amount_add_OkD: "amount_add p C a b = Ok c \<Longrightarrow> c = Amount (zatoshis a + zatoshis b)"
  by (auto simp: amount_add_def checked_i64_def try_from_i64_eq split: if_splits)

lemma amount_sub_OkD: "amount_sub p C a b = Ok c \<Longrightarrow> c = Amount (zatoshis a - zatoshis b)"
  by (auto simp: amount_sub_def checked_i64_def try_from_i64_eq split: if_splits)

lemma amount_add_OkI: "amount_ok p C (Amount (zatoshis a + zatoshis b)) \<Longrightarrow> amount_add p C a b = Ok (Amount (zatoshis a + zatoshis b))"
  using in_i64_if_ok [of p C "Amount (zatoshis a + zatoshis b)"] by (simp add: amount_add_def checked_i64_def try_from_i64_eq)

lemma amount_sub_OkI: "amount_ok p C (Amount (zatoshis a - zatoshis b)) \<Longrightarrow> amount_sub p C a b = Ok (Amount (zatoshis a - zatoshis b))"
  using in_i64_if_ok [of p C "Amount (zatoshis a - zatoshis b)"] by (simp add: amount_sub_def checked_i64_def try_from_i64_eq)

lemma transaction_location_Ok: "transaction_location u = Ok l \<longleftrightarrow>
    tx_index_in_block u \<le> u16_max \<and> l = (utxo_height (ordered_inner u), tx_index_in_block u)"
  by (auto simp: transaction_location_def transaction_location_from_usize_def)

lemma transfer_balance_add [simp]: "transfer_balance (add_mset e M) = transfer_value e + transfer_balance M"
  by (simp add: transfer_balance_def)

lemma rep_add_created:
  assumes rep: "transfers_rep t M" and fresh: "map_of (tr_created t) l = None"
    and b: "b = Amount (transfer_balance M + zatoshis (output_value out))"
  shows "transfers_rep (t\<lparr>tr_balance := b, tr_created := bt_insert l out (tr_created t), tr_tx_ids := add_mset tx (tr_tx_ids t)\<rparr>)
    (add_mset (Received l out tx) M)"
proof -
  note r = transfers_repD [OF rep]
  have nr: "Received l out' tx' \<notin># M" for out' tx' using r(1) [of l out'] fresh by auto
  have created: "map_of (bt_insert l out (tr_created t)) l' = Some out' \<longleftrightarrow> (\<exists>tx'. Received l' out' tx' \<in># add_mset (Received l out tx) M)" for l' out'
  proof (cases "l' = l")
    case True
    then show ?thesis using nr by (auto simp: bt_get_insert [OF r(4)])
  next
    case False
    then show ?thesis by (simp add: bt_get_insert [OF r(4)] r(1))
  qed
  have "\<not> same_slot (Received l out tx) f" if "f \<in># M" for f using that nr by (cases f) (auto simp: same_slot_def)
  then have "slots_unique (add_mset (Received l out tx) M)" using r(6) by (simp add: slots_unique_add)
  with created r(2,3,5) show ?thesis
    unfolding transfers_rep_def by (simp add: sorted_keys_insert [OF r(4)] b transfer_value_def)
qed

lemma rep_add_spent:
  assumes rep: "transfers_rep t M" and fresh: "l \<notin> tr_spent t"
    and b: "b = Amount (transfer_balance M - zatoshis (output_value out))"
  shows "transfers_rep (t\<lparr>tr_balance := b, tr_spent := insert l (tr_spent t), tr_tx_ids := add_mset tx (tr_tx_ids t)\<rparr>)
    (add_mset (Sent l out tx) M)"
proof -
  note r = transfers_repD [OF rep]
  have "\<not> same_slot (Sent l out tx) f" if "f \<in># M" for f using that fresh r(5) by (cases f) (auto simp: same_slot_def)
  then have "slots_unique (add_mset (Sent l out tx) M)" using r(6) by (simp add: slots_unique_add)
  moreover have "insert l (tr_spent t) = {l'. \<exists>out' tx'. Sent l' out' tx' \<in># add_mset (Sent l out tx) M}"
    using r(5) by auto
  ultimately show ?thesis
    using r(1-4) unfolding transfers_rep_def by (simp add: b transfer_value_def)
qed

lemma rep_remove_created:
  assumes rep: "transfers_rep t (add_mset (Received l out tx) M)" and b: "b = Amount (transfer_balance M)"
  shows "transfers_rep (t\<lparr>tr_balance := b, tr_created := bt_remove l (tr_created t), tr_tx_ids := tr_tx_ids t - {#tx#}\<rparr>) M"
proof -
  note r = transfers_repD [OF rep]
  have u: "slots_unique M" "\<And>f. f \<in># M \<Longrightarrow> \<not> same_slot (Received l out tx) f"
    using r(6) by (auto simp: slots_unique_add)
  have nr: "Received l out' tx' \<notin># M" for out' tx' using u(2) [of "Received l out' tx'"] by (auto simp: same_slot_def)
  have created: "map_of (bt_remove l (tr_created t)) l' = Some out' \<longleftrightarrow> (\<exists>tx'. Received l' out' tx' \<in># M)" for l' out'
    using nr by (cases "l' = l") (simp_all add: bt_get_remove r(1))
  with u(1) r(3,5) show ?thesis
    unfolding transfers_rep_def by (simp add: sorted_keys_remove [OF r(4)] b)
qed

lemma rep_remove_spent:
  assumes rep: "transfers_rep t (add_mset (Sent l out tx) M)" and b: "b = Amount (transfer_balance M)"
  shows "transfers_rep (t\<lparr>tr_balance := b, tr_spent := tr_spent t - {l}, tr_tx_ids := tr_tx_ids t - {#tx#}\<rparr>) M"
proof -
  note r = transfers_repD [OF rep]
  have u: "slots_unique M" "\<And>f. f \<in># M \<Longrightarrow> \<not> same_slot (Sent l out tx) f"
    using r(6) by (auto simp: slots_unique_add)
  have ns: "Sent l out' tx' \<notin># M" for out' tx' using u(2) [of "Sent l out' tx'"] by (auto simp: same_slot_def)
  have "tr_spent t - {l} = {l'. \<exists>out' tx'. Sent l' out' tx' \<in># M}"
    using r(5) ns by auto
  with u(1) r(1,3,4) show ?thesis
    unfolding transfers_rep_def by (simp add: b)
qed

lemma update_created_rep:
  assumes "transfers_rep t M" "update_created p op u t = Ok t'"
  shows "transfers_rep t' (add_mset (created_transfer op u) M)"
  using assms transfers_repD(2) [OF assms(1)] unfolding created_transfer_def
  by (auto simp: update_created_def Let_def transaction_location_Ok output_location_from_outpoint_def
      dest!: amount_add_OkD intro!: rep_add_created)

lemma update_spent_rep:
  assumes "transfers_rep t M" "update_spent p (PrevOut op script sq) tx u t = Ok t'"
  shows "transfers_rep t' (add_mset (spent_transfer op tx u) M)"
  using assms transfers_repD(2) [OF assms(1)] unfolding spent_transfer_def
  by (auto simp: update_spent_def Let_def transaction_location_Ok output_location_from_outpoint_def
      dest!: amount_sub_OkD intro!: rep_add_spent)

lemma revert_created_rep:
  assumes rep: "transfers_rep t (add_mset (created_transfer op u) M)" and i: "tx_index_in_block u \<le> u16_max"
    and v: "amount_ok p NonNegative (output_value (utxo_output (ordered_inner u)))"
    and b: "\<bar>transfer_balance M\<bar> \<le> MAX_MONEY p"
  shows "\<exists>t'. revert_created p op u t = Ok t' \<and> transfers_rep t' M"
proof -
  define l where "l = ((utxo_height (ordered_inner u), tx_index_in_block u), outpoint_index op)"
  define out where "out = utxo_output (ordered_inner u)"
  have e: "created_transfer op u = Received l out (outpoint_hash op)" by (simp add: created_transfer_def l_def out_def)
  note r = transfers_repD [OF rep [unfolded e]]
  have "amount_sub p NegativeAllowed (tr_balance t) (output_value out) = Ok (Amount (transfer_balance M))"
    using amount_sub_OkI [of p NegativeAllowed "tr_balance t" "output_value out"] r(2) b by (simp add: transfer_value_def abs_le_iff)
  moreover have "map_of (tr_created t) l \<noteq> None" using r(1) [of l out] by auto
  moreover have "outpoint_hash op \<in># tr_tx_ids t" using r(3) by simp
  moreover have "constrain p NegativeAllowed (output_value out) = Ok (output_value out)" using v MAX_MONEY_pos [of p] by (simp add: out_def)
  ultimately have "revert_created p op u t = Ok (t\<lparr>tr_balance := Amount (transfer_balance M), tr_created := bt_remove l (tr_created t),
      tr_tx_ids := tr_tx_ids t - {#outpoint_hash op#}\<rparr>)"
    using i by (simp add: revert_created_def Let_def transaction_location_Ok output_location_from_outpoint_def l_def [symmetric] out_def [symmetric])
  with rep_remove_created [OF rep [unfolded e] refl] show ?thesis by blast
qed

lemma revert_spent_rep:
  assumes rep: "transfers_rep t (add_mset (spent_transfer op tx u) M)" and i: "tx_index_in_block u \<le> u16_max"
    and v: "amount_ok p NonNegative (output_value (utxo_output (ordered_inner u)))"
    and b: "\<bar>transfer_balance M\<bar> \<le> MAX_MONEY p"
  shows "\<exists>t'. revert_spent p (PrevOut op script sq) tx u t = Ok t' \<and> transfers_rep t' M"
proof -
  define l where "l = ((utxo_height (ordered_inner u), tx_index_in_block u), outpoint_index op)"
  define out where "out = utxo_output (ordered_inner u)"
  have e: "spent_transfer op tx u = Sent l out tx" by (simp add: spent_transfer_def l_def out_def)
  note r = transfers_repD [OF rep [unfolded e]]
  have "amount_add p NegativeAllowed (tr_balance t) (output_value out) = Ok (Amount (transfer_balance M))"
    using amount_add_OkI [of p NegativeAllowed "tr_balance t" "output_value out"] r(2) b by (simp add: transfer_value_def abs_le_iff)
  moreover have "l \<in> tr_spent t" using r(5) by auto
  moreover have "tx \<in># tr_tx_ids t" using r(3) by simp
  moreover have "constrain p NegativeAllowed (output_value out) = Ok (output_value out)" using v MAX_MONEY_pos [of p] by (simp add: out_def)
  ultimately have "revert_spent p (PrevOut op script sq) tx u t = Ok (t\<lparr>tr_balance := Amount (transfer_balance M),
      tr_spent := tr_spent t - {l}, tr_tx_ids := tr_tx_ids t - {#tx#}\<rparr>)"
    using i by (simp add: revert_spent_def Let_def transaction_location_Ok output_location_from_outpoint_def l_def [symmetric] out_def [symmetric])
  with rep_remove_spent [OF rep [unfolded e] refl] show ?thesis by blast
qed

section \<open>The index under the moves of a block\<close>

text \<open>
  What the chain does to the index for one created output or one spend, whatever the rest of the
  chain state: \<open>move_update\<close> and \<open>move_revert\<close>.
\<close>

datatype move = Create_move outpoint ordered_utxo | Spend_move tx_input bytes ordered_utxo

fun move_update :: "profile \<Rightarrow> move \<Rightarrow> transparent_transfers \<Rightarrow> (spend_error, transparent_transfers) outcome" where
  "move_update p (Create_move op u) t = update_created p op u t"
| "move_update p (Spend_move input tx u) t = update_spent p input tx u t"

fun move_revert :: "profile \<Rightarrow> move \<Rightarrow> transparent_transfers \<Rightarrow> (spend_error, transparent_transfers) outcome" where
  "move_revert p (Create_move op u) t = revert_created p op u t"
| "move_revert p (Spend_move input tx u) t = revert_spent p input tx u t"

fun move_utxo :: "move \<Rightarrow> ordered_utxo" where
  "move_utxo (Create_move op u) = u"
| "move_utxo (Spend_move input tx u) = u"

fun move_transfer :: "move \<Rightarrow> transfer" where
  "move_transfer (Create_move op u) = created_transfer op u"
| "move_transfer (Spend_move input tx u) = spent_transfer (the (input_outpoint input)) tx u"

definition move_output :: "move \<Rightarrow> tx_output" where
  "move_output mv = utxo_output (ordered_inner (move_utxo mv))"

definition index_apply :: "profile \<Rightarrow> (tx_output \<Rightarrow> address option) \<Rightarrow> address_index \<Rightarrow> move \<Rightarrow> (spend_error, address_index) outcome" where
  "index_apply p addr idx mv =
     (case addr (move_output mv) of None \<Rightarrow> Ok idx | Some a \<Rightarrow> index_update (move_update p mv) a idx)"

definition index_undo :: "profile \<Rightarrow> (tx_output \<Rightarrow> address option) \<Rightarrow> address_index \<Rightarrow> move \<Rightarrow> (spend_error, address_index) outcome" where
  "index_undo p addr idx mv =
     (case addr (move_output mv) of None \<Rightarrow> Ok idx | Some a \<Rightarrow> index_revert (move_revert p mv) a idx)"

definition move_ok :: "profile \<Rightarrow> move \<Rightarrow> bool" where
  "move_ok p mv \<longleftrightarrow> tx_index_in_block (move_utxo mv) \<le> u16_max
     \<and> amount_ok p NonNegative (output_value (move_output mv))
     \<and> (case mv of Spend_move input _ _ \<Rightarrow> input_outpoint input \<noteq> None | _ \<Rightarrow> True)"

definition addressed :: "(tx_output \<Rightarrow> address option) \<Rightarrow> move multiset \<Rightarrow> (address \<times> transfer) multiset" where
  "addressed addr M =
     image_mset (\<lambda>mv. (the (addr (move_output mv)), move_transfer mv))
       (filter_mset (\<lambda>mv. addr (move_output mv) \<noteq> None) M)"

lemma addressed_simps [simp]:
  "addressed addr {#} = {#}"
  "addressed addr (add_mset mv M) =
     (case addr (move_output mv) of None \<Rightarrow> addressed addr M | Some a \<Rightarrow> add_mset (a, move_transfer mv) (addressed addr M))"
  "addressed addr (M + N) = addressed addr M + addressed addr N"
  by (simp_all add: addressed_def split: option.splits)

lemma transfers_at_add [simp]:
  "transfers_at a {#} = {#}"
  "transfers_at a (add_mset (b, e) M) = (if a = b then add_mset e (transfers_at a M) else transfers_at a M)"
  "transfers_at a (M + N) = transfers_at a M + transfers_at a N"
  by (auto simp: transfers_at_def)

lemma move_update_rep:
  assumes "transfers_rep t M" "move_update p mv t = Ok t'"
  shows "transfers_rep t' (add_mset (move_transfer mv) M)"
proof (cases mv)
  case (Create_move op u)
  with assms update_created_rep show ?thesis by auto
next
  case (Spend_move input tx u)
  with assms(2) obtain op script sq where "input = PrevOut op script sq"
    by (cases input) (auto simp: update_spent_def)
  with Spend_move assms update_spent_rep show ?thesis by auto
qed

lemma move_revert_rep:
  assumes "transfers_rep t (add_mset (move_transfer mv) M)" "move_ok p mv" "\<bar>transfer_balance M\<bar> \<le> MAX_MONEY p"
  shows "\<exists>t'. move_revert p mv t = Ok t' \<and> transfers_rep t' M"
proof (cases mv)
  case (Create_move op u)
  with assms show ?thesis by (auto simp: move_ok_def move_output_def intro!: revert_created_rep)
next
  case (Spend_move input tx u)
  with assms(2) obtain op script sq where "input = PrevOut op script sq"
    by (cases input) (auto simp: move_ok_def)
  with Spend_move assms show ?thesis by (auto simp: move_ok_def move_output_def intro!: revert_spent_rep)
qed

lemma index_repD:
  assumes "index_rep idx M"
  shows "idx a = None \<Longrightarrow> transfers_at a M = {#}"
    and "idx a = Some t \<Longrightarrow> transfers_at a M \<noteq> {#} \<and> transfers_rep t (transfers_at a M)"
  using assms [unfolded index_rep_def, rule_format, of a] by (auto split: option.splits)

lemma index_apply_rep:
  assumes rep: "index_rep idx (addressed addr M)" and ok: "index_apply p addr idx mv = Ok idx'"
  shows "index_rep idx' (addressed addr (add_mset mv M))"
proof (cases "addr (move_output mv)")
  case None
  with rep ok show ?thesis by (simp add: index_apply_def)
next
  case (Some a)
  let ?N = "addressed addr M" and ?N' = "addressed addr (add_mset mv M)"
  define t where "t = (case idx a of None \<Rightarrow> transfers_default | Some t \<Rightarrow> t)"
  have t: "transfers_rep t (transfers_at a ?N)"
    using index_repD [OF rep, of a] transfers_rep_default by (cases "idx a") (simp_all add: t_def)
  from ok Some obtain t' where t': "move_update p mv t = Ok t'" and idx': "idx' = idx(a \<mapsto> t')"
    by (auto simp: index_apply_def index_update_def t_def)
  note new = move_update_rep [OF t t']
  show ?thesis unfolding index_rep_def
  proof
    fix b
    show "case idx' b of None \<Rightarrow> transfers_at b ?N' = {#}
        | Some t \<Rightarrow> transfers_at b ?N' \<noteq> {#} \<and> transfers_rep t (transfers_at b ?N')"
      using new index_repD [OF rep, of b] Some by (cases "b = a") (auto simp: idx' split: option.splits)
  qed
qed

definition move_revertible :: "profile \<Rightarrow> (tx_output \<Rightarrow> address option) \<Rightarrow> move multiset \<Rightarrow> move \<Rightarrow> bool" where
  "move_revertible p addr M mv \<longleftrightarrow> move_ok p mv
     \<and> (\<forall>a. \<bar>transfer_balance (transfers_at a (addressed addr M))\<bar> \<le> MAX_MONEY p)"

lemma index_undo_rep:
  assumes rep: "index_rep idx (addressed addr (add_mset mv M))" and ok: "move_revertible p addr M mv"
  shows "\<exists>idx'. index_undo p addr idx mv = Ok idx' \<and> index_rep idx' (addressed addr M)"
proof (cases "addr (move_output mv)")
  case None
  with rep show ?thesis by (simp add: index_undo_def)
next
  case (Some a)
  let ?N = "addressed addr M"
  from Some index_repD [OF rep, of a] obtain t where ia: "idx a = Some t"
    and t: "transfers_rep t (add_mset (move_transfer mv) (transfers_at a ?N))"
    by (cases "idx a") auto
  from ok have "move_ok p mv" "\<bar>transfer_balance (transfers_at a ?N)\<bar> \<le> MAX_MONEY p"
    by (simp_all add: move_revertible_def)
  from move_revert_rep [OF t this] obtain t' where t': "move_revert p mv t = Ok t'" "transfers_rep t' (transfers_at a ?N)"
    by blast
  define idx' where "idx' = (if transfers_is_empty t' then idx(a := None) else idx(a \<mapsto> t'))"
  have "index_rep idx' ?N" unfolding index_rep_def
  proof
    fix b
    show "case idx' b of None \<Rightarrow> transfers_at b ?N = {#} | Some t \<Rightarrow> transfers_at b ?N \<noteq> {#} \<and> transfers_rep t (transfers_at b ?N)"
      using t'(2) transfers_rep_empty [OF t'(2)] index_repD [OF rep, of b] Some
      by (cases "b = a") (auto simp: idx'_def split: option.splits)
  qed
  moreover have "index_undo p addr idx mv = Ok idx'"
    using Some ia t'(1) by (simp add: index_undo_def index_revert_def idx'_def)
  ultimately show ?thesis by blast
qed

interpretation addresses: reversible "\<lambda>idx M. index_rep idx (addressed addr M)" "index_apply p addr"
    "index_undo p addr" "move_revertible p addr" for p addr
  by unfold_locales (simp_all only: index_apply_rep index_undo_rep index_rep_unique)

lemma abs_transfer_balance: "\<bar>transfer_balance N\<bar> \<le> \<Sum>\<^sub># (image_mset (\<lambda>e. \<bar>transfer_value e\<bar>) N)"
proof (induction N)
  case (add e N)
  then show ?case by simp
qed (simp add: transfer_balance_def)

lemma transfer_balance_union: "transfer_balance (M + N) = transfer_balance M + transfer_balance N"
  by (simp add: transfer_balance_def)

lemma transfers_fit_rest:
  assumes "transfers_fit p (addressed addr M) (addressed addr (add_mset mv N))"
  shows "transfers_fit p (addressed addr M) (addressed addr N)"
    and "\<bar>transfer_balance (transfers_at a (addressed addr (M + N)))\<bar> \<le> MAX_MONEY p"
proof -
  define tot where "tot b N = \<Sum>\<^sub># (image_mset (\<lambda>e. \<bar>transfer_value e\<bar>) (transfers_at b (addressed addr N)))" for b N
  have le: "tot b N \<le> tot b (add_mset mv N)" for b by (simp add: tot_def split: option.splits)
  have fit: "\<bar>transfer_balance (transfers_at b (addressed addr M))\<bar> + tot b (add_mset mv N) \<le> MAX_MONEY p" for b
    using assms unfolding transfers_fit_def tot_def by blast
  show "transfers_fit p (addressed addr M) (addressed addr N)"
    unfolding transfers_fit_def tot_def [symmetric] using fit le by (meson add_left_mono order_trans)
  have "\<bar>transfer_balance (transfers_at a (addressed addr M) + transfers_at a (addressed addr N))\<bar>
      \<le> \<bar>transfer_balance (transfers_at a (addressed addr M))\<bar> + tot a N"
    using abs_transfer_balance [of "transfers_at a (addressed addr N)"]
    by (simp add: transfer_balance_union tot_def)
  with fit [of a] le [of a] show "\<bar>transfer_balance (transfers_at a (addressed addr (M + N)))\<bar> \<le> MAX_MONEY p" by simp
qed

lemma moves_revertible:
  "list_all (move_ok p) mvs \<Longrightarrow> transfers_fit p (addressed addr M) (addressed addr (mset mvs)) \<Longrightarrow>
    addresses.revertible_all p addr M mvs"
proof (induction mvs)
  case (Cons mv mvs)
  have "move_revertible p addr (M + mset mvs) mv"
    using Cons.prems transfers_fit_rest(2) [of p addr M mv "mset mvs"] by (simp add: move_revertible_def)
  moreover have "transfers_fit p (addressed addr M) (addressed addr (mset mvs))"
    using Cons.prems(2) transfers_fit_rest(1) [of p addr M mv "mset mvs"] by simp
  ultimately show ?case using Cons by simp
qed simp

section \<open>Properties\<close>

text \<open>
  C18. Reverting a block leaves the address index exactly as it was: if an index holds the moves \<open>M\<close>
  and the moves of a block were applied to it, reverting the same moves in the same order never
  panics and gives back the very index, as long as the values moved fit on top of the balances.
\<close>

theorem address_index_revert_exact:
  assumes "index_rep idx (addressed addr M)" "list_all (move_ok p) mvs"
    and "transfers_fit p (addressed addr M) (addressed addr (mset mvs))"
    and "try_fold (index_apply p addr) idx mvs = Ok idx'"
  shows "try_fold (index_undo p addr) idx' mvs = Ok idx"
  using addresses.roundtrip [OF assms(1,4) moves_revertible [OF assms(2,3)]] .

text \<open>A large holder: eight million coins, then twice that sent and received again in one block.\<close>

definition holder :: address where
  "holder = PayToPublicKeyHash Mainnet_kind (replicate 20 1)"

definition holding :: "nat \<Rightarrow> height \<Rightarrow> nat \<Rightarrow> ordered_utxo" where
  "holding coins h i = \<lparr>ordered_inner = \<lparr>utxo_output = \<lparr>output_value = Amount (int coins * COIN), lock_script = []\<rparr>,
     utxo_height = h, from_coinbase = False\<rparr>, tx_index_in_block = i\<rparr>"

definition earlier_move :: move where
  "earlier_move = Create_move (OutPoint [1] 0) (holding 8000000 5 1)"

definition block_moves :: "nat \<Rightarrow> move list" where
  "block_moves coins = [Spend_move (PrevOut (OutPoint [2] 0) [] 0) [3] (holding coins 4 1),
     Create_move (OutPoint [4] 0) (holding coins 6 2)]"

lemmas index_eval = index_apply_def index_update_def index_undo_def index_revert_def update_created_def
  update_spent_def revert_created_def revert_spent_def transaction_location_def transaction_location_from_usize_def
  output_location_from_outpoint_def transfers_default_def transfers_is_empty_def move_output_def holding_def
  earlier_move_def block_moves_def amount_add_def amount_sub_def checked_i64_def in_i64_def i64_min_def
  try_from_i64_eq u16_max_def assert_that_def constrain_eq money_defs

theorem address_index_revert_exact_witness:
  "\<exists>idx idx'. index_rep idx (addressed (\<lambda>_. Some holder) {#earlier_move#})
    \<and> try_fold (index_apply Zcash_profile (\<lambda>_. Some holder)) idx (block_moves 1000000) = Ok idx'
    \<and> try_fold (index_undo Zcash_profile (\<lambda>_. Some holder)) idx' (block_moves 1000000) = Ok idx"
proof -
  have "\<exists>idx. try_fold (index_apply Zcash_profile (\<lambda>_. Some holder)) Map.empty [earlier_move] = Ok idx
      \<and> (\<exists>idx'. try_fold (index_apply Zcash_profile (\<lambda>_. Some holder)) idx (block_moves 1000000) = Ok idx')"
    by (simp add: index_eval)
  then obtain idx idx' where s: "try_fold (index_apply Zcash_profile (\<lambda>_. Some holder)) Map.empty [earlier_move] = Ok idx"
    "try_fold (index_apply Zcash_profile (\<lambda>_. Some holder)) idx (block_moves 1000000) = Ok idx'" by blast
  have rep: "index_rep idx (addressed (\<lambda>_. Some holder) {#earlier_move#})"
    using addresses.update_all [OF _ s(1), of "{#}"] index_rep_empty by simp
  have ok: "list_all (move_ok Zcash_profile) (block_moves 1000000)"
    by (simp add: block_moves_def move_ok_def move_output_def holding_def u16_max_def money_defs)
  have fit: "transfers_fit Zcash_profile (addressed (\<lambda>_. Some holder) {#earlier_move#})
      (addressed (\<lambda>_. Some holder) (mset (block_moves 1000000)))"
    by (simp add: transfers_fit_def block_moves_def earlier_move_def holding_def created_transfer_def
        spent_transfer_def transfer_value_def transfer_balance_def money_defs)
  from address_index_revert_exact [OF rep ok fit s(2)] rep s(2) show ?thesis by blast
qed

end
