(* ===== verification/Chain_Tx.thy ===== *)
theory Chain_Tx
  imports Address_Index
begin

text \<open>
  What the transactions of a block do to a non-finalized chain, from
  \<^verbatim>\<open>zebra-state/src/service/non_finalized_state/chain.rs\<close>: the index of transaction locations, the
  created and spent transparent outputs, the nullifier sets and the address index, with the
  \<^verbatim>\<open>UpdateWith\<close> implementations for the outputs and for the inputs of a transaction and the bodies of
  the two loops over the transactions of a block.

  \<open>tx_indexes\<close> groups those fields of \<^verbatim>\<open>ChainInner\<close>.  Its specification is the list of the items that
  the blocks of the chain put into each index (\<open>tx_items\<close>); \<open>tx_rep\<close> relates the two.  Each index is an
  instance of the locale \<open>reversible\<close>.
\<close>

section \<open>The indexes\<close>

record tx_indexes =
  tx_loc_by_hash :: "bytes \<rightharpoonup> transaction_location"
  created_utxos :: "outpoint \<rightharpoonup> ordered_utxo"
  spent_utxos :: "outpoint \<rightharpoonup> bytes"
  nullifiers :: nullifier_sets
  partial_transparent_transfers :: address_index

definition nullifier_sets_default :: nullifier_sets where
  "nullifier_sets_default = \<lparr>sprout_index = Map.empty, sapling_index = Map.empty, orchard_index = Map.empty,
     ironwood_index = Map.empty\<rparr>"

definition tx_indexes_default :: tx_indexes where
  "tx_indexes_default = \<lparr>tx_loc_by_hash = Map.empty, created_utxos = Map.empty, spent_utxos = Map.empty,
     nullifiers = nullifier_sets_default, partial_transparent_transfers = Map.empty\<rparr>"

text \<open>The outputs in the unspent set of the chain.\<close>

definition unspent_utxos :: "tx_indexes \<Rightarrow> outpoint \<rightharpoonup> ordered_utxo" where
  "unspent_utxos s op = (if spent_utxos s op = None then created_utxos s op else None)"

section \<open>Outputs and inputs of a transaction\<close>

type_synonym addressing = "tx_output \<Rightarrow> address option"

fun update_with_outputs ::
  "profile \<Rightarrow> addressing \<Rightarrow> bytes \<Rightarrow> (outpoint \<rightharpoonup> ordered_utxo) \<Rightarrow> nat list \<Rightarrow> tx_indexes
    \<Rightarrow> (spend_error, tx_indexes) outcome" where
  "update_with_outputs p addr hash block_created [] s = Ok s"
| "update_with_outputs p addr hash block_created (i # is) s =
     qbind (outpoint_from_usize hash i) (\<lambda>op.
     qbind (expect (block_created op)) (\<lambda>created_utxo.
     qbind (map_insert_unique (created_utxos s) (op, created_utxo)) (\<lambda>created.
     qbind (case addr (utxo_output (ordered_inner created_utxo)) of
              None \<Rightarrow> Ok (partial_transparent_transfers s)
            | Some receiving_address \<Rightarrow>
                index_update (update_created p op created_utxo) receiving_address (partial_transparent_transfers s)) (\<lambda>transfers.
       update_with_outputs p addr hash block_created is
         (s\<lparr>created_utxos := created, partial_transparent_transfers := transfers\<rparr>)))))"

fun revert_with_outputs ::
  "profile \<Rightarrow> addressing \<Rightarrow> bytes \<Rightarrow> (outpoint \<rightharpoonup> ordered_utxo) \<Rightarrow> nat list \<Rightarrow> tx_indexes
    \<Rightarrow> (spend_error, tx_indexes) outcome" where
  "revert_with_outputs p addr hash block_created [] s = Ok s"
| "revert_with_outputs p addr hash block_created (i # is) s =
     qbind (outpoint_from_usize hash i) (\<lambda>op.
     qbind (expect (block_created op)) (\<lambda>created_utxo.
     qbind (map_remove_present (created_utxos s) (op, created_utxo)) (\<lambda>created.
     qbind (case addr (utxo_output (ordered_inner created_utxo)) of
              None \<Rightarrow> Ok (partial_transparent_transfers s)
            | Some receiving_address \<Rightarrow>
                index_revert (revert_created p op created_utxo) receiving_address (partial_transparent_transfers s)) (\<lambda>transfers.
       revert_with_outputs p addr hash block_created is
         (s\<lparr>created_utxos := created, partial_transparent_transfers := transfers\<rparr>)))))"

fun update_with_inputs ::
  "profile \<Rightarrow> addressing \<Rightarrow> bytes \<Rightarrow> (outpoint \<rightharpoonup> ordered_utxo) \<Rightarrow> tx_input list \<Rightarrow> tx_indexes
    \<Rightarrow> (spend_error, tx_indexes) outcome" where
  "update_with_inputs p addr hash block_spent [] s = Ok s"
| "update_with_inputs p addr hash block_spent (input # ins) s =
     (case input_outpoint input of
        None \<Rightarrow> update_with_inputs p addr hash block_spent ins s
      | Some op \<Rightarrow>
          qbind (map_insert_unique (spent_utxos s) (op, hash)) (\<lambda>spent.
          qbind (expect (block_spent op)) (\<lambda>spent_output.
          qbind (case addr (utxo_output (ordered_inner spent_output)) of
                   None \<Rightarrow> Ok (partial_transparent_transfers s)
                 | Some spending_address \<Rightarrow>
                     index_update (update_spent p input hash spent_output) spending_address (partial_transparent_transfers s)) (\<lambda>transfers.
            update_with_inputs p addr hash block_spent ins
              (s\<lparr>spent_utxos := spent, partial_transparent_transfers := transfers\<rparr>)))))"

fun revert_with_inputs ::
  "profile \<Rightarrow> addressing \<Rightarrow> bytes \<Rightarrow> (outpoint \<rightharpoonup> ordered_utxo) \<Rightarrow> tx_input list \<Rightarrow> tx_indexes
    \<Rightarrow> (spend_error, tx_indexes) outcome" where
  "revert_with_inputs p addr hash block_spent [] s = Ok s"
| "revert_with_inputs p addr hash block_spent (input # ins) s =
     (case input_outpoint input of
        None \<Rightarrow> revert_with_inputs p addr hash block_spent ins s
      | Some op \<Rightarrow>
          qbind (map_remove_present (spent_utxos s) (op, hash)) (\<lambda>spent.
          qbind (expect (block_spent op)) (\<lambda>spent_output.
          qbind (case addr (utxo_output (ordered_inner spent_output)) of
                   None \<Rightarrow> Ok (partial_transparent_transfers s)
                 | Some receiving_address \<Rightarrow>
                     index_revert (revert_spent p input hash spent_output) receiving_address (partial_transparent_transfers s)) (\<lambda>transfers.
            revert_with_inputs p addr hash block_spent ins
              (s\<lparr>spent_utxos := spent, partial_transparent_transfers := transfers\<rparr>)))))"

section \<open>One transaction\<close>

definition update_nullifiers :: "transaction \<Rightarrow> bytes \<Rightarrow> nullifier_sets \<Rightarrow> (spend_error, nullifier_sets) outcome" where
  "update_nullifiers tx hash ns =
     qbind (add_to_non_finalized_chain_unique DuplicateSproutNullifier (sprout_index ns) (sprout_nullifiers tx) hash) (\<lambda>a.
     qbind (add_to_non_finalized_chain_unique DuplicateSaplingNullifier (sapling_index ns) (sapling_nullifiers tx) hash) (\<lambda>b.
     qbind (add_to_non_finalized_chain_unique DuplicateOrchardNullifier (orchard_index ns) (orchard_nullifiers tx) hash) (\<lambda>c.
     qbind (add_to_non_finalized_chain_unique DuplicateIronwoodNullifier (ironwood_index ns) (ironwood_nullifiers tx) hash) (\<lambda>d.
       Ok \<lparr>sprout_index = a, sapling_index = b, orchard_index = c, ironwood_index = d\<rparr>))))"

definition remove_nullifiers :: "transaction \<Rightarrow> nullifier_sets \<Rightarrow> (spend_error, nullifier_sets) outcome" where
  "remove_nullifiers tx ns =
     qbind (remove_from_non_finalized_chain (sprout_index ns) (sprout_nullifiers tx)) (\<lambda>a.
     qbind (remove_from_non_finalized_chain (sapling_index ns) (sapling_nullifiers tx)) (\<lambda>b.
     qbind (remove_from_non_finalized_chain (orchard_index ns) (orchard_nullifiers tx)) (\<lambda>c.
     qbind (remove_from_non_finalized_chain (ironwood_index ns) (ironwood_nullifiers tx)) (\<lambda>d.
       Ok \<lparr>sprout_index = a, sapling_index = b, orchard_index = c, ironwood_index = d\<rparr>))))"

text \<open>The data of a block that its transactions are indexed with.\<close>

record block_data =
  bd_height :: height
  bd_new_outputs :: "outpoint \<rightharpoonup> ordered_utxo"
  bd_spent_outputs :: "outpoint \<rightharpoonup> ordered_utxo"

definition update_with_transaction ::
  "profile \<Rightarrow> addressing \<Rightarrow> block_data \<Rightarrow> tx_indexes \<Rightarrow> nat \<times> transaction \<times> bytes \<Rightarrow> (spend_error, tx_indexes) outcome" where
  "update_with_transaction p addr bd s = (\<lambda>(transaction_index, tx, hash).
     qbind (update_nullifiers tx hash (nullifiers s)) (\<lambda>ns.
     qbind (transaction_location_from_usize (bd_height bd) transaction_index) (\<lambda>location.
     qbind (map_insert_unique (tx_loc_by_hash s) (hash, location)) (\<lambda>locs.
     qbind (update_with_outputs p addr hash (bd_new_outputs bd) [0 ..< length (outputs tx)]
              (s\<lparr>nullifiers := ns, tx_loc_by_hash := locs\<rparr>)) (\<lambda>s'.
       update_with_inputs p addr hash (bd_spent_outputs bd) (inputs tx) s')))))"

definition revert_with_transaction ::
  "profile \<Rightarrow> addressing \<Rightarrow> block_data \<Rightarrow> tx_indexes \<Rightarrow> nat \<times> transaction \<times> bytes \<Rightarrow> (spend_error, tx_indexes) outcome" where
  "revert_with_transaction p addr bd s = (\<lambda>(transaction_index, tx, hash).
     qbind (revert_with_outputs p addr hash (bd_new_outputs bd) [0 ..< length (outputs tx)] s) (\<lambda>s.
     qbind (revert_with_inputs p addr hash (bd_spent_outputs bd) (inputs tx) s) (\<lambda>s.
     qbind (map_remove_present (tx_loc_by_hash s) (hash, (bd_height bd, transaction_index))) (\<lambda>locs.
     qbind (remove_nullifiers tx (nullifiers s)) (\<lambda>ns.
       Ok (s\<lparr>nullifiers := ns, tx_loc_by_hash := locs\<rparr>))))))"

text \<open>The transactions of a block with their numbers and hashes.\<close>

definition numbered :: "transaction list \<Rightarrow> bytes list \<Rightarrow> (nat \<times> transaction \<times> bytes) list" where
  "numbered txs hashes = zip [0 ..< length (zip txs hashes)] (zip txs hashes)"

section \<open>The items of a transaction\<close>

record tx_items =
  it_locs :: "(bytes \<times> transaction_location) multiset"
  it_created :: "(outpoint \<times> ordered_utxo) multiset"
  it_spent :: "(outpoint \<times> bytes) multiset"
  it_sprout :: "(bytes \<times> bytes) multiset"
  it_sapling :: "(bytes \<times> bytes) multiset"
  it_orchard :: "(bytes \<times> bytes) multiset"
  it_ironwood :: "(bytes \<times> bytes) multiset"
  it_moves :: "move multiset"

definition no_items :: tx_items where
  "no_items = \<lparr>it_locs = {#}, it_created = {#}, it_spent = {#}, it_sprout = {#}, it_sapling = {#},
     it_orchard = {#}, it_ironwood = {#}, it_moves = {#}\<rparr>"

definition append_items :: "tx_items \<Rightarrow> tx_items \<Rightarrow> tx_items" where
  "append_items a b = \<lparr>it_locs = it_locs a + it_locs b, it_created = it_created a + it_created b,
     it_spent = it_spent a + it_spent b, it_sprout = it_sprout a + it_sprout b, it_sapling = it_sapling a + it_sapling b,
     it_orchard = it_orchard a + it_orchard b, it_ironwood = it_ironwood a + it_ironwood b, it_moves = it_moves a + it_moves b\<rparr>"

definition created_items :: "bytes \<Rightarrow> (outpoint \<rightharpoonup> ordered_utxo) \<Rightarrow> nat list \<Rightarrow> (outpoint \<times> ordered_utxo) list" where
  "created_items hash block_created is = map (\<lambda>i. (OutPoint hash i, the (block_created (OutPoint hash i)))) is"

definition spent_items :: "bytes \<Rightarrow> tx_input list \<Rightarrow> (outpoint \<times> bytes) list" where
  "spent_items hash ins = map (\<lambda>op. (op, hash)) (List.map_filter input_outpoint ins)"

definition spend_moves :: "bytes \<Rightarrow> (outpoint \<rightharpoonup> ordered_utxo) \<Rightarrow> tx_input list \<Rightarrow> move list" where
  "spend_moves hash block_spent ins =
     map (\<lambda>input. Spend_move input hash (the (block_spent (the (input_outpoint input)))))
       (filter (\<lambda>input. input_outpoint input \<noteq> None) ins)"

definition tx_moves :: "block_data \<Rightarrow> transaction \<Rightarrow> bytes \<Rightarrow> move list" where
  "tx_moves bd tx hash =
     map (\<lambda>(op, u). Create_move op u) (created_items hash (bd_new_outputs bd) [0 ..< length (outputs tx)])
       @ spend_moves hash (bd_spent_outputs bd) (inputs tx)"

definition revealed :: "bytes \<Rightarrow> bytes list \<Rightarrow> (bytes \<times> bytes) list" where
  "revealed hash nfs = map (\<lambda>nf. (nf, hash)) nfs"

definition items_of_tx :: "block_data \<Rightarrow> nat \<times> transaction \<times> bytes \<Rightarrow> tx_items" where
  "items_of_tx bd = (\<lambda>(i, tx, hash).
     \<lparr>it_locs = {#(hash, (bd_height bd, i))#},
      it_created = mset (created_items hash (bd_new_outputs bd) [0 ..< length (outputs tx)]),
      it_spent = mset (spent_items hash (inputs tx)),
      it_sprout = mset (revealed hash (sprout_nullifiers tx)),
      it_sapling = mset (revealed hash (sapling_nullifiers tx)),
      it_orchard = mset (revealed hash (orchard_nullifiers tx)),
      it_ironwood = mset (revealed hash (ironwood_nullifiers tx)),
      it_moves = mset (tx_moves bd tx hash)\<rparr>)"

definition items_of :: "block_data \<Rightarrow> (nat \<times> transaction \<times> bytes) list \<Rightarrow> tx_items" where
  "items_of bd xs = foldr (\<lambda>x. append_items (items_of_tx bd x)) xs no_items"

text \<open>The outputs a transaction creates and spends are all in the data of its block.\<close>

definition outputs_known :: "bytes \<Rightarrow> (outpoint \<rightharpoonup> ordered_utxo) \<Rightarrow> nat list \<Rightarrow> bool" where
  "outputs_known hash block_created is \<longleftrightarrow> (\<forall>i \<in> set is. i \<le> u32_max \<and> block_created (OutPoint hash i) \<noteq> None)"

definition inputs_known :: "(outpoint \<rightharpoonup> ordered_utxo) \<Rightarrow> tx_input list \<Rightarrow> bool" where
  "inputs_known block_spent ins \<longleftrightarrow> (\<forall>op \<in> set (List.map_filter input_outpoint ins). block_spent op \<noteq> None)"

definition tx_data_known :: "block_data \<Rightarrow> nat \<times> transaction \<times> bytes \<Rightarrow> bool" where
  "tx_data_known bd = (\<lambda>(i, tx, hash). i \<le> u16_max \<and> outputs_known hash (bd_new_outputs bd) [0 ..< length (outputs tx)]
     \<and> inputs_known (bd_spent_outputs bd) (inputs tx))"

abbreviation insert_items :: "('k \<rightharpoonup> 'v) \<Rightarrow> ('k \<times> 'v) list \<Rightarrow> (spend_error, 'k \<rightharpoonup> 'v) outcome" where
  "insert_items m xs \<equiv> try_fold map_insert_unique m xs"

abbreviation remove_items :: "('k \<rightharpoonup> 'v) \<Rightarrow> ('k \<times> 'v) list \<Rightarrow> (spend_error, 'k \<rightharpoonup> 'v) outcome" where
  "remove_items m xs \<equiv> try_fold map_remove_present m xs"

section \<open>Each index sees its own items\<close>

lemma items_Cons_simps [simp]:
  "created_items hash f [] = []"
  "created_items hash f (i # is) = (OutPoint hash i, the (f (OutPoint hash i))) # created_items hash f is"
  "spent_items hash [] = []"
  "spent_items hash (input # ins) =
    (case input_outpoint input of None \<Rightarrow> spent_items hash ins | Some op \<Rightarrow> (op, hash) # spent_items hash ins)"
  "spend_moves hash g [] = []"
  "spend_moves hash g (input # ins) =
    (case input_outpoint input of None \<Rightarrow> spend_moves hash g ins
     | Some op \<Rightarrow> Spend_move input hash (the (g op)) # spend_moves hash g ins)"
  "outputs_known hash f []"
  "outputs_known hash f (i # is) \<longleftrightarrow> i \<le> u32_max \<and> f (OutPoint hash i) \<noteq> None \<and> outputs_known hash f is"
  "inputs_known g []"
  "inputs_known g (input # ins) \<longleftrightarrow>
    (case input_outpoint input of None \<Rightarrow> True | Some op \<Rightarrow> g op \<noteq> None) \<and> inputs_known g ins"
  by (auto simp: created_items_def spent_items_def spend_moves_def outputs_known_def inputs_known_def
      List.map_filter_def split: option.splits)

lemma outpoint_from_usize_Ok: "outpoint_from_usize hash i = Ok op \<longleftrightarrow> i \<le> u32_max \<and> op = OutPoint hash i"
  by (auto simp: outpoint_from_usize_def checked_u32_def split: if_splits)

lemma move_functions:
  "move_update p (Create_move op u) = update_created p op u"
  "move_update p (Spend_move input hash u) = update_spent p input hash u"
  "move_revert p (Create_move op u) = revert_created p op u"
  "move_revert p (Spend_move input hash u) = revert_spent p input hash u"
  by (simp_all add: fun_eq_iff)

lemma index_move_step:
  "index_apply p addr idx (Create_move op u) = (case addr (utxo_output (ordered_inner u)) of
     None \<Rightarrow> Ok idx | Some a \<Rightarrow> index_update (update_created p op u) a idx)"
  "index_apply p addr idx (Spend_move input hash u) = (case addr (utxo_output (ordered_inner u)) of
     None \<Rightarrow> Ok idx | Some a \<Rightarrow> index_update (update_spent p input hash u) a idx)"
  "index_undo p addr idx (Create_move op u) = (case addr (utxo_output (ordered_inner u)) of
     None \<Rightarrow> Ok idx | Some a \<Rightarrow> index_revert (revert_created p op u) a idx)"
  "index_undo p addr idx (Spend_move input hash u) = (case addr (utxo_output (ordered_inner u)) of
     None \<Rightarrow> Ok idx | Some a \<Rightarrow> index_revert (revert_spent p input hash u) a idx)"
  by (simp_all add: index_apply_def index_undo_def move_output_def move_functions split: option.split)

lemma update_with_outputs_Ok:
  "update_with_outputs p addr hash f is s = Ok s' \<longleftrightarrow> outputs_known hash f is \<and>
    (\<exists>cr tr. insert_items (created_utxos s) (created_items hash f is) = Ok cr
      \<and> try_fold (index_apply p addr) (partial_transparent_transfers s)
          (map (\<lambda>(op, u). Create_move op u) (created_items hash f is)) = Ok tr
      \<and> s' = s\<lparr>created_utxos := cr, partial_transparent_transfers := tr\<rparr>)"
proof (induction "is" arbitrary: s)
  case (Cons i "is")
  show ?case
    by (cases "f (OutPoint hash i)") (auto simp: outpoint_from_usize_Ok Cons.IH index_move_step)
qed auto

lemma revert_with_outputs_Ok:
  "revert_with_outputs p addr hash f is s = Ok s' \<longleftrightarrow> outputs_known hash f is \<and>
    (\<exists>cr tr. remove_items (created_utxos s) (created_items hash f is) = Ok cr
      \<and> try_fold (index_undo p addr) (partial_transparent_transfers s)
          (map (\<lambda>(op, u). Create_move op u) (created_items hash f is)) = Ok tr
      \<and> s' = s\<lparr>created_utxos := cr, partial_transparent_transfers := tr\<rparr>)"
proof (induction "is" arbitrary: s)
  case (Cons i "is")
  show ?case
    by (cases "f (OutPoint hash i)") (auto simp: outpoint_from_usize_Ok Cons.IH index_move_step)
qed auto

lemma update_with_inputs_Ok:
  "update_with_inputs p addr hash g ins s = Ok s' \<longleftrightarrow> inputs_known g ins \<and>
    (\<exists>sp tr. insert_items (spent_utxos s) (spent_items hash ins) = Ok sp
      \<and> try_fold (index_apply p addr) (partial_transparent_transfers s) (spend_moves hash g ins) = Ok tr
      \<and> s' = s\<lparr>spent_utxos := sp, partial_transparent_transfers := tr\<rparr>)"
proof (induction ins arbitrary: s)
  case (Cons input ins)
  show ?case
    by (cases "input_outpoint input"; cases "g (the (input_outpoint input))")
      (auto simp: Cons.IH index_move_step)
qed auto

lemma revert_with_inputs_Ok:
  "revert_with_inputs p addr hash g ins s = Ok s' \<longleftrightarrow> inputs_known g ins \<and>
    (\<exists>sp tr. remove_items (spent_utxos s) (spent_items hash ins) = Ok sp
      \<and> try_fold (index_undo p addr) (partial_transparent_transfers s) (spend_moves hash g ins) = Ok tr
      \<and> s' = s\<lparr>spent_utxos := sp, partial_transparent_transfers := tr\<rparr>)"
proof (induction ins arbitrary: s)
  case (Cons input ins)
  show ?case
    by (cases "input_outpoint input"; cases "g (the (input_outpoint input))")
      (auto simp: Cons.IH index_move_step)
qed auto

lemma add_to_non_finalized_chain_unique_Ok:
  "add_to_non_finalized_chain_unique dup idx nfs hash = Ok idx' \<longleftrightarrow> insert_items idx (revealed hash nfs) = Ok idx'"
  by (induction nfs arbitrary: idx) (auto simp: revealed_def map_insert_unique_def assert_that_def)

lemma remove_from_non_finalized_chain_items:
  "remove_from_non_finalized_chain idx nfs = remove_items idx (revealed hash nfs)"
  by (induction nfs arbitrary: idx) (auto simp: revealed_def map_remove_present_def assert_that_def)

section \<open>The state represents the items\<close>

definition tx_rep :: "addressing \<Rightarrow> tx_indexes \<Rightarrow> tx_items \<Rightarrow> bool" where
  "tx_rep addr s it \<longleftrightarrow> map_rep (tx_loc_by_hash s) (it_locs it) \<and> map_rep (created_utxos s) (it_created it)
     \<and> map_rep (spent_utxos s) (it_spent it) \<and> map_rep (sprout_index (nullifiers s)) (it_sprout it)
     \<and> map_rep (sapling_index (nullifiers s)) (it_sapling it) \<and> map_rep (orchard_index (nullifiers s)) (it_orchard it)
     \<and> map_rep (ironwood_index (nullifiers s)) (it_ironwood it)
     \<and> index_rep (partial_transparent_transfers s) (addressed addr (it_moves it))"

lemma try_fold_append_Ok: "try_fold f s (xs @ ys) = Ok s' \<longleftrightarrow> (\<exists>s1. try_fold f s xs = Ok s1 \<and> try_fold f s1 ys = Ok s')"
  by (induction xs arbitrary: s) auto

text \<open>What a transaction does to the indexes, index by index.\<close>

lemma update_with_transaction_Ok:
  "update_with_transaction p addr bd s (i, tx, hash) = Ok s' \<Longrightarrow> tx_data_known bd (i, tx, hash)
    \<and> map_insert_unique (tx_loc_by_hash s) (hash, bd_height bd, i) = (Ok (tx_loc_by_hash s') :: (spend_error, _) outcome)
    \<and> insert_items (created_utxos s) (created_items hash (bd_new_outputs bd) [0 ..< length (outputs tx)]) = Ok (created_utxos s')
    \<and> insert_items (spent_utxos s) (spent_items hash (inputs tx)) = Ok (spent_utxos s')
    \<and> insert_items (sprout_index (nullifiers s)) (revealed hash (sprout_nullifiers tx)) = Ok (sprout_index (nullifiers s'))
    \<and> insert_items (sapling_index (nullifiers s)) (revealed hash (sapling_nullifiers tx)) = Ok (sapling_index (nullifiers s'))
    \<and> insert_items (orchard_index (nullifiers s)) (revealed hash (orchard_nullifiers tx)) = Ok (orchard_index (nullifiers s'))
    \<and> insert_items (ironwood_index (nullifiers s)) (revealed hash (ironwood_nullifiers tx)) = Ok (ironwood_index (nullifiers s'))
    \<and> try_fold (index_apply p addr) (partial_transparent_transfers s) (tx_moves bd tx hash) = Ok (partial_transparent_transfers s')"
  by (auto simp: update_with_transaction_def update_nullifiers_def add_to_non_finalized_chain_unique_Ok
      transaction_location_from_usize_def update_with_outputs_Ok update_with_inputs_Ok tx_data_known_def tx_moves_def
      try_fold_append_Ok split: if_splits)

lemma append_items_simps [simp]:
  "it_locs (append_items a b) = it_locs a + it_locs b" "it_created (append_items a b) = it_created a + it_created b"
  "it_spent (append_items a b) = it_spent a + it_spent b" "it_sprout (append_items a b) = it_sprout a + it_sprout b"
  "it_sapling (append_items a b) = it_sapling a + it_sapling b" "it_orchard (append_items a b) = it_orchard a + it_orchard b"
  "it_ironwood (append_items a b) = it_ironwood a + it_ironwood b" "it_moves (append_items a b) = it_moves a + it_moves b"
  "append_items a no_items = a" "append_items no_items a = a"
  by (simp_all add: append_items_def no_items_def)

lemma append_items_assoc: "append_items (append_items a b) c = append_items a (append_items b c)"
  by (simp add: append_items_def add.assoc)

lemma append_items_commute: "append_items a b = append_items b a"
  by (simp add: append_items_def add.commute)

lemma items_of_simps [simp]:
  "items_of bd [] = no_items"
  "items_of bd (x # xs) = append_items (items_of_tx bd x) (items_of bd xs)"
  by (simp_all add: items_of_def)

lemma tx_rep_default: "tx_rep addr tx_indexes_default no_items"
  by (simp add: tx_rep_def tx_indexes_default_def nullifier_sets_default_def no_items_def map_rep_empty index_rep_empty)

lemma tx_rep_unique:
  assumes "tx_rep addr s it" "tx_rep addr s' it"
  shows "s = s'"
proof -
  from assms have "sprout_index (nullifiers s) = sprout_index (nullifiers s')" "sapling_index (nullifiers s) = sapling_index (nullifiers s')"
    "orchard_index (nullifiers s) = orchard_index (nullifiers s')" "ironwood_index (nullifiers s) = ironwood_index (nullifiers s')"
    unfolding tx_rep_def by (blast intro: map_rep_unique)+
  then have "nullifiers s = nullifiers s'" by (simp add: nullifier_sets.equality)
  moreover from assms have "tx_loc_by_hash s = tx_loc_by_hash s'" "created_utxos s = created_utxos s'" "spent_utxos s = spent_utxos s'"
    unfolding tx_rep_def by (blast intro: map_rep_unique)+
  moreover from assms have "partial_transparent_transfers s = partial_transparent_transfers s'"
    unfolding tx_rep_def by (blast intro: index_rep_unique)
  ultimately show ?thesis by (simp add: tx_indexes.equality)
qed

lemma insert_items_rep: "map_rep m M \<Longrightarrow> insert_items m xs = Ok m' \<Longrightarrow> map_rep m' (M + mset xs)"
  by (rule unique_map.update_all)

lemma update_with_transaction_rep:
  assumes "tx_rep addr s it" "update_with_transaction p addr bd s x = Ok s'"
  shows "tx_rep addr s' (append_items it (items_of_tx bd x))"
proof -
  obtain i tx hash where x: "x = (i, tx, hash)" by (cases x)
  note ok = update_with_transaction_Ok [OF assms(2) [unfolded x]]
  have "map_rep (tx_loc_by_hash s') (add_mset (hash, bd_height bd, i) (it_locs it))"
    using ok assms(1) unfolding tx_rep_def by (blast intro: unique_map.update_rep)
  moreover have "index_rep (partial_transparent_transfers s') (addressed addr (it_moves it + mset (tx_moves bd tx hash)))"
    using ok assms(1) unfolding tx_rep_def by (blast intro: addresses.update_all)
  ultimately show ?thesis
    using ok assms(1) unfolding tx_rep_def x by (simp add: items_of_tx_def) (blast intro: insert_items_rep)
qed

lemma update_with_transactions_rep:
  "tx_rep addr s it \<Longrightarrow> try_fold (update_with_transaction p addr bd) s xs = Ok s' \<Longrightarrow>
    tx_rep addr s' (append_items it (items_of bd xs)) \<and> list_all (tx_data_known bd) xs"
proof (induction xs arbitrary: s it)
  case (Cons x xs)
  from Cons.prems(2) obtain s1 where s1: "update_with_transaction p addr bd s x = Ok s1"
    "try_fold (update_with_transaction p addr bd) s1 xs = Ok s'" by auto
  obtain i tx hash where x: "x = (i, tx, hash)" by (cases x)
  from update_with_transaction_Ok [OF s1(1) [unfolded x]] have "tx_data_known bd x" by (simp add: x)
  with Cons.IH [OF update_with_transaction_rep [OF Cons.prems(1) s1(1)] s1(2)] show ?case
    by (simp add: append_items_assoc)
qed simp

section \<open>Reverting\<close>

lemma remove_items_rep:
  "map_rep m (M + mset xs) \<Longrightarrow> \<exists>m'. remove_items m xs = Ok m' \<and> map_rep m' M"
  by (rule unique_map.revert_all) simp_all

definition tx_reversible :: "profile \<Rightarrow> addressing \<Rightarrow> block_data \<Rightarrow> tx_items \<Rightarrow> nat \<times> transaction \<times> bytes \<Rightarrow> bool" where
  "tx_reversible p addr bd it x \<longleftrightarrow> tx_data_known bd x
     \<and> (\<forall>mv \<in># it_moves (items_of_tx bd x). move_ok p mv)
     \<and> transfers_fit p (addressed addr (it_moves it)) (addressed addr (it_moves (items_of_tx bd x)))"

lemma revert_with_transaction_rep:
  assumes rep: "tx_rep addr s (append_items it (items_of_tx bd x))" and ok: "tx_reversible p addr bd it x"
  shows "\<exists>s'. revert_with_transaction p addr bd s x = Ok s' \<and> tx_rep addr s' it"
proof -
  obtain i tx hash where x: "x = (i, tx, hash)" by (cases x)
  note rep = rep [unfolded x tx_rep_def items_of_tx_def append_items_simps prod.case tx_items.simps]
  from rep obtain cr where cr: "remove_items (created_utxos s) (created_items hash (bd_new_outputs bd) [0 ..< length (outputs tx)]) = Ok cr"
    "map_rep cr (it_created it)" using remove_items_rep by blast
  from rep obtain sp where sp: "remove_items (spent_utxos s) (spent_items hash (inputs tx)) = Ok sp" "map_rep sp (it_spent it)"
    using remove_items_rep by blast
  from rep obtain n1 where n1: "remove_items (sprout_index (nullifiers s)) (revealed hash (sprout_nullifiers tx)) = Ok n1"
    "map_rep n1 (it_sprout it)" using remove_items_rep by blast
  from rep obtain n2 where n2: "remove_items (sapling_index (nullifiers s)) (revealed hash (sapling_nullifiers tx)) = Ok n2"
    "map_rep n2 (it_sapling it)" using remove_items_rep by blast
  from rep obtain n3 where n3: "remove_items (orchard_index (nullifiers s)) (revealed hash (orchard_nullifiers tx)) = Ok n3"
    "map_rep n3 (it_orchard it)" using remove_items_rep by blast
  from rep obtain n4 where n4: "remove_items (ironwood_index (nullifiers s)) (revealed hash (ironwood_nullifiers tx)) = Ok n4"
    "map_rep n4 (it_ironwood it)" using remove_items_rep by blast
  have "map_rep (tx_loc_by_hash s) (add_mset (hash, bd_height bd, i) (it_locs it))" using rep by simp
  note locs = map_rep_remove [OF this]
  have "addresses.revertible_all p addr (it_moves it) (tx_moves bd tx hash)"
    using ok by (intro moves_revertible) (simp_all add: tx_reversible_def items_of_tx_def x list_all_iff)
  then obtain tr where tr: "try_fold (index_undo p addr) (partial_transparent_transfers s) (tx_moves bd tx hash) = Ok tr"
    "index_rep tr (addressed addr (it_moves it))" using rep addresses.revert_all by blast
  from tr(1) obtain t1 where t1: "try_fold (index_undo p addr) (partial_transparent_transfers s)
      (map (\<lambda>(op, u). Create_move op u) (created_items hash (bd_new_outputs bd) [0 ..< length (outputs tx)])) = Ok t1"
    "try_fold (index_undo p addr) t1 (spend_moves hash (bd_spent_outputs bd) (inputs tx)) = Ok tr"
    by (auto simp: tx_moves_def try_fold_append_Ok)
  have "outputs_known hash (bd_new_outputs bd) [0 ..< length (outputs tx)]" "inputs_known (bd_spent_outputs bd) (inputs tx)"
    using ok by (simp_all add: tx_reversible_def tx_data_known_def x)
  with cr(1) t1(1) sp(1) t1(2)
  have "revert_with_outputs p addr hash (bd_new_outputs bd) [0 ..< length (outputs tx)] s = Ok (s\<lparr>created_utxos := cr, partial_transparent_transfers := t1\<rparr>)"
    "revert_with_inputs p addr hash (bd_spent_outputs bd) (inputs tx) (s\<lparr>created_utxos := cr, partial_transparent_transfers := t1\<rparr>)
      = Ok (s\<lparr>created_utxos := cr, spent_utxos := sp, partial_transparent_transfers := tr\<rparr>)"
    by (simp_all add: revert_with_outputs_Ok revert_with_inputs_Ok)
  with n1 n2 n3 n4 locs cr sp tr show ?thesis
    by (simp add: revert_with_transaction_def x remove_nullifiers_def remove_from_non_finalized_chain_items [of _ _ hash]
        map_remove_present_def assert_that_def tx_rep_def)
qed

text \<open>
  A chain whose moves can all be reverted: the values that its blocks move at any one address add up to at most
  the money range.
\<close>

definition turnover_fits :: "profile \<Rightarrow> addressing \<Rightarrow> move multiset \<Rightarrow> bool" where
  "turnover_fits p addr M \<longleftrightarrow> transfers_fit p {#} (addressed addr M)"

lemma turnover_fits_split:
  assumes "turnover_fits p addr (A + B)"
  shows "transfers_fit p (addressed addr A) (addressed addr B)" and "turnover_fits p addr A"
proof -
  have t: "\<Sum>\<^sub># (image_mset (\<lambda>e. \<bar>transfer_value e\<bar>) (transfers_at a (addressed addr A)))
      + \<Sum>\<^sub># (image_mset (\<lambda>e. \<bar>transfer_value e\<bar>) (transfers_at a (addressed addr B))) \<le> MAX_MONEY p" for a
    using assms unfolding turnover_fits_def transfers_fit_def by (simp add: transfer_balance_def)
  have nonneg: "0 \<le> \<Sum>\<^sub># (image_mset (\<lambda>e. \<bar>transfer_value e\<bar>) N)" for N by (induction N) simp_all
  show "transfers_fit p (addressed addr A) (addressed addr B)"
    unfolding transfers_fit_def using t abs_transfer_balance by (meson add_right_mono order_trans)
  show "turnover_fits p addr A"
    unfolding turnover_fits_def transfers_fit_def using t nonneg
    by (simp add: transfer_balance_def) (metis add_increasing2 le_add_same_cancel1 order_trans)
qed

definition items_reversible :: "profile \<Rightarrow> addressing \<Rightarrow> tx_items \<Rightarrow> bool" where
  "items_reversible p addr it \<longleftrightarrow> (\<forall>mv \<in># it_moves it. move_ok p mv) \<and> turnover_fits p addr (it_moves it)"

lemma items_reversible_append:
  assumes "items_reversible p addr (append_items a b)"
  shows "items_reversible p addr a" "items_reversible p addr b"
  using assms turnover_fits_split(2) [of p addr "it_moves a" "it_moves b"] turnover_fits_split(2) [of p addr "it_moves b" "it_moves a"]
  by (auto simp: items_reversible_def add.commute)

lemma revert_with_transactions_rep:
  "tx_rep addr s (append_items it (items_of bd xs)) \<Longrightarrow> list_all (tx_data_known bd) xs \<Longrightarrow>
    items_reversible p addr (append_items it (items_of bd xs)) \<Longrightarrow>
    \<exists>s'. try_fold (revert_with_transaction p addr bd) s xs = Ok s' \<and> tx_rep addr s' it"
proof (induction xs arbitrary: s)
  case (Cons x xs)
  let ?it = "append_items it (items_of bd xs)"
  have eq: "append_items it (items_of bd (x # xs)) = append_items ?it (items_of_tx bd x)"
    by (simp add: append_items_assoc append_items_commute [of "items_of bd xs"])
  have rev: "items_reversible p addr (append_items ?it (items_of_tx bd x))" using Cons.prems(3) unfolding eq .
  then have "tx_reversible p addr bd ?it x"
    using Cons.prems(2) turnover_fits_split(1) [of p addr "it_moves ?it"] by (simp add: tx_reversible_def items_reversible_def)
  from revert_with_transaction_rep [OF Cons.prems(1) [unfolded eq] this]
  obtain s1 where s1: "revert_with_transaction p addr bd s x = Ok s1" "tx_rep addr s1 ?it" by blast
  from Cons.IH [OF s1(2) _ items_reversible_append(1) [OF rev]] Cons.prems(2) s1(1) show ?case by auto
qed simp

section \<open>A payment to oneself\<close>

text \<open>The transfers that an update of an address starts from.\<close>

definition transfers_of :: "address_index \<Rightarrow> address \<Rightarrow> transparent_transfers" where
  "transfers_of idx a = (case idx a of None \<Rightarrow> transfers_default | Some t \<Rightarrow> t)"

text \<open>
  A transaction with one input and one output, both of the address \<open>a\<close> and of the value \<open>v\<close>, whose output and spend
  are new to the chain.
\<close>

definition pays_itself ::
  "profile \<Rightarrow> addressing \<Rightarrow> block_data \<Rightarrow> tx_indexes \<Rightarrow> nat \<times> transaction \<times> bytes \<Rightarrow> address \<Rightarrow> int \<Rightarrow> bool" where
  "pays_itself p addr bd s x a v = (case x of (n, tx, hash) \<Rightarrow>
     n \<le> u16_max \<and> tx_loc_by_hash s hash = None \<and> length (outputs tx) = 1 \<and> length (inputs tx) = 1
     \<and> (case (bd_new_outputs bd (OutPoint hash 0), input_outpoint (hd (inputs tx))) of
          (Some u, Some op) \<Rightarrow> (case bd_spent_outputs bd op of
             Some u' \<Rightarrow>
               addr (utxo_output (ordered_inner u)) = Some a \<and> addr (utxo_output (ordered_inner u')) = Some a
               \<and> output_value (utxo_output (ordered_inner u)) = Amount v \<and> output_value (utxo_output (ordered_inner u')) = Amount v
               \<and> 0 \<le> v \<and> v \<le> MAX_MONEY p
               \<and> tx_index_in_block u \<le> u16_max \<and> tx_index_in_block u' \<le> u16_max
               \<and> created_utxos s (OutPoint hash 0) = None \<and> spent_utxos s op = None
               \<and> map_of (tr_created (transfers_of (partial_transparent_transfers s) a)) (transfer_location (created_transfer (OutPoint hash 0) u)) = None
               \<and> ((utxo_height (ordered_inner u'), tx_index_in_block u'), outpoint_index op)
                   \<notin> tr_spent (transfers_of (partial_transparent_transfers s) a)
           | None \<Rightarrow> False)
        | _ \<Rightarrow> False))"

lemma update_created_balance:
  assumes "amount_ok p NegativeAllowed (tr_balance t)" "output_value (utxo_output (ordered_inner u)) = Amount v" "0 \<le> v" "v \<le> MAX_MONEY p"
    and "tx_index_in_block u \<le> u16_max" "map_of (tr_created t) (transfer_location (created_transfer op u)) = None"
  shows "update_created p op u t =
    (if zatoshis (tr_balance t) + v \<le> MAX_MONEY p
     then Ok (t\<lparr>tr_balance := Amount (zatoshis (tr_balance t) + v),
       tr_created := bt_insert (transfer_location (created_transfer op u)) (utxo_output (ordered_inner u)) (tr_created t),
       tr_tx_ids := add_mset (outpoint_hash op) (tr_tx_ids t)\<rparr>) else Panic)"
proof -
  have v: "amount_ok p NegativeAllowed (Amount v)" using assms(3,4) by (simp add: amount_ok_def)
  from assms(1,3) amount_add_eq [OF assms(1) v] have "amount_add p NegativeAllowed (tr_balance t) (Amount v) =
      (if zatoshis (tr_balance t) + v \<le> MAX_MONEY p then Ok (Amount (zatoshis (tr_balance t) + v))
       else Err (Constraint (zatoshis (tr_balance t) + v) (valid_range p NegativeAllowed)))"
    by (auto simp: try_from_i64_eq amount_ok_def)
  with v assms show ?thesis
    by (simp add: update_created_def constrain_eq transaction_location_def transaction_location_from_usize_def
        output_location_from_outpoint_def created_transfer_def assert_that_def)
qed

lemma update_spent_balance:
  assumes "zatoshis (tr_balance t) = b + v" "\<bar>b\<bar> \<le> MAX_MONEY p" "b + v \<le> MAX_MONEY p"
    and "output_value (utxo_output (ordered_inner u)) = Amount v" "0 \<le> v" "v \<le> MAX_MONEY p"
    and "tx_index_in_block u \<le> u16_max" "input_outpoint input = Some op"
    and "((utxo_height (ordered_inner u), tx_index_in_block u), outpoint_index op) \<notin> tr_spent t"
  shows "\<exists>t'. update_spent p input hash u t = Ok t' \<and> zatoshis (tr_balance t') = b"
proof -
  have v: "amount_ok p NegativeAllowed (Amount v)" "amount_ok p NegativeAllowed (tr_balance t)" "amount_ok p NegativeAllowed (Amount b)"
    using assms by (auto simp: amount_ok_def)
  then have "amount_sub p NegativeAllowed (tr_balance t) (Amount v) = Ok (Amount b)"
    using amount_sub_eq [OF v(2,1)] assms(1) by (simp add: try_from_i64_eq)
  with v assms show ?thesis
    by (simp add: update_spent_def constrain_eq transaction_location_def transaction_location_from_usize_def
        output_location_from_outpoint_def assert_that_def Let_def)
qed

text \<open>
  C36. The index of a chain adds the outputs of a transaction before it subtracts its inputs.  So a transaction that
  only moves a value from an address to itself, and is new to the chain, is indexed exactly if the balance of the
  address in the chain plus this value is in the money range: then the balance is what it was.  Otherwise the node
  panics, though the balances before and after the transaction are in range.
\<close>

theorem self_payment_panics_iff:
  assumes "update_nullifiers tx hash (nullifiers s) = Ok ns" "pays_itself p addr bd s (n, tx, hash) a v"
    and "\<bar>zatoshis (tr_balance (transfers_of (partial_transparent_transfers s) a))\<bar> \<le> MAX_MONEY p"
  shows "if zatoshis (tr_balance (transfers_of (partial_transparent_transfers s) a)) + v \<le> MAX_MONEY p
    then \<exists>s'. update_with_transaction p addr bd s (n, tx, hash) = Ok s'
      \<and> zatoshis (tr_balance (transfers_of (partial_transparent_transfers s') a))
        = zatoshis (tr_balance (transfers_of (partial_transparent_transfers s) a))
    else update_with_transaction p addr bd s (n, tx, hash) = Panic"
proof -
  let ?t = "transfers_of (partial_transparent_transfers s) a" and ?op = "OutPoint hash 0"
  from assms(2) obtain u input op u' where n: "n \<le> u16_max" "tx_loc_by_hash s hash = None" "length (outputs tx) = 1" "inputs tx = [input]"
    and u: "bd_new_outputs bd ?op = Some u" "addr (utxo_output (ordered_inner u)) = Some a" "created_utxos s ?op = None"
    and u': "bd_spent_outputs bd op = Some u'" "input_outpoint input = Some op" "addr (utxo_output (ordered_inner u')) = Some a" "spent_utxos s op = None"
    and val: "output_value (utxo_output (ordered_inner u)) = Amount v" "output_value (utxo_output (ordered_inner u')) = Amount v" "0 \<le> v" "v \<le> MAX_MONEY p"
    and loc: "tx_index_in_block u \<le> u16_max" "map_of (tr_created ?t) (transfer_location (created_transfer ?op u)) = None"
      "tx_index_in_block u' \<le> u16_max" "((utxo_height (ordered_inner u'), tx_index_in_block u'), outpoint_index op) \<notin> tr_spent ?t"
    by (auto simp: pays_itself_def length_Suc_conv split: option.splits)
  have ok: "amount_ok p NegativeAllowed (tr_balance ?t)" using assms(3) by (auto simp: amount_ok_def)
  have op: "outpoint_from_usize hash 0 = (Ok ?op :: (spend_error, _) outcome)" by (simp add: outpoint_from_usize_Ok)
  note created = update_created_balance [OF ok val(1,3,4) loc(1,2)]
  show ?thesis
  proof (cases "zatoshis (tr_balance ?t) + v \<le> MAX_MONEY p")
    case True
    with created obtain t1 where t1: "update_created p ?op u ?t = Ok t1" "zatoshis (tr_balance t1) = zatoshis (tr_balance ?t) + v" "tr_spent t1 = tr_spent ?t"
      by auto
    from update_spent_balance [OF t1(2) assms(3) True val(2-4) loc(3) u'(2), of hash] loc(4) t1(3)
    obtain t2 where t2: "update_spent p input hash u' t1 = Ok t2" "zatoshis (tr_balance t2) = zatoshis (tr_balance ?t)" by auto
    have "index_update (update_created p ?op u) a (partial_transparent_transfers s) = Ok ((partial_transparent_transfers s)(a \<mapsto> t1))"
      "index_update (update_spent p input hash u') a ((partial_transparent_transfers s)(a \<mapsto> t1)) = Ok ((partial_transparent_transfers s)(a \<mapsto> t2))"
      using t1(1) t2(1) by (simp_all add: index_update_def transfers_of_def)
    with True t2(2) assms(1) op n u u' show ?thesis
      by (simp add: update_with_transaction_def transaction_location_from_usize_def map_insert_unique_def
          assert_that_def del: qbind_eq_Ok map_ok_eq_Ok) (simp add: transfers_of_def)
  next
    case False
    with created have "index_update (update_created p ?op u) a (partial_transparent_transfers s) = Panic"
      by (simp add: index_update_def transfers_of_def)
    with False assms(1) op n u show ?thesis
      by (simp add: update_with_transaction_def transaction_location_from_usize_def map_insert_unique_def
          assert_that_def del: qbind_eq_Ok map_ok_eq_Ok)
  qed
qed

text \<open>An address that receives twelve million coins, more than half of what there will ever be, and pays them to itself.\<close>

definition coin_payment :: "outpoint \<Rightarrow> transaction" where
  "coin_payment op = \<lparr>tx_version = V5, zp_branch_id = 0, zp_lock_time = 0, zp_expiry_height = 0,
     inputs = [PrevOut op [] 0], outputs = [utxo_output (ordered_inner (holding 12000000 5 1))],
     bundle_is_coinbase = False, sprout_bundle = None, sapling_bundle = None, orchard_bundle = None,
     ironwood_bundle = None, txid = [], auth_commitment = []\<rparr>"

text \<open>The output that the first payment spends, of a finalized block, has another address.\<close>

definition coin_addressing :: addressing where
  "coin_addressing out = (if lock_script out = [] then Some holder else Some (PayToPublicKeyHash Mainnet_kind (replicate 20 2)))"

definition other_holding :: ordered_utxo where
  "other_holding = (holding 12000000 4 1)\<lparr>ordered_inner := \<lparr>utxo_output = \<lparr>output_value = Amount (12000000 * COIN), lock_script = [1]\<rparr>,
     utxo_height = 4, from_coinbase = False\<rparr>\<rparr>"

definition coin_block :: block_data where
  "coin_block = \<lparr>bd_height = 5, bd_new_outputs = [OutPoint [2] 0 \<mapsto> holding 12000000 5 1, OutPoint [3] 0 \<mapsto> holding 12000000 5 2],
     bd_spent_outputs = [OutPoint [1] 0 \<mapsto> other_holding, OutPoint [2] 0 \<mapsto> holding 12000000 5 1]\<rparr>"

lemma coin_nullifiers: "update_nullifiers (coin_payment op) hash ns = Ok ns"
  by (simp add: update_nullifiers_def coin_payment_def sprout_nullifiers_def sapling_nullifiers_def orchard_nullifiers_def
      ironwood_nullifiers_def joinsplits_def sapling_spends_def bundle_actions_def ironwood_actions_def)

lemma coin_first_payment:
  "\<exists>s. update_with_transaction Zcash_profile coin_addressing coin_block tx_indexes_default (1, coin_payment (OutPoint [1] 0), [2]) = Ok s \<and> pays_itself Zcash_profile coin_addressing coin_block s (2, coin_payment (OutPoint [2] 0), [3]) holder (12000000 * COIN)
    \<and> zatoshis (tr_balance (transfers_of (partial_transparent_transfers s) holder)) = 12000000 * COIN"
proof -
  let ?transfers = "transfers_default\<lparr>tr_balance := Amount (12000000 * COIN), tr_tx_ids := {#[2]#},
    tr_created := [(((5, 1), 0), utxo_output (ordered_inner (holding 12000000 5 1)))]\<rparr>"
  let ?other = "transfers_default\<lparr>tr_balance := Amount (- (12000000 * COIN)), tr_tx_ids := {#[2]#}, tr_spent := {((4, 1), 0)}\<rparr>"
  let ?s = "tx_indexes_default\<lparr>tx_loc_by_hash := [[2] \<mapsto> (5, 1)], created_utxos := [OutPoint [2] 0 \<mapsto> holding 12000000 5 1],
    spent_utxos := [OutPoint [1] 0 \<mapsto> [2]], partial_transparent_transfers := [holder \<mapsto> ?transfers,
      PayToPublicKeyHash Mainnet_kind (replicate 20 2) \<mapsto> ?other]\<rparr>"
  have op: "outpoint_from_usize [2] 0 = (Ok (OutPoint [2] 0) :: (spend_error, _) outcome)" by (simp add: outpoint_from_usize_Ok)
  have created: "index_update (update_created Zcash_profile (OutPoint [2] 0) (holding 12000000 5 1)) holder Map.empty = Ok [holder \<mapsto> ?transfers]"
    by (simp add: index_eval)
  have spent: "index_update (update_spent Zcash_profile (PrevOut (OutPoint [1] 0) [] 0) [2] other_holding)
      (PayToPublicKeyHash Mainnet_kind (replicate 20 2)) [holder \<mapsto> ?transfers]
    = Ok [holder \<mapsto> ?transfers, PayToPublicKeyHash Mainnet_kind (replicate 20 2) \<mapsto> ?other]"
    by (simp add: index_eval other_holding_def holder_def)
  have "update_with_transaction Zcash_profile coin_addressing coin_block tx_indexes_default (1, coin_payment (OutPoint [1] 0), [2]) = Ok ?s"
    using op created spent coin_nullifiers by (simp add: update_with_transaction_def transaction_location_from_usize_def u16_max_def
        map_insert_unique_def coin_payment_def coin_block_def coin_addressing_def holding_def other_holding_def tx_indexes_default_def assert_that_def
        del: qbind_eq_Ok map_ok_eq_Ok)
  moreover have "pays_itself Zcash_profile coin_addressing coin_block ?s (2, coin_payment (OutPoint [2] 0), [3]) holder (12000000 * COIN)"
    by (simp add: pays_itself_def coin_payment_def coin_block_def coin_addressing_def holding_def u16_max_def tx_indexes_default_def
        transfers_of_def transfers_default_def created_transfer_def money_defs)
  moreover have "zatoshis (tr_balance (transfers_of (partial_transparent_transfers ?s) holder)) = 12000000 * COIN"
    by (simp add: transfers_of_def holder_def)
  ultimately show ?thesis by blast
qed

theorem self_payment_panics_iff_witness:
  "\<exists>s. update_with_transaction Zcash_profile coin_addressing coin_block tx_indexes_default (1, coin_payment (OutPoint [1] 0), [2]) = Ok s
    \<and> update_with_transaction Zcash_profile coin_addressing coin_block s (2, coin_payment (OutPoint [2] 0), [3]) = Panic"
proof -
  let ?first = "update_with_transaction Zcash_profile coin_addressing coin_block tx_indexes_default (1, coin_payment (OutPoint [1] 0), [2])"
  from coin_first_payment obtain s where s: "?first = Ok s" "pays_itself Zcash_profile coin_addressing coin_block s (2, coin_payment (OutPoint [2] 0), [3]) holder (12000000 * COIN)"
    "zatoshis (tr_balance (transfers_of (partial_transparent_transfers s) holder)) = 12000000 * COIN" by blast
  from self_payment_panics_iff [OF coin_nullifiers s(2)] s(1,3) show ?thesis by (auto simp: money_defs)
qed

end
