(* ===== verification/Chain_State.thy ===== *)
theory Chain_State
  imports Chain_Tx Chain_Trees "HOL-Library.List_Lexorder" "HOL-Library.Option_ord"
begin

text \<open>
  One non-finalized chain, from \<^verbatim>\<open>zebra-state/src/service/non_finalized_state/chain.rs\<close>.

  The record \<open>chain\<close> is \<^verbatim>\<open>Chain\<close> with \<^verbatim>\<open>ChainInner\<close>: its blocks by height, the height of every
  block hash, the transaction indexes (theory \<open>Chain_Tx\<close>), the trees (theory \<open>Chain_Trees\<close>), the cumulative
  work, the value pools and the block infos.  \<open>push\<close> adds a block at the tip, \<open>pop_tip\<close> removes the tip
  block when a chain is forked, \<open>pop_root\<close> removes the lowest block when it is finalized, \<open>fork\<close>
  goes back to a block of the chain and \<open>invalidate_chain_block\<close> to its parent.

  The specification of a chain is the list of its blocks with the trees and pools after each
  (\<open>chain_rep\<close>).  The properties: the chain state is determined by that list, \<open>push\<close>, \<open>pop_tip\<close>, \<open>pop_root\<close>
  and \<open>fork\<close> implement appending, removing the last, removing the first and taking a prefix, and the
  removals never panic; so a fork leaves exactly the state that the shorter chain had.
\<close>

section \<open>Blocks\<close>

record cv_block = semantic_block +
  cv_spent_outputs :: "outpoint \<rightharpoonup> ordered_utxo"
  cv_pool_change :: value_balance

definition chain_value_pool_change ::
  "profile \<Rightarrow> transaction list \<Rightarrow> (outpoint \<rightharpoonup> utxo) \<Rightarrow> amount \<Rightarrow> (value_balance_error, value_balance) outcome" where
  "chain_value_pool_change p txs utxos deferred_pool_balance_change =
     qbind (vb_zero p NegativeAllowed) (\<lambda>zero.
     qbind (try_fold (\<lambda>acc tx. qbind (tx_value_balance p utxos tx) (vb_add p NegativeAllowed acc)) zero txs) (\<lambda>tx_pool_sum.
     qbind (vb_neg p tx_pool_sum) (\<lambda>neg.
       Ok (set_deferred_amount neg deferred_pool_balance_change))))"

definition with_block_and_spent_utxos ::
  "profile \<Rightarrow> semantic_block \<Rightarrow> (outpoint \<rightharpoonup> ordered_utxo) \<Rightarrow> amount \<Rightarrow> (value_balance_error, cv_block) outcome" where
  "with_block_and_spent_utxos p b block_spent deferred_pool_balance_change =
     (let block_spent = block_spent ++ sv_new_outputs b in
      map_ok (\<lambda>change. semantic_block.extend b \<lparr>cv_spent_outputs = block_spent, cv_pool_change = change\<rparr>)
        (chain_value_pool_change p (sv_transactions b) (utxos_from_ordered_utxos block_spent) deferred_pool_balance_change))"

section \<open>The chain\<close>

record ('t, 'h) chain =
  c_network :: network
  c_blocks :: "(height, cv_block) btree_map"
  c_height_by_hash :: "bytes \<rightharpoonup> height"
  c_tx :: tx_indexes
  c_trees :: "('t, 'h) tree_state"
  c_work :: partial_cumulative_work
  c_pools :: value_balance
  c_block_info :: "(height, value_balance \<times> nat) btree_map"
  c_last_fork_height :: "height option"

text \<open>The parts a chain is used with: the build's profile, the script library and the tree libraries.\<close>

record ('t, 'h) chain_env =
  env_profile :: profile
  env_recipient :: "tx_output \<Rightarrow> output_recipient option"
  env_ops :: "('t, 'h) tree_ops"

definition addressing_of :: "('t, 'h) chain_env \<Rightarrow> network \<Rightarrow> addressing" where
  "addressing_of env net = output_address (env_recipient env) net"

definition chain_new ::
  "('t, 'h) chain_env \<Rightarrow> network \<Rightarrow> height \<Rightarrow> 't note_commitment_trees \<Rightarrow> 'h \<Rightarrow> value_balance
    \<Rightarrow> (spend_error, ('t, 'h) chain) outcome" where
  "chain_new env net finalized_tip_height nct history_tree finalized_tip_chain_value_pools =
     map_ok (\<lambda>ts. \<lparr>c_network = net, c_blocks = [], c_height_by_hash = Map.empty, c_tx = tx_indexes_default, c_trees = ts,
         c_work = 0, c_pools = finalized_tip_chain_value_pools, c_block_info = [], c_last_fork_height = None\<rparr>)
       (new_tree_state (env_ops env) finalized_tip_height nct history_tree)"

definition max_block_height :: "('t, 'h) chain \<Rightarrow> height option" where
  "max_block_height c = map_option fst (bt_last (c_blocks c))"

definition non_finalized_tip_height :: "('t, 'h) chain \<Rightarrow> ('e, height) outcome" where
  "non_finalized_tip_height c = expect (max_block_height c)"

definition non_finalized_root_height :: "('t, 'h) chain \<Rightarrow> ('e, height) outcome" where
  "non_finalized_root_height c = expect (case c_blocks c of [] \<Rightarrow> None | (h, _) # _ \<Rightarrow> Some h)"

definition non_finalized_tip_hash :: "('t, 'h) chain \<Rightarrow> ('e, bytes) outcome" where
  "non_finalized_tip_hash c = map_ok (\<lambda>(_, b). sv_hash b) (expect (bt_last (c_blocks c)))"

definition non_finalized_root_hash :: "('t, 'h) chain \<Rightarrow> ('e, bytes) outcome" where
  "non_finalized_root_hash c = expect (case c_blocks c of [] \<Rightarrow> None | (_, b) # _ \<Rightarrow> Some (sv_hash b))"

definition recent_fork_height :: "('t, 'h) chain \<Rightarrow> ('e, height option) outcome" where
  "recent_fork_height c =
     (case c_last_fork_height c of
        None \<Rightarrow> Ok None
      | Some last_fork \<Rightarrow> map_ok (\<lambda>root. if root \<le> last_fork then Some last_fork else None) (non_finalized_root_height c))"

section \<open>Updates\<close>

definition block_data_of :: "cv_block \<Rightarrow> block_data" where
  "block_data_of b = \<lparr>bd_height = sv_height b, bd_new_outputs = sv_new_outputs b, bd_spent_outputs = cv_spent_outputs b\<rparr>"

definition block_work :: "cv_block \<Rightarrow> (spend_error, work) outcome" where
  "block_work b = qbind (to_work (sv_difficulty_threshold b)) expect"

definition update_pools ::
  "profile \<Rightarrow> value_balance \<Rightarrow> height \<Rightarrow> nat \<Rightarrow> ('t, 'h) chain \<Rightarrow> (spend_error, ('t, 'h) chain) outcome" where
  "update_pools p block_value_pool_change h block_size c =
     (case add_chain_value_pool_change p (c_pools c) block_value_pool_change of
        Ok new_pools \<Rightarrow>
          Ok (c\<lparr>c_pools := new_pools,
                c_block_info := bt_insert h (new_pools, block_size mod 2 ^ 32) (c_block_info c)\<rparr>)
      | Err e \<Rightarrow> Err (AddValuePool e (c_pools c) block_value_pool_change (Some h))
      | Panic \<Rightarrow> Panic)"

definition revert_pools ::
  "profile \<Rightarrow> value_balance \<Rightarrow> height \<Rightarrow> revert_position \<Rightarrow> ('t, 'h) chain \<Rightarrow> (spend_error, ('t, 'h) chain) outcome" where
  "revert_pools p block_value_pool_change h pos c =
     qbind (if pos = Tip
            then qbind (expect_ok (vb_neg p block_value_pool_change)) (\<lambda>neg.
                   expect_ok (add_chain_value_pool_change p (c_pools c) neg))
            else Ok (c_pools c)) (\<lambda>pools.
       Ok (c\<lparr>c_pools := pools, c_block_info := bt_remove h (c_block_info c)\<rparr>))"

definition update_except_trees ::
  "('t, 'h) chain_env \<Rightarrow> cv_block \<Rightarrow> ('t, 'h) chain \<Rightarrow> (spend_error, ('t, 'h) chain) outcome" where
  "update_except_trees env b c =
     qbind (map_insert_unique (c_height_by_hash c) (sv_hash b, sv_height b)) (\<lambda>height_by_hash.
     qbind (block_work b) (\<lambda>w.
     qbind (cumulative_add (c_work c) w) (\<lambda>cumulative_work.
     qbind (try_fold (update_with_transaction (env_profile env) (addressing_of env (c_network c)) (block_data_of b)) (c_tx c)
              (numbered (sv_transactions b) (sv_transaction_hashes b))) (\<lambda>tx.
       update_pools (env_profile env) (cv_pool_change b) (sv_height b) (sv_serialized_size b)
         (c\<lparr>c_height_by_hash := height_by_hash, c_work := cumulative_work, c_tx := tx\<rparr>)))))"

text \<open>
  The trees are updated first and then, in a task of the same scope, everything else.  A panic of
  either is a panic of the update; then the error of the trees is returned before that of the rest.
\<close>

definition update_chain_tip_with_block ::
  "('t, 'h) chain_env \<Rightarrow> cv_block \<Rightarrow> ('t, 'h) chain \<Rightarrow> (spend_error, ('t, 'h) chain) outcome" where
  "update_chain_tip_with_block env b c =
     qbind (trees_for_tip (max_block_height c) (c_trees c)) (\<lambda>nct.
     let tree_result = update_trees_parallel (env_ops env) (sv_transactions b) nct;
         partial_result = update_except_trees env b c in
     if tree_result = Panic \<or> partial_result = Panic then Panic
     else
       qbind (map_err NoteCommitmentTreeError tree_result) (\<lambda>nct.
       qbind partial_result (\<lambda>c.
         map_ok (\<lambda>ts. c\<lparr>c_trees := ts\<rparr>)
           (update_trees_with (env_ops env) (c_network c) (semantic_block.truncate b) nct (c_trees c)))))"

definition push :: "('t, 'h) chain_env \<Rightarrow> cv_block \<Rightarrow> ('t, 'h) chain \<Rightarrow> (spend_error, ('t, 'h) chain) outcome" where
  "push env b c =
     map_ok (\<lambda>c. c\<lparr>c_blocks := bt_insert (sv_height b) b (c_blocks c)\<rparr>) (update_chain_tip_with_block env b c)"

definition revert_chain_with ::
  "('t, 'h) chain_env \<Rightarrow> cv_block \<Rightarrow> revert_position \<Rightarrow> ('t, 'h) chain \<Rightarrow> (spend_error, ('t, 'h) chain) outcome" where
  "revert_chain_with env b pos c =
     qbind (map_remove_present (c_height_by_hash c) (sv_hash b, sv_height b)) (\<lambda>height_by_hash.
     qbind (block_work b) (\<lambda>w.
     qbind (cumulative_sub (c_work c) w) (\<lambda>cumulative_work.
     qbind (try_fold (revert_with_transaction (env_profile env) (addressing_of env (c_network c)) (block_data_of b)) (c_tx c)
              (numbered (sv_transactions b) (sv_transaction_hashes b))) (\<lambda>tx.
     qbind (remove_trees pos (sv_height b) (max_block_height c) (c_trees c)) (\<lambda>ts.
       revert_pools (env_profile env) (cv_pool_change b) (sv_height b) pos
         (c\<lparr>c_height_by_hash := height_by_hash, c_work := cumulative_work, c_tx := tx, c_trees := ts\<rparr>))))))"

definition pop_root ::
  "('t, 'h) chain_env \<Rightarrow> ('t, 'h) chain \<Rightarrow> (spend_error, (cv_block \<times> ('t, 'h) treestate) \<times> ('t, 'h) chain) outcome" where
  "pop_root env c =
     qbind (non_finalized_root_height c) (\<lambda>h.
     qbind (expect (treestate_at h (c_trees c))) (\<lambda>st.
     qbind (expect (map_of (c_blocks c) h)) (\<lambda>b.
       map_ok (\<lambda>c. ((b, st), c))
         (revert_chain_with env b Root
           (c\<lparr>c_trees := pop_first_subtrees (ts_trees st) (c_trees c), c_blocks := bt_remove h (c_blocks c)\<rparr>)))))"

definition pop_tip :: "('t, 'h) chain_env \<Rightarrow> ('t, 'h) chain \<Rightarrow> (spend_error, ('t, 'h) chain) outcome" where
  "pop_tip env c =
     qbind (non_finalized_tip_height c) (\<lambda>h.
     qbind (expect (map_of (c_blocks c) h)) (\<lambda>b.
     let c = c\<lparr>c_blocks := bt_remove h (c_blocks c), c_trees := pop_last_subtrees h (c_trees c)\<rparr> in
     qbind (assert_that (c_blocks c \<noteq> [])) (\<lambda>_.
       revert_chain_with env b Tip c)))"

definition child_blocks :: "height \<Rightarrow> ('t, 'h) chain \<Rightarrow> cv_block list" where
  "child_blocks h c = map snd (filter (\<lambda>(h', _). h \<le> h') (c_blocks c))"

section \<open>Forks\<close>

lemma revert_keeps_blocks: "revert_chain_with env b pos c = Ok c' \<Longrightarrow> c_blocks c' = c_blocks c \<and> c_network c' = c_network c"
  by (auto simp: revert_chain_with_def revert_pools_def)

lemma pop_tip_shorter:
  assumes "pop_tip env c = Ok c'"
  shows "length (c_blocks c') < length (c_blocks c)"
proof -
  from assms obtain h b where h: "max_block_height c = Some h"
    and r: "revert_chain_with env b Tip (c\<lparr>c_blocks := bt_remove h (c_blocks c), c_trees := pop_last_subtrees h (c_trees c)\<rparr>) = Ok c'"
    by (auto simp: pop_tip_def non_finalized_tip_height_def Let_def)
  from h obtain x where "x \<in> set (c_blocks c)" "fst x = h"
    by (auto simp: max_block_height_def bt_last_def split: if_splits) (metis fst_conv last_in_set)
  then have "length (bt_remove h (c_blocks c)) < length (c_blocks c)"
    unfolding bt_remove_def by (intro length_filter_less) (auto simp: case_prod_beta)
  with revert_keeps_blocks [OF r] show ?thesis by simp
qed

function fork_loop :: "('t, 'h) chain_env \<Rightarrow> bytes \<Rightarrow> ('t, 'h) chain \<Rightarrow> (spend_error, ('t, 'h) chain) outcome" where
  "fork_loop env fork_tip c =
     (case non_finalized_tip_hash c of
        Ok tip_hash \<Rightarrow>
          if tip_hash = fork_tip then Ok c
          else
            (case pop_tip env c of
               Ok c' \<Rightarrow>
                 (case non_finalized_tip_height c' of
                    Ok h \<Rightarrow> fork_loop env fork_tip (c'\<lparr>c_last_fork_height := Some h\<rparr>)
                  | Err e \<Rightarrow> Err e
                  | Panic \<Rightarrow> Panic)
             | Err e \<Rightarrow> Err e
             | Panic \<Rightarrow> Panic)
      | Err e \<Rightarrow> Err e
      | Panic \<Rightarrow> Panic)"
  by pat_completeness auto

termination fork_loop
  by (relation "measure (\<lambda>(env, fork_tip, c). length (c_blocks c))") (auto dest: pop_tip_shorter)

declare fork_loop.simps [simp del]

definition fork :: "('t, 'h) chain_env \<Rightarrow> bytes \<Rightarrow> ('t, 'h) chain \<Rightarrow> (spend_error, ('t, 'h) chain option) outcome" where
  "fork env fork_tip c = (if c_height_by_hash c fork_tip = None then Ok None else map_ok Some (fork_loop env fork_tip c))"

definition invalidate_chain_block ::
  "('t, 'h) chain_env \<Rightarrow> bytes \<Rightarrow> ('t, 'h) chain \<Rightarrow> (spend_error, (('t, 'h) chain \<times> cv_block list) option) outcome" where
  "invalidate_chain_block env block_hash c =
     (case c_height_by_hash c block_hash of
        None \<Rightarrow> Ok None
      | Some block_height \<Rightarrow>
          qbind (fork env block_hash c) (\<lambda>forked.
          case forked of
            None \<Rightarrow> Ok None
          | Some new_chain \<Rightarrow>
              map_ok (\<lambda>new_chain. Some (new_chain\<lparr>c_last_fork_height := min (c_last_fork_height c) (Some block_height)\<rparr>,
                  child_blocks block_height c))
                (pop_tip env new_chain)))"

text \<open>The order of chains: more work first, then the greater tip hash.  The hash is only read when the work is equal.\<close>

datatype ordering = Less | Equal | Greater

definition compare_with :: "'a::linorder \<Rightarrow> 'a \<Rightarrow> ordering" where
  "compare_with x y = (if x < y then Less else if x = y then Equal else Greater)"

definition chain_cmp :: "('t, 'h) chain \<Rightarrow> ('t, 'h) chain \<Rightarrow> (spend_error, ordering) outcome" where
  "chain_cmp c other =
     (if c_work c \<noteq> c_work other then Ok (compare_with (c_work c) (c_work other))
      else
        qbind (non_finalized_tip_hash c) (\<lambda>self_hash.
        qbind (non_finalized_tip_hash other) (\<lambda>other_hash.
          Ok (compare_with self_hash other_hash))))"

section \<open>Lookups\<close>

datatype hash_or_height = Hash bytes | Height height

definition height_or_else :: "hash_or_height \<Rightarrow> (bytes \<Rightarrow> height option) \<Rightarrow> height option" where
  "height_or_else hoh f = (case hoh of Hash hash \<Rightarrow> f hash | Height h \<Rightarrow> Some h)"

definition find_block :: "('t, 'h) chain \<Rightarrow> hash_or_height \<Rightarrow> cv_block option" where
  "find_block c hoh = Option.bind (height_or_else hoh (c_height_by_hash c)) (map_of (c_blocks c))"

definition chain_transaction :: "('t, 'h) chain \<Rightarrow> bytes \<Rightarrow> ('e, (transaction \<times> height) option) outcome" where
  "chain_transaction c hash =
     (case tx_loc_by_hash (c_tx c) hash of
        None \<Rightarrow> Ok None
      | Some (h, i) \<Rightarrow>
          qbind (expect (map_of (c_blocks c) h)) (\<lambda>b.
            if i < length (sv_transactions b) then Ok (Some (sv_transactions b ! i, h)) else Panic))"

definition transaction_hashes_for_block :: "('t, 'h) chain \<Rightarrow> hash_or_height \<Rightarrow> bytes list option" where
  "transaction_hashes_for_block c hoh = map_option sv_transaction_hashes (find_block c hoh)"

definition hash_by_height :: "('t, 'h) chain \<Rightarrow> height \<Rightarrow> bytes option" where
  "hash_by_height c h = map_option sv_hash (map_of (c_blocks c) h)"

definition contains_block_hash :: "('t, 'h) chain \<Rightarrow> bytes \<Rightarrow> bool" where
  "contains_block_hash c hash \<longleftrightarrow> c_height_by_hash c hash \<noteq> None"

definition contains_block_height :: "('t, 'h) chain \<Rightarrow> height \<Rightarrow> bool" where
  "contains_block_height c h \<longleftrightarrow> map_of (c_blocks c) h \<noteq> None"

definition chain_block_info :: "('t, 'h) chain \<Rightarrow> hash_or_height \<Rightarrow> (value_balance \<times> nat) option" where
  "chain_block_info c hoh = Option.bind (height_or_else hoh (c_height_by_hash c)) (map_of (c_block_info c))"

definition created_utxo :: "('t, 'h) chain \<Rightarrow> outpoint \<Rightarrow> utxo option" where
  "created_utxo c op = map_option ordered_inner (created_utxos (c_tx c) op)"

datatype spend = Spend_OutPoint outpoint | Spend_Sprout bytes | Spend_Sapling bytes | Spend_Orchard bytes | Spend_Ironwood bytes

definition spending_transaction_hash :: "('t, 'h) chain \<Rightarrow> spend \<Rightarrow> bytes option" where
  "spending_transaction_hash c s =
     (case s of
        Spend_OutPoint op \<Rightarrow> spent_utxos (c_tx c) op
      | Spend_Sprout nf \<Rightarrow> sprout_index (nullifiers (c_tx c)) nf
      | Spend_Sapling nf \<Rightarrow> sapling_index (nullifiers (c_tx c)) nf
      | Spend_Orchard nf \<Rightarrow> orchard_index (nullifiers (c_tx c)) nf
      | Spend_Ironwood nf \<Rightarrow> ironwood_index (nullifiers (c_tx c)) nf)"

section \<open>The specification: the list of the blocks\<close>

record ('t, 'h) block_entry =
  be_block :: cv_block
  be_trees :: "('t, 'h) tree_entry"
  be_pools :: value_balance

text \<open>
  What a chain is built on: the height and the pools below its first block, and the trees of the
  finalized tip, which stay in the state until the first root is removed.
\<close>

record ('t, 'h) chain_base =
  base_network :: network
  base_height :: height
  base_trees :: "('t, 'h) tree_entry list"
  base_pools :: value_balance

definition be_height :: "('t, 'h) block_entry \<Rightarrow> height" where
  "be_height e = sv_height (be_block e)"

definition be_txs :: "('t, 'h) block_entry \<Rightarrow> (nat \<times> transaction \<times> bytes) list" where
  "be_txs e = numbered (sv_transactions (be_block e)) (sv_transaction_hashes (be_block e))"

definition be_items :: "('t, 'h) block_entry \<Rightarrow> tx_items" where
  "be_items e = items_of (block_data_of (be_block e)) (be_txs e)"

definition be_work :: "('t, 'h) block_entry \<Rightarrow> nat" where
  "be_work e = (case block_work (be_block e) of Ok w \<Rightarrow> w | _ \<Rightarrow> 0)"

definition be_info :: "('t, 'h) block_entry \<Rightarrow> height \<times> value_balance \<times> nat" where
  "be_info e = (be_height e, be_pools e, sv_serialized_size (be_block e) mod 2 ^ 32)"

definition be_ok :: "profile \<Rightarrow> ('t, 'h) block_entry \<Rightarrow> bool" where
  "be_ok p e \<longleftrightarrow> list_all (tx_data_known (block_data_of (be_block e))) (be_txs e)
     \<and> block_work (be_block e) = Ok (be_work e) \<and> vb_ok p NegativeAllowed (cv_pool_change (be_block e))"

definition chain_items :: "('t, 'h) block_entry list \<Rightarrow> tx_items" where
  "chain_items es = foldr (\<lambda>e. append_items (be_items e)) es no_items"

fun pools_path :: "profile \<Rightarrow> value_balance \<Rightarrow> ('t, 'h) block_entry list \<Rightarrow> bool" where
  "pools_path p v [] \<longleftrightarrow> True"
| "pools_path p v (e # es) \<longleftrightarrow> add_chain_value_pool_change p v (cv_pool_change (be_block e)) = Ok (be_pools e) \<and> pools_path p (be_pools e) es"

definition last_pools :: "value_balance \<Rightarrow> ('t, 'h) block_entry list \<Rightarrow> value_balance" where
  "last_pools v es = (if es = [] then v else be_pools (last es))"

definition all_trees :: "('t, 'h) chain_base \<Rightarrow> ('t, 'h) block_entry list \<Rightarrow> ('t, 'h) tree_entry list" where
  "all_trees B es = base_trees B @ map be_trees es"

definition trees_from :: "('t, 'h) chain_base \<Rightarrow> height" where
  "trees_from B = Suc (base_height B) - length (base_trees B)"

definition base_ok :: "profile \<Rightarrow> ('t, 'h) chain_base \<Rightarrow> bool" where
  "base_ok p B \<longleftrightarrow> length (base_trees B) \<le> 1 \<and> (\<forall>e \<in> set (base_trees B). no_subtrees e)
     \<and> vb_ok p NonNegative (base_pools B) \<and> vb_value (base_pools B) \<le> MAX_MONEY p"

definition chain_rep ::
  "('t, 'h) chain_env \<Rightarrow> 't counters \<Rightarrow> ('t, 'h) chain_base \<Rightarrow> ('t, 'h) block_entry list \<Rightarrow> ('t, 'h) chain \<Rightarrow> bool" where
  "chain_rep env cs B es c \<longleftrightarrow>
     c_network c = base_network B
     \<and> c_blocks c = map (\<lambda>e. (be_height e, be_block e)) es
     \<and> map be_height es = [Suc (base_height B) ..< Suc (base_height B) + length es]
     \<and> map_rep (c_height_by_hash c) (mset (map (\<lambda>e. (sv_hash (be_block e), be_height e)) es))
     \<and> tx_rep (addressing_of env (base_network B)) (c_tx c) (chain_items es)
     \<and> c_trees c = trees_of (env_ops env) (trees_from B) (all_trees B es) \<and> entries_ok cs (all_trees B es)
     \<and> c_work c = sum_list (map be_work es)
     \<and> pools_path (env_profile env) (base_pools B) es \<and> c_pools c = last_pools (base_pools B) es
     \<and> c_block_info c = map be_info es
     \<and> list_all (be_ok (env_profile env)) es"

text \<open>The moves of a chain can be reverted (see theory \<open>Chain_Tx\<close>).\<close>

definition chain_reversible :: "('t, 'h) chain_env \<Rightarrow> ('t, 'h) chain_base \<Rightarrow> ('t, 'h) block_entry list \<Rightarrow> bool" where
  "chain_reversible env B es \<longleftrightarrow> items_reversible (env_profile env) (addressing_of env (base_network B)) (chain_items es)"

subsection \<open>Facts about the specification\<close>

lemma chain_items_simps [simp]:
  "chain_items [] = no_items"
  "chain_items (e # es) = append_items (be_items e) (chain_items es)"
  by (simp_all add: chain_items_def)

lemma chain_items_append: "chain_items (xs @ ys) = append_items (chain_items xs) (chain_items ys)"
  by (induction xs) (simp_all add: append_items_assoc)

lemma pools_path_append: "pools_path p v (xs @ ys) \<longleftrightarrow> pools_path p v xs \<and> pools_path p (last_pools v xs) ys"
  by (induction xs arbitrary: v) (auto simp: last_pools_def)

lemma pools_path_ok:
  "pools_path p v es \<Longrightarrow> list_all (be_ok p) es \<Longrightarrow> vb_ok p NonNegative v \<Longrightarrow> vb_value v \<le> MAX_MONEY p \<Longrightarrow>
    vb_ok p NonNegative (last_pools v es) \<and> vb_value (last_pools v es) \<le> MAX_MONEY p"
proof (induction es arbitrary: v)
  case (Cons e es)
  have "vb_ok p NegativeAllowed (cv_pool_change (be_block e))" using Cons.prems(2) by (simp add: be_ok_def)
  moreover have "add_chain_value_pool_change p v (cv_pool_change (be_block e)) = Ok (be_pools e)" using Cons.prems(1) by simp
  ultimately have step: "\<forall>q. zatoshis (pool_of (be_pools e) q) = zatoshis (pool_of v q) + zatoshis (pool_of (cv_pool_change (be_block e)) q)
      \<and> 0 \<le> zatoshis (pool_of (be_pools e) q)" "vb_value (be_pools e) \<le> MAX_MONEY p"
    using add_chain_Ok [OF Cons.prems(3), of _ "be_pools e"] by blast+
  then have nn: "\<And>q. 0 \<le> zatoshis (pool_of (be_pools e) q)" and "vb_value (be_pools e) \<le> MAX_MONEY p" by blast+
  moreover from this have "vb_ok p NonNegative (be_pools e)" by (rule vb_ok_nonnegI)
  ultimately have "vb_ok p NonNegative (be_pools e)" "vb_value (be_pools e) \<le> MAX_MONEY p" by blast+
  with Cons.IH [of "be_pools e"] Cons.prems show ?case by (simp add: last_pools_def split: if_splits)
qed (simp add: last_pools_def)

text \<open>Subtracting a pool change that was just added.\<close>

lemma add_chain_revert:
  assumes v: "vb_ok p NonNegative v" "vb_value v \<le> MAX_MONEY p" and w: "vb_ok p NegativeAllowed w"
    and u: "add_chain_value_pool_change p v w = Ok u"
  shows "\<exists>w'. vb_neg p w = Ok w' \<and> add_chain_value_pool_change p u w' = Ok v"
proof -
  define w' where "w' = \<lparr>transparent = Amount (- zatoshis (transparent w)), sprout = Amount (- zatoshis (sprout w)),
    sapling = Amount (- zatoshis (sapling w)), orchard = Amount (- zatoshis (orchard w)),
    deferred = Amount (- zatoshis (deferred w)), ironwood = Amount (- zatoshis (ironwood w))\<rparr>"
  have neg: "pool_of w' q = Amount (- zatoshis (pool_of w q))" for q by (cases q) (simp_all add: w'_def)
  have w_q: "amount_ok p NegativeAllowed (pool_of w q)" for q by (rule vb_okD [OF w])
  have w': "vb_ok p NegativeAllowed w'" unfolding vb_ok_iff neg using w_q by (simp add: minus_le_iff)
  have "vb_neg p w = Ok w'" unfolding vb_neg_def each_pool_Ok by (simp add: neg amount_neg_eq [OF w_q])
  moreover have u': "\<forall>q. zatoshis (pool_of u q) = zatoshis (pool_of v q) + zatoshis (pool_of w q) \<and> 0 \<le> zatoshis (pool_of u q)"
    "vb_value u \<le> MAX_MONEY p" using u unfolding add_chain_Ok [OF v(1) w] by blast+
  then have "vb_ok p NonNegative u" by (intro vb_ok_nonnegI) blast+
  from add_chain_Ok [OF this w', of v] have "add_chain_value_pool_change p u w' = Ok v"
    using u' v(2) vb_okD [OF v(1)] by (auto simp: neg)
  ultimately show ?thesis by blast
qed

lemma chain_rep_heights:
  assumes "chain_rep env cs B es c"
  shows "i < length es \<Longrightarrow> be_height (es ! i) = Suc (base_height B) + i"
    and "es = xs @ e # ys \<Longrightarrow> be_height e = Suc (base_height B) + length xs"
    and "max_block_height c = (if es = [] then None else Some (base_height B + length es))"
proof -
  from assms have hs: "map be_height es = [Suc (base_height B) ..< Suc (base_height B) + length es]"
    and blocks: "c_blocks c = map (\<lambda>e. (be_height e, be_block e)) es" by (simp_all add: chain_rep_def)
  show nth: "be_height (es ! i) = Suc (base_height B) + i" if "i < length es" for i
  proof -
    have "be_height (es ! i) = map be_height es ! i" using that by simp
    also have "\<dots> = Suc (base_height B) + i" unfolding hs using that by (simp del: upt_Suc)
    finally show ?thesis .
  qed
  show "be_height e = Suc (base_height B) + length xs" if "es = xs @ e # ys"
    using nth [of "length xs"] that by (simp add: nth_append)
  show "max_block_height c = (if es = [] then None else Some (base_height B + length es))"
    using nth [of "length es - 1"] blocks by (auto simp: max_block_height_def bt_last_def last_map last_conv_nth)
qed

lemma chain_rep_unique:
  assumes "chain_rep env cs B es c" "chain_rep env cs B es c'"
  shows "c' = c\<lparr>c_last_fork_height := c_last_fork_height c'\<rparr>"
proof -
  have "c_height_by_hash c = c_height_by_hash c'" using assms unfolding chain_rep_def by (blast intro: map_rep_unique)
  moreover have "c_tx c = c_tx c'" using assms unfolding chain_rep_def by (blast intro: tx_rep_unique)
  ultimately show ?thesis using assms by (intro chain.equality) (simp_all add: chain_rep_def)
qed

lemma chain_rep_sorted: "chain_rep env cs B es c \<Longrightarrow> sorted_keys (c_blocks c) \<and> sorted_keys (c_block_info c)"
  by (simp add: chain_rep_def sorted_keys_def be_info_def comp_def del: upt_Suc)

text \<open>The trees of a chain end at its tip.\<close>

lemma trees_end:
  assumes "base_ok p B"
  shows "trees_from B + length (all_trees B es) = Suc (base_height B + length es)"
  using assms by (simp add: trees_from_def all_trees_def base_ok_def)

lemma trees_for_tip_chain:
  assumes "base_ok (env_profile env) B" "chain_rep env cs B es c" "all_trees B es = fs @ [f]"
  shows "trees_for_tip (max_block_height c) (c_trees c) = (Ok (entry_trees (trees_from B + length fs) f) :: (spend_error, _) outcome)"
proof -
  have len: "trees_from B + length fs = base_height B + length es" using trees_end [OF assms(1), of es] assms(3) by simp
  have "no_subtrees f" if "es = []" using that assms(1,3) by (auto simp: all_trees_def base_ok_def)
  then have "max_block_height c = Some (trees_from B + length fs) \<or> max_block_height c = None \<and> no_subtrees f"
    using chain_rep_heights(3) [OF assms(2)] len by simp
  from trees_for_tip_snoc [OF this] show ?thesis using assms(2,3) by (simp add: chain_rep_def)
qed

lemma update_except_trees_Ok:
  assumes "update_except_trees env b c = Ok c'"
  shows "\<exists>w pools. map_insert_unique (c_height_by_hash c) (sv_hash b, sv_height b) = (Ok (c_height_by_hash c') :: (spend_error, _) outcome)
    \<and> block_work b = Ok w
    \<and> try_fold (update_with_transaction (env_profile env) (addressing_of env (c_network c)) (block_data_of b)) (c_tx c)
        (numbered (sv_transactions b) (sv_transaction_hashes b)) = Ok (c_tx c')
    \<and> add_chain_value_pool_change (env_profile env) (c_pools c) (cv_pool_change b) = Ok pools
    \<and> c' = c\<lparr>c_height_by_hash := c_height_by_hash c', c_work := c_work c + w, c_tx := c_tx c', c_pools := pools,
        c_block_info := bt_insert (sv_height b) (pools, sv_serialized_size b mod 2 ^ 32) (c_block_info c)\<rparr>"
  using assms
  by (cases "add_chain_value_pool_change (env_profile env) (c_pools c) (cv_pool_change b)")
    (auto simp: update_except_trees_def update_pools_def cumulative_add_def split: if_splits)

subsection \<open>Pushing a block\<close>

lemma map_insert_unique_rep:
  "map_rep m M \<Longrightarrow> map_insert_unique m x = (Ok m' :: (spend_error, _) outcome) \<Longrightarrow> map_rep m' (add_mset x M)"
  by (rule unique_map.update_rep)

lemma push_Ok:
  assumes "push env b c = Ok c'" "trees_for_tip (max_block_height c) (c_trees c) = (Ok nct0 :: (spend_error, _) outcome)"
  shows "\<exists>nct c1 ts. update_trees_parallel (env_ops env) (sv_transactions b) nct0 = Ok nct \<and> update_except_trees env b c = Ok c1
    \<and> update_trees_with (env_ops env) (c_network c1) (semantic_block.truncate b) nct (c_trees c1) = Ok ts
    \<and> c' = c1\<lparr>c_trees := ts, c_blocks := bt_insert (sv_height b) b (c_blocks c1)\<rparr>"
  using assms by (auto simp: push_def update_chain_tip_with_block_def Let_def split: if_splits)

lemma push_trees:
  assumes ops: "ops_ok (env_ops env) cs" and base: "base_ok (env_profile env) B" and rep: "chain_rep env cs B es c"
    and fs: "all_trees B es = fs @ [f]" and h: "sv_height b = Suc (base_height B + length es)" "sv_height b \<le> HEIGHT_MAX"
    and b: "block_coinbase_height (sv_transactions b) = Some (sv_height b)"
    and nct: "update_trees_parallel (env_ops env) (sv_transactions b) (entry_trees (trees_from B + length fs) f) = Ok nct"
    and ts: "update_trees_with (env_ops env) net (semantic_block.truncate b) nct (c_trees c) = Ok ts"
  shows "\<exists>e'. ts = trees_of (env_ops env) (trees_from B) (all_trees B es @ [e']) \<and> entries_ok cs (all_trees B es @ [e'])"
proof -
  have len: "sv_height b = trees_from B + Suc (length fs)" using trees_end [OF base, of es] h(1) fs by simp
  have tb: "sv_height (semantic_block.truncate b) = sv_height b" "sv_transactions (semantic_block.truncate b) = sv_transactions b"
    by (simp_all add: semantic_block.truncate_def)
  from rep have entries: "entries_ok cs (fs @ [f])" and trees: "c_trees c = trees_of (env_ops env) (trees_from B) (fs @ [f])"
    by (simp_all add: chain_rep_def fs)
  show ?thesis
    using update_trees_append [OF ops entries len h(2) tb(1) _ _ ts [unfolded trees]] b nct by (simp add: tb(2) fs)
qed

lemma push_rep:
  assumes ops: "ops_ok (env_ops env) cs" and base: "base_ok (env_profile env) B" and rep: "chain_rep env cs B es c"
    and ne: "all_trees B es \<noteq> []" and h: "sv_height b = Suc (base_height B + length es)" "sv_height b \<le> HEIGHT_MAX"
    and b: "block_coinbase_height (sv_transactions b) = Some (sv_height b)" "vb_ok (env_profile env) NegativeAllowed (cv_pool_change b)"
    and push: "push env b c = Ok c'"
  shows "\<exists>e. be_block e = b \<and> chain_rep env cs B (es @ [e]) c'"
proof -
  obtain fs f where fs: "all_trees B es = fs @ [f]" using ne by (meson rev_exhaust)
  from push_Ok [OF push trees_for_tip_chain [OF base rep fs]] obtain nct c1 ts where
    nct: "update_trees_parallel (env_ops env) (sv_transactions b) (entry_trees (trees_from B + length fs) f) = Ok nct"
    and c1: "update_except_trees env b c = Ok c1"
    and ts: "update_trees_with (env_ops env) (c_network c1) (semantic_block.truncate b) nct (c_trees c1) = Ok ts"
    and c': "c' = c1\<lparr>c_trees := ts, c_blocks := bt_insert (sv_height b) b (c_blocks c1)\<rparr>" by blast
  from update_except_trees_Ok [OF c1] obtain w new_pools where
    hash: "map_insert_unique (c_height_by_hash c) (sv_hash b, sv_height b) = (Ok (c_height_by_hash c1) :: (spend_error, _) outcome)"
    and w: "block_work b = Ok w"
    and tx: "try_fold (update_with_transaction (env_profile env) (addressing_of env (c_network c)) (block_data_of b)) (c_tx c)
        (numbered (sv_transactions b) (sv_transaction_hashes b)) = Ok (c_tx c1)"
    and pl: "add_chain_value_pool_change (env_profile env) (c_pools c) (cv_pool_change b) = Ok new_pools"
    and c1_eq: "c1 = c\<lparr>c_height_by_hash := c_height_by_hash c1, c_work := c_work c + w, c_tx := c_tx c1, c_pools := new_pools,
        c_block_info := bt_insert (sv_height b) (new_pools, sv_serialized_size b mod 2 ^ 32) (c_block_info c)\<rparr>" by blast
  have same: "c_network c1 = c_network c" "c_trees c1 = c_trees c" "c_blocks c1 = c_blocks c" "c_work c1 = c_work c + w"
    "c_pools c1 = new_pools" "c_block_info c1 = bt_insert (sv_height b) (new_pools, sv_serialized_size b mod 2 ^ 32) (c_block_info c)"
    by (subst c1_eq, simp)+
  from push_trees [OF ops base rep fs h b(1) nct ts [unfolded same(2)]] obtain t where
    t: "ts = trees_of (env_ops env) (trees_from B) (all_trees B es @ [t])" "entries_ok cs (all_trees B es @ [t])" by blast
  define e where "e = \<lparr>be_block = b, be_trees = t, be_pools = new_pools\<rparr>"
  have "map_rep (c_height_by_hash c1) (add_mset (sv_hash b, sv_height b) (mset (map (\<lambda>e. (sv_hash (be_block e), be_height e)) es)))"
    using map_insert_unique_rep [OF _ hash] rep by (simp add: chain_rep_def)
  moreover have "tx_rep (addressing_of env (base_network B)) (c_tx c1) (append_items (chain_items es) (be_items e))
      \<and> list_all (tx_data_known (block_data_of b)) (be_txs e)"
    using update_with_transactions_rep [OF _ tx, of "chain_items es"] rep by (simp add: chain_rep_def be_items_def be_txs_def e_def)
  moreover have "bt_insert (sv_height b) b (c_blocks c) = c_blocks c @ [(sv_height b, b)]"
    "bt_insert (sv_height b) (new_pools, sv_serialized_size b mod 2 ^ 32) (c_block_info c)
      = c_block_info c @ [(sv_height b, new_pools, sv_serialized_size b mod 2 ^ 32)]"
    using chain_rep_sorted [OF rep] chain_rep_heights(1) [OF rep] rep h(1)
    by (auto intro!: bt_insert_last simp: chain_rep_def be_info_def in_set_conv_nth)
  moreover have "be_height e = Suc (base_height B + length es)" using h(1) by (simp add: be_height_def e_def)
  ultimately have "chain_rep env cs B (es @ [e]) c'"
    using rep same t pl w b(2) h(1)
    by (auto simp: chain_rep_def c' all_trees_def chain_items_append pools_path_append last_pools_def be_info_def be_work_def
        be_ok_def be_txs_def be_height_def e_def)
  then show ?thesis by (intro exI [of _ e]) (simp add: e_def)
qed

subsection \<open>Removing a block\<close>

lemma map_remove_present_rep:
  "map_rep m (add_mset x M) \<Longrightarrow> \<exists>m'. map_remove_present m x = (Ok m' :: (spend_error, _) outcome) \<and> map_rep m' M"
  by (rule unique_map.revert_rep) simp_all

lemma revert_chain_rep:
  assumes hash: "map_rep (c_height_by_hash c) (add_mset (sv_hash (be_block e), be_height e) M)"
    and e: "be_ok (env_profile env) e" "be_work e \<le> c_work c"
    and tx: "tx_rep (addressing_of env (c_network c)) (c_tx c) (append_items it (be_items e))"
    and rev: "items_reversible (env_profile env) (addressing_of env (c_network c)) (append_items it (be_items e))"
    and trees: "remove_trees pos (be_height e) (max_block_height c) (c_trees c) = (Ok ts :: (spend_error, _) outcome)"
    and tip: "pos = Tip \<Longrightarrow> vb_ok (env_profile env) NonNegative v \<and> vb_value v \<le> MAX_MONEY (env_profile env)
      \<and> add_chain_value_pool_change (env_profile env) v (cv_pool_change (be_block e)) = Ok (c_pools c)"
    and root: "pos = Root \<Longrightarrow> c_pools c = v"
  shows "\<exists>hm tx'. revert_chain_with env (be_block e) pos c
      = Ok (c\<lparr>c_height_by_hash := hm, c_work := c_work c - be_work e, c_tx := tx', c_trees := ts, c_pools := v,
          c_block_info := bt_remove (be_height e) (c_block_info c)\<rparr>)
    \<and> map_rep hm M \<and> tx_rep (addressing_of env (c_network c)) tx' it"
proof -
  from map_remove_present_rep [OF hash] obtain hm where hm: "map_rep hm M"
    "map_remove_present (c_height_by_hash c) (sv_hash (be_block e), sv_height (be_block e)) = (Ok hm :: (spend_error, _) outcome)"
    by (auto simp: be_height_def)
  from e have w: "block_work (be_block e) = Ok (be_work e)"
    and known: "list_all (tx_data_known (block_data_of (be_block e))) (be_txs e)"
    and change: "vb_ok (env_profile env) NegativeAllowed (cv_pool_change (be_block e))" by (simp_all add: be_ok_def)
  from revert_with_transactions_rep [OF tx [unfolded be_items_def] known rev [unfolded be_items_def]] obtain tx' where
    tx': "try_fold (revert_with_transaction (env_profile env) (addressing_of env (c_network c)) (block_data_of (be_block e))) (c_tx c) (be_txs e) = Ok tx'"
    "tx_rep (addressing_of env (c_network c)) tx' it" by blast
  have pools: "revert_pools (env_profile env) (cv_pool_change (be_block e)) (be_height e) pos d
      = Ok (d\<lparr>c_pools := v, c_block_info := bt_remove (be_height e) (c_block_info d)\<rparr>)" if "c_pools d = c_pools c" for d :: "('a, 'b) chain"
  proof (cases pos)
    case Tip
    with tip add_chain_revert [OF _ _ change, of v "c_pools c"] obtain w' where
      "vb_neg (env_profile env) (cv_pool_change (be_block e)) = Ok w'"
      "add_chain_value_pool_change (env_profile env) (c_pools c) w' = Ok v" by blast
    with Tip that show ?thesis by (simp add: revert_pools_def)
  qed (use root that in \<open>simp add: revert_pools_def\<close>)
  show ?thesis using hm tx' w e(2) trees
    by (intro exI [of _ hm] exI [of _ tx']) (simp add: revert_chain_with_def be_height_def [symmetric] be_txs_def [symmetric] cumulative_sub_def pools)
qed

lemma chain_rep_distinct:
  assumes "chain_rep env cs B (xs @ e # ys) c"
  shows "be_height e \<notin> be_height ` set xs" "be_height e \<notin> be_height ` set ys"
proof -
  have "distinct (map be_height (xs @ e # ys))" using assms by (simp add: chain_rep_def del: map_append upt_Suc)
  then show "be_height e \<notin> be_height ` set xs" "be_height e \<notin> be_height ` set ys" by auto
qed

lemma bt_remove_entries:
  "h \<notin> be_height ` set zs \<Longrightarrow> bt_remove h (map (\<lambda>e. (be_height e, f e)) zs) = map (\<lambda>e. (be_height e, f e)) zs"
  by (intro bt_remove_absent) auto

lemma entries_ok_append:
  assumes "entries_ok cs (xs @ ys)"
  shows "entries_ok cs xs" "entries_ok cs ys"
  using assms by (auto simp: entries_ok_def image_Un sapling_pairs_def orchard_pairs_def ironwood_pairs_def counted_append intro: counted_weaken)

lemma chain_rep_block:
  assumes "chain_rep env cs B (xs @ e # ys) c"
  shows "map_of (c_blocks c) (be_height e) = Some (be_block e)"
    and "bt_remove (be_height e) (c_blocks c) = map (\<lambda>e. (be_height e, be_block e)) (xs @ ys)"
    and "bt_remove (be_height e) (c_block_info c) = map be_info (xs @ ys)"
proof -
  note d = chain_rep_distinct [OF assms]
  from assms have blocks: "c_blocks c = map (\<lambda>e. (be_height e, be_block e)) (xs @ e # ys)"
    and info: "c_block_info c = map (\<lambda>e. (be_height e, be_pools e, sv_serialized_size (be_block e) mod 2 ^ 32)) (xs @ e # ys)"
    by (simp_all add: chain_rep_def be_info_def [abs_def])
  have "map_of (map (\<lambda>e. (be_height e, be_block e)) xs) (be_height e) = None" using d(1) by (auto simp: map_of_eq_None_iff)
  then show "map_of (c_blocks c) (be_height e) = Some (be_block e)" unfolding blocks by (simp add: map_add_def)
  show "bt_remove (be_height e) (c_blocks c) = map (\<lambda>e. (be_height e, be_block e)) (xs @ ys)"
    unfolding blocks by (simp add: bt_remove_entries d)
  show "bt_remove (be_height e) (c_block_info c) = map be_info (xs @ ys)"
    unfolding info be_info_def [abs_def] by (simp add: bt_remove_entries d)
qed

lemma pop_tip_rep:
  assumes ops: "ops_ok (env_ops env) cs" and base: "base_ok (env_profile env) B" and rep: "chain_rep env cs B (es @ [e]) c"
    and ne: "es \<noteq> []" and rev: "chain_reversible env B (es @ [e])"
  shows "\<exists>c'. pop_tip env c = Ok c' \<and> chain_rep env cs B es c' \<and> c_last_fork_height c' = c_last_fork_height c"
proof -
  let ?h = "be_height e" and ?ts = "trees_of (env_ops env) (trees_from B) (all_trees B es)"
  define d where "d = c\<lparr>c_blocks := bt_remove ?h (c_blocks c), c_trees := pop_last_subtrees ?h (c_trees c)\<rparr>"
  from rep have blocks: "c_blocks c = map (\<lambda>e. (be_height e, be_block e)) (es @ [e])" by (simp add: chain_rep_def)
  have h: "?h = Suc (base_height B + length es)" using chain_rep_heights(2) [OF rep, of es e "[]"] by simp
  have tip: "max_block_height c = Some ?h" using chain_rep_heights(3) [OF rep] h by simp
  have tree_h: "?h = trees_from B + length (all_trees B es)" using trees_end [OF base, of es] h by simp
  have pools: "pools_path (env_profile env) (base_pools B) es"
    "add_chain_value_pool_change (env_profile env) (last_pools (base_pools B) es) (cv_pool_change (be_block e)) = Ok (c_pools d)"
    using rep by (simp_all add: chain_rep_def pools_path_append last_pools_def d_def)
  have d_blocks: "c_blocks d = map (\<lambda>e. (be_height e, be_block e)) es" using chain_rep_block(2) [OF rep] by (simp add: d_def)
  have d_tip: "t \<le> trees_from B + length (all_trees B es)" if "max_block_height d = Some t" for t
    using that ne chain_rep_heights(1) [OF rep, of "length es - 1"]
    by (auto simp: max_block_height_def bt_last_def d_blocks last_map last_conv_nth nth_append tree_h [symmetric] h)
  have "remove_trees Tip ?h (max_block_height d) (c_trees d) = (Ok ?ts :: (spend_error, _) outcome)"
    using remove_trees_tip [OF ops _ d_tip, of "be_trees e"] rep by (simp add: d_def chain_rep_def all_trees_def tree_h)
  moreover have "vb_ok (env_profile env) NonNegative (last_pools (base_pools B) es)
      \<and> vb_value (last_pools (base_pools B) es) \<le> MAX_MONEY (env_profile env)"
    using pools_path_ok [OF pools(1)] rep base by (simp add: chain_rep_def base_ok_def)
  ultimately obtain hm tx' where
    r: "revert_chain_with env (be_block e) Tip d = Ok (d\<lparr>c_height_by_hash := hm, c_work := c_work d - be_work e, c_tx := tx',
        c_trees := ?ts, c_pools := last_pools (base_pools B) es, c_block_info := bt_remove ?h (c_block_info d)\<rparr>)"
    "map_rep hm (mset (map (\<lambda>e. (sv_hash (be_block e), be_height e)) es))"
    "tx_rep (addressing_of env (c_network d)) tx' (chain_items es)"
    using revert_chain_rep [of d e "mset (map (\<lambda>e. (sv_hash (be_block e), be_height e)) es)" env "chain_items es" Tip ?ts
        "last_pools (base_pools B) es"] rep rev pools(2)
    by (auto simp: d_def chain_rep_def chain_reversible_def chain_items_append)
  have "pop_tip env c = revert_chain_with env (be_block e) Tip d"
    using ne d_blocks chain_rep_block(1) [OF rep] by (simp add: pop_tip_def non_finalized_tip_height_def tip Let_def d_def assert_that_def)
  with r show ?thesis
    using rep chain_rep_block(3) [OF rep] d_blocks pools(1) entries_ok_append(1) [of cs "all_trees B es" "[be_trees e]"]
    by (auto simp: d_def chain_rep_def all_trees_def)
qed

text \<open>The base of a chain whose first block was finalized.\<close>

definition base_after :: "('t, 'h) chain_base \<Rightarrow> ('t, 'h) block_entry \<Rightarrow> ('t, 'h) chain_base" where
  "base_after B e = B\<lparr>base_height := be_height e, base_trees := [], base_pools := be_pools e\<rparr>"

lemma base_after_ok:
  assumes "base_ok (env_profile env) B" "chain_rep env cs B (e # es) c"
  shows "base_ok (env_profile env) (base_after B e)"
  using assms pools_path_ok [of "env_profile env" "base_pools B" "[e]"]
  by (simp add: base_ok_def base_after_def chain_rep_def last_pools_def)

lemma pop_root_rep:
  assumes ops: "ops_ok (env_ops env) cs" and base: "base_ok (env_profile env) B" and rep: "chain_rep env cs B (e # es) c"
    and h_max: "be_height e < HEIGHT_MAX" and rev: "chain_reversible env B (e # es)"
  shows "\<exists>c'. pop_root env c = Ok ((be_block e, \<lparr>ts_trees = entry_trees (be_height e) (be_trees e), ts_history = te_history (be_trees e)\<rparr>), c')
    \<and> chain_rep env cs (base_after B e) es c' \<and> c_last_fork_height c' = c_last_fork_height c"
proof -
  let ?h = "be_height e" and ?ts = "trees_of (env_ops env) (Suc (be_height e)) (map be_trees es)"
  let ?st = "\<lparr>ts_trees = entry_trees ?h (be_trees e), ts_history = te_history (be_trees e)\<rparr>"
  define d where "d = c\<lparr>c_trees := pop_first_subtrees (entry_trees ?h (be_trees e)) (c_trees c), c_blocks := bt_remove ?h (c_blocks c)\<rparr>"
  have rep': "chain_rep env cs B ([] @ e # es) c" using rep by simp
  from rep have blocks: "c_blocks c = (?h, be_block e) # map (\<lambda>e. (be_height e, be_block e)) es"
    and trees: "c_trees c = trees_of (env_ops env) (trees_from B) (base_trees B @ be_trees e # map be_trees es)"
    by (simp_all add: chain_rep_def all_trees_def)
  have h: "?h = Suc (base_height B)" using chain_rep_heights(2) [OF rep', of "[]" e es] by simp
  have tree_h: "?h = trees_from B + length (base_trees B)" using trees_end [OF base, of "[]"] h by (simp add: all_trees_def)
  have d_blocks: "c_blocks d = map (\<lambda>e. (be_height e, be_block e)) es" using chain_rep_block(2) [OF rep'] by (simp add: d_def)
  have d_tip: "max_block_height d = (if map be_trees es = [] then None else Some (?h + length (map be_trees es)))"
    using chain_rep_heights(3) [OF rep] h blocks
    by (auto simp: max_block_height_def bt_last_def d_blocks last_map split: if_splits)
  have "\<forall>u \<in> set (base_trees B). no_subtrees u" using base by (simp add: base_ok_def)
  moreover have "entries_ok cs (base_trees B @ be_trees e # map be_trees es)" using rep by (simp add: chain_rep_def all_trees_def)
  ultimately have "remove_trees Root ?h (if map be_trees es = [] then None else Some (?h + length (map be_trees es)))
      (pop_first_subtrees (entry_trees ?h (be_trees e)) (c_trees c)) = (Ok ?ts :: (spend_error, _) outcome)"
    unfolding trees by (intro remove_trees_root [OF ops _ _ tree_h h_max])
  then have "remove_trees Root ?h (max_block_height d) (c_trees d) = (Ok ?ts :: (spend_error, _) outcome)"
    unfolding d_tip by (simp add: d_def)
  then obtain hm tx' where
    r: "revert_chain_with env (be_block e) Root d = Ok (d\<lparr>c_height_by_hash := hm, c_work := c_work d - be_work e, c_tx := tx',
        c_trees := ?ts, c_pools := c_pools c, c_block_info := bt_remove ?h (c_block_info d)\<rparr>)"
    "map_rep hm (mset (map (\<lambda>e. (sv_hash (be_block e), be_height e)) es))"
    "tx_rep (addressing_of env (c_network d)) tx' (chain_items es)"
    using revert_chain_rep [of d e "mset (map (\<lambda>e. (sv_hash (be_block e), be_height e)) es)" env "chain_items es" Root ?ts "c_pools c"] rep rev
    by (auto simp: d_def chain_rep_def chain_reversible_def append_items_commute)
  have "treestate_at ?h (c_trees c) = Some ?st"
    using treestate_nth [of "trees_from B" "base_trees B" "env_ops env" "be_trees e" "map be_trees es"] by (simp add: trees tree_h)
  then have "pop_root env c = map_ok (\<lambda>c. ((be_block e, ?st), c)) (revert_chain_with env (be_block e) Root d)"
    using blocks by (simp add: pop_root_def non_finalized_root_height_def d_def)
  with r show ?thesis
    using rep chain_rep_block(3) [OF rep'] d_blocks entries_ok_append(2) [of cs "base_trees B @ [be_trees e]" "map be_trees es"] h
    by (auto simp: d_def chain_rep_def all_trees_def base_after_def trees_from_def last_pools_def upt_conv_Cons simp del: upt_Suc)
qed

subsection \<open>Forking a chain\<close>

lemma chain_reversible_prefix: "chain_reversible env B (xs @ ys) \<Longrightarrow> chain_reversible env B xs"
  unfolding chain_reversible_def chain_items_append by (rule items_reversible_append(1))

lemma chain_rep_tip_hash:
  "chain_rep env cs B (es @ [e]) c \<Longrightarrow> non_finalized_tip_hash c = Ok (sv_hash (be_block e))"
  "chain_rep env cs B (es @ [e]) c \<Longrightarrow> non_finalized_tip_height c = Ok (be_height e)"
  by (simp_all add: non_finalized_tip_hash_def non_finalized_tip_height_def max_block_height_def chain_rep_def bt_last_def)

lemma chain_rep_hash:
  assumes "chain_rep env cs B es c"
  shows "distinct (map (\<lambda>e. sv_hash (be_block e)) es)" "e \<in> set es \<Longrightarrow> c_height_by_hash c (sv_hash (be_block e)) = Some (be_height e)"
    "c_height_by_hash c hash = None \<longleftrightarrow> hash \<notin> (\<lambda>e. sv_hash (be_block e)) ` set es"
proof -
  from assms have rep: "map_rep (c_height_by_hash c) (mset (map (\<lambda>e. (sv_hash (be_block e), be_height e)) es))"
    by (simp add: chain_rep_def)
  have "count (mset (map (\<lambda>e. sv_hash (be_block e)) es)) k \<le> 1" for k
    using map_repD(2) [OF rep, of k] by (simp add: multiset.map_comp comp_def)
  then have "count (mset (map (\<lambda>e. sv_hash (be_block e)) es)) k = (if k \<in> set (map (\<lambda>e. sv_hash (be_block e)) es) then 1 else 0)" for k
    using count_greater_zero_iff [of "mset (map (\<lambda>e. sv_hash (be_block e)) es)" k] le_antisym [of _ "1::nat"]
    by (metis Suc_leI One_nat_def not_in_iff set_mset_mset)
  then show "distinct (map (\<lambda>e. sv_hash (be_block e)) es)" unfolding distinct_count_atmost_1 by blast
  show "e \<in> set es \<Longrightarrow> c_height_by_hash c (sv_hash (be_block e)) = Some (be_height e)"
    unfolding map_repD(1) [OF rep] by auto
  show "c_height_by_hash c hash = None \<longleftrightarrow> hash \<notin> (\<lambda>e. sv_hash (be_block e)) ` set es"
    unfolding map_rep_None [OF rep] by (auto simp: image_iff)
qed

lemma chain_rep_fork_height: "chain_rep env cs B es (c\<lparr>c_last_fork_height := f\<rparr>) = chain_rep env cs B es c"
  by (simp add: chain_rep_def)

lemma fork_loop_rep:
  assumes ops: "ops_ok (env_ops env) cs" and base: "base_ok (env_profile env) B"
  shows "chain_rep env cs B (xs @ e # ys) c \<Longrightarrow> chain_reversible env B (xs @ e # ys) \<Longrightarrow>
    \<exists>c'. fork_loop env (sv_hash (be_block e)) c = Ok c' \<and> chain_rep env cs B (xs @ [e]) c'
      \<and> c_last_fork_height c' = (if ys = [] then c_last_fork_height c else Some (be_height e))"
proof (induction ys arbitrary: c rule: rev_induct)
  case Nil
  then show ?case by (subst fork_loop.simps) (simp add: chain_rep_tip_hash(1) [of env cs B xs e c])
next
  case (snoc y ys)
  let ?es = "xs @ e # ys"
  have rep: "chain_rep env cs B (?es @ [y]) c" and rev: "chain_reversible env B (?es @ [y])" using snoc.prems by simp_all
  have other: "sv_hash (be_block y) \<noteq> sv_hash (be_block e)" using chain_rep_hash(1) [OF rep] by auto
  from pop_tip_rep [OF ops base rep _ rev] obtain c1 where
    c1: "pop_tip env c = Ok c1" "chain_rep env cs B ?es c1" "c_last_fork_height c1 = c_last_fork_height c" by auto
  obtain zs z where zs: "?es = zs @ [z]" by (metis append_is_Nil_conv list.distinct(1) rev_exhaust)
  define c2 where "c2 = c1\<lparr>c_last_fork_height := Some (be_height z)\<rparr>"
  have c2: "chain_rep env cs B ?es c2" using c1(2) by (simp add: c2_def chain_rep_fork_height)
  have "fork_loop env (sv_hash (be_block e)) c = fork_loop env (sv_hash (be_block e)) c2"
    using c1 other by (subst fork_loop.simps) (simp add: zs c2_def chain_rep_tip_hash(1) [OF rep] chain_rep_tip_hash(2) [of env cs B zs z c1])
  moreover have "z = e" if "ys = []" using zs that by simp
  ultimately show ?case
    using snoc.IH [OF c2 chain_reversible_prefix [OF rev]] by (auto simp: c2_def)
qed

lemma fork_rep:
  assumes "ops_ok (env_ops env) cs" "base_ok (env_profile env) B" "chain_rep env cs B (xs @ e # ys) c"
    "chain_reversible env B (xs @ e # ys)"
  shows "\<exists>c'. fork env (sv_hash (be_block e)) c = Ok (Some c') \<and> chain_rep env cs B (xs @ [e]) c'
      \<and> c_last_fork_height c' = (if ys = [] then c_last_fork_height c else Some (be_height e))"
  using fork_loop_rep [OF assms] chain_rep_hash(2) [OF assms(3), of e] by (auto simp: fork_def)

lemma fork_absent:
  assumes "chain_rep env cs B es c" "\<forall>e \<in> set es. sv_hash (be_block e) \<noteq> fork_tip"
  shows "fork env fork_tip c = Ok None"
  using chain_rep_hash(3) [OF assms(1)] assms(2) by (auto simp: fork_def)

subsection \<open>A new chain and its blocks\<close>

text \<open>The base of a new chain, and what the state relies on when it pushes the blocks \<open>bs\<close> onto a chain at height \<open>h\<close>.\<close>

definition new_base :: "network \<Rightarrow> height \<Rightarrow> 't note_commitment_trees \<Rightarrow> 'h \<Rightarrow> value_balance \<Rightarrow> ('t, 'h) chain_base" where
  "new_base net h nct history v = \<lparr>base_network = net, base_height = h,
     base_trees = [\<lparr>te_sprout = nct_sprout nct, te_sapling = nct_sapling nct, te_orchard = nct_orchard nct,
       te_ironwood = nct_ironwood nct, te_history = history, te_sapling_sub = None, te_orchard_sub = None, te_ironwood_sub = None\<rparr>],
     base_pools = v\<rparr>"

definition blocks_follow :: "profile \<Rightarrow> height \<Rightarrow> cv_block list \<Rightarrow> bool" where
  "blocks_follow p h bs \<longleftrightarrow> map sv_height bs = [Suc h ..< Suc h + length bs] \<and> h + length bs \<le> HEIGHT_MAX
     \<and> list_all (\<lambda>b. block_coinbase_height (sv_transactions b) = Some (sv_height b) \<and> vb_ok p NegativeAllowed (cv_pool_change b)) bs"

abbreviation push_all :: "('t, 'h) chain_env \<Rightarrow> ('t, 'h) chain \<Rightarrow> cv_block list \<Rightarrow> (spend_error, ('t, 'h) chain) outcome" where
  "push_all env c bs \<equiv> try_fold (\<lambda>c b. push env b c) c bs"

definition pools_fit :: "profile \<Rightarrow> value_balance \<Rightarrow> bool" where
  "pools_fit p v \<longleftrightarrow> vb_ok p NonNegative v \<and> vb_value v \<le> MAX_MONEY p"

lemma chain_new_rep:
  assumes "ops_ok (env_ops env) cs" "h \<le> HEIGHT_MAX" "nct_sprout nct \<in> sprout_domain cs" "pools_fit (env_profile env) v"
    "chain_new env net h nct history v = Ok c"
  shows "chain_rep env cs (new_base net h nct history v) [] c" "base_ok (env_profile env) (new_base net h nct history v)"
  using assms(4,5) new_tree_state_eq [OF assms(1-3), of history, where 'e = spend_error] tx_rep_default
  by (auto simp: chain_new_def chain_rep_def new_base_def base_ok_def pools_fit_def all_trees_def trees_from_def last_pools_def
      entries_ok_def sapling_pairs_def orchard_pairs_def ironwood_pairs_def no_subtrees_def map_rep_empty assms(3))

lemma push_all_rep:
  assumes ops: "ops_ok (env_ops env) cs" and base: "base_ok (env_profile env) B"
  shows "chain_rep env cs B es c \<Longrightarrow> all_trees B es \<noteq> [] \<Longrightarrow> blocks_follow (env_profile env) (base_height B + length es) bs \<Longrightarrow>
    push_all env c bs = Ok c' \<Longrightarrow> \<exists>fs. map be_block fs = bs \<and> chain_rep env cs B (es @ fs) c'"
proof (induction bs arbitrary: es c)
  case (Cons b bs)
  from Cons.prems(4) obtain c1 where c1: "push env b c = Ok c1" "push_all env c1 bs = Ok c'" by auto
  have b: "sv_height b = Suc (base_height B + length es)" "sv_height b \<le> HEIGHT_MAX"
    "block_coinbase_height (sv_transactions b) = Some (sv_height b)" "vb_ok (env_profile env) NegativeAllowed (cv_pool_change b)"
    and bs: "blocks_follow (env_profile env) (base_height B + length (es @ [e])) bs" for e :: "('a, 'b) block_entry"
    using Cons.prems(3) by (auto simp: blocks_follow_def upt_conv_Cons simp del: upt_Suc)
  from push_rep [OF ops base Cons.prems(1,2) b c1(1)] obtain e where e: "be_block e = b" "chain_rep env cs B (es @ [e]) c1" by blast
  from Cons.IH [OF e(2) _ bs c1(2)] obtain fs where "map be_block fs = bs" "chain_rep env cs B ((es @ [e]) @ fs) c'"
    by (auto simp: all_trees_def)
  with e(1) show ?case by (intro exI [of _ "e # fs"]) simp
qed simp

end
