(* ===== verification/Chain_Contract.thy ===== *)
theory Chain_Contract
  imports Chain_State
begin

text \<open>
  What a non-finalized chain promises to the state service, over the operations of theory
  \<open>Chain_State\<close>: blocks are pushed onto a new chain one after the other, and then

  \<^item> no transaction hash, no spent output and no nullifier of any pool occurs twice in the blocks,
    the work is the sum of the works of the blocks and the pools are the finalized pools plus the
    changes of the blocks;
  \<^item> a fork gives the state of the chain that was never extended past the fork point;
  \<^item> finalizing the root gives its block and trees and leaves the chain of the remaining blocks;
  \<^item> blocks and transactions are found again by hash and by height.
\<close>

section \<open>What the blocks of a chain spend\<close>

definition indexed_txs :: "cv_block list \<Rightarrow> (nat \<times> transaction \<times> bytes) list" where
  "indexed_txs bs = concat (map (\<lambda>b. numbered (sv_transactions b) (sv_transaction_hashes b)) bs)"

definition chain_spends :: "cv_block list \<Rightarrow> outpoint list" where
  "chain_spends bs = concat (map (\<lambda>(_, tx, _). List.map_filter input_outpoint (inputs tx)) (indexed_txs bs))"

definition revealed_by :: "(transaction \<Rightarrow> bytes list) \<Rightarrow> cv_block list \<Rightarrow> bytes list" where
  "revealed_by nfs bs = concat (map (\<lambda>(_, tx, _). nfs tx) (indexed_txs bs))"

lemma map_rep_distinct:
  assumes "map_rep m (mset xs)"
  shows "distinct (map fst xs)"
proof -
  have "count (mset (map fst xs)) k \<le> 1" for k using map_repD(2) [OF assms, of k] by simp
  then have "count (mset (map fst xs)) k = (if k \<in> set (map fst xs) then 1 else 0)" for k
    using le_antisym [of _ "1::nat"] by (metis One_nat_def Suc_leI count_greater_zero_iff not_in_iff set_mset_mset)
  then show ?thesis unfolding distinct_count_atmost_1 by blast
qed

lemma items_of_fields:
  "it_spent (items_of bd xs) = mset (concat (map (\<lambda>(i, tx, hash). spent_items hash (inputs tx)) xs))"
  "it_locs (items_of bd xs) = mset (map (\<lambda>(i, tx, hash). (hash, bd_height bd, i)) xs)"
  "it_sprout (items_of bd xs) = mset (concat (map (\<lambda>(i, tx, hash). revealed hash (sprout_nullifiers tx)) xs))"
  "it_sapling (items_of bd xs) = mset (concat (map (\<lambda>(i, tx, hash). revealed hash (sapling_nullifiers tx)) xs))"
  "it_orchard (items_of bd xs) = mset (concat (map (\<lambda>(i, tx, hash). revealed hash (orchard_nullifiers tx)) xs))"
  "it_ironwood (items_of bd xs) = mset (concat (map (\<lambda>(i, tx, hash). revealed hash (ironwood_nullifiers tx)) xs))"
  by (induction xs) (auto simp: items_of_def items_of_tx_def no_items_def)

lemma chain_items_fields:
  "it_spent (chain_items es) = mset (concat (map (\<lambda>(i, tx, hash). spent_items hash (inputs tx)) (indexed_txs (map be_block es))))"
  "it_locs (chain_items es) = mset (concat (map (\<lambda>e. map (\<lambda>(i, tx, hash). (hash, be_height e, i)) (be_txs e)) es))"
  "it_sprout (chain_items es) = mset (concat (map (\<lambda>(i, tx, hash). revealed hash (sprout_nullifiers tx)) (indexed_txs (map be_block es))))"
  "it_sapling (chain_items es) = mset (concat (map (\<lambda>(i, tx, hash). revealed hash (sapling_nullifiers tx)) (indexed_txs (map be_block es))))"
  "it_orchard (chain_items es) = mset (concat (map (\<lambda>(i, tx, hash). revealed hash (orchard_nullifiers tx)) (indexed_txs (map be_block es))))"
  "it_ironwood (chain_items es) = mset (concat (map (\<lambda>(i, tx, hash). revealed hash (ironwood_nullifiers tx)) (indexed_txs (map be_block es))))"
  by (induction es) (auto simp: no_items_def be_items_def items_of_fields indexed_txs_def be_txs_def block_data_of_def be_height_def)

lemma fst_concat:
  "map fst (concat (map (\<lambda>(i, tx, hash). spent_items hash (inputs tx)) xs)) = concat (map (\<lambda>(i, tx, hash). List.map_filter input_outpoint (inputs tx)) xs)"
  "map fst (concat (map (\<lambda>(i, tx, hash). revealed hash (nfs tx)) xs)) = concat (map (\<lambda>(i, tx, hash). nfs tx) xs)"
  by (induction xs) (auto simp: spent_items_def revealed_def comp_def)

lemma chain_rep_no_double_spend:
  assumes "chain_rep env cs B es c"
  shows "distinct (map (\<lambda>(_, _, hash). hash) (indexed_txs (map be_block es)))" "distinct (chain_spends (map be_block es))"
    "distinct (revealed_by sprout_nullifiers (map be_block es))" "distinct (revealed_by sapling_nullifiers (map be_block es))"
    "distinct (revealed_by orchard_nullifiers (map be_block es))" "distinct (revealed_by ironwood_nullifiers (map be_block es))"
proof -
  have tx: "tx_rep (addressing_of env (base_network B)) (c_tx c) (chain_items es)" using assms by (simp add: chain_rep_def)
  note rep = tx [unfolded tx_rep_def chain_items_fields]
  have hashes: "map fst (concat (map (\<lambda>e. map (\<lambda>(i, tx, hash). (hash, be_height e, i)) (be_txs e)) es))
      = map (\<lambda>(_, _, hash). hash) (indexed_txs (map be_block es))"
    by (induction es) (auto simp: indexed_txs_def be_txs_def)
  show "distinct (map (\<lambda>(_, _, hash). hash) (indexed_txs (map be_block es)))" unfolding hashes [symmetric] using rep by (blast intro: map_rep_distinct)
  show "distinct (chain_spends (map be_block es))"
    unfolding chain_spends_def fst_concat(1) [symmetric] using rep by (blast intro: map_rep_distinct)
  show "distinct (revealed_by sprout_nullifiers (map be_block es))" "distinct (revealed_by sapling_nullifiers (map be_block es))"
    "distinct (revealed_by orchard_nullifiers (map be_block es))" "distinct (revealed_by ironwood_nullifiers (map be_block es))"
    unfolding revealed_by_def fst_concat(2) [symmetric] using rep by (blast intro: map_rep_distinct)+
qed

text \<open>The pools after the blocks.\<close>

lemma pools_path_sum:
  assumes "pools_path p v es" "list_all (be_ok p) es" "vb_ok p NonNegative v" "vb_value v \<le> MAX_MONEY p"
  shows "zatoshis (pool_of (last_pools v es) q) = zatoshis (pool_of v q) + (\<Sum>b \<leftarrow> map be_block es. zatoshis (pool_of (cv_pool_change b) q))"
  using assms
proof (induction es arbitrary: v)
  case (Cons e es)
  have e: "vb_ok p NegativeAllowed (cv_pool_change (be_block e))" "add_chain_value_pool_change p v (cv_pool_change (be_block e)) = Ok (be_pools e)"
    using Cons.prems by (simp_all add: be_ok_def)
  have "vb_ok p NonNegative (be_pools e) \<and> vb_value (be_pools e) \<le> MAX_MONEY p"
    using pools_path_ok [of p v "[e]"] Cons.prems by (simp add: last_pools_def)
  moreover have "zatoshis (pool_of (be_pools e) q) = zatoshis (pool_of v q) + zatoshis (pool_of (cv_pool_change (be_block e)) q)"
    using e(2) unfolding add_chain_Ok [OF Cons.prems(3) e(1)] by blast
  ultimately show ?case using Cons.IH [of "be_pools e"] Cons.prems by (simp add: last_pools_def split: if_splits)
qed (simp add: last_pools_def)

section \<open>Chains built by pushing blocks\<close>

text \<open>What the state relies on when it starts a chain at the finalized tip.\<close>

definition start_ok :: "('t, 'h) chain_env \<Rightarrow> 't counters \<Rightarrow> height \<Rightarrow> 't note_commitment_trees \<Rightarrow> value_balance \<Rightarrow> bool" where
  "start_ok env cs h nct v \<longleftrightarrow>
     ops_ok (env_ops env) cs \<and> h \<le> HEIGHT_MAX \<and> nct_sprout nct \<in> sprout_domain cs \<and> pools_fit (env_profile env) v"

definition blocks_reversible :: "('t, 'h) chain_env \<Rightarrow> network \<Rightarrow> cv_block list \<Rightarrow> bool" where
  "blocks_reversible env net bs \<longleftrightarrow> items_reversible (env_profile env) (addressing_of env net)
     (foldr (\<lambda>b. append_items (items_of (block_data_of b) (numbered (sv_transactions b) (sv_transaction_hashes b)))) bs no_items)"

lemma blocks_reversible_eq: "chain_reversible env B es \<longleftrightarrow> blocks_reversible env (base_network B) (map be_block es)"
proof -
  have "chain_items es = foldr (\<lambda>b. append_items (items_of (block_data_of b) (numbered (sv_transactions b) (sv_transaction_hashes b)))) (map be_block es) no_items"
    by (induction es) (simp_all add: be_items_def be_txs_def)
  then show ?thesis by (simp add: chain_reversible_def blocks_reversible_def)
qed

lemma pushed_chain_rep:
  assumes "start_ok env cs h nct v" "chain_new env net h nct history v = Ok c0" "blocks_follow (env_profile env) h bs"
    "push_all env c0 bs = Ok c"
  shows "\<exists>es. map be_block es = bs \<and> chain_rep env cs (new_base net h nct history v) es c"
    "base_ok (env_profile env) (new_base net h nct history v)" "ops_ok (env_ops env) cs"
proof -
  let ?B = "new_base net h nct history v"
  from assms(1) have ok: "ops_ok (env_ops env) cs" "h \<le> HEIGHT_MAX" "nct_sprout nct \<in> sprout_domain cs" "pools_fit (env_profile env) v"
    by (simp_all add: start_ok_def)
  note new = chain_new_rep [OF ok assms(2)]
  have "all_trees ?B [] \<noteq> []" "base_height ?B = h" by (simp_all add: new_base_def all_trees_def)
  with push_all_rep [OF ok(1) new(2,1)] assms(3,4) show "\<exists>es. map be_block es = bs \<and> chain_rep env cs ?B es c" by fastforce
  show "base_ok (env_profile env) ?B" "ops_ok (env_ops env) cs" by (fact new(2)) (fact ok(1))
qed

lemma blocks_follow_append: "blocks_follow p h (xs @ ys) \<longleftrightarrow> blocks_follow p h xs \<and> blocks_follow p (h + length xs) ys"
proof -
  have "[Suc h ..< Suc h + (length xs + length ys)] = [Suc h ..< Suc h + length xs] @ [Suc (h + length xs) ..< Suc (h + length xs) + length ys]"
    using upt_add_eq_append [of "Suc h" "Suc h + length xs" "length ys"] by (simp add: add.assoc del: upt_Suc)
  then show ?thesis unfolding blocks_follow_def length_append map_append
    by (auto simp: append_eq_append_conv simp del: upt_Suc)
qed

text \<open>
  C1. In a chain of blocks that were pushed onto a new chain no transaction hash, no transparent
  output and no nullifier of any shielded pool is used twice, in one block or in different blocks.
  The work of the chain is the sum of the works of its blocks, each pool is the finalized pool plus
  the changes of the blocks and the tip is as many blocks above the finalized tip as were pushed.
\<close>

theorem chain_no_double_spend:
  assumes "start_ok env cs h nct v" "chain_new env net h nct history v = Ok c0" "blocks_follow (env_profile env) h bs"
    "push_all env c0 bs = Ok c"
  shows "distinct (map (\<lambda>(_, _, hash). hash) (indexed_txs bs)) \<and> distinct (chain_spends bs)
    \<and> distinct (revealed_by sprout_nullifiers bs) \<and> distinct (revealed_by sapling_nullifiers bs)
    \<and> distinct (revealed_by orchard_nullifiers bs) \<and> distinct (revealed_by ironwood_nullifiers bs)
    \<and> c_work c = (\<Sum>b \<leftarrow> bs. case block_work b of Ok w \<Rightarrow> w | _ \<Rightarrow> 0)
    \<and> (\<forall>q. zatoshis (pool_of (c_pools c) q) = zatoshis (pool_of v q) + (\<Sum>b \<leftarrow> bs. zatoshis (pool_of (cv_pool_change b) q)))
    \<and> max_block_height c = (if bs = [] then None else Some (h + length bs))"
proof -
  from pushed_chain_rep(1) [OF assms] obtain es where bs: "map be_block es = bs" and rep: "chain_rep env cs (new_base net h nct history v) es c"
    by blast
  have "c_work c = (\<Sum>b \<leftarrow> bs. case block_work b of Ok w \<Rightarrow> w | _ \<Rightarrow> 0)"
    using rep unfolding bs [symmetric] by (simp add: chain_rep_def be_work_def [abs_def] comp_def)
  moreover have "zatoshis (pool_of (c_pools c) q) = zatoshis (pool_of v q) + (\<Sum>b \<leftarrow> bs. zatoshis (pool_of (cv_pool_change b) q))" for q
    using pools_path_sum [of "env_profile env" v es q] rep assms(1) bs by (simp add: chain_rep_def new_base_def start_ok_def pools_fit_def)
  moreover have "max_block_height c = (if bs = [] then None else Some (h + length bs))"
    using chain_rep_heights(3) [OF rep] bs by (auto simp: new_base_def)
  ultimately show ?thesis using chain_rep_no_double_spend [OF rep, unfolded bs] by blast
qed

text \<open>
  C15. Forking a chain at one of its blocks gives exactly the state of the chain to which only the
  blocks up to that one were pushed, except that the height of the fork is noted when it is not at the tip: every index,
  tree, pool and counter is as if the later blocks had never been there.  This holds, and forking never fails or panics, if
  the moves of all blocks can be reverted (\<open>blocks_reversible\<close>: the values moved at any one address add up to at most the
  money range).
\<close>

theorem fork_is_replay:
  assumes "start_ok env cs h nct v" "chain_new env net h nct history v = Ok c0"
    "blocks_follow (env_profile env) h (xs @ b # ys)" "push_all env c0 (xs @ b # ys) = Ok c" "blocks_reversible env net (xs @ b # ys)"
  shows "\<exists>c'. push_all env c0 (xs @ [b]) = Ok c'
    \<and> fork env (sv_hash b) c = Ok (Some (c'\<lparr>c_last_fork_height := (if ys = [] then c_last_fork_height c else Some (sv_height b))\<rparr>))"
proof -
  let ?B = "new_base net h nct history v"
  from assms(4) obtain c1 where c1: "push_all env c0 (xs @ [b]) = Ok c1" "push_all env c1 ys = Ok c"
    using try_fold_append_Ok [of "\<lambda>c b. push env b c" c0 "xs @ [b]" ys c] by auto
  have follow: "blocks_follow (env_profile env) h (xs @ [b])" "blocks_follow (env_profile env) (h + length (xs @ [b])) ys"
    using assms(3) blocks_follow_append [of "env_profile env" h "xs @ [b]" ys] by auto
  note base = pushed_chain_rep(2,3) [OF assms(1,2) follow(1) c1(1)]
  from pushed_chain_rep(1) [OF assms(1,2) follow(1) c1(1)] obtain us where us: "map be_block us = xs @ [b]" "chain_rep env cs ?B us c1" by blast
  then obtain ws e where ws: "us = ws @ [e]" "be_block e = b" by (cases us rule: rev_cases) auto
  have "all_trees ?B us \<noteq> []" "base_height ?B + length us = h + length (xs @ [b])"
    using arg_cong [OF us(1), of length] by (simp_all add: all_trees_def new_base_def)
  with push_all_rep [OF base(2,1) us(2) _ _ c1(2)] follow(2) obtain fs where
    fs: "map be_block fs = ys" "chain_rep env cs ?B (ws @ e # fs) c" by (auto simp: ws)
  have "chain_reversible env ?B (ws @ e # fs)" using assms(5) us(1) fs(1) by (simp add: blocks_reversible_eq ws new_base_def)
  from fork_rep [OF base(2,1) fs(2) this] obtain c' where c': "fork env (sv_hash b) c = Ok (Some c')" "chain_rep env cs ?B (ws @ [e]) c'"
    "c_last_fork_height c' = (if fs = [] then c_last_fork_height c else Some (be_height e))" by (auto simp: ws)
  have "c' = c1\<lparr>c_last_fork_height := c_last_fork_height c'\<rparr>" using chain_rep_unique us(2) c'(2) by (auto simp: ws)
  with c' c1(1) fs(1) ws(2) show ?thesis by (auto simp: be_height_def)
qed

text \<open>
  C3. A chain implements the list of its blocks with their trees and pools: pushing a block appends
  it, removing the tip removes the last block, finalizing the root removes the first block and
  returns it with the trees after it, and forking keeps the blocks up to the fork point, or answers
  that the fork point is unknown.  If the moves of all blocks can be reverted together, removing the tip never fails when
  another block is left, finalizing the root never fails below the maximal height, and forking never fails.
\<close>

theorem chain_refines_list:
  assumes "ops_ok (env_ops env) cs" "base_ok (env_profile env) B" "chain_rep env cs B es c" "chain_reversible env B es"
  shows "(\<forall>b c'. all_trees B es \<noteq> [] \<and> blocks_follow (env_profile env) (base_height B + length es) [b] \<and> push env b c = Ok c'
        \<longrightarrow> (\<exists>e. be_block e = b \<and> chain_rep env cs B (es @ [e]) c'))
    \<and> (\<forall>xs e. es = xs @ [e] \<and> xs \<noteq> [] \<longrightarrow> (\<exists>c'. pop_tip env c = Ok c' \<and> chain_rep env cs B xs c'))
    \<and> (\<forall>e xs. es = e # xs \<and> be_height e < HEIGHT_MAX \<longrightarrow>
        (\<exists>c'. pop_root env c = Ok ((be_block e, \<lparr>ts_trees = entry_trees (be_height e) (be_trees e), ts_history = te_history (be_trees e)\<rparr>), c')
          \<and> base_ok (env_profile env) (base_after B e) \<and> chain_rep env cs (base_after B e) xs c'))
    \<and> (\<forall>xs e ys. es = xs @ e # ys \<longrightarrow> (\<exists>c'. fork env (sv_hash (be_block e)) c = Ok (Some c') \<and> chain_rep env cs B (xs @ [e]) c'))
    \<and> (\<forall>hash. hash \<notin> (\<lambda>e. sv_hash (be_block e)) ` set es \<longrightarrow> fork env hash c = Ok None)"
proof (intro conjI allI impI; (elim conjE)?)
  fix b c'
  assume "all_trees B es \<noteq> []" "blocks_follow (env_profile env) (base_height B + length es) [b]" "push env b c = Ok c'"
  with push_rep [OF assms(1-3)] show "\<exists>e. be_block e = b \<and> chain_rep env cs B (es @ [e]) c'" by (simp add: blocks_follow_def)
next
  fix xs e assume "es = xs @ [e]" "xs \<noteq> []"
  with pop_tip_rep [OF assms(1,2), of xs e c] assms(3,4) show "\<exists>c'. pop_tip env c = Ok c' \<and> chain_rep env cs B xs c'" by blast
next
  fix e xs assume "es = e # xs" "be_height e < HEIGHT_MAX"
  with pop_root_rep [OF assms(1,2), of e xs c] base_after_ok [OF assms(2), of cs e xs c] assms(3,4)
  show "\<exists>c'. pop_root env c = Ok ((be_block e, \<lparr>ts_trees = entry_trees (be_height e) (be_trees e), ts_history = te_history (be_trees e)\<rparr>), c')
      \<and> base_ok (env_profile env) (base_after B e) \<and> chain_rep env cs (base_after B e) xs c'" by blast
next
  fix xs e ys assume "es = xs @ e # ys"
  with fork_rep [OF assms(1,2), of xs e ys c] assms(3,4)
  show "\<exists>c'. fork env (sv_hash (be_block e)) c = Ok (Some c') \<and> chain_rep env cs B (xs @ [e]) c'" by blast
next
  fix hash assume "hash \<notin> (\<lambda>e. sv_hash (be_block e)) ` set es"
  then show "fork env hash c = Ok None" by (intro fork_absent [OF assms(3)]) auto
qed

section \<open>Lookups\<close>

lemma chain_rep_lookup:
  assumes "chain_rep env cs B es c" "e \<in> set es"
  shows "find_block c (Hash (sv_hash (be_block e))) = Some (be_block e)" "find_block c (Height (be_height e)) = Some (be_block e)"
    "hash_by_height c (be_height e) = Some (sv_hash (be_block e))"
proof -
  from assms(2) obtain xs ys where "es = xs @ e # ys" by (meson split_list)
  with chain_rep_block(1) [of env cs B xs e ys c] chain_rep_hash(2) [OF assms] assms(1)
  show "find_block c (Hash (sv_hash (be_block e))) = Some (be_block e)" "find_block c (Height (be_height e)) = Some (be_block e)"
    "hash_by_height c (be_height e) = Some (sv_hash (be_block e))"
    by (simp_all add: find_block_def height_or_else_def hash_by_height_def)
qed

lemma chain_rep_transaction:
  assumes rep: "chain_rep env cs B es c" and e: "e \<in> set es" "(i, tx, hash) \<in> set (be_txs e)"
  shows "chain_transaction c hash = (Ok (Some (tx, be_height e)) :: (spend_error, _) outcome)"
proof -
  from rep have "map_rep (tx_loc_by_hash (c_tx c)) (it_locs (chain_items es))" by (simp add: chain_rep_def tx_rep_def)
  then have "tx_loc_by_hash (c_tx c) hash = Some (be_height e, i)"
    unfolding chain_items_fields by (subst map_repD(1), assumption) (use e in force)
  moreover from e(1) obtain xs ys where "es = xs @ e # ys" by (meson split_list)
  then have "map_of (c_blocks c) (be_height e) = Some (be_block e)" using chain_rep_block(1) rep by blast
  moreover have "i < length (sv_transactions (be_block e)) \<and> sv_transactions (be_block e) ! i = tx"
    using e(2) by (auto simp: be_txs_def numbered_def in_set_zip)
  ultimately show ?thesis by (simp add: chain_transaction_def)
qed

lemma map_rep_concat:
  "map_rep m (mset (concat (map g xs))) \<Longrightarrow> x \<in> set xs \<Longrightarrow> (k, v) \<in> set (g x) \<Longrightarrow> m k = Some v"
  by (auto simp: map_repD(1))

lemma chain_rep_spends:
  assumes rep: "chain_rep env cs B es c" and x: "(i, tx, hash) \<in> set (indexed_txs (map be_block es))"
  shows "op \<in> set (List.map_filter input_outpoint (inputs tx)) \<Longrightarrow> spending_transaction_hash c (Spend_OutPoint op) = Some hash"
    "nf \<in> set (sprout_nullifiers tx) \<Longrightarrow> spending_transaction_hash c (Spend_Sprout nf) = Some hash"
    "nf \<in> set (sapling_nullifiers tx) \<Longrightarrow> spending_transaction_hash c (Spend_Sapling nf) = Some hash"
    "nf \<in> set (orchard_nullifiers tx) \<Longrightarrow> spending_transaction_hash c (Spend_Orchard nf) = Some hash"
    "nf \<in> set (ironwood_nullifiers tx) \<Longrightarrow> spending_transaction_hash c (Spend_Ironwood nf) = Some hash"
proof -
  from rep have tx: "tx_rep (addressing_of env (base_network B)) (c_tx c) (chain_items es)" by (simp add: chain_rep_def)
  note rep' = tx [unfolded tx_rep_def chain_items_fields]
  note at = map_rep_concat [OF _ x]
  show "op \<in> set (List.map_filter input_outpoint (inputs tx)) \<Longrightarrow> spending_transaction_hash c (Spend_OutPoint op) = Some hash"
    unfolding spending_transaction_hash_def spend.case using rep' by (elim conjE, intro at) (auto simp: spent_items_def)
  show "nf \<in> set (sprout_nullifiers tx) \<Longrightarrow> spending_transaction_hash c (Spend_Sprout nf) = Some hash"
    unfolding spending_transaction_hash_def spend.case using rep' by (elim conjE, intro at) (auto simp: revealed_def)
  show "nf \<in> set (sapling_nullifiers tx) \<Longrightarrow> spending_transaction_hash c (Spend_Sapling nf) = Some hash"
    unfolding spending_transaction_hash_def spend.case using rep' by (elim conjE, intro at) (auto simp: revealed_def)
  show "nf \<in> set (orchard_nullifiers tx) \<Longrightarrow> spending_transaction_hash c (Spend_Orchard nf) = Some hash"
    unfolding spending_transaction_hash_def spend.case using rep' by (elim conjE, intro at) (auto simp: revealed_def)
  show "nf \<in> set (ironwood_nullifiers tx) \<Longrightarrow> spending_transaction_hash c (Spend_Ironwood nf) = Some hash"
    unfolding spending_transaction_hash_def spend.case using rep' by (elim conjE, intro at) (auto simp: revealed_def)
qed

text \<open>
  C28. Everything that was pushed is found again.  Each block is found by its hash and by its height,
  each transaction by its hash, with the height of its block, and for each output that is spent and
  each nullifier that is revealed the index names the transaction that does it.
\<close>

theorem chain_lookup_exact:
  assumes "start_ok env cs h nct v" "chain_new env net h nct history v = Ok c0" "blocks_follow (env_profile env) h bs"
    "push_all env c0 bs = Ok c" "b \<in> set bs"
  shows "find_block c (Hash (sv_hash b)) = Some b \<and> find_block c (Height (sv_height b)) = Some b
    \<and> hash_by_height c (sv_height b) = Some (sv_hash b)
    \<and> (\<forall>i tx hash. (i, tx, hash) \<in> set (numbered (sv_transactions b) (sv_transaction_hashes b)) \<longrightarrow>
        chain_transaction c hash = (Ok (Some (tx, sv_height b)) :: (spend_error, _) outcome)
        \<and> (\<forall>op \<in> set (List.map_filter input_outpoint (inputs tx)). spending_transaction_hash c (Spend_OutPoint op) = Some hash)
        \<and> (\<forall>nf \<in> set (sprout_nullifiers tx). spending_transaction_hash c (Spend_Sprout nf) = Some hash)
        \<and> (\<forall>nf \<in> set (sapling_nullifiers tx). spending_transaction_hash c (Spend_Sapling nf) = Some hash)
        \<and> (\<forall>nf \<in> set (orchard_nullifiers tx). spending_transaction_hash c (Spend_Orchard nf) = Some hash)
        \<and> (\<forall>nf \<in> set (ironwood_nullifiers tx). spending_transaction_hash c (Spend_Ironwood nf) = Some hash))"
proof -
  from pushed_chain_rep(1) [OF assms(1-4)] obtain es where bs: "map be_block es = bs" and rep: "chain_rep env cs (new_base net h nct history v) es c"
    by blast
  from assms(5) obtain e where e: "e \<in> set es" "be_block e = b" using bs by auto
  have txs: "chain_transaction c hash = (Ok (Some (tx, sv_height b)) :: (spend_error, _) outcome) \<and> (i, tx, hash) \<in> set (indexed_txs (map be_block es))"
    if "(i, tx, hash) \<in> set (numbered (sv_transactions b) (sv_transaction_hashes b))" for i tx hash
    using chain_rep_transaction [OF rep e(1), of i tx hash] that e by (auto simp: be_txs_def be_height_def indexed_txs_def)
  note look = chain_rep_lookup [OF rep e(1), unfolded be_height_def e(2)] and spends = chain_rep_spends [OF rep conjunct2 [OF txs]]
  show ?thesis by (intro conjI allI impI ballI; (rule look | rule spends conjunct1 [OF txs], assumption+))
qed

lemma update_trees_with_succeeds:
  fixes ops :: "('t, 'h) tree_ops"
  assumes "ops_ok ops cs" "entries_ok cs (es @ [e])" "nct_sprout nct \<in> sprout_domain cs" and h: "sv_height b = h0 + Suc (length es)" "sv_height b \<le> HEIGHT_MAX"
    and hist: "push_history ops net b \<lparr>sapling_root = sapling_root_of ops (nct_sapling nct), orchard_root = orchard_root_of ops (nct_orchard nct),
      ironwood_root = orchard_root_of ops (nct_ironwood nct)\<rparr> (te_history e) = Ok x"
  shows "\<exists>ts. update_trees_with ops net b nct (trees_of ops h0 (es @ [e])) = Ok ts"
proof -
  define e' where "e' = \<lparr>te_sprout = nct_sprout nct, te_sapling = nct_sapling nct, te_orchard = nct_orchard nct,
    te_ironwood = nct_ironwood nct, te_history = te_history e, te_sapling_sub = None, te_orchard_sub = None, te_ironwood_sub = None\<rparr>"
  have len: "sv_height b = h0 + length (es @ [e])" and dom: "te_sprout ` set ((es @ [e]) @ [e']) \<subseteq> sprout_domain cs"
    using h(1) assms(2,3) by (auto simp: entries_ok_def e'_def)
  note added = add_note_trees_snoc [OF assms(1) len h(2) dom, where 'e = spend_error, unfolded e'_def tree_entry.simps]
  have absent: "map_of (zip [h0 ..< h0 + length (es @ [e])] (map te_history (es @ [e]))) (sv_height b) = None"
    using history_snoc(2) [of h0 "map te_history (es @ [e])"] len by simp
  have last: "bt_last (zip [h0 ..< h0 + length (es @ [e])] (map te_history (es @ [e]))) = Some (h0 + length es, te_history e)"
    using upt_zip_snoc [of "map te_history es" "length es" h0 "te_history e"] by (simp add: bt_last_def)
  show ?thesis
    unfolding update_trees_with_def added qbind.simps Let_def
    using hist absent last
    by (simp add: trees_of_def dense_index_def tree_for_tip_dense history_block_commitment_tree_def add_history_tree_def assert_that_def
        del: upt_Suc)
qed

lemma push_succeeds:
  assumes ops: "ops_ok (env_ops env) cs" and base: "base_ok (env_profile env) B" and rep: "chain_rep env cs B es c"
    and fs: "all_trees B es = fs @ [f]" and h: "sv_height b = Suc (base_height B + length es)" "sv_height b \<le> HEIGHT_MAX"
    and nct: "update_trees_parallel (env_ops env) (sv_transactions b) (entry_trees (base_height B + length es) f) = Ok nct"
    and c1: "update_except_trees env b c = Ok c1"
    and hist: "push_history (env_ops env) (base_network B) (semantic_block.truncate b)
      \<lparr>sapling_root = sapling_root_of (env_ops env) (nct_sapling nct), orchard_root = orchard_root_of (env_ops env) (nct_orchard nct),
      ironwood_root = orchard_root_of (env_ops env) (nct_ironwood nct)\<rparr> (te_history f) = Ok x"
  shows "\<exists>ts. push env b c = Ok (c1\<lparr>c_trees := ts, c_blocks := bt_insert (sv_height b) b (c_blocks c1)\<rparr>)"
proof -
  have len: "trees_from B + length fs = base_height B + length es" using trees_end [OF base, of es] fs by simp
  have tip: "trees_for_tip (max_block_height c) (c_trees c) = (Ok (entry_trees (base_height B + length es) f) :: (spend_error, _) outcome)"
    using trees_for_tip_chain [OF base rep fs] by (simp add: len)
  from rep have entries: "entries_ok cs (fs @ [f])" and trees: "c_trees c = trees_of (env_ops env) (trees_from B) (fs @ [f])" and net: "c_network c = base_network B"
    by (simp_all add: chain_rep_def fs)
  have same: "c_trees c1 = c_trees c" "c_network c1 = c_network c"
    using update_except_trees_Ok [OF c1] by (metis chain.select_convs chain.surjective chain.update_convs)+
  have "nct_sprout nct \<in> sprout_domain cs"
    using update_trees_parallel_sprout [OF nct] ops entries by (auto simp: ops_ok_def entries_ok_def entry_trees_def)
  from update_trees_with_succeeds [OF ops entries this, of "semantic_block.truncate b" "trees_from B"] h hist len
  obtain ts where "update_trees_with (env_ops env) (c_network c1) (semantic_block.truncate b) nct (c_trees c1) = Ok ts"
    by (auto simp: semantic_block.truncate_def same trees net)
  then show ?thesis using tip nct c1 by (intro exI [of _ ts]) (simp add: push_def update_chain_tip_with_block_def Let_def)
qed

section \<open>A chain of two blocks\<close>

text \<open>Libraries that count: a tree is the number of its notes.\<close>

definition counting_env :: "(nat, nat) chain_env" where
  "counting_env = \<lparr>env_profile = Wcash_profile, env_recipient = (\<lambda>_. None),
     env_ops = \<lparr>sprout_root_of = (\<lambda>n. replicate n 0), sapling_root_of = (\<lambda>n. replicate n 0), orchard_root_of = (\<lambda>n. replicate n 0),
       update_sprout = (\<lambda>t cms. Ok (t + length cms)), update_sapling = (\<lambda>t cms. Ok (t + length cms, None)),
       update_orchard = (\<lambda>t cms. Ok (t + length cms, None)), push_history = (\<lambda>_ _ _ n. Ok (Suc n)),
       history_root = (\<lambda>n. Some (replicate n 0))\<rparr>\<rparr>"

definition counting_counters :: "nat counters" where
  "counting_counters = \<lparr>sapling_count = (\<lambda>_. 0), orchard_count = (\<lambda>_. 0), sprout_domain = UNIV\<rparr>"

definition empty_trees :: "nat note_commitment_trees" where
  "empty_trees = \<lparr>nct_sprout = 0, nct_sapling = 0, nct_sapling_subtree = None, nct_orchard = 0, nct_orchard_subtree = None,
     nct_ironwood = 0, nct_ironwood_subtree = None\<rparr>"

definition zero_pools :: value_balance where
  "zero_pools = \<lparr>transparent = Amount 0, sprout = Amount 0, sapling = Amount 0, orchard = Amount 0, deferred = Amount 0, ironwood = Amount 0\<rparr>"

text \<open>The block of height \<open>n\<close> has a coinbase transaction and one that spends the output \<open>n\<close> of an older transaction.\<close>

definition spending_block :: "nat \<Rightarrow> cv_block" where
  "spending_block n = semantic_block.extend
     (sample_block\<lparr>sv_transactions := [sample_payment\<lparr>inputs := [Coinbase n [] 0], outputs := []\<rparr>,
          sample_payment\<lparr>inputs := [PrevOut (OutPoint [9] n) [] 0], outputs := []\<rparr>],
        sv_hash := [of_nat n], sv_height := n, sv_new_outputs := Map.empty, sv_transaction_hashes := [[of_nat n, 0], [of_nat n, 1]],
        sv_difficulty_threshold := 0x1f07ffff\<rparr>)
     \<lparr>cv_spent_outputs = (\<lambda>_. Some sample_output), cv_pool_change = zero_pools\<rparr>"

definition counting_chain :: "(nat, nat) chain" where
  "counting_chain = \<lparr>c_network = live_wcash_mainnet, c_blocks = [], c_height_by_hash = Map.empty, c_tx = tx_indexes_default,
     c_trees = trees_of (env_ops counting_env) 0 (base_trees (new_base live_wcash_mainnet 0 empty_trees (0 :: nat) zero_pools)),
     c_work = 0, c_pools = zero_pools, c_block_info = [], c_last_fork_height = None\<rparr>"

lemma counting_start: "start_ok counting_env counting_counters 0 empty_trees zero_pools"
proof -
  have "inj_on (\<lambda>n. replicate n (0 :: byte)) UNIV" by (rule inj_onI) (metis length_replicate)
  then show ?thesis
    by (simp add: start_ok_def ops_ok_def counting_env_def counting_counters_def empty_trees_def zero_pools_def pools_fit_def
        update_counts_def vb_ok_def vb_value_def MAX_MONEY_def COIN_def pools_def i64_max_def)
qed

lemma counting_new: "chain_new counting_env live_wcash_mainnet 0 empty_trees (0 :: nat) zero_pools = Ok counting_chain"
proof -
  have "ops_ok (env_ops counting_env) counting_counters" "(0 :: nat) \<le> HEIGHT_MAX" "nct_sprout empty_trees \<in> sprout_domain counting_counters"
    using counting_start by (simp_all add: start_ok_def)
  from new_tree_state_eq [OF this, of "0 :: nat", where 'e = spend_error] show ?thesis
    by (simp add: chain_new_def counting_chain_def new_base_def)
qed

lemma spending_block_fields [simp]:
  "sv_height (spending_block n) = n" "sv_hash (spending_block n) = [of_nat n]" "cv_pool_change (spending_block n) = zero_pools"
  by (simp_all add: spending_block_def semantic_block.defs)

lemma spending_follow: "blocks_follow Wcash_profile 0 [spending_block 1, spending_block 2]"
  by (simp add: blocks_follow_def upt_rec HEIGHT_MAX_def u32_max_def spending_block_def semantic_block.defs block_coinbase_height_def
      zero_pools_def vb_ok_def MAX_MONEY_def COIN_def pools_def i64_max_def)

lemma spending_work: "block_work (spending_block n) = Ok 8192"
proof -
  have "target_value 0x1f07ffff = Some (0x07ffff * 256 ^ 28)" by (simp add: target_value_def u256_limit_def)
  then show ?thesis
    by (simp add: block_work_def spending_block_def semantic_block.defs sample_block_def work_value_def u256_limit_def u128_max_def)
qed

lemma spending_except:
  assumes "c_height_by_hash c [of_nat n] = None" "tx_loc_by_hash (c_tx c) [of_nat n, 0] = None" "tx_loc_by_hash (c_tx c) [of_nat n, 1] = None"
    "spent_utxos (c_tx c) (OutPoint [9] n) = None" "c_pools c = zero_pools" "c_work c \<le> 8192"
  shows "\<exists>c1. update_except_trees counting_env (spending_block n) c = Ok c1 \<and> c_blocks c1 = c_blocks c \<and> c_pools c1 = zero_pools
    \<and> c_work c1 = c_work c + 8192 \<and> c_height_by_hash c1 = (c_height_by_hash c)([of_nat n] \<mapsto> n)
    \<and> tx_loc_by_hash (c_tx c1) = (tx_loc_by_hash (c_tx c))([of_nat n, 0] \<mapsto> (n, 0), [of_nat n, 1] \<mapsto> (n, 1))
    \<and> spent_utxos (c_tx c1) = (spent_utxos (c_tx c))(OutPoint [9] n \<mapsto> [of_nat n, 1])"
proof -
  have ok: "vb_ok Wcash_profile C zero_pools" "vb_value zero_pools \<le> MAX_MONEY Wcash_profile" for C
    by (cases C; simp add: zero_pools_def vb_ok_def MAX_MONEY_def COIN_def pools_def i64_max_def vb_value_def)+
  have "zatoshis (pool_of zero_pools q) = 0" for q by (cases q) (simp_all add: zero_pools_def)
  with ok have pools: "add_chain_value_pool_change Wcash_profile zero_pools zero_pools = Ok zero_pools"
    by (subst add_chain_Ok) auto
  have fields: "sv_transaction_hashes (spending_block n) = [[of_nat n, 0], [of_nat n, 1]]"
    "sv_transactions (spending_block n) = [sample_payment\<lparr>inputs := [Coinbase n [] 0], outputs := []\<rparr>,
      sample_payment\<lparr>inputs := [PrevOut (OutPoint [9] n) [] 0], outputs := []\<rparr>]"
    "block_data_of (spending_block n) = \<lparr>bd_height = n, bd_new_outputs = Map.empty, bd_spent_outputs = (\<lambda>_. Some sample_output)\<rparr>"
    by (simp_all add: spending_block_def semantic_block.defs block_data_of_def)
  have none: "sprout_nullifiers (sample_payment\<lparr>inputs := ins, outputs := []\<rparr>) = []" "sapling_nullifiers (sample_payment\<lparr>inputs := ins, outputs := []\<rparr>) = []"
    "orchard_nullifiers (sample_payment\<lparr>inputs := ins, outputs := []\<rparr>) = []" "ironwood_nullifiers (sample_payment\<lparr>inputs := ins, outputs := []\<rparr>) = []" for ins
    by (simp_all add: sample_payment_def sprout_nullifiers_def sapling_nullifiers_def orchard_nullifiers_def ironwood_nullifiers_def
        joinsplits_def sapling_spends_def ironwood_actions_def bundle_actions_def)
  have "\<exists>s. try_fold (update_with_transaction Wcash_profile (addressing_of counting_env (c_network c)) (block_data_of (spending_block n))) (c_tx c)
      (numbered (sv_transactions (spending_block n)) (sv_transaction_hashes (spending_block n))) = Ok s
    \<and> tx_loc_by_hash s = (tx_loc_by_hash (c_tx c))([of_nat n, 0] \<mapsto> (n, 0), [of_nat n, 1] \<mapsto> (n, 1))
    \<and> spent_utxos s = (spent_utxos (c_tx c))(OutPoint [9] n \<mapsto> [of_nat n, 1])"
    using assms unfolding fields
    by (simp add: numbered_def update_with_transaction_def update_nullifiers_def none addressing_of_def counting_env_def
        output_address_def transaction_location_from_usize_def u16_max_def map_insert_unique_def)
  then show ?thesis
    using assms pools
    by (auto simp: update_except_trees_def spending_work cumulative_add_def u128_max_def map_insert_unique_def update_pools_def counting_env_def)
qed

lemma spending_push:
  assumes rep: "chain_rep counting_env counting_counters (new_base live_wcash_mainnet 0 empty_trees (0 :: nat) zero_pools) es c"
    and n: "n = Suc (length es)" "n \<le> 2" and fresh: "c_height_by_hash c [of_nat n] = None" "tx_loc_by_hash (c_tx c) [of_nat n, 0] = None"
    "tx_loc_by_hash (c_tx c) [of_nat n, 1] = None" "spent_utxos (c_tx c) (OutPoint [9] n) = None" "c_pools c = zero_pools" "c_work c \<le> 8192"
  shows "\<exists>c'. push counting_env (spending_block n) c = Ok c' \<and> c_pools c' = zero_pools \<and> c_work c' = c_work c + 8192
    \<and> c_height_by_hash c' = (c_height_by_hash c)([of_nat n] \<mapsto> n)
    \<and> tx_loc_by_hash (c_tx c') = (tx_loc_by_hash (c_tx c))([of_nat n, 0] \<mapsto> (n, 0), [of_nat n, 1] \<mapsto> (n, 1))
    \<and> spent_utxos (c_tx c') = (spent_utxos (c_tx c))(OutPoint [9] n \<mapsto> [of_nat n, 1])"
proof -
  let ?B = "new_base live_wcash_mainnet 0 empty_trees (0 :: nat) zero_pools"
  have start: "ops_ok (env_ops counting_env) counting_counters" "base_ok (env_profile counting_env) ?B"
    using counting_start chain_new_rep(2) [OF _ _ _ _ counting_new] by (auto simp: start_ok_def)
  have "all_trees ?B es \<noteq> []" by (simp add: all_trees_def new_base_def)
  then obtain fs f where fs: "all_trees ?B es = fs @ [f]" by (meson rev_exhaust)
  from spending_except [OF fresh] obtain c1 where c1: "update_except_trees counting_env (spending_block n) c = Ok c1" "c_pools c1 = zero_pools"
    "c_work c1 = c_work c + 8192" "c_height_by_hash c1 = (c_height_by_hash c)([of_nat n] \<mapsto> n)"
    "tx_loc_by_hash (c_tx c1) = (tx_loc_by_hash (c_tx c))([of_nat n, 0] \<mapsto> (n, 0), [of_nat n, 1] \<mapsto> (n, 1))"
    "spent_utxos (c_tx c1) = (spent_utxos (c_tx c))(OutPoint [9] n \<mapsto> [of_nat n, 1])" by blast
  have h: "sv_height (spending_block n) = Suc (base_height ?B + length es)" "sv_height (spending_block n) \<le> HEIGHT_MAX"
    using n by (simp_all add: new_base_def HEIGHT_MAX_def u32_max_def)
  have nct: "update_trees_parallel (env_ops counting_env) (sv_transactions (spending_block n)) t = Ok t" for t
    by (simp add: update_trees_parallel_def spending_block_def semantic_block.defs sample_payment_def block_coinbase_height_def
        sprout_note_commitments_def sapling_note_commitments_def orchard_note_commitments_def ironwood_note_commitments_def run_task_def task_result_def
        joinsplits_def bundle_actions_def)
  have hist: "\<exists>x. push_history (env_ops counting_env) net b r y = Ok x" for net b r y by (simp add: counting_env_def)
  from push_succeeds [OF start rep fs h nct c1(1)] hist obtain ts where
    "push counting_env (spending_block n) c = Ok (c1\<lparr>c_trees := ts, c_blocks := bt_insert (sv_height (spending_block n)) (spending_block n) (c_blocks c1)\<rparr>)"
    by (metis (no_types))
  with c1 show ?thesis by simp
qed

lemma spending_chain:
  obtains c1 es2 c2 where "push counting_env (spending_block 1) counting_chain = Ok c1" "push counting_env (spending_block 2) c1 = Ok c2"
    "map be_block es2 = [spending_block 1, spending_block 2]"
    "chain_rep counting_env counting_counters (new_base live_wcash_mainnet 0 empty_trees (0 :: nat) zero_pools) es2 c2"
    "c_work c2 = 16384"
proof -
  let ?B = "new_base live_wcash_mainnet 0 empty_trees (0 :: nat) zero_pools"
  note pushed = pushed_chain_rep(1) [OF counting_start counting_new]
  have rep0: "chain_rep counting_env counting_counters ?B [] counting_chain"
    using pushed [of "[]"] by (simp add: blocks_follow_def HEIGHT_MAX_def)
  obtain c1 where c1: "push counting_env (spending_block 1) counting_chain = Ok c1" "c_pools c1 = zero_pools" "c_work c1 = 8192"
    "c_height_by_hash c1 = [[1] \<mapsto> 1]" "tx_loc_by_hash (c_tx c1) = [[1, 0] \<mapsto> (1, 0), [1, 1] \<mapsto> (1, 1)]"
    "spent_utxos (c_tx c1) = [OutPoint [9] 1 \<mapsto> [1, 1]]"
    using spending_push [OF rep0, of 1] by (auto simp: counting_chain_def tx_indexes_default_def)
  have follow: "blocks_follow (env_profile counting_env) 0 [spending_block 1, spending_block 2]" "blocks_follow (env_profile counting_env) 0 [spending_block 1]"
    using spending_follow blocks_follow_append [of Wcash_profile 0 "[spending_block 1]" "[spending_block 2]"] by (simp_all add: counting_env_def)
  have "push_all counting_env counting_chain [spending_block 1] = Ok c1" using c1(1) by simp
  from pushed [OF follow(2) this] obtain es1 where es1: "map be_block es1 = [spending_block 1]" "chain_rep counting_env counting_counters ?B es1 c1"
    by (elim exE conjE)
  have "length es1 = 1" using arg_cong [OF es1(1), of length] by simp
  from spending_push [OF es1(2), of 2] c1 this obtain c2 where c2: "push counting_env (spending_block 2) c1 = Ok c2" "c_work c2 = 16384"
    by (auto simp: numeral_2_eq_2)
  have "push_all counting_env counting_chain [spending_block 1, spending_block 2] = Ok c2" using c1(1) c2(1) by simp
  from pushed [OF follow(1) this] obtain es2 where
    es2: "map be_block es2 = [spending_block 1, spending_block 2]" "chain_rep counting_env counting_counters ?B es2 c2" by (elim exE conjE)
  show thesis by (rule that [OF c1(1) c2(1) es2 c2(2)])
qed

lemma spending_reversible: "blocks_reversible counting_env live_wcash_mainnet [spending_block 1, spending_block 2]"
proof -
  have none: "addressing_of counting_env net = (\<lambda>_. None)" for net
    by (rule ext) (simp add: addressing_of_def counting_env_def output_address_def)
  have fits: "turnover_fits Wcash_profile (\<lambda>_. None) M" for M
    by (simp add: turnover_fits_def transfers_fit_def transfer_balance_def transfers_at_def addressed_def MAX_MONEY_def COIN_def i64_max_def)
  have "env_profile counting_env = Wcash_profile" by (simp add: counting_env_def)
  then show ?thesis
    unfolding blocks_reversible_def items_reversible_def none
    by (auto simp: fits no_items_def numbered_def items_of_def items_of_tx_def spending_block_def semantic_block.defs block_data_of_def tx_moves_def
        spend_moves_def created_items_def move_ok_def move_output_def sample_payment_def sample_output_def sample_utxos_def
        MAX_MONEY_def COIN_def i64_max_def u16_max_def)
qed

theorem chain_no_double_spend_witness:
  "\<exists>c. push_all counting_env counting_chain [spending_block 1, spending_block 2] = Ok c
    \<and> distinct (chain_spends [spending_block 1, spending_block 2]) \<and> c_work c = 16384"
proof -
  obtain c1 c2 where c: "push counting_env (spending_block 1) counting_chain = Ok c1" "push counting_env (spending_block 2) c1 = Ok c2"
    "c_work c2 = 16384" by (rule spending_chain)
  then have p: "push_all counting_env counting_chain [spending_block 1, spending_block 2] = Ok c2" by simp
  have "env_profile counting_env = Wcash_profile" by (simp add: counting_env_def)
  with chain_no_double_spend [OF counting_start counting_new _ p] spending_follow c(3) p show ?thesis by auto
qed

theorem fork_is_replay_witness:
  "\<exists>c c'. push_all counting_env counting_chain [spending_block 1, spending_block 2] = Ok c
    \<and> push_all counting_env counting_chain [spending_block 1] = Ok c'
    \<and> fork counting_env [1] c = Ok (Some (c'\<lparr>c_last_fork_height := Some 1\<rparr>))"
proof -
  obtain c1 c2 where "push counting_env (spending_block 1) counting_chain = Ok c1" "push counting_env (spending_block 2) c1 = Ok c2"
    by (rule spending_chain)
  then have p: "push_all counting_env counting_chain ([] @ spending_block 1 # [spending_block 2]) = Ok c2" by simp
  have "env_profile counting_env = Wcash_profile" by (simp add: counting_env_def)
  with fork_is_replay [OF counting_start counting_new _ p] spending_follow spending_reversible p show ?thesis by auto
qed

theorem chain_refines_list_witness:
  "\<exists>es c. chain_rep counting_env counting_counters (new_base live_wcash_mainnet 0 empty_trees (0 :: nat) zero_pools) es c
    \<and> length es = 2 \<and> (\<exists>c'. pop_tip counting_env c = Ok c'
      \<and> chain_rep counting_env counting_counters (new_base live_wcash_mainnet 0 empty_trees (0 :: nat) zero_pools) (butlast es) c')"
proof -
  let ?B = "new_base live_wcash_mainnet 0 empty_trees (0 :: nat) zero_pools"
  obtain es c where es: "map be_block es = [spending_block 1, spending_block 2]" "chain_rep counting_env counting_counters ?B es c"
    by (rule spending_chain)
  then obtain e1 e2 where e: "es = [e1] @ [e2]" by (cases es; cases "tl es") auto
  have ok: "ops_ok (env_ops counting_env) counting_counters" "base_ok (env_profile counting_env) ?B"
    using counting_start chain_new_rep(2) [OF _ _ _ _ counting_new] by (auto simp: start_ok_def)
  have rev: "chain_reversible counting_env ?B es" using spending_reversible es(1) by (simp add: blocks_reversible_eq new_base_def)
  from chain_refines_list [OF ok es(2) rev] e have "\<exists>c'. pop_tip counting_env c = Ok c' \<and> chain_rep counting_env counting_counters ?B [e1] c'"
    by blast
  with es e show ?thesis by (intro exI [of _ es] exI [of _ c]) simp
qed

theorem chain_lookup_exact_witness:
  "\<exists>c. push_all counting_env counting_chain [spending_block 1, spending_block 2] = Ok c
    \<and> find_block c (Hash [1]) = Some (spending_block 1) \<and> find_block c (Height 2) = Some (spending_block 2)"
proof -
  obtain c1 c2 where "push counting_env (spending_block 1) counting_chain = Ok c1" "push counting_env (spending_block 2) c1 = Ok c2"
    by (rule spending_chain)
  then have p: "push_all counting_env counting_chain [spending_block 1, spending_block 2] = Ok c2" by simp
  have follow: "blocks_follow (env_profile counting_env) 0 [spending_block 1, spending_block 2]" using spending_follow by (simp add: counting_env_def)
  note look = chain_lookup_exact [OF counting_start counting_new follow p]
  show ?thesis using look [of "spending_block 1"] look [of "spending_block 2"] p by auto
qed

end
