(* ===== verification/Context_Check.thy ===== *)
theory Context_Check
  imports Chain_Contract Difficulty_Adjust Tx_Merkle
begin

text \<open>
  The checks of a block against the chain it extends that are not part of the chain update: the
  block commitment (\<^verbatim>\<open>zebra-chain/src/block/commitment.rs\<close> and
  \<^verbatim>\<open>block_commitment_is_valid_for_chain_history\<close> of \<^verbatim>\<open>zebra-state/src/service/check.rs\<close>), the anchors
  of shielded spends (\<^verbatim>\<open>service/check/anchors.rs\<close>), the blocks before a block
  (\<^verbatim>\<open>service/block_iter.rs\<close>) and the initial checks (\<^verbatim>\<open>initial_contextual_validity\<close>).

  The finalized state is a database; the record \<open>finalized_db\<close> holds its answers to the queries
  that the non-finalized state makes (\<^verbatim>\<open>finalized_state/zebra_db\<close>).

  The properties: on a Wcash network every block commits to the history of its chain and to the
  authorizing data of its transactions, and an accepted transaction spends from trees that the
  chain or the database has.
\<close>

section \<open>The finalized state\<close>

record ('t, 'h) finalized_db =
  db_network :: network
  db_tip :: "(height \<times> bytes) option"
  db_block :: "height \<rightharpoonup> semantic_block"
  db_height :: "bytes \<rightharpoonup> height"
  db_tx_loc :: "bytes \<rightharpoonup> transaction_location"
  db_trees :: "'t note_commitment_trees"
  db_history :: 'h
  db_pools :: value_balance
  db_block_info :: "height \<rightharpoonup> value_balance \<times> nat"
  db_utxo :: "outpoint \<rightharpoonup> ordered_utxo"
  db_nullifiers :: nullifier_database
  db_sapling_anchor :: "bytes \<Rightarrow> bool"
  db_orchard_anchor :: "bytes \<Rightarrow> bool"
  db_ironwood_anchor :: "bytes \<Rightarrow> bool"
  db_sprout_tree :: "bytes \<rightharpoonup> 't"

definition GENESIS_PREVIOUS_BLOCK_HASH :: bytes where
  "GENESIS_PREVIOUS_BLOCK_HASH = replicate 32 0"

definition finalized_tip_height :: "('t, 'h) finalized_db \<Rightarrow> height option" where
  "finalized_tip_height db = map_option fst (db_tip db)"

definition finalized_tip_hash :: "('t, 'h) finalized_db \<Rightarrow> bytes" where
  "finalized_tip_hash db = (case db_tip db of None \<Rightarrow> GENESIS_PREVIOUS_BLOCK_HASH | Some (_, hash) \<Rightarrow> hash)"

section \<open>Block commitments\<close>

datatype commitment =
    PreSaplingReserved bytes
  | FinalSaplingRoot bytes
  | ChainHistoryActivationReserved
  | ChainHistoryRoot bytes
  | ChainHistoryBlockTxAuthCommitment bytes

definition CHAIN_HISTORY_ACTIVATION_RESERVED :: bytes where
  "CHAIN_HISTORY_ACTIVATION_RESERVED = replicate 32 0"

text \<open>
  The hash function and the decoding of Sapling roots are libraries: \<open>cl_sapling_root\<close> tells whether
  bytes are a root, and \<open>cl_blake2b\<close> is BLAKE2b-256 by its personalization and the bytes hashed.
\<close>

record commitment_lib =
  cl_sapling_root :: "bytes \<Rightarrow> bool"
  cl_blake2b :: "string \<Rightarrow> bytes \<Rightarrow> bytes"

definition auth_data_hash :: "commitment_lib \<Rightarrow> bytes \<Rightarrow> bytes \<Rightarrow> bytes" where
  "auth_data_hash cl h1 h2 = cl_blake2b cl ''ZcashAuthDatHash'' (h1 @ h2)"

definition AUTH_DIGEST_PLACEHOLDER :: bytes where
  "AUTH_DIGEST_PLACEHOLDER = replicate 32 0xFF"

definition from_commitments :: "commitment_lib \<Rightarrow> bytes \<Rightarrow> bytes \<Rightarrow> bytes" where
  "from_commitments cl history_tree_root auth_root =
     cl_blake2b cl ''ZcashBlockCommit'' (history_tree_root @ auth_root @ replicate 32 0)"

definition reserved_commitment :: "bytes \<Rightarrow> (commitment_error, commitment) outcome" where
  "reserved_commitment bs =
     (if bs = CHAIN_HISTORY_ACTIVATION_RESERVED then Ok ChainHistoryActivationReserved
      else Err (InvalidChainHistoryActivationReserved bs))"

definition commitment_from_bytes :: "commitment_lib \<Rightarrow> bytes \<Rightarrow> network \<Rightarrow> height \<Rightarrow> (commitment_error, commitment) outcome" where
  "commitment_from_bytes cl bs net h =
     qbind (current_with_activation_height (activation_list_of net) h) (\<lambda>(nu, activation).
       if nu \<in> {Genesis, BeforeOverwinter, Overwinter} then Ok (PreSaplingReserved bs)
       else if nu \<in> {Sapling, Blossom} then
         (if cl_sapling_root cl bs then Ok (FinalSaplingRoot bs) else Err InvalidSapingRootBytes)
       else if nu = Heartwood \<and> h = activation then reserved_commitment bs
       else if nu = Canopy \<and> Some h = upgrade_activation_height Heartwood net then reserved_commitment bs
       else if nu \<in> {Heartwood, Canopy} then Ok (ChainHistoryRoot bs)
       else Ok (ChainHistoryBlockTxAuthCommitment bs))"

definition block_commitment :: "commitment_lib \<Rightarrow> network \<Rightarrow> semantic_block \<Rightarrow> (commitment_error, commitment) outcome" where
  "block_commitment cl net b =
     (case block_coinbase_height (sv_transactions b) of
        None \<Rightarrow> Err (MissingBlockHeight (sv_hash b))
      | Some h \<Rightarrow> commitment_from_bytes cl (sv_commitment_bytes b) net h)"

definition block_auth_data_root :: "commitment_lib \<Rightarrow> semantic_block \<Rightarrow> (spend_error, bytes) outcome" where
  "block_auth_data_root cl b =
     auth_data_root (auth_data_hash cl) (replicate 32 0)
       (map (\<lambda>tx. case auth_digest tx of None \<Rightarrow> AUTH_DIGEST_PLACEHOLDER | Some digest \<Rightarrow> digest) (sv_transactions b))"

definition block_commitment_is_valid_for_chain_history ::
  "commitment_lib \<Rightarrow> network \<Rightarrow> bytes option \<Rightarrow> semantic_block \<Rightarrow> (spend_error, unit) outcome" where
  "block_commitment_is_valid_for_chain_history cl net previous_history b =
     qbind (map_err InvalidBlockCommitment (block_commitment cl net b)) (\<lambda>c. case c of
        ChainHistoryRoot actual \<Rightarrow>
          qbind (expect previous_history) (\<lambda>expected.
            fail_if (actual \<noteq> expected) (InvalidBlockCommitment (InvalidChainHistoryRoot expected actual)))
      | ChainHistoryBlockTxAuthCommitment actual \<Rightarrow>
          qbind (expect (case previous_history of Some hash \<Rightarrow> Some hash
                   | None \<Rightarrow> if upgrade_activation_height Heartwood net = block_coinbase_height (sv_transactions b)
                             then Some CHAIN_HISTORY_ACTIVATION_RESERVED else None)) (\<lambda>history_tree_root.
          qbind (block_auth_data_root cl b) (\<lambda>auth_root.
          let expected = from_commitments cl history_tree_root auth_root in
            fail_if (actual \<noteq> expected) (InvalidBlockCommitment (InvalidChainHistoryBlockTxAuthCommitment expected actual))))
      | _ \<Rightarrow> Ok ())"

section \<open>Anchors\<close>

text \<open>The anchors of a chain; the mempool also checks transactions without a chain.\<close>

definition chain_has_anchor :: "(('t, 'h) tree_state \<Rightarrow> 't tree_index) \<Rightarrow> ('t, 'h) chain option \<Rightarrow> bytes \<Rightarrow> bool" where
  "chain_has_anchor index parent_chain anchor =
     (case parent_chain of None \<Rightarrow> False | Some c \<Rightarrow> anchor \<in># anchors (index (c_trees c)))"

definition sapling_orchard_anchors_refer_to_final_treestates ::
  "('t, 'h) finalized_db \<Rightarrow> ('t, 'h) chain option \<Rightarrow> transaction \<Rightarrow> bytes \<Rightarrow> nat option \<Rightarrow> height option \<Rightarrow> (spend_error, unit) outcome" where
  "sapling_orchard_anchors_refer_to_final_treestates db parent_chain tx hash tx_index h =
     qbind (for_each (\<lambda>anchor.
              fail_if (\<not> chain_has_anchor sapling_trees parent_chain anchor \<and> \<not> db_sapling_anchor db anchor)
                (UnknownSaplingAnchor anchor h tx_index hash)) (sapling_anchors tx)) (\<lambda>_.
     qbind (case orchard_anchor tx of None \<Rightarrow> Ok ()
            | Some anchor \<Rightarrow>
                fail_if (\<not> chain_has_anchor orchard_trees parent_chain anchor \<and> \<not> db_orchard_anchor db anchor)
                  (UnknownOrchardAnchor anchor h tx_index hash)) (\<lambda>_.
       case ironwood_anchor tx of None \<Rightarrow> Ok ()
       | Some anchor \<Rightarrow>
           fail_if (\<not> chain_has_anchor ironwood_trees parent_chain anchor \<and> \<not> db_ironwood_anchor db anchor)
             (UnknownIronwoodAnchor anchor h tx_index hash)))"

definition fetch_sprout_final_treestates ::
  "('t, 'h) finalized_db \<Rightarrow> ('t, 'h) chain option \<Rightarrow> transaction \<Rightarrow> (bytes \<rightharpoonup> 't) \<Rightarrow> bytes \<rightharpoonup> 't" where
  "fetch_sprout_final_treestates db parent_chain tx known =
     fold (\<lambda>js known.
       if known (js_anchor js) \<noteq> None then known
       else
         (case (case Option.bind parent_chain (\<lambda>c. trees_by_anchor (sprout_trees (c_trees c)) (js_anchor js)) of
                  Some t \<Rightarrow> Some t | None \<Rightarrow> db_sprout_tree db (js_anchor js)) of
            None \<Rightarrow> known
          | Some t \<Rightarrow> known(js_anchor js \<mapsto> t)))
       (joinsplits tx) known"

text \<open>
  The loop over the JoinSplits of a transaction.  \<open>interstitial\<close> holds the trees after the
  JoinSplits so far; the tree after the last one is not built.
\<close>

fun sprout_anchor_loop ::
  "('t, 'h) tree_ops \<Rightarrow> (bytes \<rightharpoonup> 't) \<Rightarrow> (bytes \<Rightarrow> spend_error) \<Rightarrow> joinsplit list \<Rightarrow> (bytes \<rightharpoonup> 't) \<Rightarrow> (spend_error, unit) outcome" where
  "sprout_anchor_loop ops final unknown [] interstitial = Ok ()"
| "sprout_anchor_loop ops final unknown (js # jss) interstitial =
     (case (case interstitial (js_anchor js) of Some t \<Rightarrow> Some t | None \<Rightarrow> final (js_anchor js)) of
        None \<Rightarrow> Err (unknown (js_anchor js))
      | Some t \<Rightarrow>
          if jss = [] then Ok ()
          else
            qbind (map_err (\<lambda>e. NoteCommitmentTreeError (Sprout_tree e)) (update_sprout ops t (js_commitments js))) (\<lambda>t'.
              sprout_anchor_loop ops final unknown jss (interstitial(sprout_root_of ops t' \<mapsto> t'))))"

definition sprout_anchors_refer_to_treestates ::
  "('t, 'h) tree_ops \<Rightarrow> (bytes \<rightharpoonup> 't) \<Rightarrow> transaction \<Rightarrow> bytes \<Rightarrow> nat option \<Rightarrow> height option \<Rightarrow> (spend_error, unit) outcome" where
  "sprout_anchors_refer_to_treestates ops final tx hash tx_index h =
     sprout_anchor_loop ops final (\<lambda>anchor. UnknownSproutAnchor anchor h tx_index hash) (joinsplits tx) Map.empty"

text \<open>The transactions of a block, with \<open>transaction_hashes[tx_index_in_block]\<close>; a missing hash is a panic.\<close>

fun try_for_each_tx :: "(nat \<Rightarrow> transaction \<Rightarrow> bytes \<Rightarrow> (spend_error, unit) outcome) \<Rightarrow> bytes list \<Rightarrow> nat \<Rightarrow> transaction list \<Rightarrow> (spend_error, unit) outcome" where
  "try_for_each_tx f hashes i [] = Ok ()"
| "try_for_each_tx f hashes i (tx # txs) =
     (if i < length hashes then qbind (f i tx (hashes ! i)) (\<lambda>_. try_for_each_tx f hashes (Suc i) txs) else Panic)"

definition block_sapling_orchard_anchors_refer_to_final_treestates ::
  "('t, 'h) finalized_db \<Rightarrow> ('t, 'h) chain \<Rightarrow> semantic_block \<Rightarrow> (spend_error, unit) outcome" where
  "block_sapling_orchard_anchors_refer_to_final_treestates db parent_chain b =
     try_for_each_tx (\<lambda>i tx hash. sapling_orchard_anchors_refer_to_final_treestates db (Some parent_chain) tx hash (Some i) (Some (sv_height b)))
       (sv_transaction_hashes b) 0 (sv_transactions b)"

definition block_fetch_sprout_final_treestates ::
  "('t, 'h) finalized_db \<Rightarrow> ('t, 'h) chain \<Rightarrow> semantic_block \<Rightarrow> bytes \<rightharpoonup> 't" where
  "block_fetch_sprout_final_treestates db parent_chain b =
     fold (fetch_sprout_final_treestates db (Some parent_chain)) (sv_transactions b) Map.empty"

definition block_sprout_anchors_refer_to_treestates ::
  "('t, 'h) tree_ops \<Rightarrow> (bytes \<rightharpoonup> 't) \<Rightarrow> semantic_block \<Rightarrow> (spend_error, unit) outcome" where
  "block_sprout_anchors_refer_to_treestates ops final b =
     try_for_each_tx (\<lambda>i tx hash. sprout_anchors_refer_to_treestates ops final tx hash (Some i) (Some (sv_height b)))
       (sv_transaction_hashes b) 0 (sv_transactions b)"

definition tx_anchors_refer_to_final_treestates ::
  "('t, 'h) tree_ops \<Rightarrow> ('t, 'h) finalized_db \<Rightarrow> ('t, 'h) chain option \<Rightarrow> transaction \<Rightarrow> (spend_error, unit) outcome" where
  "tx_anchors_refer_to_final_treestates ops db parent_chain tx =
     qbind (sapling_orchard_anchors_refer_to_final_treestates db parent_chain tx (txid tx) None None) (\<lambda>_.
       if sprout_bundle tx = None then Ok ()
       else
         sprout_anchors_refer_to_treestates ops (fetch_sprout_final_treestates db parent_chain tx Map.empty) tx (txid tx) None None)"

section \<open>The blocks before a block\<close>

definition header_of :: "semantic_block \<Rightarrow> chain_block" where
  "header_of b = \<lparr>coinbase_height = block_coinbase_height (sv_transactions b), header_threshold = sv_difficulty_threshold b, header_time = sv_time b\<rparr>"

definition read_block :: "('t, 'h) chain option \<Rightarrow> ('t, 'h) finalized_db \<Rightarrow> height \<Rightarrow> semantic_block option" where
  "read_block ch db h =
     (case Option.bind ch (\<lambda>c. map_of (c_blocks c) h) of Some b \<Rightarrow> Some (semantic_block.truncate b) | None \<Rightarrow> db_block db h)"

definition read_height_by_hash :: "('t, 'h) chain option \<Rightarrow> ('t, 'h) finalized_db \<Rightarrow> bytes \<Rightarrow> height option" where
  "read_height_by_hash ch db hash =
     (case Option.bind ch (\<lambda>c. c_height_by_hash c hash) of Some h \<Rightarrow> Some h | None \<Rightarrow> db_height db hash)"

text \<open>The first \<open>n\<close> items of the iterator, from a height down; the chain is dropped below its root.\<close>

fun ancestor_blocks :: "nat \<Rightarrow> ('t, 'h) chain option \<Rightarrow> ('t, 'h) finalized_db \<Rightarrow> height option \<Rightarrow> semantic_block list" where
  "ancestor_blocks 0 ch db h = []"
| "ancestor_blocks (Suc n) ch db None = []"
| "ancestor_blocks (Suc n) ch db (Some h) =
     (case read_block ch db h of
        None \<Rightarrow> []
      | Some b \<Rightarrow>
          let previous = (if h = 0 then None else Some (h - 1));
              ch' = (case (ch, previous) of (Some c, Some h') \<Rightarrow> if contains_block_height c h' then Some c else None | _ \<Rightarrow> None) in
          b # ancestor_blocks n ch' db previous)"

section \<open>Facts about the commitment\<close>

lemma wcash_upgrades:
  "h \<noteq> 0 \<Longrightarrow> current_with_activation_height wcash_schedule h = Ok (Nu6_3, 1)"
  "activation_height wcash_schedule Heartwood = Some 1"
  by (auto simp: wcash_schedule_def current_with_activation_height_def bt_range_to_def activation_height.simps next_upgrade_def upgrade_iter_def)

lemma block_auth_data_root_total: "\<exists>auth. block_auth_data_root cl b = Ok auth"
  unfolding block_auth_data_root_def by (rule auth_data_root_Ok)

text \<open>
  C8. On a Wcash network a block above the genesis block is only accepted when its header commits
  to the history tree of the chain it extends, the reserved value for the first block, and to the
  authorizing data of its transactions; the check gives an error else and never panics.
\<close>

theorem wcash_block_commitment_exact:
  assumes "activation_list_of net = wcash_schedule" "block_coinbase_height (sv_transactions b) = Some h" "h \<noteq> 0"
    and "previous_history = Some root \<or> previous_history = None \<and> h = 1 \<and> root = replicate 32 0"
    and "block_auth_data_root cl b = Ok auth"
  shows "block_commitment_is_valid_for_chain_history cl net previous_history b =
    (if sv_commitment_bytes b = from_commitments cl root auth then Ok ()
     else Err (InvalidBlockCommitment (InvalidChainHistoryBlockTxAuthCommitment (from_commitments cl root auth) (sv_commitment_bytes b))))"
proof -
  have "block_commitment cl net b = Ok (ChainHistoryBlockTxAuthCommitment (sv_commitment_bytes b))"
    using assms(1-3) by (simp add: block_commitment_def commitment_from_bytes_def wcash_upgrades)
  moreover have "(case previous_history of Some hash \<Rightarrow> Some hash
      | None \<Rightarrow> if upgrade_activation_height Heartwood net = block_coinbase_height (sv_transactions b)
                then Some CHAIN_HISTORY_ACTIVATION_RESERVED else None) = Some root"
    using assms(1,2,4) by (auto simp: upgrade_activation_height_def wcash_upgrades CHAIN_HISTORY_ACTIVATION_RESERVED_def)
  ultimately show ?thesis using assms(5)
    by (simp add: block_commitment_is_valid_for_chain_history_def fail_if_def Let_def)
qed

section \<open>Facts about the anchors\<close>

lemma try_for_each_tx_Ok:
  assumes "i + length txs \<le> length hashes"
  shows "try_for_each_tx f hashes i txs = Ok () \<longleftrightarrow> (\<forall>k < length txs. f (i + k) (txs ! k) (hashes ! (i + k)) = Ok ())"
  using assms
proof (induction txs arbitrary: i)
  case (Cons tx txs)
  then have "try_for_each_tx f hashes i (tx # txs) = Ok () \<longleftrightarrow>
      f i tx (hashes ! i) = Ok () \<and> (\<forall>k < length txs. f (Suc (i + k)) (txs ! k) (hashes ! Suc (i + k)) = Ok ())" by auto
  then show ?case by (auto simp: All_less_Suc2)
qed simp

definition anchor_known :: "('t, 'h) finalized_db \<Rightarrow> ('t, 'h) chain \<Rightarrow> transaction \<Rightarrow> bool" where
  "anchor_known db c tx \<longleftrightarrow>
     (\<forall>a \<in> set (sapling_anchors tx). a \<in># anchors (sapling_trees (c_trees c)) \<or> db_sapling_anchor db a)
     \<and> (\<forall>a. orchard_anchor tx = Some a \<longrightarrow> a \<in># anchors (orchard_trees (c_trees c)) \<or> db_orchard_anchor db a)
     \<and> (\<forall>a. ironwood_anchor tx = Some a \<longrightarrow> a \<in># anchors (ironwood_trees (c_trees c)) \<or> db_ironwood_anchor db a)"

lemma tx_anchors_Ok:
  "sapling_orchard_anchors_refer_to_final_treestates db (Some c) tx hash i h = Ok () \<longleftrightarrow> anchor_known db c tx"
  by (auto simp: sapling_orchard_anchors_refer_to_final_treestates_def anchor_known_def chain_has_anchor_def for_each_Ok
      split: option.splits)

definition sprout_tree_of :: "('t, 'h) finalized_db \<Rightarrow> ('t, 'h) chain \<Rightarrow> bytes \<rightharpoonup> 't" where
  "sprout_tree_of db c a = (case trees_by_anchor (sprout_trees (c_trees c)) a of Some t \<Rightarrow> Some t | None \<Rightarrow> db_sprout_tree db a)"

lemma fetch_sprout_loop:
  "fold (\<lambda>js known. if known (js_anchor js) \<noteq> None then known
       else (case (case Option.bind (Some c) (\<lambda>c. trees_by_anchor (sprout_trees (c_trees c)) (js_anchor js)) of
                  Some t \<Rightarrow> Some t | None \<Rightarrow> db_sprout_tree db (js_anchor js)) of
            None \<Rightarrow> known | Some t \<Rightarrow> known(js_anchor js \<mapsto> t))) jss known a
    = (case known a of Some t \<Rightarrow> Some t | None \<Rightarrow> if a \<in> js_anchor ` set jss then sprout_tree_of db c a else None)"
  by (induction jss arbitrary: known) (auto simp: sprout_tree_of_def split: option.splits)

lemma fetch_sprout:
  "fetch_sprout_final_treestates db (Some c) tx known a =
     (case known a of Some t \<Rightarrow> Some t | None \<Rightarrow> if a \<in> js_anchor ` set (joinsplits tx) then sprout_tree_of db c a else None)"
  unfolding fetch_sprout_final_treestates_def by (rule fetch_sprout_loop)

lemma block_fetch_sprout:
  "block_fetch_sprout_final_treestates db c b a =
     (if \<exists>tx \<in> set (sv_transactions b). a \<in> js_anchor ` set (joinsplits tx) then sprout_tree_of db c a else None)"
proof -
  have "fold (fetch_sprout_final_treestates db (Some c)) txs known a =
      (case known a of Some t \<Rightarrow> Some t | None \<Rightarrow> if \<exists>tx \<in> set txs. a \<in> js_anchor ` set (joinsplits tx) then sprout_tree_of db c a else None)"
    for txs known
    by (induction txs arbitrary: known) (auto simp: fetch_sprout split: option.splits)
  then show ?thesis by (simp add: block_fetch_sprout_final_treestates_def)
qed

text \<open>
  The trees that the JoinSplit number \<open>k\<close> of a transaction may spend from: a tree of the chain or the
  database, or the tree after an earlier JoinSplit of the transaction.
\<close>

inductive joinsplit_tree :: "('t, 'h) tree_ops \<Rightarrow> (bytes \<rightharpoonup> 't) \<Rightarrow> joinsplit list \<Rightarrow> nat \<Rightarrow> 't \<Rightarrow> bool"
  for ops :: "('t, 'h) tree_ops" and final :: "bytes \<rightharpoonup> 't" and jss :: "joinsplit list" where
  final_tree: "k < length jss \<Longrightarrow> final (js_anchor (jss ! k)) = Some t \<Longrightarrow> joinsplit_tree ops final jss k t"
| interstitial_tree: "j < k \<Longrightarrow> k < length jss \<Longrightarrow> joinsplit_tree ops final jss j u \<Longrightarrow> update_sprout ops u (js_commitments (jss ! j)) = Ok t \<Longrightarrow>
    sprout_root_of ops t = js_anchor (jss ! k) \<Longrightarrow> joinsplit_tree ops final jss k t"

lemma sprout_anchor_loop_Ok:
  assumes "sprout_anchor_loop ops final unknown (drop n jss) interstitial = Ok ()"
    and "\<forall>a t. interstitial a = Some t \<longrightarrow>
      (\<exists>j < n. \<exists>u. joinsplit_tree ops final jss j u \<and> update_sprout ops u (js_commitments (jss ! j)) = Ok t \<and> sprout_root_of ops t = a)"
    and "n \<le> k" "k < length jss"
  shows "\<exists>t. joinsplit_tree ops final jss k t"
  using assms
proof (induction "length jss - n" arbitrary: n interstitial)
  case (Suc m)
  have split: "drop n jss = jss ! n # drop (Suc n) jss" using Suc.hyps(2) by (simp add: Cons_nth_drop_Suc)
  obtain t where t: "(case interstitial (js_anchor (jss ! n)) of Some t \<Rightarrow> Some t | None \<Rightarrow> final (js_anchor (jss ! n))) = Some t"
    using Suc.prems(1) by (auto simp: split split: option.splits)
  have n: "n < length jss" using Suc.hyps(2) by simp
  have tree: "joinsplit_tree ops final jss n t"
    using t Suc.prems(2) by (cases "interstitial (js_anchor (jss ! n))") (auto intro: final_tree [OF n] interstitial_tree [OF _ n])
  show ?case
  proof (cases "k = n")
    case True
    with tree show ?thesis by blast
  next
    case False
    then have "drop (Suc n) jss \<noteq> []" using Suc.prems(3,4) by simp
    with Suc.prems(1) t obtain t' where t': "update_sprout ops t (js_commitments (jss ! n)) = Ok t'"
      and rest: "sprout_anchor_loop ops final unknown (drop (Suc n) jss) (interstitial(sprout_root_of ops t' \<mapsto> t')) = Ok ()"
      by (auto simp: split)
    have "\<forall>a u'. (interstitial(sprout_root_of ops t' \<mapsto> t')) a = Some u' \<longrightarrow>
        (\<exists>j < Suc n. \<exists>u. joinsplit_tree ops final jss j u \<and> update_sprout ops u (js_commitments (jss ! j)) = Ok u' \<and> sprout_root_of ops u' = a)"
    proof (intro allI impI)
      fix a u'
      assume new: "(interstitial(sprout_root_of ops t' \<mapsto> t')) a = Some u'"
      show "\<exists>j < Suc n. \<exists>u. joinsplit_tree ops final jss j u \<and> update_sprout ops u (js_commitments (jss ! j)) = Ok u' \<and> sprout_root_of ops u' = a"
      proof (cases "a = sprout_root_of ops t'")
        case True
        with new tree t' show ?thesis by (intro exI [of _ n] conjI exI [of _ t]) auto
      next
        case False
        with new have "interstitial a = Some u'" by simp
        from Suc.prems(2) [rule_format, OF this] obtain j u where "j < n" "joinsplit_tree ops final jss j u"
          "update_sprout ops u (js_commitments (jss ! j)) = Ok u'" "sprout_root_of ops u' = a" by (elim exE conjE)
        then show ?thesis by (intro exI [of _ j] conjI exI [of _ u]) auto
      qed
    qed
    moreover have "m = length jss - Suc n" "Suc n \<le> k" using Suc.hyps(2) Suc.prems(3) False by simp_all
    ultimately show ?thesis using Suc.hyps(1) [OF _ rest] Suc.prems(4) by blast
  qed
next
  case 0
  from "0.hyps" "0.prems"(3,4) show ?case by simp
qed

text \<open>
  C11. Every shielded spend of an accepted block refers to a note commitment tree that exists: the
  anchors of Sapling, Orchard and Ironwood are anchors of the chain or of the database, exactly these
  blocks pass, and each JoinSplit refers to a Sprout tree of the chain or the database, or to the
  tree after an earlier JoinSplit of its transaction.
\<close>

theorem accepted_anchors_exist:
  assumes "length (sv_transaction_hashes b) = length (sv_transactions b)"
  shows "(block_sapling_orchard_anchors_refer_to_final_treestates db c b = Ok () \<longleftrightarrow> (\<forall>tx \<in> set (sv_transactions b). anchor_known db c tx))
    \<and> (block_sprout_anchors_refer_to_treestates ops (block_fetch_sprout_final_treestates db c b) b = Ok () \<longrightarrow>
        (\<forall>tx \<in> set (sv_transactions b). \<forall>k < length (joinsplits tx). \<exists>t. joinsplit_tree ops (sprout_tree_of db c) (joinsplits tx) k t))"
proof (intro conjI impI ballI allI)
  show "block_sapling_orchard_anchors_refer_to_final_treestates db c b = Ok () \<longleftrightarrow> (\<forall>tx \<in> set (sv_transactions b). anchor_known db c tx)"
    using assms by (auto simp: block_sapling_orchard_anchors_refer_to_final_treestates_def try_for_each_tx_Ok tx_anchors_Ok all_set_conv_all_nth)
next
  fix tx k
  assume ok: "block_sprout_anchors_refer_to_treestates ops (block_fetch_sprout_final_treestates db c b) b = Ok ()"
    and tx: "tx \<in> set (sv_transactions b)" and k: "k < length (joinsplits tx)"
  let ?final = "block_fetch_sprout_final_treestates db c b"
  from tx ok assms obtain i hash where "sprout_anchors_refer_to_treestates ops ?final tx hash (Some i) (Some (sv_height b)) = Ok ()"
    by (auto simp: block_sprout_anchors_refer_to_treestates_def try_for_each_tx_Ok in_set_conv_nth)
  then have "\<exists>t. joinsplit_tree ops ?final (joinsplits tx) k t"
    using sprout_anchor_loop_Ok [of ops ?final _ 0 "joinsplits tx" Map.empty k] k by (simp add: sprout_anchors_refer_to_treestates_def)
  moreover have "joinsplit_tree ops (sprout_tree_of db c) (joinsplits tx) k' t" if "joinsplit_tree ops ?final (joinsplits tx) k' t" for k' t
    using that by induction (auto simp: block_fetch_sprout split: if_splits intro: joinsplit_tree.intros)
  ultimately show "\<exists>t. joinsplit_tree ops (sprout_tree_of db c) (joinsplits tx) k t" by blast
qed

section \<open>Examples\<close>

definition sample_commitments :: commitment_lib where
  "sample_commitments = \<lparr>cl_sapling_root = (\<lambda>_. False), cl_blake2b = (\<lambda>_ bs. take 64 bs)\<rparr>"

definition sample_coinbase_block :: semantic_block where
  "sample_coinbase_block = sample_block\<lparr>sv_transactions := [sample_payment\<lparr>inputs := [Coinbase 1 [] 0], outputs := []\<rparr>],
     sv_commitment_bytes := replicate 32 0 @ [3] @ replicate 31 0\<rparr>"

theorem wcash_block_commitment_exact_witness:
  "block_commitment_is_valid_for_chain_history sample_commitments live_wcash_mainnet None sample_coinbase_block = Ok ()"
proof -
  have "block_auth_data_root sample_commitments sample_coinbase_block = Ok [3]"
    by (simp add: block_auth_data_root_def auth_leaves_root auth_leaves_def next_power_of_two_def merkle_root.simps
        sample_coinbase_block_def sample_payment_def auth_digest_def)
  then show ?thesis
    by (subst wcash_block_commitment_exact [where h = 1 and root = "replicate 32 0" and auth = "[3]"])
      (simp_all add: live_wcash_mainnet_def activation_list_of_def sample_coinbase_block_def block_coinbase_height_def from_commitments_def
        sample_commitments_def)
qed

text \<open>A database that knows the Ironwood tree with the root \<open>[5]\<close> and the Sprout tree of four notes.\<close>

definition sample_db :: "(nat, nat) finalized_db" where
  "sample_db = \<lparr>db_network = live_wcash_mainnet, db_tip = None, db_block = Map.empty, db_height = Map.empty, db_tx_loc = Map.empty,
     db_trees = empty_trees, db_history = 0, db_pools = zero_pools, db_block_info = Map.empty, db_utxo = Map.empty,
     db_nullifiers = \<lparr>contains_sprout = (\<lambda>_. False), contains_sapling = (\<lambda>_. False), contains_orchard = (\<lambda>_. False), contains_ironwood = (\<lambda>_. False)\<rparr>,
     db_sapling_anchor = (\<lambda>_. False), db_orchard_anchor = (\<lambda>_. False), db_ironwood_anchor = (\<lambda>a. a = [5]),
     db_sprout_tree = [replicate 4 0 \<mapsto> 4]\<rparr>"

definition sample_joinsplits :: "joinsplit list" where
  "sample_joinsplits = [\<lparr>vpub_old = 0, vpub_new = 0, js_nullifiers = [], js_commitments = [[1], [2]], js_anchor = replicate 4 0\<rparr>,
     \<lparr>vpub_old = 0, vpub_new = 0, js_nullifiers = [], js_commitments = [], js_anchor = replicate 6 0\<rparr>]"

definition sample_shielded_block :: semantic_block where
  "sample_shielded_block = sample_block\<lparr>sv_transactions := [sample_payment\<lparr>sprout_bundle := Some sample_joinsplits,
     ironwood_bundle := Some \<lparr>actions = [], spends_enabled = True, outputs_enabled = True, cross_address_enabled = True, is_orchard_v3 = False,
       bundle_balance = 0, proof_length = 0, bundle_anchor = [5]\<rparr>\<rparr>]\<rparr>"

theorem accepted_anchors_exist_witness:
  "block_sapling_orchard_anchors_refer_to_final_treestates sample_db counting_chain sample_shielded_block = Ok ()
    \<and> (\<exists>t. joinsplit_tree (env_ops counting_env) (sprout_tree_of sample_db counting_chain) sample_joinsplits 1 t)"
proof -
  define tx where "tx = hd (sv_transactions sample_shielded_block)"
  have known: "anchor_known sample_db counting_chain tx"
    by (simp add: anchor_known_def tx_def sample_shielded_block_def sample_payment_def sapling_anchors_def sapling_spends_def orchard_anchor_def
        ironwood_anchor_def sample_db_def)
  have tx: "sv_transactions sample_shielded_block = [tx]" "joinsplits tx = sample_joinsplits" "sv_transaction_hashes sample_shielded_block = [[2]]"
    by (simp_all add: tx_def sample_shielded_block_def sample_block_def joinsplits_def)
  have t: "sprout_tree_of sample_db counting_chain (replicate 4 0) = Some 4"
    by (simp add: sprout_tree_of_def sample_db_def counting_chain_def new_base_def trees_of_def dense_sprout_index_def counting_env_def empty_trees_def)
  have "block_sprout_anchors_refer_to_treestates (env_ops counting_env)
      (block_fetch_sprout_final_treestates sample_db counting_chain sample_shielded_block) sample_shielded_block = Ok ()"
    using t by (simp add: block_sprout_anchors_refer_to_treestates_def sprout_anchors_refer_to_treestates_def block_fetch_sprout tx
        sample_joinsplits_def counting_env_def)
  then show ?thesis
    using accepted_anchors_exist [of sample_shielded_block sample_db counting_chain "env_ops counting_env"] known
    by (simp add: tx) (simp add: sample_joinsplits_def)
qed

end
