(* ===== verification/Finalized_State.thy ===== *)
theory Finalized_State
  imports Context_Check Subsidy
begin

text \<open>
  The finalized state, from \<^verbatim>\<open>zebra-state/src/service/finalized_state.rs\<close> and the write batches of
  \<^verbatim>\<open>finalized_state/zebra_db\<close>.

  The database is modelled by its answers (\<open>finalized_db\<close>): a batch is the change of the answers after it
  was written.  Outputs are found by outpoint; that the database stores them by location shows in
  the lookups that panic.  Not modelled: the transparent address balances and indexes, the
  metrics, the stop height of the configuration and the record of validated foundation outputs.
\<close>

section \<open>The deferred pool\<close>

definition unwrap_or_default :: "'a \<Rightarrow> ('e, 'a) outcome \<Rightarrow> ('f, 'a) outcome" where
  "unwrap_or_default d r = (case r of Ok x \<Rightarrow> Ok x | Err _ \<Rightarrow> Ok d | Panic \<Rightarrow> Panic)"

definition params_lockbox_disbursement_total_amount ::
  "profile \<Rightarrow> (string \<Rightarrow> address option) \<Rightarrow> parameters \<Rightarrow> ('e, amount) outcome" where
  "params_lockbox_disbursement_total_amount p parse params =
     qbind (parse_disbursements parse (lockbox_disbursements params)) (\<lambda>ds.
       case map snd ds of
         [] \<Rightarrow> amount_zero p NonNegative
       | a # as \<Rightarrow> try_fold (\<lambda>a b. expect_ok (amount_add p NonNegative a b)) a as)"

definition lockbox_disbursement_total_amount ::
  "profile \<Rightarrow> (string \<Rightarrow> address option) \<Rightarrow> height \<Rightarrow> network \<Rightarrow> ('e, amount) outcome" where
  "lockbox_disbursement_total_amount p parse h net =
     (if Some h \<noteq> upgrade_activation_height Nu6_1 net then amount_zero p NonNegative
      else
        (case net of
           Mainnet \<Rightarrow> Ok EXPECTED_NU6_1_LOCKBOX_DISBURSEMENTS_TOTAL
         | Testnet params \<Rightarrow>
             qbind (is_default_testnet parse params) (\<lambda>d.
               if d then Ok EXPECTED_NU6_1_LOCKBOX_DISBURSEMENTS_TOTAL
               else params_lockbox_disbursement_total_amount p parse params)))"

definition calculate_deferred_pool_balance_change ::
  "profile \<Rightarrow> (string \<Rightarrow> address option) \<Rightarrow> height \<Rightarrow> network \<Rightarrow> ('e, amount) outcome" where
  "calculate_deferred_pool_balance_change p parse h net =
     qbind (amount_zero p NonNegative) (\<lambda>zero.
       if h > net_slow_start_interval net then
         qbind (unwrap_or_default zero (block_subsidy p h net)) (\<lambda>subsidy.
         qbind (unwrap_or_default [] (funding_stream_values p parse h net subsidy)) (\<lambda>values.
         qbind (lockbox_disbursement_total_amount p parse h net) (\<lambda>lockbox.
         let deferred_value = (case map_of values DeferredReceiver of None \<Rightarrow> zero | Some a \<Rightarrow> a) in
           Ok (case amount_checked_sub p deferred_value lockbox of None \<Rightarrow> zero | Some change \<Rightarrow> change))))
       else Ok zero)"

section \<open>Writing a block\<close>

text \<open>The libraries that the checks and writes of a block call: hash functions and the parser of addresses.\<close>

record commit_lib =
  cm_commitments :: commitment_lib
  cm_parse :: "string \<Rightarrow> address option"

definition prepare_block_header_and_transaction_data_batch ::
  "semantic_block \<Rightarrow> ('t, 'h) finalized_db \<Rightarrow> (spend_error, ('t, 'h) finalized_db) outcome" where
  "prepare_block_header_and_transaction_data_batch b db =
     try_fold (\<lambda>db (i, tx, hash). map_ok (\<lambda>loc. db\<lparr>db_tx_loc := (db_tx_loc db)(hash \<mapsto> loc)\<rparr>)
           (transaction_location_from_usize (sv_height b) i))
       (db\<lparr>db_block := (db_block db)(sv_height b \<mapsto> b), db_tip := Some (sv_height b, sv_hash b),
           db_height := (db_height db)(sv_hash b \<mapsto> sv_height b)\<rparr>)
       (numbered (sv_transactions b) (sv_transaction_hashes b))"

definition prepare_nullifier_batch :: "transaction \<Rightarrow> nullifier_database \<Rightarrow> nullifier_database" where
  "prepare_nullifier_batch tx ns = \<lparr>contains_sprout = (\<lambda>nf. nf \<in> set (sprout_nullifiers tx) \<or> contains_sprout ns nf),
     contains_sapling = (\<lambda>nf. nf \<in> set (sapling_nullifiers tx) \<or> contains_sapling ns nf),
     contains_orchard = (\<lambda>nf. nf \<in> set (orchard_nullifiers tx) \<or> contains_orchard ns nf),
     contains_ironwood = (\<lambda>nf. nf \<in> set (ironwood_nullifiers tx) \<or> contains_ironwood ns nf)\<rparr>"

definition prepare_shielded_transaction_batch :: "transaction list \<Rightarrow> ('t, 'h) finalized_db \<Rightarrow> ('t, 'h) finalized_db" where
  "prepare_shielded_transaction_batch txs db = db\<lparr>db_nullifiers := fold prepare_nullifier_batch txs (db_nullifiers db)\<rparr>"

definition add_anchor :: "bytes \<Rightarrow> (bytes \<Rightarrow> bool) \<Rightarrow> bytes \<Rightarrow> bool" where
  "add_anchor root known = (\<lambda>anchor. anchor = root \<or> known anchor)"

text \<open>Trees and anchors are only written when they changed; a subtree is found for the tip when it ends there.\<close>

definition prepare_trees_batch ::
  "('t, 'h) tree_ops \<Rightarrow> height \<Rightarrow> ('t, 'h) treestate \<Rightarrow> 't note_commitment_trees option \<Rightarrow> ('t, 'h) finalized_db \<Rightarrow> ('t, 'h) finalized_db" where
  "prepare_trees_batch ops h st prev_note_commitment_trees db =
     (let prev = (case prev_note_commitment_trees of Some prev_trees \<Rightarrow> prev_trees | None \<Rightarrow> db_trees db);
          new = ts_trees st;
          sprout_changed = (h = 0 \<or> nct_sprout prev \<noteq> nct_sprout new);
          sapling_changed = (h = 0 \<or> nct_sapling prev \<noteq> nct_sapling new);
          orchard_changed = (h = 0 \<or> nct_orchard prev \<noteq> nct_orchard new);
          ironwood_changed = (h = 0 \<or> nct_ironwood prev \<noteq> nct_ironwood new) in
      db\<lparr>db_sprout_tree := (if sprout_changed then (db_sprout_tree db)(sprout_root_of ops (nct_sprout new) \<mapsto> nct_sprout new) else db_sprout_tree db),
         db_sapling_anchor := (if sapling_changed then add_anchor (sapling_root_of ops (nct_sapling new)) (db_sapling_anchor db) else db_sapling_anchor db),
         db_orchard_anchor := (if orchard_changed then add_anchor (orchard_root_of ops (nct_orchard new)) (db_orchard_anchor db) else db_orchard_anchor db),
         db_ironwood_anchor := (if ironwood_changed then add_anchor (orchard_root_of ops (nct_ironwood new)) (db_ironwood_anchor db) else db_ironwood_anchor db),
         db_trees := \<lparr>nct_sprout = (if sprout_changed then nct_sprout new else nct_sprout (db_trees db)),
           nct_sapling = (if sapling_changed then nct_sapling new else nct_sapling (db_trees db)),
           nct_sapling_subtree = (if sapling_changed then nct_sapling_subtree new else None),
           nct_orchard = (if orchard_changed then nct_orchard new else nct_orchard (db_trees db)),
           nct_orchard_subtree = (if orchard_changed then nct_orchard_subtree new else None),
           nct_ironwood = (if ironwood_changed then nct_ironwood new else nct_ironwood (db_trees db)),
           nct_ironwood_subtree = (if ironwood_changed then nct_ironwood_subtree new else None)\<rparr>,
         db_history := ts_history st\<rparr>)"

text \<open>The new outputs are inserted, then the spent ones deleted; the outputs of the genesis block are not spendable.\<close>

definition prepare_transparent_transaction_batch ::
  "semantic_block \<Rightarrow> outpoint list \<Rightarrow> ('t, 'h) finalized_db \<Rightarrow> ('t, 'h) finalized_db" where
  "prepare_transparent_transaction_batch b spent db =
     (if sv_height b = 0 then db
      else db\<lparr>db_utxo := (\<lambda>op. if op \<in> set spent then None else (db_utxo db ++ sv_new_outputs b) op)\<rparr>)"

definition prepare_chain_value_pools_batch ::
  "profile \<Rightarrow> semantic_block \<Rightarrow> amount \<Rightarrow> (outpoint \<rightharpoonup> utxo) \<Rightarrow> ('t, 'h) finalized_db \<Rightarrow> (spend_error, ('t, 'h) finalized_db) outcome" where
  "prepare_chain_value_pools_batch p b deferred_change utxos_spent_by_block db =
     qbind (map_err (\<lambda>e. CalculateBlockChainValueChange e (sv_height b) (sv_hash b) (length (sv_transaction_hashes b)) (card (dom utxos_spent_by_block)))
              (chain_value_pool_change p (sv_transactions b) utxos_spent_by_block deferred_change)) (\<lambda>block_value_pool_change.
     qbind (map_err (\<lambda>e. AddValuePool e (db_pools db) block_value_pool_change (Some (sv_height b)))
              (add_chain_value_pool_change p (db_pools db) block_value_pool_change)) (\<lambda>new_value_pool.
       Ok (db\<lparr>db_pools := new_value_pool,
              db_block_info := (db_block_info db)(sv_height b \<mapsto> (new_value_pool, sv_serialized_size b mod 2 ^ 32))\<rparr>)))"

definition lookup_out_loc :: "semantic_block \<Rightarrow> outpoint \<Rightarrow> (spend_error, unit) outcome" where
  "lookup_out_loc b op = assert_that (outpoint_hash op \<in> set (sv_transaction_hashes b))"

definition spent_utxo :: "semantic_block \<Rightarrow> ('t, 'h) finalized_db \<Rightarrow> outpoint \<Rightarrow> (spend_error, outpoint \<times> utxo) outcome" where
  "spent_utxo b db op =
     qbind (if db_tx_loc db (outpoint_hash op) \<noteq> None then Ok () else lookup_out_loc b op) (\<lambda>_.
       map_ok (\<lambda>u. (op, ordered_inner u)) (expect (case db_utxo db op of Some u \<Rightarrow> Some u | None \<Rightarrow> sv_new_outputs b op)))"

definition write_block ::
  "('t, 'h) chain_env \<Rightarrow> semantic_block \<Rightarrow> ('t, 'h) treestate \<Rightarrow> amount \<Rightarrow> 't note_commitment_trees option
    \<Rightarrow> ('t, 'h) finalized_db \<Rightarrow> (spend_error, bytes \<times> ('t, 'h) finalized_db) outcome" where
  "write_block env b st deferred_change prev_note_commitment_trees db =
     qbind (assert_that (\<forall>op \<in> dom (sv_new_outputs b). lookup_out_loc b op = Ok ())) (\<lambda>_.
     qbind (collect_ok (spent_utxo b db) (concat (map spent_outpoints (sv_transactions b)))) (\<lambda>spent_utxos.
     qbind (prepare_block_header_and_transaction_data_batch b db) (\<lambda>db.
     let db = prepare_shielded_transaction_batch (sv_transactions b) db;
         db = prepare_trees_batch (env_ops env) (sv_height b) st prev_note_commitment_trees db;
         db = prepare_transparent_transaction_batch b (map fst spent_utxos) db in
     map_ok (\<lambda>db. (sv_hash b, db))
       (prepare_chain_value_pools_batch (env_profile env) b deferred_change (map_of (rev spent_utxos)) db))))"

section \<open>Committing a block\<close>

datatype ('t, 'h) finalizable_block = Checkpoint semantic_block | Contextual cv_block "('t, 'h) treestate"

text \<open>The trees and the history after a checkpointed block, whose commitment is checked here.\<close>

definition checkpoint_treestate ::
  "('t, 'h) chain_env \<Rightarrow> commit_lib \<Rightarrow> semantic_block \<Rightarrow> 't note_commitment_trees \<Rightarrow> ('t, 'h) finalized_db \<Rightarrow> (spend_error, ('t, 'h) treestate) outcome" where
  "checkpoint_treestate env lib b prev_trees db =
     qbind (map_err NoteCommitmentTreeError (update_trees_parallel (env_ops env) (sv_transactions b) prev_trees)) (\<lambda>nct.
     qbind (block_commitment_is_valid_for_chain_history (cm_commitments lib) (db_network db) (history_root (env_ops env) (db_history db)) b) (\<lambda>_.
       map_ok (\<lambda>history_tree. \<lparr>ts_trees = nct, ts_history = history_tree\<rparr>)
         (map_err HistoryTreeError (push_history (env_ops env) (db_network db) b
            \<lparr>sapling_root = sapling_root_of (env_ops env) (nct_sapling nct), orchard_root = orchard_root_of (env_ops env) (nct_orchard nct),
             ironwood_root = orchard_root_of (env_ops env) (nct_ironwood nct)\<rparr> (db_history db)))))"

definition finalized_parts ::
  "('t, 'h) chain_env \<Rightarrow> commit_lib \<Rightarrow> ('t, 'h) finalizable_block \<Rightarrow> 't note_commitment_trees option \<Rightarrow> ('t, 'h) finalized_db
    \<Rightarrow> (spend_error, semantic_block \<times> ('t, 'h) treestate \<times> 't note_commitment_trees option) outcome" where
  "finalized_parts env lib fb prev_note_commitment_trees db =
     (case fb of
        Checkpoint b \<Rightarrow>
          let prev_trees = (case prev_note_commitment_trees of Some trees \<Rightarrow> trees | None \<Rightarrow> db_trees db) in
          map_ok (\<lambda>st. (b, st, Some prev_trees)) (checkpoint_treestate env lib b prev_trees db)
      | Contextual b st \<Rightarrow> Ok (semantic_block.truncate b, st, prev_note_commitment_trees))"

definition commit_finalized_direct ::
  "('t, 'h) chain_env \<Rightarrow> commit_lib \<Rightarrow> ('t, 'h) finalizable_block \<Rightarrow> 't note_commitment_trees option \<Rightarrow> ('t, 'h) finalized_db
    \<Rightarrow> (spend_error, (bytes \<times> 't note_commitment_trees) \<times> ('t, 'h) finalized_db) outcome" where
  "commit_finalized_direct env lib fb prev_note_commitment_trees db =
     qbind (finalized_parts env lib fb prev_note_commitment_trees db) (\<lambda>(b, st, prev_note_commitment_trees).
     qbind (calculate_deferred_pool_balance_change (env_profile env) (cm_parse lib) (sv_height b) (db_network db)) (\<lambda>deferred_change.
     qbind (assert_that (if db_tip db = None then finalized_tip_hash db = sv_previous_block_hash b \<and> sv_height b = 0
                         else Option.bind (finalized_tip_height db) (\<lambda>h. height_add h 1) = Some (sv_height b)
                           \<and> finalized_tip_hash db = sv_previous_block_hash b)) (\<lambda>_.
       map_ok (\<lambda>(hash, db). ((hash, ts_trees st), db)) (write_block env b st deferred_change prev_note_commitment_trees db))))"

section \<open>Facts about value pools\<close>

lemma amount_neg_ok: "amount_neg p a = Ok b \<Longrightarrow> amount_ok p NegativeAllowed b"
  by (auto simp: amount_neg_def try_from_i64_eq split: if_splits)

lemma checked_sub_ok: "amount_checked_sub p a b = Some c \<Longrightarrow> amount_ok p NegativeAllowed c"
  by (auto simp: amount_checked_sub_def try_from_i64_eq bind_eq_Some_conv split: if_splits)

lemma calculate_deferred_ok:
  assumes "calculate_deferred_pool_balance_change p parse h net = Ok a"
  shows "amount_ok p NegativeAllowed a"
proof -
  have "a = Amount 0 \<or> (\<exists>b c. amount_checked_sub p b c = Some a)"
    using assms by (auto simp: calculate_deferred_pool_balance_change_def Let_def split: if_splits option.splits)
  then show ?thesis using MAX_MONEY_pos [of p] by (auto dest: checked_sub_ok)
qed

lemma chain_value_pool_change_ok:
  assumes "chain_value_pool_change p txs utxos a = Ok v" "amount_ok p NegativeAllowed a"
  shows "vb_ok p NegativeAllowed v"
proof -
  from assms(1) obtain s w where w: "vb_neg p s = Ok w" "v = set_deferred_amount w a"
    by (auto simp: chain_value_pool_change_def)
  from w(1) have "amount_neg p (pool_of s q) = (Ok (pool_of w q) :: (amount_error, _) outcome)" for q by (simp add: vb_neg_def each_pool_Ok)
  then have "amount_ok p NegativeAllowed (pool_of w q)" for q by (rule amount_neg_ok)
  from this [of Transparent_pool] this [of Sprout_pool] this [of Sapling_pool] this [of Orchard_pool] this [of Ironwood_pool] w(2) assms(2)
  show ?thesis by (simp add: vb_ok_iff all_pools set_deferred_amount_def)
qed

end
