(* ===== verification/Non_Finalized.thy ===== *)
theory Non_Finalized
  imports Finalized_State
begin

text \<open>
  The set of non-finalized chains, from \<^verbatim>\<open>zebra-state/src/service/non_finalized_state.rs\<close>.

  \<open>non_finalized_state\<close> is \<^verbatim>\<open>NonFinalizedState\<close>: the chains as a list in ascending order of work
  (a \<^verbatim>\<open>BTreeSet\<close>), so that the best chain is the last, and the invalidated blocks with their heights in
  insertion order (an \<^verbatim>\<open>IndexMap\<close>).  A block is committed on top of a chain, or of a fork of a chain at its
  parent, or as a new chain at the finalized tip; the lowest block of the best chain is finalized;
  a block can be invalidated and reconsidered by hand.  Metrics and backups are not modelled.

  The invariant and what the operations guarantee are in theory \<open>Non_Finalized_Rules\<close>.
\<close>

section \<open>The state\<close>

record ('t, 'h) non_finalized_state =
  nf_chains :: "('t, 'h) chain list"
  nf_invalidated :: "(height \<times> cv_block list) list"
  nf_network :: network

definition MAX_NON_FINALIZED_CHAIN_FORKS :: nat where "MAX_NON_FINALIZED_CHAIN_FORKS = 10"
definition MAX_INVALIDATED_BLOCKS :: nat where "MAX_INVALIDATED_BLOCKS = 100"
definition MAX_BLOCK_REORG_HEIGHT :: nat where "MAX_BLOCK_REORG_HEIGHT = 1000"

definition non_finalized_new :: "network \<Rightarrow> ('t, 'h) non_finalized_state" where
  "non_finalized_new net = \<lparr>nf_chains = [], nf_invalidated = [], nf_network = net\<rparr>"

section \<open>The set of chains\<close>

text \<open>Insertion into the ordered set: a chain that is equal to one of the set is not inserted.\<close>

fun set_insert :: "('t, 'h) chain \<Rightarrow> ('t, 'h) chain list \<Rightarrow> (spend_error, ('t, 'h) chain list) outcome" where
  "set_insert c [] = Ok [c]"
| "set_insert c (d # ds) =
     qbind (chain_cmp c d) (\<lambda>r. case r of
        Less \<Rightarrow> Ok (c # d # ds)
      | Equal \<Rightarrow> Ok (d # ds)
      | Greater \<Rightarrow> map_ok (Cons d) (set_insert c ds))"

fun set_remove :: "('t, 'h) chain \<Rightarrow> ('t, 'h) chain list \<Rightarrow> (spend_error, ('t, 'h) chain list) outcome" where
  "set_remove c [] = Ok []"
| "set_remove c (d # ds) =
     qbind (chain_cmp c d) (\<lambda>r. if r = Equal then Ok ds else map_ok (Cons d) (set_remove c ds))"

fun set_retain :: "(('t, 'h) chain \<Rightarrow> (spend_error, bool) outcome) \<Rightarrow> ('t, 'h) chain list \<Rightarrow> (spend_error, ('t, 'h) chain list) outcome" where
  "set_retain P [] = Ok []"
| "set_retain P (d # ds) =
     qbind (P d) (\<lambda>keep. map_ok (\<lambda>ds. if keep then d # ds else ds) (set_retain P ds))"

definition limit_chains :: "('t, 'h) chain list \<Rightarrow> ('t, 'h) chain list" where
  "limit_chains cs = drop (length cs - MAX_NON_FINALIZED_CHAIN_FORKS) cs"

definition insert_with ::
  "('t, 'h) chain \<Rightarrow> (('t, 'h) chain \<Rightarrow> (spend_error, bool) outcome) \<Rightarrow> ('t, 'h) non_finalized_state \<Rightarrow> (spend_error, ('t, 'h) non_finalized_state) outcome" where
  "insert_with c P s =
     qbind (set_insert c (nf_chains s)) (\<lambda>cs.
     qbind (set_retain P cs) (\<lambda>cs.
       Ok (s\<lparr>nf_chains := limit_chains cs\<rparr>)))"

definition insert_chain :: "('t, 'h) chain \<Rightarrow> ('t, 'h) non_finalized_state \<Rightarrow> (spend_error, ('t, 'h) non_finalized_state) outcome" where
  "insert_chain c s = insert_with c (\<lambda>_. Ok True) s"

definition best_chain :: "('t, 'h) non_finalized_state \<Rightarrow> ('t, 'h) chain option" where
  "best_chain s = (if nf_chains s = [] then None else Some (last (nf_chains s)))"

definition best_chain_len :: "('t, 'h) non_finalized_state \<Rightarrow> nat option" where
  "best_chain_len s = map_option (\<lambda>c. length (c_blocks c)) (best_chain s)"

fun find_ok :: "('a \<Rightarrow> ('e, bool) outcome) \<Rightarrow> 'a list \<Rightarrow> ('e, 'a option) outcome" where
  "find_ok P [] = Ok None"
| "find_ok P (x # xs) = qbind (P x) (\<lambda>b. if b then Ok (Some x) else find_ok P xs)"

fun find_map_ok :: "('a \<Rightarrow> ('e, 'b option) outcome) \<Rightarrow> 'a list \<Rightarrow> ('e, 'b option) outcome" where
  "find_map_ok f [] = Ok None"
| "find_map_ok f (x # xs) = qbind (f x) (\<lambda>r. case r of Some y \<Rightarrow> Ok (Some y) | None \<Rightarrow> find_map_ok f xs)"

text \<open>The chains are searched from the best one down.\<close>

definition find_chain ::
  "(('t, 'h) chain \<Rightarrow> (spend_error, bool) outcome) \<Rightarrow> ('t, 'h) non_finalized_state \<Rightarrow> (spend_error, ('t, 'h) chain option) outcome" where
  "find_chain P s = find_ok P (rev (nf_chains s))"

definition parent_chain :: "('t, 'h) chain_env \<Rightarrow> bytes \<Rightarrow> ('t, 'h) non_finalized_state \<Rightarrow> (spend_error, ('t, 'h) chain) outcome" where
  "parent_chain env parent_hash s =
     qbind (find_chain (\<lambda>c. map_ok (\<lambda>h. h = parent_hash) (non_finalized_tip_hash c)) s) (\<lambda>found. case found of
        Some c \<Rightarrow> Ok c
      | None \<Rightarrow>
          qbind (find_map_ok (fork env parent_hash) (rev (nf_chains s))) (\<lambda>forked.
            ok_or forked spend_error.NotReadyToBeCommitted))"

section \<open>Queries\<close>

fun find_map :: "('a \<Rightarrow> 'b option) \<Rightarrow> 'a list \<Rightarrow> 'b option" where
  "find_map f [] = None"
| "find_map f (x # xs) = (case f x of Some y \<Rightarrow> Some y | None \<Rightarrow> find_map f xs)"

definition root_height :: "('t, 'h) non_finalized_state \<Rightarrow> ('e, height option) outcome" where
  "root_height s = (case best_chain s of None \<Rightarrow> Ok None | Some c \<Rightarrow> map_ok Some (non_finalized_root_height c))"

definition any_chain_contains :: "bytes \<Rightarrow> ('t, 'h) non_finalized_state \<Rightarrow> bool" where
  "any_chain_contains hash s = list_ex (\<lambda>c. c_height_by_hash c hash \<noteq> None) (rev (nf_chains s))"

definition any_utxo :: "outpoint \<Rightarrow> ('t, 'h) non_finalized_state \<Rightarrow> utxo option" where
  "any_utxo op s = find_map (\<lambda>c. created_utxo c op) (rev (nf_chains s))"

definition any_block_by_hash :: "bytes \<Rightarrow> ('t, 'h) non_finalized_state \<Rightarrow> cv_block option" where
  "any_block_by_hash hash s = find_map (\<lambda>c. Option.bind (c_height_by_hash c hash) (map_of (c_blocks c))) (rev (nf_chains s))"

definition any_prev_block_hash_for_hash :: "bytes \<Rightarrow> ('t, 'h) non_finalized_state \<Rightarrow> bytes option" where
  "any_prev_block_hash_for_hash hash s = map_option sv_previous_block_hash (any_block_by_hash hash s)"

definition best_hash :: "height \<Rightarrow> ('t, 'h) non_finalized_state \<Rightarrow> bytes option" where
  "best_hash h s = Option.bind (best_chain s) (\<lambda>c. map_option sv_hash (map_of (c_blocks c) h))"

definition best_tip :: "('t, 'h) non_finalized_state \<Rightarrow> ('e, (height \<times> bytes) option) outcome" where
  "best_tip s =
     (case best_chain s of
        None \<Rightarrow> Ok None
      | Some c \<Rightarrow>
          qbind (non_finalized_tip_height c) (\<lambda>h. qbind (non_finalized_tip_hash c) (\<lambda>hash. Ok (Some (h, hash)))))"

definition tip_block :: "('t, 'h) chain \<Rightarrow> cv_block option" where
  "tip_block c = map_option snd (bt_last (c_blocks c))"

definition best_tip_block :: "('t, 'h) non_finalized_state \<Rightarrow> cv_block option" where
  "best_tip_block s = Option.bind (best_chain s) tip_block"

definition best_height_by_hash :: "bytes \<Rightarrow> ('t, 'h) non_finalized_state \<Rightarrow> height option" where
  "best_height_by_hash hash s = Option.bind (best_chain s) (\<lambda>c. c_height_by_hash c hash)"

definition any_height_by_hash :: "bytes \<Rightarrow> ('t, 'h) non_finalized_state \<Rightarrow> height option" where
  "any_height_by_hash hash s = find_map (\<lambda>c. c_height_by_hash c hash) (rev (nf_chains s))"

section \<open>Finalizing a block\<close>

text \<open>The loop over the side chains, from the best down, adding to the set those whose root is finalized.\<close>

fun finalize_side_chains ::
  "('t, 'h) chain_env \<Rightarrow> bytes \<Rightarrow> ('t, 'h) chain list \<Rightarrow> ('t, 'h) non_finalized_state \<Rightarrow> (spend_error, ('t, 'h) non_finalized_state) outcome" where
  "finalize_side_chains env root_hash [] s = Ok s"
| "finalize_side_chains env root_hash (c # cs) s =
     qbind (non_finalized_root_hash c) (\<lambda>hash.
       if hash \<noteq> root_hash then finalize_side_chains env root_hash cs s
       else
         qbind (pop_root env c) (\<lambda>((b, _), c).
         qbind (assert_that (sv_hash b = root_hash)) (\<lambda>_.
         qbind (if c_blocks c = [] then Ok s else insert_chain c s) (\<lambda>s.
           finalize_side_chains env root_hash cs s))))"

definition finalize ::
  "('t, 'h) chain_env \<Rightarrow> ('t, 'h) non_finalized_state \<Rightarrow> (spend_error, (cv_block \<times> ('t, 'h) treestate) \<times> ('t, 'h) non_finalized_state) outcome" where
  "finalize env s =
     qbind (expect (best_chain s)) (\<lambda>best.
     qbind (pop_root env best) (\<lambda>((root, st), best).
     let side_chains = butlast (nf_chains s); s = s\<lparr>nf_chains := []\<rparr> in
     qbind (if c_blocks best = [] then Ok s else insert_chain best s) (\<lambda>s.
     qbind (finalize_side_chains env (sv_hash root) (rev side_chains) s) (\<lambda>s.
       Ok ((root, st), s\<lparr>nf_invalidated := filter (\<lambda>(h, _). h \<ge> sv_height root) (nf_invalidated s)\<rparr>)))))"

section \<open>Committing a block\<close>

text \<open>
  The three tasks run in one scope: a panic of one is a panic of the check, and the errors are returned
  in this order.
\<close>

definition validate_and_update_parallel ::
  "('t, 'h) chain_env \<Rightarrow> commit_lib \<Rightarrow> ('t, 'h) chain \<Rightarrow> cv_block \<Rightarrow> (bytes \<rightharpoonup> 't) \<Rightarrow> (spend_error, ('t, 'h) chain) outcome" where
  "validate_and_update_parallel env lib new_chain contextual sprout_final_treestates =
     qbind (history_block_commitment_tree (c_trees new_chain)) (\<lambda>history_tree.
     let block = semantic_block.truncate contextual;
         block_commitment_result =
           block_commitment_is_valid_for_chain_history (cm_commitments lib) (c_network new_chain)
             (history_root (env_ops env) history_tree) block;
         sprout_anchor_result = block_sprout_anchors_refer_to_treestates (env_ops env) sprout_final_treestates block;
         chain_push_result = push env contextual new_chain in
     if block_commitment_result = Panic \<or> sprout_anchor_result = Panic \<or> chain_push_result = Panic then Panic
     else qbind block_commitment_result (\<lambda>_. qbind sprout_anchor_result (\<lambda>_. chain_push_result)))"

definition validate_and_commit ::
  "('t, 'h) chain_env \<Rightarrow> commit_lib \<Rightarrow> ('t, 'h) finalized_db \<Rightarrow> ('t, 'h) chain \<Rightarrow> semantic_block \<Rightarrow> ('t, 'h) non_finalized_state
    \<Rightarrow> (spend_error, ('t, 'h) chain) outcome" where
  "validate_and_commit env lib db new_chain prepared s =
     qbind (fail_if (\<exists>(_, blocks) \<in> set (nf_invalidated s). \<exists>b \<in> set blocks. sv_hash b = sv_hash prepared)
              (BlockPreviouslyInvalidated (sv_hash prepared))) (\<lambda>_.
     qbind (transparent_spend (env_profile env) prepared
              \<lparr>ctx_network = db_network db, ctx_unspent = unspent_utxos (c_tx new_chain), ctx_spent = spent_utxos (c_tx new_chain),
               ctx_finalized = db_utxo db\<rparr>) (\<lambda>spent.
     qbind (block_sapling_orchard_anchors_refer_to_final_treestates db new_chain prepared) (\<lambda>_.
     let sprout_final_treestates = block_fetch_sprout_final_treestates db new_chain prepared in
     qbind (calculate_deferred_pool_balance_change (env_profile env) (cm_parse lib) (sv_height prepared) (nf_network s)) (\<lambda>deferred_change.
     qbind (map_err (\<lambda>e. CalculateBlockChainValueChange e (sv_height prepared) (sv_hash prepared)
                (length (sv_transactions prepared)) (card (dom spent)))
              (with_block_and_spent_utxos (env_profile env) prepared spent deferred_change)) (\<lambda>contextual.
       validate_and_update_parallel env lib new_chain contextual sprout_final_treestates)))))"

definition commit_block ::
  "('t, 'h) chain_env \<Rightarrow> commit_lib \<Rightarrow> ('t, 'h) finalized_db \<Rightarrow> semantic_block \<Rightarrow> ('t, 'h) non_finalized_state
    \<Rightarrow> (spend_error, ('t, 'h) non_finalized_state) outcome" where
  "commit_block env lib db prepared s =
     (let parent_hash = sv_previous_block_hash prepared in
      qbind (parent_chain env parent_hash s) (\<lambda>parent.
      qbind (validate_and_commit env lib db parent prepared s) (\<lambda>modified.
        insert_with modified (\<lambda>c. map_ok (\<lambda>h. h \<noteq> parent_hash) (non_finalized_tip_hash c)) s)))"

definition chain_at_finalized_tip ::
  "('t, 'h) chain_env \<Rightarrow> ('t, 'h) finalized_db \<Rightarrow> height \<Rightarrow> ('t, 'h) non_finalized_state \<Rightarrow> (spend_error, ('t, 'h) chain) outcome" where
  "chain_at_finalized_tip env db tip_height s =
     chain_new env (nf_network s) tip_height (db_trees db) (db_history db) (db_pools db)"

definition commit_new_chain ::
  "('t, 'h) chain_env \<Rightarrow> commit_lib \<Rightarrow> ('t, 'h) finalized_db \<Rightarrow> semantic_block \<Rightarrow> ('t, 'h) non_finalized_state
    \<Rightarrow> (spend_error, ('t, 'h) non_finalized_state) outcome" where
  "commit_new_chain env lib db prepared s =
     qbind (expect (finalized_tip_height db)) (\<lambda>tip_height.
     qbind (chain_at_finalized_tip env db tip_height s) (\<lambda>c.
     qbind (validate_and_commit env lib db c prepared s) (\<lambda>c.
       insert_chain c s)))"

section \<open>Invalidating and reconsidering blocks\<close>

datatype invalidate_error = ProcessingCheckpointedBlocks | SendInvalidateRequestFailed | InvalidateRequestDropped | BlockNotFound bytes

datatype reconsider_error =
    MissingInvalidatedBlock bytes
  | ParentChainNotFound bytes
  | InvalidatedBlocksEmpty
  | CheckpointCommitInProgress
  | ReconsiderSendFailed
  | ReconsiderResponseDropped
  | ReplayFailed spend_error

text \<open>Insertion into an \<^verbatim>\<open>IndexMap\<close>: a known key keeps its place.\<close>

fun index_map_insert :: "'k \<Rightarrow> 'v \<Rightarrow> ('k \<times> 'v) list \<Rightarrow> ('k \<times> 'v) list" where
  "index_map_insert k v [] = [(k, v)]"
| "index_map_insert k v ((k', v') # m) = (if k = k' then (k, v) # m else (k', v') # index_map_insert k v m)"

definition limit_invalidated :: "(height \<times> cv_block list) list \<Rightarrow> (height \<times> cv_block list) list" where
  "limit_invalidated m = drop (length m - MAX_INVALIDATED_BLOCKS) m"

text \<open>The chain operations that cannot fail report no error of their own.\<close>

abbreviation no_error :: "(spend_error, 'a) outcome \<Rightarrow> ('e, 'a) outcome" where
  "no_error \<equiv> expect_ok"

definition invalidate_block ::
  "('t, 'h) chain_env \<Rightarrow> bytes \<Rightarrow> ('t, 'h) non_finalized_state \<Rightarrow> (invalidate_error, bytes \<times> ('t, 'h) non_finalized_state) outcome" where
  "invalidate_block env block_hash s =
     qbind (no_error (find_chain (\<lambda>c. Ok (contains_block_hash c block_hash)) s)) (\<lambda>found. case found of
        None \<Rightarrow> Err (BlockNotFound block_hash)
      | Some c \<Rightarrow>
          qbind (non_finalized_root_hash c) (\<lambda>root_hash.
          qbind (if root_hash = block_hash
                 then map_ok (\<lambda>cs. (map snd (c_blocks c), s\<lparr>nf_chains := cs\<rparr>)) (no_error (set_remove c (nf_chains s)))
                 else
                   qbind (no_error (invalidate_chain_block env block_hash c)) (\<lambda>r.
                   qbind (expect r) (\<lambda>(new_chain, invalidated).
                     map_ok (\<lambda>s. (invalidated, s))
                       (no_error (insert_with new_chain (\<lambda>c. Ok (\<not> contains_block_hash c block_hash)) s))))) (\<lambda>(invalidated, s).
          qbind (expect (case invalidated of [] \<Rightarrow> None | b # _ \<Rightarrow> Some (sv_height b))) (\<lambda>h.
            Ok (block_hash, s\<lparr>nf_invalidated := limit_invalidated (index_map_insert h invalidated (nf_invalidated s))\<rparr>)))))"

definition reconsider_block ::
  "('t, 'h) chain_env \<Rightarrow> ('t, 'h) finalized_db \<Rightarrow> bytes \<Rightarrow> ('t, 'h) non_finalized_state
    \<Rightarrow> (reconsider_error, bytes list \<times> ('t, 'h) non_finalized_state) outcome" where
  "reconsider_block env db block_hash s =
     qbind (ok_or (find (\<lambda>(_, blocks). map_option sv_hash (case blocks of [] \<Rightarrow> None | b # _ \<Rightarrow> Some b) = Some block_hash) (nf_invalidated s))
              (MissingInvalidatedBlock block_hash)) (\<lambda>(h, invalidated).
     qbind (ok_or (case invalidated of [] \<Rightarrow> None | b # _ \<Rightarrow> Some b) InvalidatedBlocksEmpty) (\<lambda>invalidated_root.
     let root_parent_hash = sv_previous_block_hash invalidated_root in
     qbind (if root_parent_hash = finalized_tip_hash db
            then qbind (ok_or (finalized_tip_height db) (ParentChainNotFound block_hash)) (\<lambda>tip_height.
                   no_error (chain_at_finalized_tip env db tip_height s))
            else map_err (\<lambda>_. ParentChainNotFound block_hash) (parent_chain env root_parent_hash s)) (\<lambda>parent.
     qbind (map_err ReplayFailed (try_fold (\<lambda>c b. push env b c) parent invalidated)) (\<lambda>modified.
     qbind (non_finalized_tip_height modified) (\<lambda>_.
     let remaining = filter (\<lambda>(h', _). h' \<noteq> h) (nf_invalidated s);
         remaining = (case finalized_tip_height db of None \<Rightarrow> remaining | Some tip \<Rightarrow> filter (\<lambda>(h', _). h' \<ge> tip) remaining) in
     qbind (no_error (insert_with modified (\<lambda>c. map_ok (\<lambda>h. h \<noteq> root_parent_hash) (non_finalized_tip_hash c))
              (s\<lparr>nf_invalidated := remaining\<rparr>))) (\<lambda>s.
       Ok (map sv_hash invalidated, s)))))))"

end
