(* ===== verification/Write_Task.thy ===== *)
theory Write_Task
  imports Non_Finalized
begin

text \<open>
  The task that writes blocks, from \<^verbatim>\<open>zebra-state/src/service/write.rs\<close>.

  \<open>write_task\<close> is \<^verbatim>\<open>WriteBlockWorkerTask\<close>: the finalized and the non-finalized state, the trees of the last
  finalized block and the errors of rejected blocks, which their children inherit.  What the task sends
  to other tasks is the list of \<open>wt_events\<close>.  The task first commits the checkpointed blocks
  (\<open>commit_checkpointed\<close>), then it handles messages (\<open>handle_message\<close>); after every committed block it
  finalizes the blocks of the best chain that are deeper than the longest reorganisation
  (\<open>finalize_past_limit\<close>).  Not modelled: the closing of the channels, metrics and backups.
\<close>

section \<open>The state\<close>

datatype commit_error = RecentChainError validate_context_error | ContextError spend_error

datatype write_event =
    Finalized_tip height bytes
  | Best_tip cv_block
  | Reset bytes
  | Rejected bytes
  | Checkpoint_reply "(spend_error, bytes) outcome"
  | Commit_reply "(commit_error, bytes) outcome"
  | Invalidate_reply "(invalidate_error, bytes) outcome"
  | Reconsider_reply "(reconsider_error, bytes list) outcome"

record ('t, 'h) write_task =
  wt_db :: "('t, 'h) finalized_db"
  wt_nf :: "('t, 'h) non_finalized_state"
  wt_prev_trees :: "'t note_commitment_trees option"
  wt_parent_errors :: "(bytes \<times> commit_error) list"
  wt_events :: "write_event list"

datatype write_message = Commit semantic_block | Invalidate bytes | Reconsider bytes

definition PARENT_ERROR_MAP_LIMIT :: nat where "PARENT_ERROR_MAP_LIMIT = MAX_BLOCK_REORG_HEIGHT * 2"

definition send :: "write_event list \<Rightarrow> ('t, 'h) write_task \<Rightarrow> ('t, 'h) write_task" where
  "send evs t = t\<lparr>wt_events := wt_events t @ evs\<rparr>"

section \<open>The checks of a block\<close>

definition any_ancestor_blocks ::
  "nat \<Rightarrow> ('t, 'h) non_finalized_state \<Rightarrow> ('t, 'h) finalized_db \<Rightarrow> bytes \<Rightarrow> (spend_error, semantic_block list) outcome" where
  "any_ancestor_blocks n s db hash =
     map_ok (\<lambda>c. ancestor_blocks n c db (read_height_by_hash c db hash)) (find_chain (\<lambda>c. Ok (contains_block_hash c hash)) s)"

definition initial_contextual_validity ::
  "('t, 'h) finalized_db \<Rightarrow> ('t, 'h) non_finalized_state \<Rightarrow> semantic_block \<Rightarrow> (commit_error, unit) outcome" where
  "initial_contextual_validity db s b =
     qbind (map_err ContextError (any_ancestor_blocks POW_ADJUSTMENT_BLOCK_SPAN s db (sv_previous_block_hash b))) (\<lambda>relevant_chain.
     qbind (map_err RecentChainError
              (block_is_valid_for_recent_chain (header_of b) (sv_height b) (nf_network s) (finalized_tip_height db)
                (map header_of relevant_chain))) (\<lambda>_.
       map_err ContextError (no_duplicates_in_finalized_chain (db_nullifiers db) (sv_transactions b))))"

definition validate_and_commit_non_finalized ::
  "('t, 'h) chain_env \<Rightarrow> commit_lib \<Rightarrow> ('t, 'h) finalized_db \<Rightarrow> semantic_block \<Rightarrow> ('t, 'h) non_finalized_state
    \<Rightarrow> (commit_error, ('t, 'h) non_finalized_state) outcome" where
  "validate_and_commit_non_finalized env lib db b s =
     qbind (initial_contextual_validity db s b) (\<lambda>_.
       map_err ContextError
         (if finalized_tip_hash db = sv_previous_block_hash b then commit_new_chain env lib db b s
          else commit_block env lib db b s))"

section \<open>Finalizing deep blocks\<close>

definition total_blocks :: "('t, 'h) chain list \<Rightarrow> nat" where
  "total_blocks cs = sum_list (map (\<lambda>c. length (c_blocks c)) cs)"

lemma set_insert_blocks: "set_insert c cs = Ok cs' \<Longrightarrow> total_blocks cs' \<le> length (c_blocks c) + total_blocks cs"
proof (induction cs arbitrary: cs')
  case (Cons d ds)
  from Cons.prems obtain r where "chain_cmp c d = Ok r" by auto
  with Cons show ?case by (cases r) (fastforce simp: total_blocks_def)+
qed (simp add: total_blocks_def)

lemma total_blocks_drop: "total_blocks (drop n cs) \<le> total_blocks cs"
  by (metis append_take_drop_id le_add2 map_append sum_list_append total_blocks_def)

lemma set_retain_all [simp]: "set_retain (\<lambda>_. Ok True) cs = Ok cs"
  by (induction cs) auto

lemma insert_chain_blocks:
  assumes "insert_chain c s = Ok s'"
  shows "total_blocks (nf_chains s') \<le> length (c_blocks c) + total_blocks (nf_chains s)"
proof -
  from assms obtain cs where cs: "set_insert c (nf_chains s) = Ok cs" and s': "nf_chains s' = limit_chains cs"
    by (auto simp: insert_chain_def insert_with_def)
  have "total_blocks (limit_chains cs) \<le> total_blocks cs" unfolding limit_chains_def by (rule total_blocks_drop)
  with set_insert_blocks [OF cs] s' show ?thesis by simp
qed

lemma pop_root_shorter:
  fixes c :: "('t, 'h) chain"
  assumes "pop_root env c = Ok (r, c')"
  shows "length (c_blocks c') < length (c_blocks c)"
proof -
  from assms obtain h b and st :: "('t, 'h) treestate" where h: "map_of (c_blocks c) h = Some b"
    and r: "revert_chain_with env b Root (c\<lparr>c_trees := pop_first_subtrees (ts_trees st) (c_trees c), c_blocks := bt_remove h (c_blocks c)\<rparr>) = Ok c'"
    by (auto simp: pop_root_def)
  from h have "length (bt_remove h (c_blocks c)) < length (c_blocks c)"
    unfolding bt_remove_def by (intro length_filter_less [OF map_of_SomeD]) auto
  with revert_keeps_blocks [OF r] show ?thesis by simp
qed

lemma finalize_side_chains_blocks:
  "finalize_side_chains env root cs s = Ok s' \<Longrightarrow> total_blocks (nf_chains s') \<le> total_blocks cs + total_blocks (nf_chains s)"
proof (induction cs arbitrary: s)
  case (Cons c cs)
  from Cons.prems obtain hash where hash: "non_finalized_root_hash c = (Ok hash :: (spend_error, _) outcome)" by auto
  show ?case
  proof (cases "hash = root")
    case False
    with Cons hash show ?thesis by (fastforce simp: total_blocks_def)
  next
    case True
    with Cons.prems hash obtain b st c' s1 where pop: "pop_root env c = Ok ((b, st), c')"
      and s1: "(if c_blocks c' = [] then Ok s else insert_chain c' s) = Ok s1" and rest: "finalize_side_chains env root cs s1 = Ok s'"
      by auto
    have "total_blocks (nf_chains s1) \<le> length (c_blocks c) + total_blocks (nf_chains s)"
      using s1 insert_chain_blocks [of c' s s1] pop_root_shorter [OF pop] by (auto split: if_splits)
    with Cons.IH [OF rest] show ?thesis by (simp add: total_blocks_def)
  qed
qed simp

lemma finalize_shrinks:
  assumes "finalize env s = Ok (r, s')"
  shows "total_blocks (nf_chains s') < total_blocks (nf_chains s)"
proof -
  from assms obtain best root st c' s1 s2 where best: "best_chain s = Some best" and pop: "pop_root env best = Ok ((root, st), c')"
    and s1: "(if c_blocks c' = [] then Ok (s\<lparr>nf_chains := []\<rparr>) else insert_chain c' (s\<lparr>nf_chains := []\<rparr>)) = Ok s1"
    and s2: "finalize_side_chains env (sv_hash root) (rev (butlast (nf_chains s))) s1 = Ok s2" and s': "nf_chains s' = nf_chains s2"
    by (auto simp: finalize_def Let_def)
  from best have split: "nf_chains s = butlast (nf_chains s) @ [best]" by (auto simp: best_chain_def split: if_splits)
  have "total_blocks (nf_chains s1) \<le> length (c_blocks c')"
    using s1 insert_chain_blocks [of c' "s\<lparr>nf_chains := []\<rparr>" s1] by (auto simp: total_blocks_def split: if_splits)
  then have "total_blocks (nf_chains s1) < length (c_blocks best)" using pop_root_shorter [OF pop] by simp
  moreover have "total_blocks (rev (butlast (nf_chains s))) = total_blocks (butlast (nf_chains s))"
    by (simp add: total_blocks_def rev_map [symmetric] sum_list_rev)
  moreover have "total_blocks (nf_chains s) = total_blocks (butlast (nf_chains s)) + length (c_blocks best)"
    by (subst split) (simp add: total_blocks_def)
  ultimately show ?thesis using finalize_side_chains_blocks [OF s2] s' by simp
qed

lemma qbind_cong [fundef_cong]: "r = r' \<Longrightarrow> (\<And>x. r' = Ok x \<Longrightarrow> f x = g x) \<Longrightarrow> qbind r f = qbind r' g"
  by (cases r') auto

function finalize_past_limit :: "('t, 'h) chain_env \<Rightarrow> commit_lib \<Rightarrow> ('t, 'h) write_task \<Rightarrow> (spend_error, ('t, 'h) write_task) outcome" where
  "finalize_past_limit env lib t =
     qbind (expect (best_chain_len (wt_nf t))) (\<lambda>len.
       if len > MAX_BLOCK_REORG_HEIGHT then
         qbind (finalize env (wt_nf t)) (\<lambda>finalized.
         qbind (expect_ok (commit_finalized_direct env lib (case_prod Contextual (fst finalized)) (wt_prev_trees t) (wt_db t))) (\<lambda>committed.
           finalize_past_limit env lib
             (t\<lparr>wt_nf := snd finalized, wt_db := snd committed, wt_prev_trees := Some (snd (fst committed))\<rparr>)))
       else Ok t)"
  by pat_completeness auto

termination finalize_past_limit
  by (relation "measure (\<lambda>(env, lib, t). total_blocks (nf_chains (wt_nf t)))") (auto dest: finalize_shrinks)

declare finalize_past_limit.simps [simp del]

section \<open>The task\<close>

definition update_latest_chain_channels :: "('t, 'h) write_task \<Rightarrow> (spend_error, ('t, 'h) write_task) outcome" where
  "update_latest_chain_channels t =
     qbind (expect (best_chain (wt_nf t))) (\<lambda>c. map_ok (\<lambda>b. send [Best_tip b] t) (expect (tip_block c)))"

definition commit_checkpointed ::
  "('t, 'h) chain_env \<Rightarrow> commit_lib \<Rightarrow> semantic_block \<Rightarrow> ('t, 'h) write_task \<Rightarrow> (spend_error, ('t, 'h) write_task) outcome" where
  "commit_checkpointed env lib b t =
     qbind (case finalized_tip_height (wt_db t) of None \<Rightarrow> Ok 0 | Some h \<Rightarrow> expect (height_add h 1)) (\<lambda>next_valid_height.
       if sv_height b \<noteq> next_valid_height then Ok t
       else
         (case commit_finalized_direct env lib (Checkpoint b) (wt_prev_trees t) (wt_db t) of
            Ok ((hash, trees), db) \<Rightarrow>
              Ok (send [Checkpoint_reply (Ok hash), Finalized_tip (sv_height b) (sv_hash b)] (t\<lparr>wt_db := db, wt_prev_trees := Some trees\<rparr>))
          | Err e \<Rightarrow> Ok (send [Checkpoint_reply (Err e), Reset (finalized_tip_hash (wt_db t))] (t\<lparr>wt_prev_trees := None\<rparr>))
          | Panic \<Rightarrow> Panic))"

definition handle_commit ::
  "('t, 'h) chain_env \<Rightarrow> commit_lib \<Rightarrow> semantic_block \<Rightarrow> ('t, 'h) write_task \<Rightarrow> (spend_error, ('t, 'h) write_task) outcome" where
  "handle_commit env lib b t =
     (let child_hash = sv_hash b in
      case (case map_of (wt_parent_errors t) (sv_previous_block_hash b) of
              Some parent_error \<Rightarrow> Err parent_error
            | None \<Rightarrow> validate_and_commit_non_finalized env lib (wt_db t) b (wt_nf t)) of
        Err e \<Rightarrow>
          let errors = index_map_insert child_hash e (wt_parent_errors t);
              errors = (if length errors > PARENT_ERROR_MAP_LIMIT then tl errors else errors) in
          Ok (send [Rejected child_hash, Commit_reply (Err e)] (t\<lparr>wt_parent_errors := errors\<rparr>))
      | Ok nf \<Rightarrow>
          qbind (update_latest_chain_channels
                   (t\<lparr>wt_nf := nf, wt_parent_errors := filter (\<lambda>(hash, _). hash \<noteq> child_hash) (wt_parent_errors t)\<rparr>)) (\<lambda>t.
            finalize_past_limit env lib (send [Commit_reply (Ok child_hash)] t))
      | Panic \<Rightarrow> Panic)"

definition handle_invalidate :: "('t, 'h) chain_env \<Rightarrow> bytes \<Rightarrow> ('t, 'h) write_task \<Rightarrow> (spend_error, ('t, 'h) write_task) outcome" where
  "handle_invalidate env hash t =
     (case invalidate_block env hash (wt_nf t) of
        Ok (hash, nf) \<Rightarrow> update_latest_chain_channels (send [Invalidate_reply (Ok hash)] (t\<lparr>wt_nf := nf\<rparr>))
      | Err e \<Rightarrow> update_latest_chain_channels (send [Invalidate_reply (Err e)] t)
      | Panic \<Rightarrow> Panic)"

definition handle_reconsider :: "('t, 'h) chain_env \<Rightarrow> bytes \<Rightarrow> ('t, 'h) write_task \<Rightarrow> (spend_error, ('t, 'h) write_task) outcome" where
  "handle_reconsider env hash t =
     (case reconsider_block env (wt_db t) hash (wt_nf t) of
        Ok (hashes, nf) \<Rightarrow> update_latest_chain_channels (send [Reconsider_reply (Ok hashes)] (t\<lparr>wt_nf := nf\<rparr>))
      | Err e \<Rightarrow> update_latest_chain_channels (send [Reconsider_reply (Err e)] t)
      | Panic \<Rightarrow> Panic)"

definition handle_message ::
  "('t, 'h) chain_env \<Rightarrow> commit_lib \<Rightarrow> ('t, 'h) write_task \<Rightarrow> write_message \<Rightarrow> (spend_error, ('t, 'h) write_task) outcome" where
  "handle_message env lib t msg =
     (case msg of
        Commit b \<Rightarrow> handle_commit env lib b t
      | Invalidate hash \<Rightarrow> handle_invalidate env hash t
      | Reconsider hash \<Rightarrow> handle_reconsider env hash t)"

definition run ::
  "('t, 'h) chain_env \<Rightarrow> commit_lib \<Rightarrow> semantic_block list \<Rightarrow> write_message list \<Rightarrow> ('t, 'h) write_task \<Rightarrow> (spend_error, ('t, 'h) write_task) outcome" where
  "run env lib checkpointed msgs t =
     qbind (try_fold (\<lambda>t b. commit_checkpointed env lib b t) t checkpointed) (\<lambda>t.
       try_fold (handle_message env lib) t msgs)"

end
