(* ===== verification/Non_Finalized_Rules.thy ===== *)
theory Non_Finalized_Rules
  imports Write_Task
begin

text \<open>
  What the set of non-finalized chains guarantees (theory \<open>Non_Finalized\<close>).

  The invariant \<open>nf_ok\<close>: the chains are in strict order of work and tip hash, there are at most ten, and each
  is a chain of blocks (\<open>chain_rep\<close>) that starts at the finalized tip, in which every block names the hash of
  the one before; the invalidated blocks are such lists too.  Every operation of the state keeps it, and \<open>finalize\<close> is exactly
  the removal of the root of the best chain from the chains that have it (\<open>finalize_exact\<close>).

  The properties rest on block hashes that identify headers: \<open>headers\<close> gives the height, the parent and the
  difficulty of the block with a hash.
\<close>

section \<open>The order of the chains\<close>

definition tip_hash_of :: "('t, 'h) chain \<Rightarrow> bytes" where
  "tip_hash_of c = sv_hash (snd (last (c_blocks c)))"

definition chain_less :: "('t, 'h) chain \<Rightarrow> ('t, 'h) chain \<Rightarrow> bool" where
  "chain_less c d \<longleftrightarrow> c_work c < c_work d \<or> c_work c = c_work d \<and> tip_hash_of c < tip_hash_of d"

lemma chain_less_trans: "chain_less a b \<Longrightarrow> chain_less b c \<Longrightarrow> chain_less a c"
  by (auto simp: chain_less_def)

lemma chain_less_irrefl [simp]: "\<not> chain_less c c"
  by (simp add: chain_less_def)

lemma chain_less_asym: "chain_less a b \<Longrightarrow> \<not> chain_less b a"
  by (auto simp: chain_less_def)

lemma tip_hash_Ok: "c_blocks c \<noteq> [] \<Longrightarrow> non_finalized_tip_hash c = Ok (tip_hash_of c)"
  by (simp add: non_finalized_tip_hash_def tip_hash_of_def bt_last_def case_prod_beta)

lemma chain_cmp_eq:
  assumes "c_blocks c \<noteq> []" "c_blocks d \<noteq> []"
  shows "chain_cmp c d = Ok (if chain_less c d then Less else if chain_less d c then Greater else Equal)"
  using assms by (auto simp: chain_cmp_def compare_with_def tip_hash_Ok chain_less_def)

lemma set_insert_sorted:
  assumes "sorted_wrt chain_less cs" "c_blocks c \<noteq> []" "\<forall>d \<in> set cs. c_blocks d \<noteq> []"
  shows "\<exists>cs'. set_insert c cs = Ok cs' \<and> sorted_wrt chain_less cs' \<and> length cs' \<le> Suc (length cs)
    \<and> (set cs' = insert c (set cs) \<or> set cs' = set cs \<and> (\<exists>d \<in> set cs. \<not> chain_less c d \<and> \<not> chain_less d c))"
  using assms
proof (induction cs)
  case (Cons d ds)
  then obtain es where es: "set_insert c ds = Ok es" "sorted_wrt chain_less es" "length es \<le> Suc (length ds)"
    "set es = insert c (set ds) \<or> set es = set ds \<and> (\<exists>d \<in> set ds. \<not> chain_less c d \<and> \<not> chain_less d c)" by auto
  have cmp: "chain_cmp c d = Ok (if chain_less c d then Less else if chain_less d c then Greater else Equal)"
    using Cons.prems by (simp add: chain_cmp_eq)
  show ?case
  proof (cases "chain_less c d")
    case True
    then show ?thesis using Cons.prems(1) cmp by (auto intro: chain_less_trans)
  next
    case False
    show ?thesis
    proof (cases "chain_less d c")
      case True
      have "sorted_wrt chain_less (d # es)" using es(2,4) Cons.prems(1) True by auto
      with es True False cmp show ?thesis by auto
    next
      case other: False
      with False cmp Cons.prems(1) show ?thesis by auto
    qed
  qed
qed simp

lemma set_insert_least:
  assumes "c_blocks c \<noteq> []" "\<forall>d \<in> set cs. c_blocks d \<noteq> [] \<and> chain_less c d"
  shows "set_insert c cs = Ok (c # cs)"
  using assms by (cases cs) (simp_all add: chain_cmp_eq)

lemma set_remove_sorted:
  assumes "sorted_wrt chain_less cs" "c \<in> set cs" "\<forall>d \<in> set cs. c_blocks d \<noteq> []"
  shows "set_remove c cs = Ok (filter (\<lambda>d. d \<noteq> c) cs)"
  using assms
proof (induction cs)
  case (Cons d ds)
  have cmp: "chain_cmp c d = Ok (if chain_less c d then Less else if chain_less d c then Greater else Equal)"
    using Cons.prems by (auto simp: chain_cmp_eq)
  show ?case
  proof (cases "c = d")
    case True
    with Cons.prems(1) have "filter (\<lambda>x. x \<noteq> c) ds = ds" by (auto simp: filter_id_conv)
    with True cmp show ?thesis by simp
  next
    case False
    with Cons.prems have "chain_less d c" by auto
    with False cmp Cons show ?thesis by (auto dest: chain_less_asym)
  qed
qed simp

lemma set_retain_total: "\<forall>d \<in> set cs. P d = Ok (Q d) \<Longrightarrow> set_retain P cs = Ok (filter Q cs)"
  by (induction cs) auto

lemma sorted_wrt_drop: "sorted_wrt R xs \<Longrightarrow> sorted_wrt R (drop n xs)"
  by (metis append_take_drop_id sorted_wrt_append)

lemma limit_chains_facts:
  "sorted_wrt chain_less cs \<Longrightarrow> sorted_wrt chain_less (limit_chains cs)" "set (limit_chains cs) \<subseteq> set cs"
  "length (limit_chains cs) \<le> MAX_NON_FINALIZED_CHAIN_FORKS" "length cs \<le> MAX_NON_FINALIZED_CHAIN_FORKS \<Longrightarrow> limit_chains cs = cs"
  by (auto simp: limit_chains_def sorted_wrt_drop dest: in_set_dropD)

lemma insert_with_sorted:
  assumes "sorted_wrt chain_less (nf_chains s)" "c_blocks c \<noteq> []" "\<forall>d \<in> set (nf_chains s). c_blocks d \<noteq> []"
    and "\<And>d. c_blocks d \<noteq> [] \<Longrightarrow> P d = Ok (Q d)"
  shows "\<exists>cs. insert_with c P s = Ok (s\<lparr>nf_chains := cs\<rparr>) \<and> sorted_wrt chain_less cs \<and> length cs \<le> MAX_NON_FINALIZED_CHAIN_FORKS
    \<and> set cs \<subseteq> insert c (set (nf_chains s)) \<and> (\<forall>d \<in> set cs. Q d)"
proof -
  from set_insert_sorted [OF assms(1-3)] obtain cs where cs: "set_insert c (nf_chains s) = Ok cs" "sorted_wrt chain_less cs"
    "set cs \<subseteq> insert c (set (nf_chains s))" by auto
  have "set_retain P cs = Ok (filter Q cs)" using cs(3) assms(2-4) by (intro set_retain_total) blast
  with cs show ?thesis
    using limit_chains_facts [of "filter Q cs"] by (auto simp: insert_with_def sorted_wrt_filter)
qed

section \<open>The invariant\<close>

type_synonym headers = "bytes \<Rightarrow> height \<times> bytes \<times> compact_difficulty"

definition header_known :: "headers \<Rightarrow> ('x) semantic_block_scheme \<Rightarrow> bool" where
  "header_known hdr b \<longleftrightarrow> hdr (sv_hash b) = (sv_height b, sv_previous_block_hash b, sv_difficulty_threshold b)"

fun linked :: "bytes \<Rightarrow> cv_block list \<Rightarrow> bool" where
  "linked hash [] \<longleftrightarrow> True"
| "linked hash (b # bs) \<longleftrightarrow> sv_previous_block_hash b = hash \<and> linked (sv_hash b) bs"

definition blocks_ok :: "profile \<Rightarrow> headers \<Rightarrow> height \<Rightarrow> bytes \<Rightarrow> cv_block list \<Rightarrow> bool" where
  "blocks_ok p hdr h hash bs \<longleftrightarrow> bs \<noteq> [] \<and> blocks_follow p h bs \<and> linked hash bs \<and> list_all (header_known hdr) bs"

definition chain_ok ::
  "('t, 'h) chain_env \<Rightarrow> 't counters \<Rightarrow> headers \<Rightarrow> network \<Rightarrow> height \<times> bytes \<Rightarrow> ('t, 'h) chain \<Rightarrow> bool" where
  "chain_ok env cs hdr net tip c \<longleftrightarrow> (\<exists>B es. chain_rep env cs B es c \<and> base_ok (env_profile env) B \<and> base_network B = net
     \<and> base_height B = fst tip \<and> blocks_ok (env_profile env) hdr (fst tip) (snd tip) (map be_block es))"

definition invalidated_ok :: "profile \<Rightarrow> headers \<Rightarrow> height \<times> cv_block list \<Rightarrow> bool" where
  "invalidated_ok p hdr r \<longleftrightarrow> (\<exists>h parent. fst r = Suc h \<and> fst (hdr parent) = h \<and> blocks_ok p hdr h parent (snd r))"

definition nf_ok ::
  "('t, 'h) chain_env \<Rightarrow> 't counters \<Rightarrow> headers \<Rightarrow> network \<Rightarrow> height \<times> bytes \<Rightarrow> ('t, 'h) non_finalized_state \<Rightarrow> bool" where
  "nf_ok env cs hdr net tip s \<longleftrightarrow> nf_network s = net \<and> sorted_wrt chain_less (nf_chains s)
     \<and> length (nf_chains s) \<le> MAX_NON_FINALIZED_CHAIN_FORKS \<and> list_all (chain_ok env cs hdr net tip) (nf_chains s)
     \<and> list_all (invalidated_ok (env_profile env) hdr) (nf_invalidated s)"

text \<open>Every chain can be taken back (see theory \<open>Chain_Tx\<close>).\<close>

definition nf_reversible :: "('t, 'h) chain_env \<Rightarrow> ('t, 'h) non_finalized_state \<Rightarrow> bool" where
  "nf_reversible env s \<longleftrightarrow> list_all (\<lambda>c. blocks_reversible env (nf_network s) (map snd (c_blocks c))) (nf_chains s)"

subsection \<open>Chains\<close>

lemma linked_append: "linked hash (xs @ ys) \<longleftrightarrow> linked hash xs \<and> linked (if xs = [] then hash else sv_hash (last xs)) ys"
  by (induction xs arbitrary: hash) auto

lemma blocks_ok_append:
  assumes "xs \<noteq> []" "ys \<noteq> []"
  shows "blocks_ok p hdr h hash (xs @ ys) \<longleftrightarrow> blocks_ok p hdr h hash xs \<and> blocks_ok p hdr (h + length xs) (sv_hash (last xs)) ys"
  using assms by (auto simp: blocks_ok_def linked_append blocks_follow_append)

lemma blocks_ok_heights:
  assumes "blocks_ok p hdr h hash bs"
  shows "sv_height (last bs) = h + length bs" "sv_height (hd bs) = Suc h" "sv_previous_block_hash (hd bs) = hash"
    "h + length bs \<le> HEIGHT_MAX" "b \<in> set bs \<Longrightarrow> header_known hdr b"
proof -
  from assms have bs: "bs \<noteq> []" and hs: "map sv_height bs = [Suc h ..< Suc h + length bs]" and lk: "linked hash bs"
    by (simp_all add: blocks_ok_def blocks_follow_def)
  have "sv_height (bs ! i) = Suc h + i" if "i < length bs" for i
    using arg_cong [OF hs, of "\<lambda>hs. hs ! i"] that by (simp del: upt_Suc)
  from this [of "length bs - 1"] this [of 0] bs
  show "sv_height (last bs) = h + length bs" "sv_height (hd bs) = Suc h" by (simp_all add: last_conv_nth hd_conv_nth)
  show "sv_previous_block_hash (hd bs) = hash" using lk bs by (cases bs) auto
  show "h + length bs \<le> HEIGHT_MAX" using assms by (simp add: blocks_ok_def blocks_follow_def)
  show "b \<in> set bs \<Longrightarrow> header_known hdr b" using assms by (auto simp: blocks_ok_def list_all_iff)
qed

lemma chain_ok_blocks:
  assumes "chain_ok env cs hdr net tip c"
  shows "blocks_ok (env_profile env) hdr (fst tip) (snd tip) (map snd (c_blocks c))" "c_blocks c \<noteq> []"
    "c_height_by_hash c hash \<noteq> None \<longleftrightarrow> hash \<in> sv_hash ` snd ` set (c_blocks c)" "c_network c = net"
proof -
  from assms obtain B es where rep: "chain_rep env cs B es c" and net: "base_network B = net"
    and ok: "blocks_ok (env_profile env) hdr (fst tip) (snd tip) (map be_block es)" by (auto simp: chain_ok_def)
  have blocks: "c_blocks c = map (\<lambda>e. (be_height e, be_block e)) es" using rep by (simp add: chain_rep_def)
  have eq: "map snd (c_blocks c) = map be_block es" by (simp add: blocks comp_def)
  show "blocks_ok (env_profile env) hdr (fst tip) (snd tip) (map snd (c_blocks c))" unfolding eq by (fact ok)
  show "c_blocks c \<noteq> []" using ok by (simp add: blocks blocks_ok_def)
  show "c_height_by_hash c hash \<noteq> None \<longleftrightarrow> hash \<in> sv_hash ` snd ` set (c_blocks c)"
    unfolding chain_rep_hash(3) [OF rep] by (simp add: blocks image_image)
  show "c_network c = net" using rep net by (simp add: chain_rep_def)
qed

lemma chain_ok_distinct: "chain_ok env cs hdr net tip c \<Longrightarrow> distinct (map sv_hash (map snd (c_blocks c)))"
  using chain_rep_hash(1) by (fastforce simp: chain_ok_def chain_rep_def comp_def)

lemma chain_ok_fork_height [simp]:
  "chain_ok env cs hdr net tip (c\<lparr>c_last_fork_height := f\<rparr>) \<longleftrightarrow> chain_ok env cs hdr net tip c"
  by (simp add: chain_ok_def chain_rep_fork_height)

lemma push_chain_ok:
  assumes ops: "ops_ok (env_ops env) cs" and ok: "chain_ok env cs hdr net tip c" and push: "push env b c = Ok c'"
    and b: "blocks_ok (env_profile env) hdr (fst tip + length (c_blocks c)) (tip_hash_of c) [b]"
  shows "chain_ok env cs hdr net tip c'" "map snd (c_blocks c') = map snd (c_blocks c) @ [b]"
proof -
  from ok obtain B es where rep: "chain_rep env cs B es c" and base: "base_ok (env_profile env) B" "base_network B = net" "base_height B = fst tip"
    and bs: "blocks_ok (env_profile env) hdr (fst tip) (snd tip) (map be_block es)" by (auto simp: chain_ok_def)
  have ne: "es \<noteq> []" and blocks: "c_blocks c = map (\<lambda>e. (be_height e, be_block e)) es" using bs rep by (simp_all add: blocks_ok_def chain_rep_def)
  have "sv_height b = Suc (base_height B + length es)" "sv_height b \<le> HEIGHT_MAX" "block_coinbase_height (sv_transactions b) = Some (sv_height b)"
    "vb_ok (env_profile env) NegativeAllowed (cv_pool_change b)"
    using b base(3) blocks by (auto simp: blocks_ok_def blocks_follow_def)
  from push_rep [OF ops base(1) rep _ this push] ne obtain e where e: "be_block e = b" "chain_rep env cs B (es @ [e]) c'"
    by (auto simp: all_trees_def)
  have "blocks_ok (env_profile env) hdr (fst tip) (snd tip) (map be_block es @ [b])"
    using bs b ne by (simp add: blocks_ok_append blocks tip_hash_of_def last_map)
  with e base show "chain_ok env cs hdr net tip c'" unfolding chain_ok_def by (intro exI [of _ B] exI [of _ "es @ [e]"]) simp
  show "map snd (c_blocks c') = map snd (c_blocks c) @ [b]" using e blocks by (simp add: chain_rep_def comp_def)
qed

lemma push_new_chain_ok:
  assumes ops: "start_ok env cs h nct v" and new: "chain_new env net h nct history v = Ok c0" and push: "push_all env c0 bs = Ok c"
    and bs: "blocks_ok (env_profile env) hdr h hash bs"
  shows "chain_ok env cs hdr net (h, hash) c" "map snd (c_blocks c) = bs"
proof -
  have follow: "blocks_follow (env_profile env) h bs" using bs by (simp add: blocks_ok_def)
  note rep = pushed_chain_rep [OF ops new follow push]
  from rep(1) obtain es where es: "map be_block es = bs" "chain_rep env cs (new_base net h nct history v) es c" by blast
  with rep(2) bs show "chain_ok env cs hdr net (h, hash) c"
    unfolding chain_ok_def by (intro exI [of _ "new_base net h nct history v"] exI [of _ es]) (simp add: new_base_def)
  show "map snd (c_blocks c) = bs" using es by (simp add: chain_rep_def comp_def)
qed

lemma fork_chain_ok:
  assumes ops: "ops_ok (env_ops env) cs" and ok: "chain_ok env cs hdr net tip c" and rev: "blocks_reversible env net (map snd (c_blocks c))"
    and split: "map snd (c_blocks c) = xs @ b # ys"
  shows "\<exists>c'. fork env (sv_hash b) c = Ok (Some c') \<and> chain_ok env cs hdr net tip c' \<and> map snd (c_blocks c') = xs @ [b]"
proof -
  from ok obtain B es where rep: "chain_rep env cs B es c" and base: "base_ok (env_profile env) B" "base_network B = net" "base_height B = fst tip"
    and bs: "blocks_ok (env_profile env) hdr (fst tip) (snd tip) (map be_block es)" by (auto simp: chain_ok_def)
  have eq: "map be_block es = xs @ b # ys" using rep split by (simp add: chain_rep_def comp_def)
  then obtain us e ws where es: "es = us @ e # ws" "map be_block us = xs" "be_block e = b" "map be_block ws = ys"
    by (auto simp: map_eq_append_conv map_eq_Cons_conv)
  have "chain_reversible env B es" using rev base(2) split eq by (simp add: blocks_reversible_eq)
  from fork_rep [OF ops base(1) rep [unfolded es] this [unfolded es]] es(3) obtain c' where
    c': "fork env (sv_hash b) c = Ok (Some c')" "chain_rep env cs B (us @ [e]) c'" by auto
  have "blocks_ok (env_profile env) hdr (fst tip) (snd tip) (xs @ [b])"
  proof (cases "ys = []")
    case False
    with bs eq show ?thesis using blocks_ok_append [of "xs @ [b]" ys "env_profile env" hdr "fst tip" "snd tip"] by simp
  qed (use bs eq in simp)
  then have "chain_ok env cs hdr net tip c'"
    unfolding chain_ok_def using c'(2) base es(2,3) by (intro exI [of _ B] exI [of _ "us @ [e]"]) simp
  moreover have "map snd (c_blocks c') = xs @ [b]" using c'(2) es(2,3) by (simp add: chain_rep_def comp_def)
  ultimately show ?thesis using c'(1) by blast
qed

lemma pop_tip_chain_ok:
  assumes ops: "ops_ok (env_ops env) cs" and ok: "chain_ok env cs hdr net tip c" and rev: "blocks_reversible env net (map snd (c_blocks c))"
    and split: "map snd (c_blocks c) = xs @ [b]" "xs \<noteq> []"
  shows "\<exists>c'. pop_tip env c = Ok c' \<and> chain_ok env cs hdr net tip c' \<and> map snd (c_blocks c') = xs"
proof -
  from ok obtain B es where rep: "chain_rep env cs B es c" and base: "base_ok (env_profile env) B" "base_network B = net" "base_height B = fst tip"
    and bs: "blocks_ok (env_profile env) hdr (fst tip) (snd tip) (map be_block es)" by (auto simp: chain_ok_def)
  have eq: "map be_block es = xs @ [b]" using rep split by (simp add: chain_rep_def comp_def)
  then obtain us e where es: "es = us @ [e]" "map be_block us = xs" by (auto simp: map_eq_append_conv map_eq_Cons_conv)
  have "chain_reversible env B es" using rev base(2) split eq by (simp add: blocks_reversible_eq)
  from pop_tip_rep [OF ops base(1) rep [unfolded es(1)] _ this [unfolded es(1)]] es split(2) obtain c' where
    c': "pop_tip env c = Ok c'" "chain_rep env cs B us c'" by auto
  have "chain_ok env cs hdr net tip c'"
    unfolding chain_ok_def using c'(2) base es(2) bs eq split(2) blocks_ok_append [of xs "[b]"] by (intro exI [of _ B] exI [of _ us]) simp
  moreover have "map snd (c_blocks c') = xs" using c'(2) es(2) by (simp add: chain_rep_def comp_def)
  ultimately show ?thesis using c'(1) by blast
qed

lemma pop_root_chain_ok:
  assumes ops: "ops_ok (env_ops env) cs" and ok: "chain_ok env cs hdr net tip c" and rev: "blocks_reversible env net (map snd (c_blocks c))"
    and split: "map snd (c_blocks c) = b # bs" and h: "Suc (fst tip) < HEIGHT_MAX"
  shows "\<exists>st c' w. pop_root env c = Ok ((b, st), c') \<and> map snd (c_blocks c') = bs \<and> block_work b = Ok w \<and> c_work c = w + c_work c'
    \<and> nct_sprout (ts_trees st) \<in> sprout_domain cs \<and> (bs \<noteq> [] \<longrightarrow> chain_ok env cs hdr net (sv_height b, sv_hash b) c')"
proof -
  from ok obtain B es where rep: "chain_rep env cs B es c" and base: "base_ok (env_profile env) B" "base_network B = net" "base_height B = fst tip"
    and bs: "blocks_ok (env_profile env) hdr (fst tip) (snd tip) (map be_block es)" by (auto simp: chain_ok_def)
  have eq: "map be_block es = b # bs" using rep split by (simp add: chain_rep_def comp_def)
  then obtain e us where es: "es = e # us" "be_block e = b" "map be_block us = bs" by auto
  have e_h: "be_height e = Suc (fst tip)" using chain_rep_heights(1) [OF rep, of 0] base(3) es(1) by simp
  have "chain_reversible env B es" using rev base(2) split eq by (simp add: blocks_reversible_eq)
  from pop_root_rep [OF ops base(1) rep [unfolded es(1)] _ this [unfolded es(1)]] e_h h es(2) obtain st c' where
    c': "pop_root env c = Ok ((b, st), c')" "chain_rep env cs (base_after B e) us c'" "nct_sprout (ts_trees st) = te_sprout (be_trees e)"
    by (auto simp: entry_trees_def)
  have "te_sprout (be_trees e) \<in> sprout_domain cs" using rep es(1) by (auto simp: chain_rep_def entries_ok_def all_trees_def)
  with c'(3) have dom: "nct_sprout (ts_trees st) \<in> sprout_domain cs" by simp
  have work: "block_work b = Ok (be_work e)" "c_work c = be_work e + c_work c'"
    using rep c'(2) es by (auto simp: chain_rep_def be_ok_def)
  have "chain_ok env cs hdr net (sv_height b, sv_hash b) c'" if "bs \<noteq> []"
  proof -
    have "blocks_ok (env_profile env) hdr (fst tip + 1) (sv_hash b) bs"
      using bs eq that blocks_ok_append [of "[b]" bs "env_profile env" hdr "fst tip" "snd tip"] by simp
    then show ?thesis
      unfolding chain_ok_def using c'(2) base_after_ok [OF base(1) rep [unfolded es(1)]] es e_h base(2)
      by (intro exI [of _ "base_after B e"] exI [of _ us]) (simp add: base_after_def be_height_def)
  qed
  moreover have "map snd (c_blocks c') = bs" using c'(2) es(3) by (simp add: chain_rep_def comp_def)
  ultimately show ?thesis using c'(1) work dom by blast
qed

lemma blocks_reversible_append:
  assumes "blocks_reversible env net (xs @ ys)"
  shows "blocks_reversible env net xs" "blocks_reversible env net ys"
proof -
  let ?i = "\<lambda>b. items_of (block_data_of b) (numbered (sv_transactions b) (sv_transaction_hashes b))"
  have "foldr (\<lambda>b. append_items (?i b)) (xs @ ys) no_items = append_items (foldr (\<lambda>b. append_items (?i b)) xs no_items) (foldr (\<lambda>b. append_items (?i b)) ys no_items)"
    by (induction xs) (simp_all add: append_items_assoc)
  with assms have "items_reversible (env_profile env) (addressing_of env net)
      (append_items (foldr (\<lambda>b. append_items (?i b)) xs no_items) (foldr (\<lambda>b. append_items (?i b)) ys no_items))"
    unfolding blocks_reversible_def by metis
  from items_reversible_append [OF this] show "blocks_reversible env net xs" "blocks_reversible env net ys"
    by (simp_all add: blocks_reversible_def)
qed

subsection \<open>Finding the parent of a block\<close>

lemma find_ok_total: "\<forall>x \<in> set xs. P x = Ok (Q x) \<Longrightarrow> find_ok P xs = Ok (find Q xs)"
  by (induction xs) auto

lemma nf_okD:
  assumes "nf_ok env cs hdr net tip s"
  shows "nf_network s = net" "sorted_wrt chain_less (nf_chains s)" "length (nf_chains s) \<le> MAX_NON_FINALIZED_CHAIN_FORKS"
    "c \<in> set (nf_chains s) \<Longrightarrow> chain_ok env cs hdr net tip c" "\<forall>c \<in> set (nf_chains s). c_blocks c \<noteq> []"
    "r \<in> set (nf_invalidated s) \<Longrightarrow> invalidated_ok (env_profile env) hdr r"
  using assms by (auto simp: nf_ok_def list_all_iff dest: chain_ok_blocks(2))

lemma nf_reversibleD:
  "nf_reversible env s \<Longrightarrow> c \<in> set (nf_chains s) \<Longrightarrow> blocks_reversible env (nf_network s) (map snd (c_blocks c))"
  by (simp add: nf_reversible_def list_all_iff)

lemma find_fork:
  assumes "ops_ok (env_ops env) cs" "\<forall>c \<in> set ds. chain_ok env cs hdr net tip c \<and> blocks_reversible env net (map snd (c_blocks c))"
  shows "(\<exists>d \<in> set ds. \<exists>c ys. find_map_ok (fork env hash) ds = Ok (Some c) \<and> chain_ok env cs hdr net tip c \<and> tip_hash_of c = hash
      \<and> map snd (c_blocks d) = map snd (c_blocks c) @ ys)
    \<or> find_map_ok (fork env hash) ds = Ok None \<and> (\<forall>d \<in> set ds. \<not> contains_block_hash d hash)"
  using assms(2)
proof (induction ds)
  case (Cons d ds)
  then have d: "chain_ok env cs hdr net tip d" and rev: "blocks_reversible env net (map snd (c_blocks d))" by simp_all
  show ?case
  proof (cases "contains_block_hash d hash")
    case True
    with chain_ok_blocks(3) [OF d] obtain b where "b \<in> set (map snd (c_blocks d))" "hash = sv_hash b" by (auto simp: contains_block_hash_def)
    then obtain xs ys where b: "map snd (c_blocks d) = xs @ b # ys" "hash = sv_hash b" by (metis split_list)
    from fork_chain_ok [OF assms(1) d rev b(1)] b(2) obtain c where c: "fork env hash d = Ok (Some c)" "chain_ok env cs hdr net tip c"
      "map snd (c_blocks c) = xs @ [b]" by auto
    have split: "map snd (c_blocks d) = map snd (c_blocks c) @ ys" using b(1) c(3) by simp
    have "tip_hash_of c = hash"
      using c(3) chain_ok_blocks(2) [OF c(2)] \<open>hash = sv_hash b\<close> by (metis last_map last_snoc tip_hash_of_def)
    with c(1,2) split show ?thesis by auto
  next
    case False
    then have "fork env hash d = Ok None" by (simp add: contains_block_hash_def fork_def)
    with Cons False show ?thesis by auto
  qed
qed simp

lemma parent_chain_ok:
  assumes "ops_ok (env_ops env) cs" "nf_ok env cs hdr net tip s" "nf_reversible env s"
  shows "(\<exists>c. parent_chain env hash s = Ok c \<and> chain_ok env cs hdr net tip c \<and> tip_hash_of c = hash
      \<and> (\<exists>d \<in> set (nf_chains s). \<exists>ys. map snd (c_blocks d) = map snd (c_blocks c) @ ys))
    \<or> parent_chain env hash s = Err spend_error.NotReadyToBeCommitted \<and> \<not> any_chain_contains hash s"
proof -
  let ?found = "find (\<lambda>c. tip_hash_of c = hash) (rev (nf_chains s))"
  have found: "find_chain (\<lambda>c. map_ok (\<lambda>h. h = hash) (non_finalized_tip_hash c)) s = Ok ?found"
    unfolding find_chain_def using nf_okD(5) [OF assms(2)] by (intro find_ok_total) (simp add: tip_hash_Ok)
  show ?thesis
  proof (cases ?found)
    case (Some c)
    then have c: "c \<in> set (nf_chains s)" "tip_hash_of c = hash" using find_SomeD [OF Some] by simp_all
    have "parent_chain env hash s = Ok c" using found Some by (simp add: parent_chain_def)
    moreover have "map snd (c_blocks c) = map snd (c_blocks c) @ []" by simp
    ultimately show ?thesis using c nf_okD(4) [OF assms(2) c(1)] by blast
  next
    case None
    have ok: "\<forall>c \<in> set (rev (nf_chains s)). chain_ok env cs hdr net tip c \<and> blocks_reversible env net (map snd (c_blocks c))"
      using nf_okD(1,4) [OF assms(2)] nf_reversibleD [OF assms(3)] by auto
    have eq: "parent_chain env hash s = qbind (find_map_ok (fork env hash) (rev (nf_chains s))) (\<lambda>c. ok_or c spend_error.NotReadyToBeCommitted)"
      using found None by (simp add: parent_chain_def)
    from find_fork [OF assms(1) ok, of hash] show ?thesis
    proof (elim disjE bexE exE conjE)
      assume "find_map_ok (fork env hash) (rev (nf_chains s)) = Ok None" "\<forall>d \<in> set (rev (nf_chains s)). \<not> contains_block_hash d hash"
      then show ?thesis by (simp add: eq any_chain_contains_def contains_block_hash_def list_ex_iff)
    qed (auto simp: eq)
  qed
qed

subsection \<open>Committing a block\<close>

text \<open>
  What the state relies on for a semantically verified block: its hash identifies its header, its
  height is in its coinbase transaction and follows the height of its parent.
\<close>

definition prepared_ok :: "headers \<Rightarrow> semantic_block \<Rightarrow> bool" where
  "prepared_ok hdr b \<longleftrightarrow> header_known hdr b \<and> sv_height b = Suc (fst (hdr (sv_previous_block_hash b))) \<and> sv_height b \<le> HEIGHT_MAX
     \<and> block_coinbase_height (sv_transactions b) = Some (sv_height b)"

lemma validate_and_commit_push:
  assumes "validate_and_commit env lib db c b s = Ok c'"
  shows "\<exists>cv. push env cv c = Ok c' \<and> semantic_block.truncate cv = b \<and> vb_ok (env_profile env) NegativeAllowed (cv_pool_change cv)"
proof -
  from assms obtain spent a cv where a: "calculate_deferred_pool_balance_change (env_profile env) (cm_parse lib) (sv_height b) (nf_network s) = (Ok a :: (spend_error, _) outcome)"
    and cv: "with_block_and_spent_utxos (env_profile env) b spent a = Ok cv"
    and up: "validate_and_update_parallel env lib c cv (block_fetch_sprout_final_treestates db c b) = Ok c'"
    by (auto simp: validate_and_commit_def Let_def)
  from cv obtain v where v: "chain_value_pool_change (env_profile env) (sv_transactions b) (utxos_from_ordered_utxos (spent ++ sv_new_outputs b)) a = Ok v"
    and cv_eq: "cv = semantic_block.extend b \<lparr>cv_spent_outputs = spent ++ sv_new_outputs b, cv_pool_change = v\<rparr>"
    by (auto simp: with_block_and_spent_utxos_def Let_def)
  have "semantic_block.truncate cv = b" "cv_pool_change cv = v"
    by (simp_all add: cv_eq semantic_block.truncate_def semantic_block.extend_def)
  moreover have "push env cv c = Ok c'" using up by (auto simp: validate_and_update_parallel_def Let_def split: if_splits)
  ultimately show ?thesis using chain_value_pool_change_ok [OF v calculate_deferred_ok [OF a]] by blast
qed

lemma truncated_fields:
  assumes "semantic_block.truncate cv = b"
  shows "sv_hash cv = sv_hash b" "sv_height cv = sv_height b" "sv_previous_block_hash cv = sv_previous_block_hash b"
    "sv_difficulty_threshold cv = sv_difficulty_threshold b" "sv_transactions cv = sv_transactions b"
    "sv_transaction_hashes cv = sv_transaction_hashes b" "sv_new_outputs cv = sv_new_outputs b"
  using assms by (auto simp: semantic_block.truncate_def)

lemma committed_block_ok:
  assumes "prepared_ok hdr b" "semantic_block.truncate cv = b" "vb_ok p NegativeAllowed (cv_pool_change cv)"
    "fst (hdr (sv_previous_block_hash b)) = h"
  shows "blocks_ok p hdr h (sv_previous_block_hash b) [cv]"
  using assms(1,3,4) truncated_fields [OF assms(2)]
  by (auto simp: blocks_ok_def prepared_ok_def blocks_follow_def header_known_def)

lemma chain_tip_header:
  assumes "chain_ok env cs hdr net tip c"
  shows "fst (hdr (tip_hash_of c)) = fst tip + length (c_blocks c)"
proof -
  let ?bs = "map snd (c_blocks c)"
  note ok = chain_ok_blocks(1,2) [OF assms]
  have "last ?bs \<in> set ?bs" using ok(2) by (intro last_in_set) simp
  from blocks_ok_heights(5) [OF ok(1) this] blocks_ok_heights(1) [OF ok(1)] ok(2) show ?thesis
    by (simp add: header_known_def tip_hash_of_def last_map)
qed

lemma nf_ok_chains:
  assumes "nf_ok env cs hdr net tip s" "sorted_wrt chain_less ds" "length ds \<le> MAX_NON_FINALIZED_CHAIN_FORKS"
    "\<forall>d \<in> set ds. chain_ok env cs hdr net tip d"
  shows "nf_ok env cs hdr net tip (s\<lparr>nf_chains := ds\<rparr>)"
  using assms by (simp add: nf_ok_def list_all_iff)

lemma commit_block_ok:
  assumes ops: "ops_ok (env_ops env) cs" and ok: "nf_ok env cs hdr net tip s" and rev: "nf_reversible env s"
    and b: "prepared_ok hdr b" and commit: "commit_block env lib db b s = Ok s'"
  shows "nf_ok env cs hdr net tip s'"
proof -
  let ?ph = "sv_previous_block_hash b"
  from commit obtain parent c where parent: "parent_chain env ?ph s = Ok parent" and vc: "validate_and_commit env lib db parent b s = Ok c"
    and ins: "insert_with c (\<lambda>c. map_ok (\<lambda>h. h \<noteq> ?ph) (non_finalized_tip_hash c)) s = Ok s'"
    by (auto simp: commit_block_def Let_def)
  from parent_chain_ok [OF ops ok rev, of ?ph] parent have p: "chain_ok env cs hdr net tip parent" "tip_hash_of parent = ?ph" by auto
  from validate_and_commit_push [OF vc] obtain cv where cv: "push env cv parent = Ok c" "semantic_block.truncate cv = b"
    "vb_ok (env_profile env) NegativeAllowed (cv_pool_change cv)" by blast
  have "blocks_ok (env_profile env) hdr (fst tip + length (c_blocks parent)) (tip_hash_of parent) [cv]"
    using committed_block_ok [OF b cv(2,3)] chain_tip_header [OF p(1)] p(2) by simp
  from push_chain_ok(1) [OF ops p(1) cv(1) this] have c: "chain_ok env cs hdr net tip c" .
  from insert_with_sorted [OF nf_okD(2) [OF ok] chain_ok_blocks(2) [OF c] nf_okD(5) [OF ok],
      of "\<lambda>c. map_ok (\<lambda>h. h \<noteq> ?ph) (non_finalized_tip_hash c)" "\<lambda>c. tip_hash_of c \<noteq> ?ph"] ins
  obtain ds where "s' = s\<lparr>nf_chains := ds\<rparr>" "sorted_wrt chain_less ds" "length ds \<le> MAX_NON_FINALIZED_CHAIN_FORKS"
    "set ds \<subseteq> insert c (set (nf_chains s))" by (auto simp: tip_hash_Ok)
  then show ?thesis using nf_ok_chains [OF ok] c nf_okD(4) [OF ok] by blast
qed

text \<open>What the state relies on at the finalized tip.\<close>

definition db_ok :: "('t, 'h) chain_env \<Rightarrow> 't counters \<Rightarrow> headers \<Rightarrow> network \<Rightarrow> height \<times> bytes \<Rightarrow> ('t, 'h) finalized_db \<Rightarrow> bool" where
  "db_ok env cs hdr net tip db \<longleftrightarrow> db_network db = net \<and> db_tip db = Some tip \<and> fst (hdr (snd tip)) = fst tip
     \<and> start_ok env cs (fst tip) (db_trees db) (db_pools db)"

lemma commit_new_chain_ok:
  assumes db: "db_ok env cs hdr net tip db" and ok: "nf_ok env cs hdr net tip s"
    and b: "prepared_ok hdr b" "sv_previous_block_hash b = snd tip" and commit: "commit_new_chain env lib db b s = Ok s'"
  shows "nf_ok env cs hdr net tip s'"
proof -
  have start: "start_ok env cs (fst tip) (db_trees db) (db_pools db)" and tip: "db_tip db = Some tip" "fst (hdr (snd tip)) = fst tip"
    using db by (simp_all add: db_ok_def)
  from commit tip(1) obtain c0 c where c0: "chain_new env net (fst tip) (db_trees db) (db_history db) (db_pools db) = Ok c0"
    and vc: "validate_and_commit env lib db c0 b s = Ok c" and ins: "insert_chain c s = Ok s'"
    using nf_okD(1) [OF ok] by (auto simp: commit_new_chain_def finalized_tip_height_def chain_at_finalized_tip_def)
  from validate_and_commit_push [OF vc] obtain cv where cv: "push env cv c0 = Ok c" "semantic_block.truncate cv = b"
    "vb_ok (env_profile env) NegativeAllowed (cv_pool_change cv)" by blast
  have bs: "blocks_ok (env_profile env) hdr (fst tip) (snd tip) [cv]" using committed_block_ok [OF b(1) cv(2,3) tip(2) [folded b(2)]] b(2) by simp
  have c: "chain_ok env cs hdr net tip c" using push_new_chain_ok(1) [OF start c0 _ bs] cv(1) by simp
  from insert_with_sorted [OF nf_okD(2) [OF ok] chain_ok_blocks(2) [OF c] nf_okD(5) [OF ok], of "\<lambda>_. Ok True" "\<lambda>_. True"] ins
  obtain ds where "s' = s\<lparr>nf_chains := ds\<rparr>" "sorted_wrt chain_less ds" "length ds \<le> MAX_NON_FINALIZED_CHAIN_FORKS"
    "set ds \<subseteq> insert c (set (nf_chains s))" by (auto simp: insert_chain_def)
  then show ?thesis using nf_ok_chains [OF ok] c nf_okD(4) [OF ok] by blast
qed

subsection \<open>Finalizing a block\<close>

text \<open>What finalization leaves of a chain: nothing of a chain with another root, else the chain without its root.\<close>

definition without_root :: "('t, 'h) chain_env \<Rightarrow> bytes \<Rightarrow> ('t, 'h) chain \<Rightarrow> ('t, 'h) chain list" where
  "without_root env root c =
     (if sv_hash (snd (hd (c_blocks c))) \<noteq> root then []
      else (case pop_root env c of Ok (_, c') \<Rightarrow> if c_blocks c' = [] then [] else [c'] | _ \<Rightarrow> []))"

lemma root_hash_Ok: "c_blocks c \<noteq> [] \<Longrightarrow> non_finalized_root_hash c = Ok (sv_hash (snd (hd (c_blocks c))))"
  by (cases "c_blocks c") (auto simp: non_finalized_root_hash_def)

lemma without_root_chain:
  assumes ops: "ops_ok (env_ops env) cs" and ok: "chain_ok env cs hdr net tip c" and rev: "blocks_reversible env net (map snd (c_blocks c))"
    and h: "Suc (fst tip) < HEIGHT_MAX" and c': "c' \<in> set (without_root env root c)"
  shows "\<exists>b st w. pop_root env c = Ok ((b, st), c') \<and> without_root env root c = [c'] \<and> map snd (c_blocks c) = b # map snd (c_blocks c')
    \<and> sv_hash b = root \<and> block_work b = Ok w \<and> c_work c = w + c_work c' \<and> tip_hash_of c' = tip_hash_of c
    \<and> chain_ok env cs hdr net (sv_height b, sv_hash b) c'"
proof -
  obtain b bs where split: "map snd (c_blocks c) = b # bs" using chain_ok_blocks(2) [OF ok] by (cases "map snd (c_blocks c)") auto
  from pop_root_chain_ok [OF ops ok rev split h] obtain st d w where d: "pop_root env c = Ok ((b, st), d)" "map snd (c_blocks d) = bs"
    "block_work b = Ok w" "c_work c = w + c_work d" "bs \<noteq> [] \<longrightarrow> chain_ok env cs hdr net (sv_height b, sv_hash b) d" by blast
  have hd: "sv_hash (snd (hd (c_blocks c))) = sv_hash b" using split by (cases "c_blocks c") auto
  from c' d(1) hd have eq: "d = c'" "without_root env root c = [c']" "sv_hash b = root" "c_blocks c' \<noteq> []"
    by (auto simp: without_root_def split: if_splits)
  then have "bs \<noteq> []" using d(2) by auto
  moreover have "tip_hash_of c' = tip_hash_of c"
    using split d(2) eq(1,4) chain_ok_blocks(2) [OF ok] \<open>bs \<noteq> []\<close> by (metis last_ConsR last_map tip_hash_of_def)
  ultimately show ?thesis using d eq split by auto
qed

lemma without_root_mono:
  assumes ops: "ops_ok (env_ops env) cs" and h: "Suc (fst tip) < HEIGHT_MAX"
    and c: "chain_ok env cs hdr net tip c" "blocks_reversible env net (map snd (c_blocks c))" "c' \<in> set (without_root env root c)"
    and d: "chain_ok env cs hdr net tip d" "blocks_reversible env net (map snd (c_blocks d))" "d' \<in> set (without_root env root d)"
  shows "chain_less c' d' \<longleftrightarrow> chain_less c d"
proof -
  from without_root_chain [OF ops c(1,2) h c(3)] obtain a w where a: "map snd (c_blocks c) = a # map snd (c_blocks c')" "sv_hash a = root"
    "block_work a = Ok w" "c_work c = w + c_work c'" "tip_hash_of c' = tip_hash_of c" by (elim exE conjE)
  from without_root_chain [OF ops d(1,2) h d(3)] obtain b v where b: "map snd (c_blocks d) = b # map snd (c_blocks d')" "sv_hash b = root"
    "block_work b = Ok v" "c_work d = v + c_work d'" "tip_hash_of d' = tip_hash_of d" by (elim exE conjE)
  have "header_known hdr a" "header_known hdr b"
    using a(1) b(1) blocks_ok_heights(5) [OF chain_ok_blocks(1) [OF c(1)]] blocks_ok_heights(5) [OF chain_ok_blocks(1) [OF d(1)]] by auto
  then have "sv_difficulty_threshold a = sv_difficulty_threshold b" using a(2) b(2) by (simp add: header_known_def)
  then have "w = v" using a(3) b(3) by (simp add: block_work_def)
  then show ?thesis using a b by (simp add: chain_less_def)
qed

lemma insert_least_chain:
  assumes "c_blocks c \<noteq> []" "\<forall>d \<in> set (nf_chains s). c_blocks d \<noteq> [] \<and> chain_less c d" "length (nf_chains s) < MAX_NON_FINALIZED_CHAIN_FORKS"
  shows "insert_chain c s = Ok (s\<lparr>nf_chains := c # nf_chains s\<rparr>)"
  using set_insert_least [OF assms(1,2)] assms(3) limit_chains_facts(4) [of "c # nf_chains s"] by (simp add: insert_chain_def insert_with_def)

lemma side_chain_step:
  assumes ops: "ops_ok (env_ops env) cs" and ok: "chain_ok env cs hdr net tip c" and rev: "blocks_reversible env net (map snd (c_blocks c))"
    and h: "Suc (fst tip) < HEIGHT_MAX" and s: "\<forall>c' \<in> set (without_root env root c). \<forall>d \<in> set (nf_chains s). c_blocks d \<noteq> [] \<and> chain_less c' d"
    and len: "length (nf_chains s) < MAX_NON_FINALIZED_CHAIN_FORKS"
  shows "finalize_side_chains env root (c # ds) s = finalize_side_chains env root ds (s\<lparr>nf_chains := without_root env root c @ nf_chains s\<rparr>)"
proof -
  obtain b bs where split: "map snd (c_blocks c) = b # bs" using chain_ok_blocks(2) [OF ok] by (cases "map snd (c_blocks c)") auto
  from pop_root_chain_ok [OF ops ok rev split h] obtain st d where d: "pop_root env c = Ok ((b, st), d)" by blast
  have hd: "sv_hash (snd (hd (c_blocks c))) = sv_hash b" using split by (cases "c_blocks c") auto
  have root: "non_finalized_root_hash c = (Ok (sv_hash b) :: (spend_error, _) outcome)"
    using root_hash_Ok [OF chain_ok_blocks(2) [OF ok]] by (simp add: hd)
  have same: "s\<lparr>nf_chains := nf_chains s\<rparr> = s" by simp
  consider "sv_hash b \<noteq> root" | "sv_hash b = root" "c_blocks d = []" | "sv_hash b = root" "c_blocks d \<noteq> []" by blast
  then show ?thesis
  proof cases
    case 3
    then have w: "without_root env root c = [d]" by (simp add: without_root_def hd d)
    have "insert_chain d s = Ok (s\<lparr>nf_chains := d # nf_chains s\<rparr>)" using s 3(2) by (intro insert_least_chain [OF _ _ len]) (simp_all add: w)
    with 3 show ?thesis by (simp add: w root d assert_that_def)
  qed (simp_all add: without_root_def hd root d same assert_that_def)
qed

lemma without_root_short: "length (without_root env root c) \<le> 1" "c' \<in> set (without_root env root c) \<Longrightarrow> c_blocks c' \<noteq> []"
  by (auto simp: without_root_def split: if_splits outcome.splits)

lemma finalize_side_chains_exact:
  assumes ops: "ops_ok (env_ops env) cs" and h: "Suc (fst tip) < HEIGHT_MAX"
  shows "\<forall>c \<in> set ds. chain_ok env cs hdr net tip c \<and> blocks_reversible env net (map snd (c_blocks c)) \<Longrightarrow>
    sorted_wrt (\<lambda>c d. chain_less d c) ds \<Longrightarrow>
    \<forall>c \<in> set ds. \<forall>c' \<in> set (without_root env root c). \<forall>d \<in> set (nf_chains s). c_blocks d \<noteq> [] \<and> chain_less c' d \<Longrightarrow>
    length ds + length (nf_chains s) \<le> MAX_NON_FINALIZED_CHAIN_FORKS \<Longrightarrow>
    finalize_side_chains env root ds s = Ok (s\<lparr>nf_chains := concat (map (without_root env root) (rev ds)) @ nf_chains s\<rparr>)"
proof (induction ds arbitrary: s)
  case (Cons c ds)
  let ?s = "s\<lparr>nf_chains := without_root env root c @ nf_chains s\<rparr>"
  have c: "chain_ok env cs hdr net tip c" "blocks_reversible env net (map snd (c_blocks c))" using Cons.prems(1) by simp_all
  have step: "finalize_side_chains env root (c # ds) s = finalize_side_chains env root ds ?s"
    using Cons.prems(3,4) by (intro side_chain_step [OF ops c h]) simp_all
  have "chain_less x' c'" if "x \<in> set ds" "x' \<in> set (without_root env root x)" "c' \<in> set (without_root env root c)" for x x' c'
    using without_root_mono [OF ops h _ _ that(2) c that(3)] Cons.prems(1,2) that(1) by simp
  then have "\<forall>x \<in> set ds. \<forall>x' \<in> set (without_root env root x). \<forall>d \<in> set (nf_chains ?s). c_blocks d \<noteq> [] \<and> chain_less x' d"
    using Cons.prems(3) without_root_short(2) by fastforce
  moreover have "length ds + length (nf_chains ?s) \<le> MAX_NON_FINALIZED_CHAIN_FORKS"
    using Cons.prems(4) without_root_short(1) [of env root c] by simp
  ultimately show ?case unfolding step using Cons.IH [of ?s] Cons.prems(1,2) by simp
qed simp

lemma sorted_without_root:
  assumes ops: "ops_ok (env_ops env) cs" and h: "Suc (fst tip) < HEIGHT_MAX"
  shows "\<forall>c \<in> set ds. chain_ok env cs hdr net tip c \<and> blocks_reversible env net (map snd (c_blocks c)) \<Longrightarrow>
    sorted_wrt chain_less ds \<Longrightarrow> sorted_wrt chain_less (concat (map (without_root env root) ds))
      \<and> length (concat (map (without_root env root) ds)) \<le> length ds"
proof (induction ds)
  case (Cons c ds)
  have c: "chain_ok env cs hdr net tip c" "blocks_reversible env net (map snd (c_blocks c))" using Cons.prems(1) by simp_all
  have "chain_less c' x'" if "x \<in> set ds" "x' \<in> set (without_root env root x)" "c' \<in> set (without_root env root c)" for x x' c'
    using without_root_mono [OF ops h c that(3) _ _ that(2)] Cons.prems(1,2) that(1) by simp
  moreover have "sorted_wrt chain_less (without_root env root c)" using without_root_short(1) [of env root c]
    by (cases "without_root env root c" rule: remdups_adj.cases) auto
  ultimately show ?case using Cons without_root_short(1) [of env root c] by (auto simp: sorted_wrt_append)
qed simp

lemma finalize_exact:
  assumes ops: "ops_ok (env_ops env) cs" and ok: "nf_ok env cs hdr net tip s" and rev: "nf_reversible env s"
    and h: "Suc (fst tip) < HEIGHT_MAX" and best: "best_chain s = Some c" "map snd (c_blocks c) = b # bs"
  defines "s' \<equiv> s\<lparr>nf_chains := concat (map (without_root env (sv_hash b)) (nf_chains s)),
    nf_invalidated := filter (\<lambda>(h, _). h \<ge> sv_height b) (nf_invalidated s)\<rparr>"
  shows "\<exists>st c'. pop_root env c = Ok ((b, st), c') \<and> finalize env s = Ok ((b, st), s') \<and> nf_ok env cs hdr net (sv_height b, sv_hash b) s'
    \<and> nct_sprout (ts_trees st) \<in> sprout_domain cs"
proof -
  define ds where "ds = butlast (nf_chains s)"
  let ?w = "without_root env (sv_hash b)"
  have split: "nf_chains s = ds @ [c]" using best(1) by (auto simp: best_chain_def ds_def split: if_splits)
  have all: "\<forall>x \<in> set (nf_chains s). chain_ok env cs hdr net tip x \<and> blocks_reversible env net (map snd (c_blocks x))"
    using nf_okD(1,4) [OF ok] nf_reversibleD [OF rev] by auto
  then have c: "chain_ok env cs hdr net tip c" "blocks_reversible env net (map snd (c_blocks c))" by (simp_all add: split)
  from pop_root_chain_ok [OF ops c best(2) h] obtain st c' where c': "pop_root env c = Ok ((b, st), c')"
    and dom: "nct_sprout (ts_trees st) \<in> sprout_domain cs" by blast
  have "sv_hash (snd (hd (c_blocks c))) = sv_hash b" using best(2) by (cases "c_blocks c") auto
  then have w: "?w c = (if c_blocks c' = [] then [] else [c'])" by (simp add: without_root_def c')
  let ?s = "s\<lparr>nf_chains := ?w c\<rparr>"
  have ins: "(if c_blocks c' = [] then Ok (s\<lparr>nf_chains := []\<rparr>) else insert_chain c' (s\<lparr>nf_chains := []\<rparr>)) = Ok ?s"
    using insert_least_chain [of c' "s\<lparr>nf_chains := []\<rparr>"] by (simp add: w MAX_NON_FINALIZED_CHAIN_FORKS_def)
  have "chain_less x' d" if "x \<in> set ds" "x' \<in> set (?w x)" "d \<in> set (?w c)" for x x' d
    using without_root_mono [OF ops h _ _ that(2) c that(3)] all nf_okD(2) [OF ok] that(1) by (simp add: split sorted_wrt_append)
  then have "finalize_side_chains env (sv_hash b) (rev ds) ?s = Ok (?s\<lparr>nf_chains := concat (map ?w (rev (rev ds))) @ nf_chains ?s\<rparr>)"
    using all nf_okD(2,3) [OF ok] without_root_short(1) [of env "sv_hash b" c] without_root_short(2) [of _ env "sv_hash b" c]
    by (intro finalize_side_chains_exact [OF ops h]) (auto simp: split sorted_wrt_append sorted_wrt_rev le_Suc_eq)
  then have fin: "finalize env s = Ok ((b, st), s')"
    unfolding finalize_def Let_def using best(1) c' ins by (simp add: ds_def [symmetric] s'_def split)
  have "chain_ok env cs hdr net (sv_height b, sv_hash b) d'" if "d \<in> set (nf_chains s)" "d' \<in> set (?w d)" for d d'
  proof -
    from all that(1) have d: "chain_ok env cs hdr net tip d" "blocks_reversible env net (map snd (c_blocks d))" by auto
    from without_root_chain [OF ops d h that(2)] obtain a where a: "map snd (c_blocks d) = a # map snd (c_blocks d')" "sv_hash a = sv_hash b"
      "chain_ok env cs hdr net (sv_height a, sv_hash a) d'" by (elim exE conjE)
    moreover have "sv_height a = sv_height b"
      using blocks_ok_heights(2) [OF chain_ok_blocks(1) [OF d(1)]] blocks_ok_heights(2) [OF chain_ok_blocks(1) [OF c(1)]] a(1) best(2) by simp
    ultimately show ?thesis by simp
  qed
  moreover have "\<forall>c \<in> set (nf_chains s). chain_ok env cs hdr net tip c \<and> blocks_reversible env net (map snd (c_blocks c))" by (fact all)
  ultimately have "nf_ok env cs hdr net (sv_height b, sv_hash b) s'"
    using sorted_without_root [OF ops h all nf_okD(2) [OF ok], of "sv_hash b"] ok by (auto simp: nf_ok_def s'_def list_all_iff)
  with c' fin dom show ?thesis by blast
qed

subsection \<open>Invalidating and reconsidering blocks\<close>

lemma child_blocks_split:
  assumes "chain_rep env cs B (us @ e # ws) c"
  shows "child_blocks (be_height e) c = map be_block (e # ws)" "c_height_by_hash c (sv_hash (be_block e)) = Some (be_height e)"
proof -
  have blocks: "c_blocks c = map (\<lambda>e. (be_height e, be_block e)) (us @ e # ws)" using assms by (simp add: chain_rep_def)
  have h: "be_height ((us @ e # ws) ! i) = Suc (base_height B) + i" if "i < length (us @ e # ws)" for i
    using chain_rep_heights(1) [OF assms that] .
  have e: "be_height e = Suc (base_height B) + length us" using h [of "length us"] by (simp add: nth_append)
  have "be_height x < be_height e" if x: "x \<in> set us" for x
  proof -
    from x obtain i where "i < length us" "x = us ! i" by (auto simp: in_set_conv_nth)
    with h [of i] e show ?thesis by (simp add: nth_append)
  qed
  moreover have "be_height e \<le> be_height x" if x: "x \<in> set ws" for x
  proof -
    from x obtain i where "i < length ws" "x = ws ! i" by (auto simp: in_set_conv_nth)
    with h [of "length us + Suc i"] e show ?thesis by (simp add: nth_append)
  qed
  ultimately show "child_blocks (be_height e) c = map be_block (e # ws)"
    by (simp add: child_blocks_def blocks filter_map comp_def not_le filter_empty_conv filter_id_conv)
  show "c_height_by_hash c (sv_hash (be_block e)) = Some (be_height e)" using chain_rep_hash(2) [OF assms, of e] by simp
qed

lemma invalidate_chain_ok:
  assumes ops: "ops_ok (env_ops env) cs" and ok: "chain_ok env cs hdr net tip c" and rev: "blocks_reversible env net (map snd (c_blocks c))"
    and split: "map snd (c_blocks c) = xs @ b # ys" "xs \<noteq> []"
  shows "\<exists>c'. invalidate_chain_block env (sv_hash b) c = Ok (Some (c', b # ys)) \<and> chain_ok env cs hdr net tip c'"
proof -
  from fork_chain_ok [OF ops ok rev split(1)] obtain c1 where c1: "fork env (sv_hash b) c = Ok (Some c1)" "chain_ok env cs hdr net tip c1"
    "map snd (c_blocks c1) = xs @ [b]" by blast
  have "blocks_reversible env net (map snd (c_blocks c1))"
    unfolding c1(3) by (rule blocks_reversible_append(1) [of _ _ _ ys]) (use rev split(1) in simp)
  from pop_tip_chain_ok [OF ops c1(2) this c1(3) split(2)] obtain c2 where c2: "pop_tip env c1 = Ok c2" "chain_ok env cs hdr net tip c2" by blast
  from ok obtain B es where rep: "chain_rep env cs B es c" by (auto simp: chain_ok_def)
  have "map be_block es = xs @ b # ys" using rep split by (simp add: chain_rep_def comp_def)
  then obtain us e ws where es: "es = us @ e # ws" "be_block e = b" "map be_block ws = ys"
    by (auto simp: map_eq_append_conv map_eq_Cons_conv)
  note children = child_blocks_split [OF rep [unfolded es(1)], unfolded es(2)]
  from c1 c2 children es(2,3) show ?thesis
    by (auto simp: invalidate_chain_block_def)
qed

lemma index_map_insert_all: "list_all P m \<Longrightarrow> P (k, v) \<Longrightarrow> list_all P (index_map_insert k v m)"
  by (induction m) auto

lemma limit_invalidated_all: "list_all P m \<Longrightarrow> list_all P (limit_invalidated m)"
  by (auto simp: limit_invalidated_def list_all_iff dest: in_set_dropD)

lemma invalidated_part_ok:
  assumes ok: "chain_ok env cs hdr net tip c" and tip: "fst (hdr (snd tip)) = fst tip" and split: "map snd (c_blocks c) = xs @ b # ys"
  shows "invalidated_ok (env_profile env) hdr (sv_height b, b # ys)"
proof (cases "xs = []")
  case True
  have "blocks_ok (env_profile env) hdr (fst tip) (snd tip) (b # ys)" using chain_ok_blocks(1) [OF ok] split True by simp
  with blocks_ok_heights(2) [OF this] tip show ?thesis unfolding invalidated_ok_def by (intro exI [of _ "fst tip"] exI [of _ "snd tip"]) simp
next
  case False
  have xs: "blocks_ok (env_profile env) hdr (fst tip) (snd tip) xs" and bs: "blocks_ok (env_profile env) hdr (fst tip + length xs) (sv_hash (last xs)) (b # ys)"
    using chain_ok_blocks(1) [OF ok] blocks_ok_append [of xs "b # ys"] False by (simp_all add: split)
  have "fst (hdr (sv_hash (last xs))) = fst tip + length xs"
    using blocks_ok_heights(5) [OF xs, of "last xs"] blocks_ok_heights(1) [OF xs] False by (simp add: header_known_def)
  with bs blocks_ok_heights(2) [OF bs] show ?thesis
    unfolding invalidated_ok_def by (intro exI [of _ "fst tip + length xs"] exI [of _ "sv_hash (last xs)"]) simp
qed

text \<open>The two cases of an invalidation: the block is the root of the best chain that has it, or not.\<close>

definition invalidated_state ::
  "('t, 'h) non_finalized_state \<Rightarrow> ('t, 'h) chain list \<Rightarrow> cv_block \<Rightarrow> cv_block list \<Rightarrow> ('t, 'h) non_finalized_state" where
  "invalidated_state s ds b ys = s\<lparr>nf_chains := ds,
     nf_invalidated := limit_invalidated (index_map_insert (sv_height b) (b # ys) (nf_invalidated s))\<rparr>"

lemma invalidate_root:
  assumes ok: "nf_ok env cs hdr net tip s" and c: "find_chain (\<lambda>c. Ok (contains_block_hash c hash)) s = Ok (Some c)" "c \<in> set (nf_chains s)"
    and split: "map snd (c_blocks c) = b # ys" "sv_hash b = hash"
  defines "ds \<equiv> filter (\<lambda>d. d \<noteq> c) (nf_chains s)"
  shows "invalidate_block env hash s = Ok (hash, invalidated_state s ds b ys)" "nf_ok env cs hdr net tip (s\<lparr>nf_chains := ds\<rparr>)"
proof -
  have "c_blocks c \<noteq> []" using split(1) by auto
  then have root: "non_finalized_root_hash c = (Ok hash :: (invalidate_error, _) outcome)"
    using root_hash_Ok [of c] split by (cases "c_blocks c") simp_all
  have "set_remove c (nf_chains s) = Ok ds"
    unfolding ds_def using set_remove_sorted [OF nf_okD(2) [OF ok] c(2) nf_okD(5) [OF ok]] .
  then show "invalidate_block env hash s = Ok (hash, invalidated_state s ds b ys)"
    using c(1) root split by (simp add: invalidate_block_def invalidated_state_def)
  have "length ds \<le> MAX_NON_FINALIZED_CHAIN_FORKS"
    using nf_okD(3) [OF ok] length_filter_le [of "\<lambda>d. d \<noteq> c" "nf_chains s"] unfolding ds_def by linarith
  then show "nf_ok env cs hdr net tip (s\<lparr>nf_chains := ds\<rparr>)"
    using nf_okD(2,4) [OF ok] by (intro nf_ok_chains [OF ok]) (auto simp: ds_def sorted_wrt_filter)
qed

lemma invalidate_inner:
  assumes ops: "ops_ok (env_ops env) cs" and ok: "nf_ok env cs hdr net tip s" and rev: "nf_reversible env s"
    and c: "find_chain (\<lambda>c. Ok (contains_block_hash c hash)) s = Ok (Some c)" "c \<in> set (nf_chains s)"
    and split: "map snd (c_blocks c) = xs @ b # ys" "sv_hash b = hash" "xs \<noteq> []"
  shows "\<exists>ds. invalidate_block env hash s = Ok (hash, invalidated_state s ds b ys) \<and> nf_ok env cs hdr net tip (s\<lparr>nf_chains := ds\<rparr>)
    \<and> (\<forall>d \<in> set ds. \<not> contains_block_hash d hash)"
proof -
  note c_ok = nf_okD(4) [OF ok c(2)]
  have c_rev: "blocks_reversible env net (map snd (c_blocks c))" using nf_reversibleD [OF rev c(2)] nf_okD(1) [OF ok] by simp
  from invalidate_chain_ok [OF ops c_ok c_rev split(1,3)] obtain c' where c': "invalidate_chain_block env hash c = Ok (Some (c', b # ys))"
    "chain_ok env cs hdr net tip c'" by (auto simp: split(2))
  from insert_with_sorted [OF nf_okD(2) [OF ok] chain_ok_blocks(2) [OF c'(2)] nf_okD(5) [OF ok],
      of "\<lambda>c. Ok (\<not> contains_block_hash c hash)" "\<lambda>c. \<not> contains_block_hash c hash"]
  obtain ds where ds: "insert_with c' (\<lambda>c. Ok (\<not> contains_block_hash c hash)) s = Ok (s\<lparr>nf_chains := ds\<rparr>)" "sorted_wrt chain_less ds"
    "length ds \<le> MAX_NON_FINALIZED_CHAIN_FORKS" "set ds \<subseteq> insert c' (set (nf_chains s))" "\<forall>d \<in> set ds. \<not> contains_block_hash d hash" by blast
  obtain a zs where xs: "xs = a # zs" using split(3) by (cases xs) auto
  have "sv_hash a \<noteq> hash" using chain_ok_distinct [OF c_ok] split(1,2) by (auto simp: xs)
  moreover have "non_finalized_root_hash c = (Ok (sv_hash a) :: (invalidate_error, _) outcome)"
    using root_hash_Ok [OF chain_ok_blocks(2) [OF c_ok]] split(1) by (cases "c_blocks c") (simp_all add: xs)
  ultimately have "invalidate_block env hash s = Ok (hash, invalidated_state s ds b ys)"
    using c(1) c'(1) ds(1) by (simp add: invalidate_block_def invalidated_state_def)
  moreover have "nf_ok env cs hdr net tip (s\<lparr>nf_chains := ds\<rparr>)"
    using ds c'(2) nf_okD(4) [OF ok] by (intro nf_ok_chains [OF ok]) auto
  ultimately show ?thesis using ds(5) by blast
qed

lemma find_block_chain:
  assumes ok: "nf_ok env cs hdr net tip s" and find: "find_chain (\<lambda>c. Ok (contains_block_hash c hash)) s = Ok (Some c)"
  shows "c \<in> set (nf_chains s)" "\<exists>xs b ys. map snd (c_blocks c) = xs @ b # ys \<and> sv_hash b = hash"
proof -
  have "find (\<lambda>c. contains_block_hash c hash) (rev (nf_chains s)) = Some c"
    using find by (simp add: find_chain_def find_ok_total [where Q = "\<lambda>c. contains_block_hash c hash"])
  from find_SomeD [OF this] have c: "c \<in> set (nf_chains s)" "contains_block_hash c hash" by simp_all
  then show "c \<in> set (nf_chains s)" by blast
  from c(2) chain_ok_blocks(3) [OF nf_okD(4) [OF ok c(1)], of hash] obtain b where "b \<in> set (map snd (c_blocks c))" "sv_hash b = hash"
    by (auto simp: contains_block_hash_def)
  then show "\<exists>xs b ys. map snd (c_blocks c) = xs @ b # ys \<and> sv_hash b = hash" by (metis split_list)
qed

lemma invalidate_block_ok:
  assumes ops: "ops_ok (env_ops env) cs" and ok: "nf_ok env cs hdr net tip s" and rev: "nf_reversible env s"
    and tip: "fst (hdr (snd tip)) = fst tip" and inv: "invalidate_block env hash s = Ok (r, s')"
  shows "nf_ok env cs hdr net tip s'"
proof -
  from inv obtain c where find: "find_chain (\<lambda>c. Ok (contains_block_hash c hash)) s = Ok (Some c)"
    by (auto simp: invalidate_block_def split: option.splits)
  note c = find_block_chain [OF ok find]
  from c(2) obtain xs b ys where split: "map snd (c_blocks c) = xs @ b # ys" "sv_hash b = hash" by blast
  have "\<exists>ds. s' = invalidated_state s ds b ys \<and> nf_ok env cs hdr net tip (s\<lparr>nf_chains := ds\<rparr>)"
  proof (cases "xs = []")
    case True
    with invalidate_root [OF ok find c(1) _ split(2)] split(1) inv show ?thesis by auto
  next
    case False
    with invalidate_inner [OF ops ok rev find c(1) split] inv show ?thesis by auto
  qed
  moreover have "list_all (invalidated_ok (env_profile env) hdr) (limit_invalidated (index_map_insert (sv_height b) (b # ys) (nf_invalidated s)))"
    using ok invalidated_part_ok [OF nf_okD(4) [OF ok c(1)] tip split(1)]
    by (intro limit_invalidated_all index_map_insert_all) (simp_all add: nf_ok_def)
  ultimately show ?thesis by (auto simp: nf_ok_def invalidated_state_def)
qed

lemma push_all_chain_ok:
  assumes ops: "ops_ok (env_ops env) cs"
  shows "chain_ok env cs hdr net tip c \<Longrightarrow> blocks_ok (env_profile env) hdr (fst tip + length (c_blocks c)) (tip_hash_of c) bs \<Longrightarrow>
    push_all env c bs = Ok c' \<Longrightarrow> chain_ok env cs hdr net tip c'"
proof (induction bs arbitrary: c)
  case (Cons b bs)
  from Cons.prems(3) obtain c1 where c1: "push env b c = Ok c1" "push_all env c1 bs = Ok c'" by auto
  have b: "blocks_ok (env_profile env) hdr (fst tip + length (c_blocks c)) (tip_hash_of c) [b]"
    using Cons.prems(2) blocks_ok_append [of "[b]" bs] by (cases "bs = []") simp_all
  note ok = push_chain_ok [OF ops Cons.prems(1) c1(1) b]
  have len: "length (c_blocks c1) = Suc (length (c_blocks c))" using arg_cong [OF ok(2), of length] by simp
  have "tip_hash_of c1 = sv_hash b"
    using arg_cong [OF ok(2), of last] chain_ok_blocks(2) [OF ok(1)] by (simp add: tip_hash_of_def last_map)
  with len Cons.prems(2) have "bs \<noteq> [] \<Longrightarrow> blocks_ok (env_profile env) hdr (fst tip + length (c_blocks c1)) (tip_hash_of c1) bs"
    using blocks_ok_append [of "[b]" bs] by simp
  with Cons.IH [OF ok(1)] c1(2) ok(1) show ?case by (cases "bs = []") auto
qed (simp add: blocks_ok_def)

lemma invalidated_parent:
  assumes "invalidated_ok p hdr (h, bs)"
  shows "blocks_ok p hdr (fst (hdr (sv_previous_block_hash (hd bs)))) (sv_previous_block_hash (hd bs)) bs" "bs \<noteq> []"
  using assms blocks_ok_heights(3) by (fastforce simp: invalidated_ok_def blocks_ok_def)+

lemma reconsider_block_Ok:
  assumes rec: "reconsider_block env db hash s = Ok (r, s')" and tip: "db_tip db = Some tip"
  shows "\<exists>h b ys c0 c m. (h, b # ys) \<in> set (nf_invalidated s)
    \<and> (if sv_previous_block_hash b = snd tip then expect_ok (chain_at_finalized_tip env db (fst tip) s)
        else map_err (\<lambda>_. ParentChainNotFound hash) (parent_chain env (sv_previous_block_hash b) s)) = (Ok c0 :: (reconsider_error, _) outcome)
    \<and> push_all env c0 (b # ys) = Ok c \<and> set m \<subseteq> set (nf_invalidated s)
    \<and> insert_with c (\<lambda>c. map_ok (\<lambda>h. h \<noteq> sv_previous_block_hash b) (non_finalized_tip_hash c)) (s\<lparr>nf_invalidated := m\<rparr>) = Ok s'"
proof -
  have tip_hash: "finalized_tip_hash db = snd tip" "finalized_tip_height db = Some (fst tip)"
    using tip by (simp_all add: finalized_tip_hash_def finalized_tip_height_def case_prod_beta)
  let ?P = "\<lambda>(_, blocks). map_option sv_hash (case blocks of [] \<Rightarrow> None | b # _ \<Rightarrow> Some b) = Some hash"
  from rec obtain h bs where f: "find ?P (nf_invalidated s) = Some (h, bs)" by (auto simp: reconsider_block_def)
  from find_SomeD [OF f] obtain b ys where bs: "bs = b # ys" and mem: "(h, b # ys) \<in> set (nf_invalidated s)" by (cases bs) auto
  let ?m = "filter (\<lambda>(h', _). h' \<ge> fst tip) (filter (\<lambda>(h', _). h' \<noteq> h) (nf_invalidated s))"
  from rec obtain c0 c where
    "(if sv_previous_block_hash b = snd tip then expect_ok (chain_at_finalized_tip env db (fst tip) s)
        else map_err (\<lambda>_. ParentChainNotFound hash) (parent_chain env (sv_previous_block_hash b) s)) = (Ok c0 :: (reconsider_error, _) outcome)"
    "push_all env c0 (b # ys) = Ok c"
    "insert_with c (\<lambda>c. map_ok (\<lambda>h. h \<noteq> sv_previous_block_hash b) (non_finalized_tip_hash c)) (s\<lparr>nf_invalidated := ?m\<rparr>) = Ok s'"
    unfolding reconsider_block_def f ok_or.simps qbind.simps Let_def bs tip_hash prod.case list.case option.case
    by (simp only: qbind_eq_Ok map_err_eq_Ok expect_ok_eq_Ok) auto
  moreover have "set ?m \<subseteq> set (nf_invalidated s)" by auto
  ultimately show ?thesis using mem by blast
qed

lemma reconsider_block_ok:
  assumes db: "db_ok env cs hdr net tip db" and ok: "nf_ok env cs hdr net tip s" and rev: "nf_reversible env s"
    and rec: "reconsider_block env db hash s = Ok (r, s')"
  shows "nf_ok env cs hdr net tip s'"
proof -
  have start: "start_ok env cs (fst tip) (db_trees db) (db_pools db)" and tip: "db_tip db = Some tip" "fst (hdr (snd tip)) = fst tip"
    and ops: "ops_ok (env_ops env) cs"
    using db by (simp_all add: db_ok_def start_ok_def)
  from reconsider_block_Ok [OF rec tip(1)] obtain h b ys c0 c m where rec_in: "(h, b # ys) \<in> set (nf_invalidated s)"
    and parent: "(if sv_previous_block_hash b = snd tip then expect_ok (chain_at_finalized_tip env db (fst tip) s)
        else map_err (\<lambda>_. ParentChainNotFound hash) (parent_chain env (sv_previous_block_hash b) s)) = (Ok c0 :: (reconsider_error, _) outcome)"
    and push: "push_all env c0 (b # ys) = Ok c" and m: "set m \<subseteq> set (nf_invalidated s)"
    and ins: "insert_with c (\<lambda>c. map_ok (\<lambda>h. h \<noteq> sv_previous_block_hash b) (non_finalized_tip_hash c)) (s\<lparr>nf_invalidated := m\<rparr>) = Ok s'"
    by (elim exE conjE)
  note inv = nf_okD(6) [OF ok rec_in]
  have follow: "blocks_ok (env_profile env) hdr (fst (hdr (sv_previous_block_hash b))) (sv_previous_block_hash b) (b # ys)"
    using invalidated_parent(1) [OF inv] by simp
  have c: "chain_ok env cs hdr net tip c"
  proof (cases "sv_previous_block_hash b = snd tip")
    case True
    with parent nf_okD(1) [OF ok] have "chain_new env net (fst tip) (db_trees db) (db_history db) (db_pools db) = Ok c0"
      by (simp add: chain_at_finalized_tip_def)
    from push_new_chain_ok(1) [OF start this push, of hdr "snd tip"] follow True tip(2) show ?thesis by simp
  next
    case False
    with parent have "parent_chain env (sv_previous_block_hash b) s = Ok c0" by simp
    with parent_chain_ok [OF ops ok rev, of "sv_previous_block_hash b"] have c0: "chain_ok env cs hdr net tip c0" "tip_hash_of c0 = sv_previous_block_hash b"
      by auto
    from push_all_chain_ok [OF ops c0(1) _ push] follow chain_tip_header [OF c0(1)] c0(2) show ?thesis by simp
  qed
  have s1: "nf_ok env cs hdr net tip (s\<lparr>nf_invalidated := m\<rparr>)" using ok m by (auto simp: nf_ok_def list_all_iff)
  from insert_with_sorted [OF nf_okD(2) [OF s1] chain_ok_blocks(2) [OF c] nf_okD(5) [OF s1],
      of "\<lambda>c. map_ok (\<lambda>h. h \<noteq> sv_previous_block_hash b) (non_finalized_tip_hash c)" "\<lambda>c. tip_hash_of c \<noteq> sv_previous_block_hash b"] ins
  obtain ds where "s' = s\<lparr>nf_invalidated := m, nf_chains := ds\<rparr>" "sorted_wrt chain_less ds" "length ds \<le> MAX_NON_FINALIZED_CHAIN_FORKS"
    "set ds \<subseteq> insert c (set (nf_chains s))" by (auto simp: tip_hash_Ok)
  then show ?thesis using nf_ok_chains [OF s1, of ds] c nf_okD(4) [OF ok] by auto
qed

end
