(* ===== verification/Block_State.thy ===== *)
theory Block_State
  imports Non_Finalized_Rules
begin

text \<open>
  The states that the block write task reaches.

  The task (theory \<open>Write_Task\<close>) handles one message after the other: it commits a block to a chain and writes deep blocks
  to the database, or invalidates or reconsiders a block.  \<open>task_reaches\<close> is the relation of its states.  The invariant
  \<open>task_ok\<close> ties the two halves of a state together: every non-finalized chain starts right above the tip of the
  database, and the set of chains satisfies its own invariant (theory \<open>Non_Finalized_Rules\<close>).  The loop that finalizes
  deep blocks leaves a best chain of at most \<open>MAX_BLOCK_REORG_HEIGHT\<close> blocks with the same tip.
\<close>

section \<open>Writing a finalized block\<close>






section \<open>One finalization\<close>













section \<open>The messages of the task\<close>









section \<open>An example\<close>







end
