(* ===== verification/Spec2Isabelle.thy ===== *)
theory Spec2Isabelle
  imports Amounts Value_Balance Difficulty Upgrades Checkpoint_List Network Network_Builder Difficulty_Adjust Emission Transparent Subsidy_Tables
    Subsidy Tx_Merkle Transaction Tx_Check Utxo_Check Note_Tree History_Node History_Tree Chain_Trees Chain_Contract Context_Check Write_Task
    Non_Finalized_Rules Block_State
begin

text \<open>
  A verification library of the Wcash node (a fork of the Zebra node for Zcash), over the sources under
  \<^verbatim>\<open>src/\<close>.

  \<^bold>\<open>The program.\<close>  A block that arrives is verified on its own (its transactions, subsidy, proof of work and Merkle
  root), then committed to a \<^emph>\<open>non-finalized chain\<close>: an in-memory state with every index of the blocks above the last
  block on disk.  There are several such chains while forks compete; the one with most work is the best.  When it
  is longer than the reorganization limit its first block is \<^emph>\<open>finalized\<close>: written to the database and removed from
  the chains.  The write task does this, one message after the other.  Two consensus flavours live in one code base: the
  Zcash networks and the three Wcash networks, with their own emission and a money range of their own.

  \<^bold>\<open>How code is modelled.\<close>  A fallible function returns \<open>outcome\<close>: \<open>Ok\<close>, \<open>Err\<close> with the error value, or \<open>Panic\<close> where the
  code calls \<^verbatim>\<open>expect\<close>, \<^verbatim>\<open>assert!\<close> or overflows (theory \<open>Wolf_Prelude\<close>).  Stateful code takes and returns its state
  as a record.  Machine integers are \<open>nat\<close> or \<open>int\<close> with the range check written out, or words where the code works with bits.
  A \<^verbatim>\<open>BTreeMap\<close> is the list of its entries in key order (\<open>Ordered_Map\<close>), a \<^verbatim>\<open>HashMap\<close> a map.  Code of other
  packages is an argument: the proof and script verifiers, hash functions, the frontier of note commitment trees, the
  mountain range of the history tree and the parser of addresses; what the properties need of it is a named hypothesis, with
  a concrete instance in the examples.

  \<^bold>\<open>The theories\<close>, in the order of their use.

  \<^item> \<open>Wolf_Prelude\<close>, \<open>Checked_Sum\<close>, \<open>Ordered_Map\<close>, \<open>Reversible\<close>: outcomes, bytes and the three interfaces.  The locale
    \<open>checked_sum\<close> (sums with a range check) is interpreted for amounts and for value balances, \<open>key_value_map\<close> for the ordered
    map, and \<open>reversible\<close> (an index that can be updated and reverted, with its content as a multiset) for maps of
    unique keys and for the address index.
  \<^item> \<open>Amounts\<close> (\<^verbatim>\<open>zebra-chain/src/amount.rs\<close>) and \<open>Value_Balance\<close> (\<^verbatim>\<open>value_balance.rs\<close>): every operation on amounts and on
    the value pools.  Sums are exact or report the value out of range; the pools of a chain are conserved and never
    negative; the formats round trip.
  \<^item> \<open>Difficulty\<close> (\<^verbatim>\<open>work/difficulty.rs\<close>, \<^verbatim>\<open>work/u256.rs\<close>): compact thresholds and work; \<open>to_compact\<close> is the best
    approximation from below, work is the exact quotient.
  \<^item> \<open>Upgrades\<close>, \<open>Checkpoint_List\<close>, \<open>Network\<close>, \<open>Network_Builder\<close> (\<^verbatim>\<open>parameters/network_upgrade.rs\<close>,
    \<^verbatim>\<open>parameters/checkpoint/list.rs\<close>, \<^verbatim>\<open>parameters/network.rs\<close>, \<^verbatim>\<open>parameters/network/testnet.rs\<close>): schedules, branch ids, the
    text form of hashes and checkpoints, network queries and the builder of configured networks.  A built schedule is
    well formed; the two views of a schedule agree; the Wcash networks are built exactly for a valid genesis hash and run NU6.3.
  \<^item> \<open>Difficulty_Adjust\<close> (\<^verbatim>\<open>zebra-state/src/service/check.rs\<close>, \<^verbatim>\<open>check/difficulty.rs\<close>): the retarget and the checks of
    a block against its ancestors, exact and without panics.
  \<^item> \<open>Emission\<close>, \<open>Subsidy_Tables\<close>, \<open>Subsidy\<close> (\<^verbatim>\<open>parameters/network/subsidy.rs\<close> with \<^verbatim>\<open>subsidy/wcash_mainnet.rs\<close> and its constants): the
    Wcash emission recurrence with its table, halvings, funding streams and the foundation share; total issuance is in range.
  \<^item> \<open>Transparent\<close>, \<open>Transaction\<close>, \<open>Tx_Merkle\<close>, \<open>Tx_Check\<close> (\<^verbatim>\<open>transparent/address.rs\<close>, \<^verbatim>\<open>transaction.rs\<close>,
    \<^verbatim>\<open>block/merkle.rs\<close>, \<^verbatim>\<open>zebra-consensus/src/transaction.rs\<close> and \<^verbatim>\<open>transaction/check.rs\<close>): addresses, transactions, Merkle roots and
    the transaction verifier for blocks; fees are exact, a Merkle root binds a list without duplicates.
  \<^item> \<open>Utxo_Check\<close> (\<^verbatim>\<open>zebra-state/src/service/check/utxo.rs\<close>, \<^verbatim>\<open>check/nullifier.rs\<close>): the spends of a block in its chain.
  \<^item> \<open>Note_Tree\<close>, \<open>History_Node\<close>, \<open>History_Tree\<close> (\<^verbatim>\<open>sapling/tree.rs\<close> and its siblings, \<^verbatim>\<open>primitives/zcash_history.rs\<close>,
    \<^verbatim>\<open>history_tree.rs\<close>): the trees of notes with their subtrees, and the history tree, whose peaks are those of a mountain
    range over the blocks of the network upgrade.
  \<^item> \<open>Tree_Index\<close>, \<open>Address_Index\<close>, \<open>Chain_Tx\<close>, \<open>Chain_Trees\<close>, \<open>Chain_State\<close>, \<open>Chain_Contract\<close>
    (\<^verbatim>\<open>non_finalized_state/chain.rs\<close>, \<^verbatim>\<open>chain/index.rs\<close>): one non-finalized chain with all its indexes; \<open>push\<close>, \<open>pop_tip\<close>,
    \<open>pop_root\<close> and \<open>fork\<close> refine the list of blocks (\<open>chain_rep\<close>), nothing is spent twice, a fork is a replay.
  \<^item> \<open>Context_Check\<close>, \<open>Finalized_State\<close>, \<open>Non_Finalized\<close>, \<open>Write_Task\<close> (\<^verbatim>\<open>block/commitment.rs\<close>, \<^verbatim>\<open>check/anchors.rs\<close>,
    \<^verbatim>\<open>finalized_state.rs\<close>, \<^verbatim>\<open>zebra_db\<close>, \<^verbatim>\<open>non_finalized_state.rs\<close>, \<^verbatim>\<open>write.rs\<close>): block commitments and anchors, the answers of
    the database before and after a write, the set of chains and the write task with its messages.
  \<^item> \<open>Non_Finalized_Rules\<close>, \<open>Block_State\<close>: the invariant of the set of chains, kept by every operation, and the
    states that the write task reaches (\<open>task_reaches\<close>).

  \<^bold>\<open>Conditions that the properties state.\<close>  A block hash identifies its header (\<open>headers\<close>); a semantically verified block has
  the height after its parent's (\<open>prepared_ok\<close>); the tree libraries do what their documentation says (\<open>ops_ok\<close>,
  \<open>history_lib_ok\<close>), and their trees are told apart by the number of their notes; and removing blocks needs that the values moved
  at one address by the blocks of a chain fit into the money range (\<open>blocks_reversible\<close>): the code reverts moves in the order in
  which it applied them, and adds outputs before it subtracts inputs, so it panics without this.

  \<^bold>\<open>Loops.\<close>  Every function is total: recursion is structural or has a termination proof (the peak loop of the history tree, the
  Merkle levels, the finalization loop).  No fuel is used, but for the count of ancestors that the code itself bounds.

  \<^bold>\<open>Not modelled.\<close>  Asynchronous services, queues and channels, disk formats, peer-to-peer and RPC code, the byte parsers of
  blocks and transactions, cryptography, Equihash, the merged mining crates, the wallet and command-line tools; of the database
  the transparent address indexes.  The built-in checkpoint lists are only named.  The exact value of the emission recurrence
  at the first tail height is left open: it is the tail or one atom more.
\<close>

end
